(* ===== verification/Wise_Prelude.thy ===== *)
theory Wise_Prelude
  imports Main "HOL-Library.Word"
begin

unbundle bit_operations_syntax

text \<open>
  Shared vocabulary of the development: the machine integers of the RV32 target, the
  result type of an operation that may stop the system, the error numbers the modelled
  functions return, and the generic facts on words and lists that the components use.
\<close>

section \<open>Types\<close>

type_synonym u8 = "8 word"
type_synonym u16 = "16 word"
type_synonym u32 = "32 word"
type_synonym u64 = "64 word"

abbreviation NULL :: u32 where "NULL \<equiv> 0"

text \<open>
  How an operation can fail to return to its caller: a failed \<^verbatim>\<open>assert\<close> or
  \<^verbatim>\<open>configASSERT\<close>, a loop that never ends, an access outside the object it is meant
  for, a call through a null pointer, an operation that C leaves undefined (a division by
  zero, a shift by the width or more, a variadic argument of another type).
\<close>

datatype fault = AssertFail | NoReturn | BadAccess | NullDeref | Undefined

type_synonym 'a res = "fault + 'a"

definition res_bind :: "'a res \<Rightarrow> ('a \<Rightarrow> 'b res) \<Rightarrow> 'b res" where
  "res_bind r f = (case r of Inl e \<Rightarrow> Inl e | Inr x \<Rightarrow> f x)"

definition res_of_option :: "fault \<Rightarrow> 'a option \<Rightarrow> 'a res" where
  "res_of_option e r = (case r of None \<Rightarrow> Inl e | Some x \<Rightarrow> Inr x)"

lemma res_bind_simps [simp]:
  "res_bind (Inl e) f = Inl e"
  "res_bind (Inr x) f = f x"
  by (simp_all add: res_bind_def)

lemma res_of_option_simps [simp]:
  "res_of_option e None = Inl e"
  "res_of_option e (Some x) = Inr x"
  by (simp_all add: res_of_option_def)

lemma res_bind_Inr_iff:
  "res_bind r f = Inr y \<longleftrightarrow> (\<exists>x. r = Inr x \<and> f x = Inr y)"
  by (cases r) auto

section \<open>Error numbers\<close>

text \<open>The values of newlib's \<^verbatim>\<open>errno.h\<close> that the modelled functions return negated.\<close>

abbreviation (input) ENOENT :: int where "ENOENT \<equiv> 2"
abbreviation (input) EBADF :: int where "EBADF \<equiv> 9"
abbreviation (input) ENOMEM :: int where "ENOMEM \<equiv> 12"
abbreviation (input) EINVAL :: int where "EINVAL \<equiv> 22"
abbreviation (input) ENFILE :: int where "ENFILE \<equiv> 23"
abbreviation (input) ETIME :: int where "ETIME \<equiv> 62"

section \<open>Word arithmetic\<close>

named_theorems unat_simps \<open>rewrite word arithmetic to nat where nothing wraps\<close>

lemma unat_lt32 [simp]: "unat (x :: u32) < 4294967296"
  using unsigned_less [of x, where ?'a = nat] by simp

lemma unat_plus32 [unat_simps]:
  "unat (x :: u32) + unat y < 4294967296 \<Longrightarrow> unat (x + y) = unat x + unat y"
  by (simp add: unat_word_ariths)

lemma unat_minus32 [unat_simps]:
  "unat (y :: u32) \<le> unat x \<Longrightarrow> unat (x - y) = unat x - unat y"
  by (metis unat_sub word_le_nat_alt)

lemma unat_eq_iff32: "(x :: u32) = y \<longleftrightarrow> unat x = unat y"
  by (simp add: word_unat_eq_iff)

lemma less_iff32: "(x :: u32) < y \<longleftrightarrow> unat x < unat y"
  by (simp add: word_less_nat_alt)

lemma le_iff32: "(x :: u32) \<le> y \<longleftrightarrow> unat x \<le> unat y"
  by (simp add: word_le_nat_alt)

lemmas word32_nat = unat_eq_iff32 less_iff32 le_iff32

lemma plus_eq_iff32:
  "unat (a :: u32) + unat n < 4294967296 \<Longrightarrow> a + n = b \<longleftrightarrow> unat a + unat n = unat b"
  by (metis unat_plus32 unat_eq_iff32)

lemma sint32:
  "sint (x :: u32) = (if unat x < 2147483648 then int (unat x) else int (unat x) - 4294967296)"
proof -
  define k where "k = uint x"
  define n where "n = unat x"
  have kn: "k = int n" by (simp add: k_def n_def)
  have k: "0 \<le> k" "k < 4294967296"
    using uint_lt2p [of x] by (simp_all add: k_def)
  have bit: "bit k 31 \<longleftrightarrow> 2147483648 \<le> k"
  proof (cases "2147483648 \<le> k")
    case True
    then have "k div 2147483648 = 1" using k by (simp add: int_div_pos_eq)
    with True show ?thesis by (simp add: bit_iff_odd)
  next
    case False
    then have "k div 2147483648 = 0" using k by simp
    with False show ?thesis by (simp add: bit_iff_odd)
  qed
  have "sint x = take_bit 32 k - 4294967296 * of_bool (bit k 31)"
    unfolding k_def by (simp add: sint_uint signed_take_bit_eq_take_bit_minus)
  moreover have "take_bit 32 k = k" using k by (simp add: take_bit_int_eq_self)
  ultimately show ?thesis using bit unfolding n_def [symmetric] kn by auto
qed

section \<open>Sixteen-byte alignment and the top bit\<close>

definition aligned16 :: "u32 \<Rightarrow> bool" where
  "aligned16 x \<longleftrightarrow> unat x mod 16 = 0"

lemma and_15_nat: "unat ((x :: u32) AND 15) = unat x mod 16"
proof -
  have "x AND 15 = take_bit 4 x"
    by (simp add: take_bit_eq_mask mask_eq_exp_minus_1)
  then show ?thesis
    by (simp add: unsigned_take_bit_eq take_bit_eq_mod unat_mod_distrib)
qed

lemma and_15_eq_0: "(x :: u32) AND 15 = 0 \<longleftrightarrow> aligned16 x"
  by (simp add: aligned16_def and_15_nat unat_eq_iff32)

lemma and_not_15: "(x :: u32) AND - 16 = x - (x AND 15)"
proof -
  have split: "(x AND 15) OR (x AND NOT 15) = x"
    by (simp add: bit.conj_disj_distrib [symmetric] del: not_numeral_eq)
  have "(x AND 15) AND (x AND NOT 15) = 0"
    by (rule bit_word_eqI) (simp add: bit_simps del: not_numeral_eq)
  with split have "(x AND 15) + (x AND NOT 15) = x"
    by (metis disjunctive_add_eq_or)
  then have "x AND NOT 15 = x - (x AND 15)"
    by (metis add_diff_cancel_left')
  then show ?thesis by simp
qed

lemma unat_and_not_15 [unat_simps]: "unat ((x :: u32) AND - 16) = unat x - unat x mod 16"
  by (simp add: and_not_15 unat_minus32 and_15_nat)

lemma aligned16_and_not_15 [simp]: "aligned16 (x AND - 16)"
  by (simp add: aligned16_def unat_and_not_15 minus_mod_eq_mult_div)

lemma mod16_wrap: "(n :: nat) mod 4294967296 mod 16 = n mod 16"
  by (rule mod_mod_cancel) simp

lemma aligned16_plus:
  assumes "aligned16 x" "aligned16 y"
  shows "aligned16 (x + y)"
proof -
  from assms have "(unat x + unat y) mod 16 = 0"
    unfolding aligned16_def by presburger
  then show ?thesis
    by (simp add: aligned16_def unat_word_ariths mod16_wrap)
qed

lemma aligned16_minus:
  assumes "aligned16 x" "aligned16 y" "unat y \<le> unat x"
  shows "aligned16 (x - y)"
  using assms by (simp add: aligned16_def unat_minus32 mod_eq_0_iff_dvd)

lemma unat_of_nat32: "n < 4294967296 \<Longrightarrow> unat (of_nat n :: u32) = n"
  by (simp add: unsigned_of_nat take_bit_eq_mod)

lemma bit31_iff: "bit (x :: u32) 31 \<longleftrightarrow> 2147483648 \<le> unat x"
proof -
  have "bit x 31 \<longleftrightarrow> bit (unat x) 31" by (simp add: bit_unsigned_iff)
  also have "\<dots> \<longleftrightarrow> odd (unat x div 2147483648)" by (simp add: bit_iff_odd)
  also have "\<dots> \<longleftrightarrow> 2147483648 \<le> unat x"
  proof -
    have "unat x div 2147483648 < 2"
      using unat_lt32 [of x] by (simp add: less_mult_imp_div_less)
    then have "odd (unat x div 2147483648) \<longleftrightarrow> unat x div 2147483648 \<noteq> 0"
      by (metis dvd_0_right less_2_cases odd_one One_nat_def)
    then show ?thesis by (simp add: div_eq_0_iff not_less)
  qed
  finally show ?thesis .
qed

lemma top_bit_exp: "(0x80000000 :: u32) = 2 ^ 31"
  by simp

lemma bit_top_iff: "bit (0x80000000 :: u32) n \<longleftrightarrow> n = 31"
  unfolding top_bit_exp by (subst bit_exp_iff) auto

lemma top_bit_clear: "(x :: u32) AND 0x80000000 = 0 \<longleftrightarrow> unat x < 2147483648"
  unfolding top_bit_exp and_exp_eq_0_iff_not_bit bit31_iff by (simp add: not_le)

lemma top_bit_set_clear:
  assumes "unat (x :: u32) < 2147483648"
  shows "(x OR 0x80000000) AND 0x80000000 \<noteq> 0"
    and "(x OR 0x80000000) AND NOT 0x80000000 = x"
proof -
  have nb: "\<not> bit x 31" using assms by (simp add: bit31_iff)
  show "(x OR 0x80000000) AND 0x80000000 \<noteq> 0"
    unfolding top_bit_exp and_exp_eq_0_iff_not_bit by (simp add: bit_or_iff bit_exp_iff)
  show "(x OR 0x80000000) AND NOT 0x80000000 = x"
  proof (rule bit_word_eqI)
    fix n
    assume "n < LENGTH(32)"
    then show "bit ((x OR 0x80000000) AND NOT 0x80000000) n \<longleftrightarrow> bit x n"
      unfolding bit_and_iff bit_or_iff bit_not_iff bit_top_iff using nb by auto
  qed
qed

section \<open>Lists and conditionals\<close>

lemma if_else_mono: "(if c then A else B) \<Longrightarrow> (B \<Longrightarrow> B') \<Longrightarrow> (if c then A else B')"
  by (cases c) simp_all

lemma list_all2_sorted_wrt:
  "list_all2 R xs ys \<Longrightarrow> sorted_wrt P ys \<Longrightarrow>
     (\<And>x y x' y'. R x y \<Longrightarrow> R x' y' \<Longrightarrow> P y y' \<Longrightarrow> Q x x') \<Longrightarrow> sorted_wrt Q xs"
  by (induction xs ys rule: list_all2_induct) (fastforce simp: in_set_conv_nth list_all2_conv_all_nth)+

end
