(* ===== verification/Heap5.thy ===== *)
theory Heap5
  imports Wise_Prelude
begin

unbundle bit_operations_syntax

text \<open>
  The system heap, \<^verbatim>\<open>kernel/FreeRTOS-ext/heap_5_ext.c\<close>: two address-ordered free lists
  of blocks, one for ordinary and one for DMA-capable memory, kept in the headers of the
  blocks themselves.  The configuration is the one of
  \<^verbatim>\<open>configs/scm1612s_*_defconfig\<close>: DMA allocation on, \<^verbatim>\<open>configUSE_MALLOC_DEBUG\<close> and the
  malloc-failed hook off.

  Memory is a store from addresses to block headers.  \<^verbatim>\<open>_xStart\<close> and \<^verbatim>\<open>xStartDMA\<close> are
  headers of the store like any other; their addresses are fields of the state that no
  operation changes.  Each function runs between \<^verbatim>\<open>vTaskSuspendAll\<close> and
  \<^verbatim>\<open>xTaskResumeAll\<close>, so one call is one step.
\<close>

section \<open>State\<close>

record BlockLink_t =
  pxNextFreeBlock :: u32
  xBlockSize :: u32

type_synonym hstore = "u32 \<Rightarrow> BlockLink_t"

record HeapRegion_t =
  pucStartAddress :: u32
  xSizeInBytes :: u32

record heap5 =
  hmem :: hstore
  addr_xStart :: u32
  addr_xStartDMA :: u32
  pxEnd :: u32
  pxEndDMA :: u32
  xFreeBytesRemaining :: u32
  xMinimumEverFreeBytesRemaining :: u32
  xBlockAllocatedBit :: u32

definition portBYTE_ALIGNMENT :: u32 where
  "portBYTE_ALIGNMENT = 16"

definition portBYTE_ALIGNMENT_MASK :: u32 where
  "portBYTE_ALIGNMENT_MASK = 15"

definition DMA_BUFFER_MARK :: u32 where
  "DMA_BUFFER_MARK = 0xFFFFFFFF"

text \<open>\<^verbatim>\<open>sizeof(BlockLink_t)\<close> is 8 with the debug fields configured out.\<close>

definition xHeapStructSize :: u32 where
  "xHeapStructSize = (8 + (portBYTE_ALIGNMENT - 1)) AND NOT portBYTE_ALIGNMENT_MASK"

definition heapMINIMUM_BLOCK_SIZE :: u32 where
  "heapMINIMUM_BLOCK_SIZE = push_bit 1 xHeapStructSize"

definition set_next :: "hstore \<Rightarrow> u32 \<Rightarrow> u32 \<Rightarrow> hstore" where
  "set_next m a v = m(a := (m a)\<lparr>pxNextFreeBlock := v\<rparr>)"

definition set_size :: "hstore \<Rightarrow> u32 \<Rightarrow> u32 \<Rightarrow> hstore" where
  "set_size m a v = m(a := (m a)\<lparr>xBlockSize := v\<rparr>)"

section \<open>Inserting a block into a free list\<close>

text \<open>The search loop: the last header whose successor is not below the block.\<close>

partial_function (option) insert_position :: "hstore \<Rightarrow> u32 \<Rightarrow> u32 \<Rightarrow> u32 option" where
  [code]: "insert_position m pxIterator pxBlockToInsert =
     (if pxNextFreeBlock (m pxIterator) < pxBlockToInsert
      then insert_position m (pxNextFreeBlock (m pxIterator)) pxBlockToInsert
      else Some pxIterator)"

text \<open>Linking the block after the iterator, merging it with either neighbour.\<close>

definition link_block :: "hstore \<Rightarrow> u32 \<Rightarrow> u32 \<Rightarrow> u32 \<Rightarrow> hstore" where
  "link_block m pxIterator pxBlockToInsert pxBlockEnd =
     (let (m1, b) =
            (if pxIterator + xBlockSize (m pxIterator) = pxBlockToInsert
             then (set_size m pxIterator
                     (xBlockSize (m pxIterator) + xBlockSize (m pxBlockToInsert)), pxIterator)
             else (m, pxBlockToInsert));
          nxt = pxNextFreeBlock (m1 pxIterator);
          m2 = (if b + xBlockSize (m1 b) = nxt
                then (if nxt \<noteq> pxBlockEnd
                      then (let m' = set_size m1 b (xBlockSize (m1 b) + xBlockSize (m1 nxt))
                            in set_next m' b
                                 (pxNextFreeBlock (m' (pxNextFreeBlock (m' pxIterator)))))
                      else set_next m1 b pxBlockEnd)
                else set_next m1 b nxt)
      in if pxIterator \<noteq> b then set_next m2 pxIterator b else m2)"

definition prvInsertBlockIntoFreeListWithDMA :: "heap5 \<Rightarrow> u32 \<Rightarrow> bool \<Rightarrow> heap5 res" where
  "prvInsertBlockIntoFreeListWithDMA h pxBlockToInsert xDMABuffer =
     (let pxBlockStart = (if xDMABuffer then addr_xStartDMA h else addr_xStart h);
          pxBlockEnd = (if xDMABuffer then pxEndDMA h else pxEnd h)
      in res_bind (res_of_option NoReturn
                     (insert_position (hmem h) pxBlockStart pxBlockToInsert))
           (\<lambda>pxIterator.
              Inr (h\<lparr>hmem := link_block (hmem h) pxIterator pxBlockToInsert pxBlockEnd\<rparr>)))"

text \<open>The list insertion of a build without DMA allocation.\<close>

definition p_prvInsertBlockIntoFreeList :: "heap5 \<Rightarrow> u32 \<Rightarrow> heap5 res" where
  "p_prvInsertBlockIntoFreeList h pxBlockToInsert =
     res_bind (res_of_option NoReturn
                 (insert_position (hmem h) (addr_xStart h) pxBlockToInsert))
       (\<lambda>pxIterator.
          Inr (h\<lparr>hmem := link_block (hmem h) pxIterator pxBlockToInsert (pxEnd h)\<rparr>))"

section \<open>Allocation\<close>

text \<open>The request grown by the header and rounded up to the alignment.\<close>

definition adjust_wanted :: "u32 \<Rightarrow> u32" where
  "adjust_wanted xWantedSize =
     (if xWantedSize > 0
      then (let w = xWantedSize + xHeapStructSize
            in if w AND portBYTE_ALIGNMENT_MASK \<noteq> 0
               then w + (portBYTE_ALIGNMENT - (w AND portBYTE_ALIGNMENT_MASK))
               else w)
      else xWantedSize)"

text \<open>First fit: the first block that is large enough, with its predecessor.\<close>

partial_function (option) find_fit :: "hstore \<Rightarrow> u32 \<Rightarrow> u32 \<Rightarrow> u32 \<Rightarrow> (u32 \<times> u32) option" where
  [code]: "find_fit m xWantedSize pxPreviousBlock pxBlock =
     (if xBlockSize (m pxBlock) < xWantedSize \<and> pxNextFreeBlock (m pxBlock) \<noteq> NULL
      then find_fit m xWantedSize pxBlock (pxNextFreeBlock (m pxBlock))
      else Some (pxPreviousBlock, pxBlock))"

text \<open>
  Taking the found block out of its list, splitting it where the rest is large enough, the
  accounting, and marking it allocated.
\<close>

definition take_block :: "heap5 \<Rightarrow> u32 \<Rightarrow> u32 \<Rightarrow> u32 \<Rightarrow> bool \<Rightarrow> (u32 \<times> heap5) res" where
  "take_block h pxPreviousBlock pxBlock xWantedSize xDMABuffer =
     (let pvReturn = pxNextFreeBlock (hmem h pxPreviousBlock) + xHeapStructSize;
          h1 = h\<lparr>hmem := set_next (hmem h) pxPreviousBlock (pxNextFreeBlock (hmem h pxBlock))\<rparr>
      in res_bind
           (if xBlockSize (hmem h1 pxBlock) - xWantedSize > heapMINIMUM_BLOCK_SIZE
            then (let pxNewBlockLink = pxBlock + xWantedSize;
                      m = set_size (hmem h1) pxNewBlockLink
                            (xBlockSize (hmem h1 pxBlock) - xWantedSize)
                  in prvInsertBlockIntoFreeListWithDMA
                       (h1\<lparr>hmem := set_size m pxBlock xWantedSize\<rparr>) pxNewBlockLink xDMABuffer)
            else Inr h1)
           (\<lambda>h2. let free = xFreeBytesRemaining h2 - xBlockSize (hmem h2 pxBlock);
                     least = (if free < xMinimumEverFreeBytesRemaining h2 then free
                              else xMinimumEverFreeBytesRemaining h2);
                     m = set_size (hmem h2) pxBlock
                           (xBlockSize (hmem h2 pxBlock) OR xBlockAllocatedBit h2)
                 in Inr (pvReturn,
                         h2\<lparr>xFreeBytesRemaining := free,
                            xMinimumEverFreeBytesRemaining := least,
                            hmem := set_next m pxBlock
                                      (if xDMABuffer then DMA_BUFFER_MARK else NULL)\<rparr>)))"

definition pvPortMallocDMA :: "heap5 \<Rightarrow> u32 \<Rightarrow> (u32 \<times> heap5) res" where
  "pvPortMallocDMA h xWantedSize =
     (if pxEnd h = NULL then Inl AssertFail
      else if xWantedSize AND xBlockAllocatedBit h = 0
      then (let w = adjust_wanted xWantedSize
            in if w > 0 \<and> w \<le> xFreeBytesRemaining h
               then res_bind (res_of_option NoReturn
                      (find_fit (hmem h) w (addr_xStartDMA h)
                         (pxNextFreeBlock (hmem h (addr_xStartDMA h)))))
                      (\<lambda>(prev, blk).
                         if blk \<noteq> pxEndDMA h then take_block h prev blk w True
                         else Inr (NULL, h))
               else Inr (NULL, h))
      else Inr (NULL, h))"

text \<open>
  The ordinary allocation looks in the ordinary list first and falls back on the DMA list,
  unless both lists are the same.
\<close>

definition p_pvPortMalloc :: "heap5 \<Rightarrow> u32 \<Rightarrow> (u32 \<times> heap5) res" where
  "p_pvPortMalloc h xWantedSize =
     (if pxEnd h = NULL then Inl AssertFail
      else if xWantedSize AND xBlockAllocatedBit h = 0
      then (let w = adjust_wanted xWantedSize
            in if w > 0 \<and> w \<le> xFreeBytesRemaining h
               then res_bind (res_of_option NoReturn
                      (find_fit (hmem h) w (addr_xStart h)
                         (pxNextFreeBlock (hmem h (addr_xStart h)))))
                      (\<lambda>(prev, blk).
                         if blk = pxEnd h \<and> pxEndDMA h \<noteq> pxEnd h
                         then res_bind (res_of_option NoReturn
                                (find_fit (hmem h) w (addr_xStartDMA h)
                                   (pxNextFreeBlock (hmem h (addr_xStartDMA h)))))
                                (\<lambda>(prev', blk').
                                   if blk' \<noteq> pxEndDMA h then take_block h prev' blk' w True
                                   else Inr (NULL, h))
                         else if blk \<noteq> pxEnd h then take_block h prev blk w False
                         else Inr (NULL, h))
               else Inr (NULL, h))
      else Inr (NULL, h))"

section \<open>Freeing\<close>

definition p_vPortFree :: "heap5 \<Rightarrow> u32 \<Rightarrow> heap5 res" where
  "p_vPortFree h pv =
     (if pv \<noteq> NULL
      then (let pxLink = pv - xHeapStructSize
            in if xBlockSize (hmem h pxLink) AND xBlockAllocatedBit h = 0 then Inl AssertFail
               else if \<not> (pxNextFreeBlock (hmem h pxLink) = NULL \<or>
                          pxNextFreeBlock (hmem h pxLink) = DMA_BUFFER_MARK)
               then Inl AssertFail
               else (let sz = xBlockSize (hmem h pxLink) AND NOT (xBlockAllocatedBit h);
                         m = set_size (hmem h) pxLink sz;
                         xDMABuffer = (pxNextFreeBlock (m pxLink) = DMA_BUFFER_MARK);
                         m' = (if xDMABuffer then set_next m pxLink NULL else m)
                     in prvInsertBlockIntoFreeListWithDMA
                          (h\<lparr>hmem := m', xFreeBytesRemaining := xFreeBytesRemaining h + sz\<rparr>)
                          pxLink xDMABuffer))
      else Inr h)"

section \<open>Defining the heap regions\<close>

definition align_region :: "u32 \<Rightarrow> u32 \<Rightarrow> u32 \<times> u32" where
  "align_region start sz =
     (if start AND portBYTE_ALIGNMENT_MASK \<noteq> 0
      then (let a = (start + (portBYTE_ALIGNMENT - 1)) AND NOT portBYTE_ALIGNMENT_MASK
            in (a, sz - (a - start)))
      else (start, sz))"

text \<open>
  The loop over the region array, common to both functions: \<open>s\<close> is the address of the
  list head, \<open>e\<close> the current end marker, \<open>n\<close> the number of regions defined and \<open>t\<close> the
  total so far.  An array without its zero-sized terminator is read past its end.
\<close>

fun define_regions ::
  "u32 \<Rightarrow> HeapRegion_t list \<Rightarrow> nat \<Rightarrow> hstore \<Rightarrow> u32 \<Rightarrow> u32 \<Rightarrow> (hstore \<times> u32 \<times> u32) res" where
  "define_regions s [] n m e t = Inl BadAccess"
| "define_regions s (r # rs) n m e t =
     (if xSizeInBytes r > 0
      then (let (xAlignedHeap, xTotalRegionSize) =
                  align_region (pucStartAddress r) (xSizeInBytes r)
            in if n \<noteq> 0 \<and> \<not> (e \<noteq> NULL \<and> xAlignedHeap > e) then Inl AssertFail
               else (let m1 = (if n = 0
                               then set_size (set_next m s xAlignedHeap) s 0
                               else m);
                         xAddress = ((xAlignedHeap + xTotalRegionSize) - xHeapStructSize)
                                      AND NOT portBYTE_ALIGNMENT_MASK;
                         m2 = set_next (set_size m1 xAddress 0) xAddress NULL;
                         m3 = set_next (set_size m2 xAlignedHeap (xAddress - xAlignedHeap))
                                xAlignedHeap xAddress;
                         m4 = (if e \<noteq> NULL then set_next m3 e xAlignedHeap else m3)
                     in define_regions s rs (Suc n) m4 xAddress
                          (t + xBlockSize (m4 xAlignedHeap))))
      else Inr (m, e, t))"

definition p_vPortDefineHeapRegions :: "heap5 \<Rightarrow> HeapRegion_t list \<Rightarrow> heap5 res" where
  "p_vPortDefineHeapRegions h rs =
     (if pxEnd h \<noteq> NULL then Inl AssertFail
      else res_bind (define_regions (addr_xStart h) rs 0 (hmem h) (pxEnd h) 0)
             (\<lambda>(m, e, t).
                if t = 0 then Inl AssertFail
                else Inr (h\<lparr>hmem := m, pxEnd := e,
                            xMinimumEverFreeBytesRemaining := t,
                            xFreeBytesRemaining := t,
                            xBlockAllocatedBit := push_bit (4 * 8 - 1) 1\<rparr>)))"

definition xPortHeapRegionsIsSame :: "HeapRegion_t \<Rightarrow> BlockLink_t \<Rightarrow> bool" where
  "xPortHeapRegionsIsSame r pxPreviousBlock \<longleftrightarrow>
     (let xAddress = pucStartAddress r;
          xAddress = (if xAddress AND portBYTE_ALIGNMENT_MASK \<noteq> 0
                      then (xAddress + (portBYTE_ALIGNMENT - 1)) AND NOT portBYTE_ALIGNMENT_MASK
                      else xAddress)
      in xAddress = pxNextFreeBlock pxPreviousBlock)"

definition vPortDefineHeapRegionsDMA :: "heap5 \<Rightarrow> HeapRegion_t list \<Rightarrow> heap5 res" where
  "vPortDefineHeapRegionsDMA h rs =
     (if pxEnd h = NULL then Inl AssertFail
      else if pxEndDMA h \<noteq> NULL then Inl AssertFail
      else (case rs of
              [] \<Rightarrow> Inl BadAccess
            | r # _ \<Rightarrow>
                if xPortHeapRegionsIsSame r (hmem h (addr_xStart h))
                then Inr (h\<lparr>hmem := (hmem h)(addr_xStartDMA h := hmem h (addr_xStart h)),
                            pxEndDMA := pxEnd h\<rparr>)
                else res_bind (define_regions (addr_xStartDMA h) rs 0 (hmem h) (pxEndDMA h) 0)
                       (\<lambda>(m, e, t).
                          if t = 0 then Inl AssertFail
                          else Inr (h\<lparr>hmem := m, pxEndDMA := e,
                                      xMinimumEverFreeBytesRemaining :=
                                        xMinimumEverFreeBytesRemaining h + t,
                                      xFreeBytesRemaining := xFreeBytesRemaining h + t\<rparr>))))"

section \<open>Bringing up the heap of the scm2010\<close>

text \<open>
  The heap regions are placed by the linker; the six symbols that bound them are
  parameters.  The loops that clear the regions and add up their sizes stop at the first
  region without a start address.
\<close>

record heap_syms =
  heap_start :: u32
  heap_end :: u32
  heapext1_start :: u32
  heapext1_end :: u32
  heapext2_start :: u32
  heapext2_end :: u32

definition xHeapRegions :: "heap_syms \<Rightarrow> HeapRegion_t list" where
  "xHeapRegions s =
     [\<lparr>pucStartAddress = heap_start s, xSizeInBytes = heap_end s - heap_start s\<rparr>,
      \<lparr>pucStartAddress = NULL, xSizeInBytes = 0\<rparr>]"

definition xHeapRegionsDMA :: "heap_syms \<Rightarrow> HeapRegion_t list" where
  "xHeapRegionsDMA s =
     [\<lparr>pucStartAddress = heapext1_start s, xSizeInBytes = heapext1_end s - heapext1_start s\<rparr>,
      \<lparr>pucStartAddress = heapext2_start s, xSizeInBytes = heapext2_end s - heapext2_start s\<rparr>,
      \<lparr>pucStartAddress = NULL, xSizeInBytes = 0\<rparr>]"

fun clear_regions :: "HeapRegion_t list \<Rightarrow> hstore \<Rightarrow> u32 \<Rightarrow> (hstore \<times> u32) res" where
  "clear_regions [] m t = Inl BadAccess"
| "clear_regions (r # rs) m t =
     (if pucStartAddress r \<noteq> NULL
      then clear_regions rs
             (\<lambda>a. if unat (pucStartAddress r) \<le> unat a \<and>
                     unat a + 8 \<le> unat (pucStartAddress r) + unat (xSizeInBytes r)
                  then \<lparr>pxNextFreeBlock = NULL, xBlockSize = 0\<rparr> else m a)
             (t + xSizeInBytes r)
      else Inr (m, t))"

definition heap_init :: "heap5 \<Rightarrow> heap_syms \<Rightarrow> u32 \<Rightarrow> (heap5 \<times> u32) res" where
  "heap_init h s heap_total_size =
     res_bind (clear_regions (xHeapRegions s) (hmem h) heap_total_size)
       (\<lambda>(m, t). res_bind (clear_regions (xHeapRegionsDMA s) m t)
          (\<lambda>(m', t'). res_bind (p_vPortDefineHeapRegions (h\<lparr>hmem := m'\<rparr>) (xHeapRegions s))
             (\<lambda>h1. if pucStartAddress (xHeapRegionsDMA s ! 0) \<noteq> NULL
                   then res_bind (vPortDefineHeapRegionsDMA h1 (xHeapRegionsDMA s))
                          (\<lambda>h2. Inr (h2, t'))
                   else Inr (h1, t'))))"

end
