(* ===== verification/Heap5_List.thy ===== *)
theory Heap5_List
  imports Heap5
begin

unbundle bit_operations_syntax

text \<open>
  The free list of the heap as a list of blocks.  A chain of headers in the store stands
  for a list of (address, size) pairs; on such lists the insertion with coalescing is a
  function \<open>fl_insert\<close>, and the pointer code of \<^theory_text>\<open>Heap5\<close> is shown to implement it.
  \<open>pool_ok\<close> is the invariant of one free list.
\<close>

section \<open>Blocks and chains\<close>

type_synonym fblk = "u32 \<times> u32"

abbreviation addrs :: "fblk list \<Rightarrow> u32 set" where
  "addrs bs \<equiv> fst ` set bs"

fun fchain :: "hstore \<Rightarrow> u32 \<Rightarrow> fblk list \<Rightarrow> u32 \<Rightarrow> bool" where
  "fchain m p [] e \<longleftrightarrow> p = e"
| "fchain m p ((a, n) # bs) e \<longleftrightarrow>
     p = a \<and> xBlockSize (m a) = n \<and> fchain m (pxNextFreeBlock (m a)) bs e"

text \<open>
  The bytes a free block takes: its size, or the header alone for the end marker of an
  inner region, which stays in the list with size zero.
\<close>

definition flen :: "u32 \<Rightarrow> nat" where
  "flen n = max 16 (unat n)"

definition extent :: "fblk \<Rightarrow> nat set" where
  "extent b = {unat (fst b) ..< unat (fst b) + flen (snd b)}"

fun spaced :: "nat \<Rightarrow> fblk list \<Rightarrow> nat \<Rightarrow> bool" where
  "spaced lo [] hi \<longleftrightarrow> lo \<le> hi"
| "spaced lo ((a, n) # bs) hi \<longleftrightarrow> lo \<le> unat a \<and> spaced (unat a + flen n) bs hi"

text \<open>Adjacent free blocks have been merged: only an end marker may touch its predecessor.\<close>

definition touches :: "fblk \<Rightarrow> fblk \<Rightarrow> bool" where
  "touches x y \<longleftrightarrow> unat (fst x) + unat (snd x) = unat (fst y)"

definition coalesced :: "fblk list \<Rightarrow> bool" where
  "coalesced bs \<longleftrightarrow> successively (\<lambda>x y. touches x y \<longrightarrow> snd y = 0) bs"

definition fsum :: "fblk list \<Rightarrow> nat" where
  "fsum bs = sum_list (map (unat \<circ> snd) bs)"

definition blk_ok :: "fblk \<Rightarrow> bool" where
  "blk_ok b \<longleftrightarrow> aligned16 (fst b) \<and> aligned16 (snd b) \<and> unat (snd b) < 2147483648"

definition pool_ok :: "hstore \<Rightarrow> u32 \<Rightarrow> fblk list \<Rightarrow> u32 \<Rightarrow> bool" where
  "pool_ok m s bs e \<longleftrightarrow>
     xBlockSize (m s) = 0 \<and> fchain m (pxNextFreeBlock (m s)) bs e \<and>
     m e = \<lparr>pxNextFreeBlock = NULL, xBlockSize = 0\<rparr> \<and>
     spaced 16 bs (unat e) \<and> s \<notin> addrs bs \<and> s \<noteq> e \<and>
     (\<forall>b\<in>set bs. blk_ok b) \<and> aligned16 e \<and> coalesced bs"

section \<open>Insertion on lists\<close>

fun join :: "fblk \<Rightarrow> fblk list \<Rightarrow> fblk list" where
  "join (a, n) [] = [(a, n)]"
| "join (a, n) ((c, k) # bs) = (if a + n = c then (a, n + k) # bs else (a, n) # (c, k) # bs)"

definition fl_insert :: "fblk \<Rightarrow> fblk list \<Rightarrow> fblk list" where
  "fl_insert b bs =
     (let l = takeWhile (\<lambda>x. fst x < fst b) bs; r = dropWhile (\<lambda>x. fst x < fst b) bs
      in if l \<noteq> [] \<and> fst (last l) + snd (last l) = fst b
         then butlast l @ join (fst (last l), snd (last l) + snd b) r
         else l @ join b r)"

section \<open>Facts about chains\<close>

lemma fchain_append:
  "fchain m p (xs @ ys) e \<longleftrightarrow> (\<exists>q. fchain m p xs q \<and> fchain m q ys e)"
  by (induction xs arbitrary: p) auto

lemma fchain_frame:
  "\<forall>a \<in> addrs bs. m' a = m a \<Longrightarrow> fchain m' p bs e = fchain m p bs e"
  by (induction bs arbitrary: p) auto

lemma fchain_upd [simp]:
  "a \<notin> addrs bs \<Longrightarrow> fchain (m(a := x)) p bs e = fchain m p bs e"
  by (rule fchain_frame) auto

lemma fchain_hd: "fchain m p bs e \<Longrightarrow> p = (case bs of [] \<Rightarrow> e | b # _ \<Rightarrow> fst b)"
  by (cases bs) auto

lemma fchain_size: "fchain m p bs e \<Longrightarrow> (a, n) \<in> set bs \<Longrightarrow> xBlockSize (m a) = n"
  by (induction bs arbitrary: p) auto

lemma flen_pos [simp]: "0 < flen n" "16 \<le> flen n" "unat n \<le> flen n"
  by (simp_all add: flen_def)

lemma flen_big [simp]: "16 \<le> unat n \<Longrightarrow> flen n = unat n"
  by (simp add: flen_def)

lemma spaced_le: "spaced lo bs hi \<Longrightarrow> lo \<le> hi"
  by (induction bs arbitrary: lo) fastforce+

lemma spaced_append:
  "spaced lo (xs @ ys) hi \<longleftrightarrow> (\<exists>mid. spaced lo xs mid \<and> spaced mid ys hi)"
proof (induction xs arbitrary: lo)
  case Nil
  show ?case
  proof
    assume "spaced lo ([] @ ys) hi"
    then show "\<exists>mid. spaced lo [] mid \<and> spaced mid ys hi" by auto
  next
    assume "\<exists>mid. spaced lo [] mid \<and> spaced mid ys hi"
    then obtain mid where "lo \<le> mid" "spaced mid ys hi" by auto
    then show "spaced lo ([] @ ys) hi" by (cases ys) auto
  qed
next
  case (Cons x xs)
  then show ?case by (cases x) auto
qed

lemma spaced_weaken: "spaced lo bs hi \<Longrightarrow> lo' \<le> lo \<Longrightarrow> hi \<le> hi' \<Longrightarrow> spaced lo' bs hi'"
  by (induction bs arbitrary: lo lo') fastforce+

lemma spaced_mem:
  "spaced lo bs hi \<Longrightarrow> (a, n) \<in> set bs \<Longrightarrow> lo \<le> unat a \<and> unat a + flen n \<le> hi"
proof (induction bs arbitrary: lo)
  case (Cons x bs)
  obtain c k where x: "x = (c, k)" by fastforce
  show ?case
  proof (cases "(a, n) = x")
    case True
    with Cons.prems(1) show ?thesis by (auto simp: x dest: spaced_le)
  next
    case False
    with Cons have "unat c + flen k \<le> unat a \<and> unat a + flen n \<le> hi" by (auto simp: x)
    with Cons.prems(1) show ?thesis by (auto simp: x)
  qed
qed simp

lemma spaced_addr: "spaced lo bs hi \<Longrightarrow> a \<in> addrs bs \<Longrightarrow> lo \<le> unat a \<and> unat a + 16 \<le> hi"
  by (force dest: spaced_mem simp: flen_def)

lemma spaced_distinct: "spaced lo bs hi \<Longrightarrow> distinct (map fst bs)"
proof (induction bs arbitrary: lo)
  case (Cons x bs)
  obtain c k where x: "x = (c, k)" by fastforce
  with Cons.prems have s: "spaced (unat c + flen k) bs hi" by simp
  then have "c \<notin> addrs bs" by (auto dest!: spaced_addr simp: flen_def)
  with Cons.IH [OF s] show ?case by (simp add: x)
qed simp

lemma spaced_sorted: "spaced lo bs hi \<Longrightarrow> sorted_wrt (\<lambda>x y. fst x < fst y) bs"
proof (induction bs arbitrary: lo)
  case (Cons x bs)
  obtain c k where x: "x = (c, k)" by fastforce
  with Cons.prems have s: "spaced (unat c + flen k) bs hi" by simp
  then have "\<forall>y\<in>set bs. c < fst y"
    by (force dest: spaced_mem simp: less_iff32 flen_def)
  with Cons.IH [OF s] show ?case by (simp add: x)
qed simp

section \<open>The search for the position\<close>

lemma insert_position_chain:
  assumes "fchain m (pxNextFreeBlock (m it)) bs e" "\<not> e < b"
  shows "insert_position m it b =
    Some (let l = takeWhile (\<lambda>x. fst x < b) bs in if l = [] then it else fst (last l))"
  using assms
proof (induction bs arbitrary: it)
  case Nil
  then show ?case by (subst insert_position.simps) simp
next
  case (Cons x bs)
  obtain c k where x: "x = (c, k)" by fastforce
  show ?case
  proof (cases "c < b")
    case True
    from Cons.prems have "fchain m (pxNextFreeBlock (m c)) bs e" by (simp add: x)
    from Cons.IH [OF this Cons.prems(2)] True Cons.prems show ?thesis
      by (subst insert_position.simps) (auto simp: x Let_def)
  next
    case False
    with Cons.prems show ?thesis by (subst insert_position.simps) (simp add: x)
  qed
qed

section \<open>Linking the block\<close>

lemmas store_upd = set_next_def set_size_def

lemma link_after:
  assumes chain: "fchain m (pxNextFreeBlock (m it)) r e"
    and apart: "it \<notin> addrs r" "b \<notin> addrs r" "e \<notin> addrs r" "it \<noteq> b" "it \<noteq> e" "b \<noteq> e"
    and gap: "it + xBlockSize (m it) \<noteq> b"
  defines "m' \<equiv> link_block m it b e"
  shows "m' it = (m it)\<lparr>pxNextFreeBlock := b\<rparr>"
    and "fchain m' b (join (b, xBlockSize (m b)) r) e"
    and "\<forall>x. x \<noteq> it \<longrightarrow> x \<noteq> b \<longrightarrow> m' x = m x"
proof -
  show "m' it = (m it)\<lparr>pxNextFreeBlock := b\<rparr>"
    using apart gap by (simp add: m'_def link_block_def store_upd Let_def)
  show "\<forall>x. x \<noteq> it \<longrightarrow> x \<noteq> b \<longrightarrow> m' x = m x"
    using gap by (simp add: m'_def link_block_def store_upd Let_def)
  show "fchain m' b (join (b, xBlockSize (m b)) r) e"
  proof (cases r)
    case Nil
    with chain apart gap show ?thesis
      by (simp add: m'_def link_block_def store_upd Let_def)
  next
    case (Cons x r')
    obtain c k where x: "x = (c, k)" by fastforce
    from chain Cons x have "pxNextFreeBlock (m it) = c" "xBlockSize (m c) = k" by auto
    with chain apart gap Cons x show ?thesis
      by (auto simp: m'_def link_block_def store_upd Let_def add.commute)
  qed
qed

lemma link_merge:
  assumes chain: "fchain m (pxNextFreeBlock (m it)) r e"
    and apart: "it \<notin> addrs r" "e \<notin> addrs r" "it \<noteq> b" "it \<noteq> e"
    and touch: "it + xBlockSize (m it) = b"
  defines "m' \<equiv> link_block m it b e"
  shows "fchain m' it (join (it, xBlockSize (m it) + xBlockSize (m b)) r) e"
    and "\<forall>x. x \<noteq> it \<longrightarrow> m' x = m x"
proof -
  show "\<forall>x. x \<noteq> it \<longrightarrow> m' x = m x"
    using touch by (simp add: m'_def link_block_def store_upd Let_def)
  show "fchain m' it (join (it, xBlockSize (m it) + xBlockSize (m b)) r) e"
  proof (cases r)
    case Nil
    with chain apart touch show ?thesis
      by (simp add: m'_def link_block_def store_upd Let_def)
  next
    case (Cons x r')
    obtain c k where x: "x = (c, k)" by fastforce
    from chain Cons x have "pxNextFreeBlock (m it) = c" "xBlockSize (m c) = k" by auto
    with chain apart touch Cons x show ?thesis
      by (auto simp: m'_def link_block_def store_upd Let_def add.commute)
  qed
qed

section \<open>Joining and inserting keep a list well formed\<close>

lemma fsum_simps [simp]:
  "fsum [] = 0" "fsum (x # xs) = unat (snd x) + fsum xs" "fsum (xs @ ys) = fsum xs + fsum ys"
  by (simp_all add: fsum_def)

lemma coalesced_simps [simp]:
  "coalesced []" "coalesced [x]"
  "coalesced (x # y # zs) \<longleftrightarrow> (touches x y \<longrightarrow> snd y = 0) \<and> coalesced (y # zs)"
  by (simp_all add: coalesced_def)

lemma coalesced_append:
  "coalesced (xs @ ys) \<longleftrightarrow> coalesced xs \<and> coalesced ys \<and>
     (xs = [] \<or> ys = [] \<or> (touches (last xs) (hd ys) \<longrightarrow> snd (hd ys) = 0))"
  by (simp add: coalesced_def successively_append_iff)

lemma fst_hd_join [simp]: "fst (hd (join (a, n) r)) = a"
  by (cases r) (auto split: if_splits)

lemma join_not_Nil [simp]: "join (a, n) r \<noteq> []"
  by (cases r) (auto split: if_splits)

lemma addrs_join: "addrs (join (a, n) r) \<subseteq> insert a (addrs r)"
  by (cases r) (auto split: if_splits)

text \<open>
  \<open>follows\<close> is the situation of a block that is put in front of a list: the list lies
  behind it and nothing wraps.
\<close>

definition follows :: "u32 \<Rightarrow> u32 \<Rightarrow> fblk list \<Rightarrow> nat \<Rightarrow> bool" where
  "follows a n r hi \<longleftrightarrow> spaced (unat a + unat n) r hi \<and> 16 \<le> unat n \<and> hi < 4294967296"

lemma follows_cases:
  assumes "follows a n ((c, k) # r) hi"
  shows "a + n = c \<longleftrightarrow> unat a + unat n = unat c"
    and "a + n = c \<Longrightarrow> unat (n + k) = unat n + unat k"
proof -
  from assms have "unat a + unat n \<le> unat c" "unat c + flen k \<le> hi" "hi < 4294967296"
    by (auto simp: follows_def dest: spaced_le)
  moreover have "unat k \<le> flen k" by simp
  ultimately have *: "unat a + unat n < 4294967296" "unat c + unat k < 4294967296"
    by linarith+
  show eq: "a + n = c \<longleftrightarrow> unat a + unat n = unat c"
    using * by (simp add: plus_eq_iff32)
  show "unat (n + k) = unat n + unat k" if "a + n = c"
    using that * eq by (intro unat_plus32) linarith
qed

lemma spaced_join: "follows a n r hi \<Longrightarrow> spaced (unat a) (join (a, n) r) hi"
proof (cases r)
  case Nil
  moreover assume "follows a n r hi"
  ultimately show ?thesis by (simp add: follows_def)
next
  case (Cons x r')
  assume f: "follows a n r hi"
  obtain c k where x: "x = (c, k)" by fastforce
  note fc = follows_cases [OF f [unfolded Cons x]]
  from f Cons x have r': "spaced (unat c + flen k) r' hi" and n: "16 \<le> unat n"
    by (auto simp: follows_def)
  show ?thesis
  proof (cases "a + n = c")
    case True
    with fc n have "unat a + flen (n + k) \<le> unat c + flen k"
      by (simp add: flen_def)
    with r' have "spaced (unat a + flen (n + k)) r' hi" by (auto intro: spaced_weaken)
    with True Cons x show ?thesis by simp
  next
    case False
    with f Cons x show ?thesis by (auto simp: follows_def)
  qed
qed

lemma fsum_join: "follows a n r hi \<Longrightarrow> fsum (join (a, n) r) = unat n + fsum r"
  by (cases r) (auto simp: follows_cases(2))

lemma blk_ok_join:
  assumes "follows a n r hi" "blk_ok (a, n)" "\<forall>x\<in>set r. blk_ok x" "unat n + fsum r < 2147483648"
  shows "\<forall>x\<in>set (join (a, n) r). blk_ok x"
proof (cases r)
  case (Cons x r')
  obtain c k where x: "x = (c, k)" by fastforce
  note fc = follows_cases [OF assms(1) [unfolded Cons x]]
  from assms Cons x fc show ?thesis
    by (auto simp: blk_ok_def intro: aligned16_plus)
qed (use assms in auto)

lemma coalesced_join:
  assumes "follows a n r hi" "coalesced r"
  shows "coalesced (join (a, n) r)"
proof (cases r)
  case (Cons x r')
  obtain c k where x: "x = (c, k)" by fastforce
  note fc = follows_cases [OF assms(1) [unfolded Cons x]]
  show ?thesis
  proof (cases "a + n = c")
    case True
    with fc have "touches (a, n + k) y \<longleftrightarrow> touches (c, k) y" for y
      using True by (auto simp: touches_def)
    with True assms(2) Cons x show ?thesis by (cases r') auto
  next
    case False
    with fc assms(2) Cons x show ?thesis by (auto simp: touches_def)
  qed
qed simp

lemma extent_join:
  assumes "follows a n r hi" "x \<in> set (join (a, n) r)"
  shows "extent x \<subseteq> extent (a, n) \<union> \<Union> (extent ` set r)"
proof (cases r)
  case (Cons y r')
  obtain c k where y: "y = (c, k)" by fastforce
  note fc = follows_cases [OF assms(1) [unfolded Cons y]]
  show ?thesis
  proof (cases "a + n = c \<and> x = (a, n + k)")
    case True
    with fc have "unat a + unat n = unat c" "unat (n + k) = unat n + unat k" by auto
    moreover have "flen n = unat n" "flen (n + k) = unat (n + k)"
      using assms(1) calculation by (simp_all add: follows_def)
    ultimately have "extent x \<subseteq> extent (a, n) \<union> extent (c, k)"
      using True by (auto simp: extent_def) (use flen_pos(3) [of k] in linarith)
    then show ?thesis by (auto simp: Cons y)
  next
    case False
    with assms(2) Cons y show ?thesis by (auto split: if_splits)
  qed
qed (use assms in auto)

section \<open>Inserting a block\<close>

definition insertable :: "fblk \<Rightarrow> fblk list \<Rightarrow> nat \<Rightarrow> bool" where
  "insertable b bs hi \<longleftrightarrow>
     16 \<le> unat (snd b) \<and> 16 \<le> unat (fst b) \<and> unat (fst b) + unat (snd b) \<le> hi \<and>
     hi < 4294967296 \<and> (\<forall>x\<in>set bs. extent x \<inter> extent b = {})"

lemma spaced_upper:
  "spaced lo bs hi \<Longrightarrow> lo \<le> u \<Longrightarrow> \<forall>x\<in>set bs. unat (fst x) + flen (snd x) \<le> u \<Longrightarrow> spaced lo bs u"
  by (induction bs arbitrary: lo) auto

lemma spaced_lower:
  "spaced lo bs hi \<Longrightarrow> v \<le> hi \<Longrightarrow> \<forall>x\<in>set bs. v \<le> unat (fst x) \<Longrightarrow> spaced v bs hi"
  by (cases bs) auto

lemma interval_apart:
  fixes a b :: nat
  assumes "{a ..< a + n} \<inter> {b ..< b + k} = {}" "0 < n" "0 < k"
  shows "a < b \<Longrightarrow> a + n \<le> b" "b \<le> a \<Longrightarrow> b + k \<le> a"
  using assms by auto

lemma extent_apart:
  assumes "extent x \<inter> extent b = {}" "16 \<le> unat (snd b)"
  shows "fst x < fst b \<Longrightarrow> unat (fst x) + flen (snd x) \<le> unat (fst b)"
    and "\<not> fst x < fst b \<Longrightarrow> unat (fst b) + unat (snd b) \<le> unat (fst x)"
  using assms interval_apart [of "unat (fst x)" "flen (snd x)" "unat (fst b)" "unat (snd b)"]
  by (auto simp: extent_def less_iff32)

lemma insert_split:
  assumes sp: "spaced 16 bs hi" and ins: "insertable b bs hi"
  shows "spaced 16 (takeWhile (\<lambda>x. fst x < fst b) bs) (unat (fst b))"
    and "spaced (unat (fst b) + unat (snd b)) (dropWhile (\<lambda>x. fst x < fst b) bs) hi"
proof -
  let ?P = "\<lambda>x. fst x < fst b"
  let ?l = "takeWhile ?P bs" and ?r = "dropWhile ?P bs"
  from sp obtain mid where l: "spaced 16 ?l mid" and r: "spaced mid ?r hi"
    using spaced_append [of 16 ?l ?r hi] by auto
  have disj: "extent x \<inter> extent b = {}" if "x \<in> set bs" for x
    using ins that by (simp add: insertable_def)
  have k: "16 \<le> unat (snd b)" using ins by (simp add: insertable_def)
  have "\<forall>x\<in>set ?l. unat (fst x) + flen (snd x) \<le> unat (fst b)"
    by (blast intro: extent_apart(1) [OF disj k] dest: set_takeWhileD)
  then show "spaced 16 ?l (unat (fst b))"
    by (intro spaced_upper [OF l]) (use ins in \<open>simp_all add: insertable_def\<close>)
  have sorted: "sorted_wrt (\<lambda>x y. fst x < fst y) ?r"
    using spaced_sorted [OF r] .
  have "\<forall>x\<in>set ?r. \<not> ?P x"
  proof (cases ?r)
    case (Cons y ys)
    then have "\<not> ?P y" by (metis hd_dropWhile list.discI list.sel(1))
    with sorted show ?thesis unfolding Cons by (auto simp: less_iff32)
  next
    case Nil
    show ?thesis unfolding Nil by simp
  qed
  then have "\<forall>x\<in>set ?r. unat (fst b) + unat (snd b) \<le> unat (fst x)"
    by (blast intro: extent_apart(2) [OF disj k] dest: set_dropWhileD)
  then show "spaced (unat (fst b) + unat (snd b)) ?r hi"
    by (intro spaced_lower [OF r]) (use ins in \<open>simp_all add: insertable_def\<close>)
qed

text \<open>The two shapes of an insertion: merged into the predecessor, or put after it.\<close>

lemma fl_insert_cases:
  assumes sp: "spaced 16 bs hi" and ins: "insertable (b, k) bs hi"
  obtains (touch) l p n r where "bs = l @ (p, n) # r"
      "takeWhile (\<lambda>x. fst x < b) bs = l @ [(p, n)]"
      "fl_insert (b, k) bs = l @ join (p, n + k) r"
      "p + n = b" "unat p + unat n = unat b" "unat (n + k) = unat n + unat k" "16 \<le> unat n"
      "spaced 16 l (unat p)" "follows p (n + k) r hi"
  | (apart) l r where "bs = l @ r" "takeWhile (\<lambda>x. fst x < b) bs = l"
      "fl_insert (b, k) bs = l @ join (b, k) r"
      "l = [] \<or> fst (last l) + snd (last l) \<noteq> b"
      "l = [] \<or> \<not> touches (last l) (b, k)"
      "spaced 16 l (unat b)" "follows b k r hi"
proof -
  let ?l = "takeWhile (\<lambda>x. fst x < b) bs" and ?r = "dropWhile (\<lambda>x. fst x < b) bs"
  note split = insert_split [OF sp ins, simplified]
  have lr: "bs = ?l @ ?r" by simp
  have bounds: "unat b + unat k \<le> hi" "hi < 4294967296" "16 \<le> unat k"
    using ins by (auto simp: insertable_def)
  show thesis
  proof (cases "?l = []")
    case True
    have bs: "bs = [] @ ?r" using True lr by simp
    have fl: "fl_insert (b, k) bs = [] @ join (b, k) ?r"
      using True by (simp add: fl_insert_def)
    have fo: "follows b k ?r hi" using split(2) bounds by (simp add: follows_def)
    have "spaced 16 [] (unat b)" using ins by (simp add: insertable_def)
    then show thesis using apart [OF bs True fl _ _ _ fo] by blast
  next
    case False
    then obtain l p n where l: "?l = l @ [(p, n)]" by (metis rev_exhaust surj_pair)
    from split(1) have spl: "spaced 16 l (unat p)" and pn: "unat p + flen n \<le> unat b"
      unfolding l spaced_append by (auto elim: spaced_weaken)
    then have nowrap: "unat p + unat n < 4294967296" "unat p + unat n \<le> unat b"
      using bounds flen_pos(3) [of n] by linarith+
    then have eq: "p + n = b \<longleftrightarrow> unat p + unat n = unat b" by (simp add: plus_eq_iff32)
    show thesis
    proof (cases "p + n = b")
      case True
      have nk: "unat (n + k) = unat n + unat k"
        using True eq bounds by (intro unat_plus32) linarith
      have "flen n = unat n" using pn True eq flen_pos(3) [of n] by linarith
      then have n: "16 \<le> unat n" by (metis flen_pos(2))
      have "fl_insert (b, k) bs = l @ join (p, n + k) ?r"
        using l True by (simp add: fl_insert_def)
      moreover have "follows p (n + k) ?r hi"
        using split(2) bounds True eq nk by (simp add: follows_def add.assoc [symmetric])
      moreover have "bs = l @ (p, n) # ?r" using l lr by (metis append_assoc append_Cons append_Nil)
      ultimately show thesis using l True iffD1 [OF eq True] nk n spl by (intro touch)
    next
      case ne: False
      have fl: "fl_insert (b, k) bs = ?l @ join (b, k) ?r"
        using l ne by (simp add: fl_insert_def)
      have fo: "follows b k ?r hi" using split(2) bounds by (simp add: follows_def)
      have "\<not> touches (last ?l) (b, k)" "fst (last ?l) + snd (last ?l) \<noteq> b"
        using ne eq by (simp_all add: l touches_def)
      then show thesis using apart [OF lr refl fl _ _ split(1) fo] by blast
    qed
  qed
qed

end
