(* ===== verification/Heap5_Pool.thy ===== *)
theory Heap5_Pool
  imports Heap5_List
begin

text \<open>
  One free list under the heap's operations: inserting a block, finding the first fit and
  taking a block out keep \<open>pool_ok\<close>, with the list changed the way the list functions
  say and every header outside the list untouched.
\<close>

section \<open>The list insertion keeps its invariants\<close>

lemma spaced_fl_insert:
  assumes "spaced 16 bs hi" "insertable (b, k) bs hi"
  shows "spaced 16 (fl_insert (b, k) bs) hi"
  using assms
proof (cases rule: fl_insert_cases)
  case (touch l p n r)
  then show ?thesis using spaced_join [of p "n + k" r hi] by (auto simp: spaced_append)
next
  case (apart l r)
  then show ?thesis using spaced_join [of b k r hi] by (auto simp: spaced_append)
qed

lemma fsum_fl_insert:
  assumes "spaced 16 bs hi" "insertable (b, k) bs hi"
  shows "fsum (fl_insert (b, k) bs) = fsum bs + unat k"
  using assms
proof (cases rule: fl_insert_cases)
  case (touch l p n r)
  then show ?thesis using fsum_join [of p "n + k" r hi] by simp
next
  case (apart l r)
  then show ?thesis using fsum_join [of b k r hi] by simp
qed

lemma coalesced_fl_insert:
  assumes "spaced 16 bs hi" "insertable (b, k) bs hi" "coalesced bs"
  shows "coalesced (fl_insert (b, k) bs)"
  using assms(1,2)
proof (cases rule: fl_insert_cases)
  case (touch l p n r)
  then have "coalesced l" "l = [] \<or> (touches (last l) (p, n) \<longrightarrow> n = 0)"
      and r: "coalesced ((p, n) # r)"
    using assms(3) by (auto simp: coalesced_append)
  moreover from r have "coalesced r" by (cases r) auto
  moreover have "n \<noteq> 0" using touch by auto
  ultimately show ?thesis
    using touch coalesced_join [of p "n + k" r hi]
    by (auto simp: coalesced_append touches_def)
next
  case (apart l r)
  then have "coalesced l" "coalesced r" using assms(3) by (auto simp: coalesced_append)
  with apart show ?thesis
    using coalesced_join [of b k r hi] by (auto simp: coalesced_append touches_def)
qed

lemma blk_ok_fl_insert:
  assumes "spaced 16 bs hi" "insertable (b, k) bs hi"
    and ok: "blk_ok (b, k)" "\<forall>x\<in>set bs. blk_ok x" and small: "fsum bs + unat k < 2147483648"
  shows "\<forall>x\<in>set (fl_insert (b, k) bs). blk_ok x"
  using assms(1,2)
proof (cases rule: fl_insert_cases)
  case (touch l p n r)
  have "blk_ok (p, n)" using ok(2) touch(1) by simp
  then have "blk_ok (p, n + k)"
    using ok(1) small touch by (simp add: blk_ok_def aligned16_plus)
  then show ?thesis
    using touch ok small blk_ok_join [of p "n + k" r hi] by auto
next
  case (apart l r)
  then show ?thesis using ok small blk_ok_join [of b k r hi] by auto
qed

lemma addrs_fl_insert:
  assumes "spaced 16 bs hi" "insertable (b, k) bs hi"
  shows "addrs (fl_insert (b, k) bs) \<subseteq> insert b (addrs bs)"
  using assms
proof (cases rule: fl_insert_cases)
  case (touch l p n r)
  then show ?thesis using addrs_join [of p "n + k" r] by auto
next
  case (apart l r)
  then show ?thesis using addrs_join [of b k r] by auto
qed

lemma extent_fl_insert:
  assumes "spaced 16 bs hi" "insertable (b, k) bs hi" "x \<in> set (fl_insert (b, k) bs)"
  shows "extent x \<subseteq> extent (b, k) \<union> \<Union> (extent ` set bs)"
  using assms(1,2)
proof (cases rule: fl_insert_cases)
  case (touch l p n r)
  have k: "16 \<le> unat k" using assms(2) by (simp add: insertable_def)
  have "extent (p, n + k) \<subseteq> extent (p, n) \<union> extent (b, k)"
    using touch k by (auto simp: extent_def flen_def)
  moreover have "x \<in> set l \<or> x \<in> set (join (p, n + k) r)"
    using assms(3) touch by auto
  ultimately show ?thesis
    using extent_join [OF touch(9)] touch(1) by fastforce
next
  case (apart l r)
  then show ?thesis
    using assms(3) extent_join [OF apart(7), of x] by auto
qed

section \<open>Inserting into a pool\<close>

text \<open>
  The pointer code finds a position and its linking step leaves exactly the list
  \<open>fl_insert\<close> computes; nothing else in the store changes.
\<close>

lemma pool_insert:
  assumes pool: "pool_ok m s bs e" and k: "xBlockSize (m b) = k"
    and ins: "insertable (b, k) bs (unat e)" and ok: "blk_ok (b, k)" and bs: "b \<noteq> s"
    and small: "fsum bs + unat k < 2147483648"
  shows "\<exists>it. insert_position m s b = Some it \<and>
           pool_ok (link_block m it b e) s (fl_insert (b, k) bs) e \<and>
           (\<forall>x. x \<noteq> s \<longrightarrow> x \<noteq> b \<longrightarrow> x \<notin> addrs bs \<longrightarrow> link_block m it b e x = m x)"
proof -
  note p = pool [unfolded pool_ok_def]
  from p have sp: "spaced 16 bs (unat e)" by simp
  have be: "unat b + 16 \<le> unat e" using ins by (auto simp: insertable_def)
  then have "\<not> e < b" by (simp add: less_iff32)
  then have pos: "insert_position m s b =
      Some (let l = takeWhile (\<lambda>x. fst x < b) bs in if l = [] then s else fst (last l))"
    using p by (intro insert_position_chain) auto
  have bnotin: "b \<notin> addrs bs"
  proof
    assume "b \<in> addrs bs"
    then obtain n where "(b, n) \<in> set bs" by auto
    then have "extent (b, n) \<inter> extent (b, k) = {}" using ins by (simp add: insertable_def)
    then show False by (auto simp: extent_def disjoint_iff)
  qed
  have enotin: "e \<notin> addrs bs" using spaced_addr [OF sp] by fastforce
  have dist: "distinct (map fst bs)" by (rule spaced_distinct [OF sp])
  have lists: "spaced 16 (fl_insert (b, k) bs) (unat e)" "coalesced (fl_insert (b, k) bs)"
      "\<forall>x\<in>set (fl_insert (b, k) bs). blk_ok x" "s \<notin> addrs (fl_insert (b, k) bs)"
    using p ins ok small bs spaced_fl_insert [OF sp ins] coalesced_fl_insert [OF sp ins]
      blk_ok_fl_insert [OF sp ins] addrs_fl_insert [OF sp ins] by auto
  have "\<exists>it. insert_position m s b = Some it \<and>
      xBlockSize (link_block m it b e s) = 0 \<and>
      fchain (link_block m it b e) (pxNextFreeBlock (link_block m it b e s))
        (fl_insert (b, k) bs) e \<and>
      (\<forall>x. x \<noteq> s \<longrightarrow> x \<noteq> b \<longrightarrow> x \<notin> addrs bs \<longrightarrow> link_block m it b e x = m x)"
    using sp ins
  proof (cases rule: fl_insert_cases)
    case (touch l q n r)
    let ?m = "link_block m q b e"
    from p touch(1) have chain: "fchain m (pxNextFreeBlock (m s)) l q"
        "fchain m (pxNextFreeBlock (m q)) r e" and q: "xBlockSize (m q) = n"
      by (auto simp: fchain_append)
    have q': "q \<notin> addrs r" "q \<notin> addrs l" "q \<noteq> b" "q \<noteq> e" "q \<noteq> s" "e \<notin> addrs r"
        "s \<notin> addrs l"
      using dist bnotin enotin p touch(1) by auto
    note lk = link_merge [OF chain(2) q'(1,6,3,4), unfolded q, OF touch(4)]
    have "fchain ?m (pxNextFreeBlock (?m s)) l q"
      using chain(1) lk(2) q' by (subst fchain_frame [of l ?m m]) auto
    then show ?thesis
      using lk q' touch pos p k by (intro exI [of _ q]) (auto simp: fchain_append)
  next
    case (apart l r)
    let ?it = "if l = [] then s else fst (last l)"
    let ?m = "link_block m ?it b e"
    show ?thesis
    proof (cases "l = []")
      case True
      have g: "s + xBlockSize (m s) \<noteq> b" using p bs by auto
      have c: "fchain m (pxNextFreeBlock (m s)) r e" "s \<notin> addrs r" "b \<notin> addrs r" "e \<notin> addrs r"
          "s \<noteq> b" "s \<noteq> e" "b \<noteq> e"
        using p bs apart(1) True bnotin enotin be by auto
      note lk = link_after [OF c g]
      show ?thesis
        using lk True apart pos p k by (intro exI [of _ s]) auto
    next
      case False
      then obtain l' q n where l: "l = l' @ [(q, n)]" by (metis rev_exhaust surj_pair)
      from p apart(1) l have chain: "fchain m (pxNextFreeBlock (m s)) l' q"
          "fchain m (pxNextFreeBlock (m q)) r e" and q: "xBlockSize (m q) = n"
        by (auto simp: fchain_append)
      have c: "q \<notin> addrs r" "b \<notin> addrs r" "e \<notin> addrs r" "q \<noteq> b" "q \<noteq> e" "b \<noteq> e"
        using p bs apart(1) l bnotin enotin be dist by auto
      have c': "q \<notin> addrs l'" "b \<notin> addrs l'" "s \<noteq> q" "s \<notin> addrs l'"
        using dist bnotin p apart(1) l by auto
      have g: "q + xBlockSize (m q) \<noteq> b" using apart(4) l q by simp
      note lk = link_after [OF chain(2) c g]
      have "fchain (link_block m q b e) (pxNextFreeBlock (link_block m q b e s)) l' q"
        using chain(1) lk(3) c' bs by (subst fchain_frame [of l' _ m]) auto
      then show ?thesis
        using lk l apart pos p k q c' bs by (intro exI [of _ q]) (auto simp: fchain_append)
    qed
  qed
  then obtain it where it: "insert_position m s b = Some it"
      "xBlockSize (link_block m it b e s) = 0"
      "fchain (link_block m it b e) (pxNextFreeBlock (link_block m it b e s))
        (fl_insert (b, k) bs) e"
      "\<forall>x. x \<noteq> s \<longrightarrow> x \<noteq> b \<longrightarrow> x \<notin> addrs bs \<longrightarrow> link_block m it b e x = m x"
    by blast
  have "e \<noteq> b" using be by auto
  with it(4) p enotin have "link_block m it b e e = m e" by metis
  with it lists p have "pool_ok (link_block m it b e) s (fl_insert (b, k) bs) e"
    by (simp add: pool_ok_def)
  with it show ?thesis by blast
qed

text \<open>The header at the inserted address never reads as allocated afterwards.\<close>

lemma join_head: "a \<in> addrs (join (a, n) r)"
  by (cases r) auto

lemma inserted_header:
  assumes pool: "pool_ok m s bs e" and k: "xBlockSize (m b) = k"
    and ins: "insertable (b, k) bs (unat e)" and ok: "blk_ok (b, k)" and bs: "b \<noteq> s"
    and small: "fsum bs + unat k < 2147483648" and it: "insert_position m s b = Some it"
  shows "unat (xBlockSize (link_block m it b e b)) < 2147483648"
proof -
  have sp: "spaced 16 bs (unat e)" using pool by (simp add: pool_ok_def)
  have po: "pool_ok (link_block m it b e) s (fl_insert (b, k) bs) e"
    using pool_insert [OF assms(1-6)] it by auto
  show ?thesis
    using sp ins
  proof (cases rule: fl_insert_cases)
    case (touch l p n r)
    have "\<not> e < b" using ins by (auto simp: insertable_def less_iff32)
    then have itp: "it = p"
      using insert_position_chain [of m s bs e b] pool it touch(2) by (simp add: pool_ok_def)
    have "p \<noteq> b" using touch(5,7) by auto
    moreover have "xBlockSize (m p) = n"
      using pool touch(1) by (auto simp: pool_ok_def intro: fchain_size)
    ultimately have "link_block m it b e b = m b"
      using touch(4) itp by (simp add: link_block_def store_upd Let_def)
    with k ok show ?thesis by (simp add: blk_ok_def)
  next
    case (apart l r)
    then obtain k' where mem: "(b, k') \<in> set (fl_insert (b, k) bs)"
      using join_head [of b k r] by force
    then have "blk_ok (b, k')" "xBlockSize (link_block m it b e b) = k'"
      using po fchain_size [OF _ mem] by (auto simp: pool_ok_def)
    then show ?thesis by (simp add: blk_ok_def)
  qed
qed

section \<open>First fit\<close>

text \<open>The last block before a position, or the list head.\<close>

definition prev_of :: "u32 \<Rightarrow> fblk list \<Rightarrow> u32" where
  "prev_of s l = (if l = [] then s else fst (last l))"

lemma find_fit_chain:
  assumes "fchain m (pxNextFreeBlock (m p)) bs e" "pxNextFreeBlock (m e) = NULL"
    and "spaced 16 bs (unat e)" "e \<noteq> NULL"
  shows "find_fit m w p (pxNextFreeBlock (m p)) =
    Some (prev_of p (takeWhile (\<lambda>x. snd x < w) bs),
          case dropWhile (\<lambda>x. snd x < w) bs of [] \<Rightarrow> e | b # _ \<Rightarrow> fst b)"
  using assms
proof (induction bs arbitrary: p)
  case Nil
  then show ?case by (subst find_fit.simps) (simp add: prev_of_def)
next
  case (Cons x bs)
  obtain a n where x: "x = (a, n)" by fastforce
  from Cons.prems x have chain: "fchain m (pxNextFreeBlock (m a)) bs e"
      and n: "xBlockSize (m a) = n" "pxNextFreeBlock (m p) = a"
      and sp: "spaced 16 bs (unat e)"
    by (auto elim: spaced_weaken)
  show ?case
  proof (cases "n < w")
    case True
    have "pxNextFreeBlock (m a) = (case bs of [] \<Rightarrow> e | b # _ \<Rightarrow> fst b)"
      by (rule fchain_hd [OF chain])
    then have "pxNextFreeBlock (m a) \<noteq> NULL"
      using sp Cons.prems(4) by (cases bs) auto
    with Cons.IH [OF chain Cons.prems(2) sp Cons.prems(4)] True x n show ?thesis
      by (subst find_fit.simps) (auto simp: prev_of_def)
  next
    case False
    with x n show ?thesis by (subst find_fit.simps) (simp add: prev_of_def)
  qed
qed

lemma find_fit_cases:
  assumes "fchain m (pxNextFreeBlock (m p)) bs e" "pxNextFreeBlock (m e) = NULL"
    and "spaced 16 bs (unat e)" "e \<noteq> NULL"
  obtains (none) q where "find_fit m w p (pxNextFreeBlock (m p)) = Some (q, e)"
      "\<forall>x\<in>set bs. snd x < w"
  | (fit) l a n r where "bs = l @ (a, n) # r" "\<not> n < w" "\<forall>x\<in>set l. snd x < w" "a \<noteq> e"
      "find_fit m w p (pxNextFreeBlock (m p)) = Some (prev_of p l, a)"
proof -
  let ?l = "takeWhile (\<lambda>x. snd x < w) bs" and ?r = "dropWhile (\<lambda>x. snd x < w) bs"
  note ff = find_fit_chain [OF assms, of w]
  show thesis
  proof (cases ?r)
    case Nil
    then have "\<forall>x\<in>set bs. snd x < w" by (simp add: dropWhile_eq_Nil_conv)
    with ff show thesis unfolding Nil by (intro none) auto
  next
    case (Cons x r)
    obtain a n where x: "x = (a, n)" by fastforce
    have bs: "bs = ?l @ (a, n) # r" using Cons x by (metis takeWhile_dropWhile_id)
    have nw: "\<not> n < w" using Cons x by (metis hd_dropWhile list.discI list.sel(1) snd_conv)
    have lw: "\<forall>y\<in>set ?l. snd y < w" by (blast dest: set_takeWhileD)
    have "a \<in> addrs bs" by (subst bs) auto
    then have "unat a + 16 \<le> unat e" using spaced_addr [OF assms(3)] by blast
    then have "a \<noteq> e" by auto
    with ff show thesis unfolding Cons x by (intro fit [OF bs nw lw]) auto
  qed
qed

section \<open>Taking a block out of a pool\<close>

lemma pool_remove:
  assumes pool: "pool_ok m s (l @ (a, n) # r) e"
  shows "pool_ok (set_next m (prev_of s l) (pxNextFreeBlock (m a))) s (l @ r) e"
    and "pxNextFreeBlock (m (prev_of s l)) = a"
    and "xBlockSize (m a) = n"
    and "prev_of s l \<in> insert s (addrs l)" "prev_of s l \<noteq> a" "prev_of s l \<noteq> e"
proof -
  note p = pool [unfolded pool_ok_def]
  let ?q = "prev_of s l" and ?bs = "l @ (a, n) # r"
  let ?m = "set_next m ?q (pxNextFreeBlock (m a))"
  from p have sp: "spaced 16 ?bs (unat e)" by simp
  have enotin: "e \<notin> addrs ?bs" using spaced_addr [OF sp] by fastforce
  have dist: "distinct (map fst ?bs)" by (rule spaced_distinct [OF sp])
  show n: "xBlockSize (m a) = n" using p by (auto simp: fchain_append)
  show q: "?q \<in> insert s (addrs l)" by (auto simp: prev_of_def)
  show "?q \<noteq> a" "?q \<noteq> e" using q p dist enotin by auto
  have sp': "spaced 16 (l @ r) (unat e)"
    using sp unfolding spaced_append by (auto elim!: spaced_weaken)
  obtain mid where "spaced 16 l mid" "mid \<le> unat a" "spaced (unat a + flen n) r (unat e)"
    using sp unfolding spaced_append by auto
  then have far: "l = [] \<or> r = [] \<or> \<not> touches (last l) (hd r)"
  proof (cases l rule: rev_cases)
    case (snoc l' y)
    then have "unat (fst y) + flen (snd y) \<le> unat a"
      using spaced_mem [OF \<open>spaced 16 l mid\<close>, of "fst y" "snd y"] \<open>mid \<le> unat a\<close> by auto
    moreover have "r = [] \<or> unat a + flen n \<le> unat (fst (hd r))"
      using \<open>spaced (unat a + flen n) r (unat e)\<close> by (cases r) auto
    moreover have "unat (snd y) \<le> flen (snd y)" "0 < flen n" by simp_all
    ultimately show ?thesis unfolding touches_def snoc last_snoc by linarith
  qed simp
  have co: "coalesced (l @ r)"
  proof -
    have "coalesced l" "coalesced ((a, n) # r)" using p by (auto simp: coalesced_append)
    then have "coalesced r" by (cases r) auto
    with \<open>coalesced l\<close> far show ?thesis by (auto simp: coalesced_append)
  qed
  have chains: "fchain m (pxNextFreeBlock (m s)) l a" "fchain m (pxNextFreeBlock (m a)) r e"
    using p by (auto simp: fchain_append)
  have "pxNextFreeBlock (m ?q) = a \<and> fchain ?m (pxNextFreeBlock (?m s)) (l @ r) e"
  proof (cases l rule: rev_cases)
    case Nil
    then show ?thesis using chains p by (auto simp: prev_of_def set_next_def)
  next
    case (snoc l' y)
    obtain q k where y: "y = (q, k)" by fastforce
    have nq: "q \<notin> addrs l'" "q \<notin> addrs r" "s \<noteq> q" using dist p snoc y by auto
    have q: "?q = q" by (simp add: prev_of_def snoc y)
    have "fchain m (pxNextFreeBlock (m s)) l' q" "xBlockSize (m q) = k"
        "pxNextFreeBlock (m q) = a"
      using chains(1) snoc y by (auto simp: fchain_append)
    then show ?thesis using chains(2) nq unfolding q
      by (auto simp: snoc y set_next_def fchain_append)
  qed
  then show "pxNextFreeBlock (m ?q) = a" by simp
  have "?m e = m e" using \<open>?q \<noteq> e\<close> by (simp add: set_next_def)
  moreover have "xBlockSize (?m s) = 0" using p by (simp add: set_next_def)
  ultimately show "pool_ok ?m s (l @ r) e"
    using p sp' co \<open>_ \<and> fchain ?m (pxNextFreeBlock (?m s)) (l @ r) e\<close>
    by (auto simp: pool_ok_def)
qed

end
