(* ===== verification/Heap5_Inv.thy ===== *)
theory Heap5_Inv
  imports Heap5_Pool
begin

unbundle bit_operations_syntax

text \<open>
  The invariant of the whole heap and its preservation.  \<open>heap_inv h T fl As\<close> relates a
  state to the two free lists \<open>fl False\<close> (ordinary) and \<open>fl True\<close> (DMA), the list \<open>As\<close> of
  live allocations, each with its size and pool, and the constant total \<open>T\<close> of heap bytes.
\<close>

section \<open>Shape: pools and other blocks do not overlap\<close>

definition pstart :: "heap5 \<Rightarrow> bool \<Rightarrow> u32" where
  "pstart h d = (if d then addr_xStartDMA h else addr_xStart h)"

definition pend :: "heap5 \<Rightarrow> bool \<Rightarrow> u32" where
  "pend h d = (if d then pxEndDMA h else pxEnd h)"

definition bytes :: "fblk list \<Rightarrow> nat set" where
  "bytes bs = \<Union> (extent ` set bs)"

definition heap_shape :: "heap5 \<Rightarrow> (bool \<Rightarrow> fblk list) \<Rightarrow> fblk list \<Rightarrow> bool" where
  "heap_shape h fl Bs \<longleftrightarrow>
     (\<forall>d. pool_ok (hmem h) (pstart h d) (fl d) (pend h d)) \<and>
     bytes (fl False) \<inter> bytes (fl True) = {} \<and>
     (\<forall>d. bytes (fl d) \<inter> bytes Bs = {}) \<and>
     (\<forall>d d'. extent (pend h d', 0) \<inter> (bytes (fl d) \<union> bytes Bs) = {}) \<and>
     extent (pend h False, 0) \<inter> extent (pend h True, 0) = {} \<and>
     (\<forall>d d'. unat (pstart h d') \<notin> bytes (fl d) \<union> bytes Bs \<union> extent (pend h d, 0)) \<and>
     pstart h False \<noteq> pstart h True \<and>
     sorted_wrt (\<lambda>x y. extent x \<inter> extent y = {}) Bs"

lemma bytes_simps [simp]:
  "bytes [] = {}" "bytes (b # bs) = extent b \<union> bytes bs" "bytes (xs @ ys) = bytes xs \<union> bytes ys"
  by (auto simp: bytes_def)

lemma extent_addr [simp]: "unat (fst b) \<in> extent b" "unat a \<in> extent (a, n)"
  by (simp_all add: extent_def)

lemma addrs_bytes: "a \<in> addrs bs \<Longrightarrow> unat a \<in> bytes bs"
  by (force simp: bytes_def extent_def)

lemma disjoint_sym2: "sorted_wrt (\<lambda>x y. extent x \<inter> extent y = {}) (b # Bs) \<longleftrightarrow>
    extent b \<inter> bytes Bs = {} \<and> sorted_wrt (\<lambda>x y. extent x \<inter> extent y = {}) Bs"
  by (auto simp: bytes_def)

lemma pool_ok_frame:
  assumes "\<forall>x. x = s \<or> x = e \<or> x \<in> addrs bs \<longrightarrow> m' x = m x"
  shows "pool_ok m' s bs e = pool_ok m s bs e"
proof -
  have "fchain m' p bs e = fchain m p bs e" for p
    using assms by (intro fchain_frame) auto
  with assms show ?thesis by (simp add: pool_ok_def)
qed

lemma shape_facts:
  assumes "heap_shape h fl Bs"
  shows shape_pool: "pool_ok (hmem h) (pstart h d) (fl d) (pend h d)"
    and shape_fl: "d \<noteq> d' \<Longrightarrow> bytes (fl d) \<inter> bytes (fl d') = {}"
    and shape_fl_Bs: "bytes (fl d) \<inter> bytes Bs = {}"
    and shape_end_fl: "extent (pend h d', 0) \<inter> bytes (fl d) = {}"
    and shape_end_Bs: "extent (pend h d, 0) \<inter> bytes Bs = {}"
    and shape_ends: "d \<noteq> d' \<Longrightarrow> extent (pend h d, 0) \<inter> extent (pend h d', 0) = {}"
    and shape_start_fl: "unat (pstart h d') \<notin> bytes (fl d)"
    and shape_start_Bs: "unat (pstart h d) \<notin> bytes Bs"
    and shape_start_end: "unat (pstart h d) \<notin> extent (pend h d', 0)"
    and shape_starts: "d \<noteq> d' \<Longrightarrow> pstart h d \<noteq> pstart h d'"
    and shape_Bs: "sorted_wrt (\<lambda>x y. extent x \<inter> extent y = {}) Bs"
proof -
  note s = assms [unfolded heap_shape_def]
  show "pool_ok (hmem h) (pstart h d) (fl d) (pend h d)" using s by simp
  show "bytes (fl d) \<inter> bytes (fl d') = {}" if "d \<noteq> d'"
    using s that by (cases d; cases d') (simp_all add: Int_commute)
  show "bytes (fl d) \<inter> bytes Bs = {}" using s by simp
  show "extent (pend h d', 0) \<inter> bytes (fl d) = {}" using s by (simp add: Int_Un_distrib)
  show "extent (pend h d, 0) \<inter> bytes Bs = {}" using s by (simp add: Int_Un_distrib)
  show "extent (pend h d, 0) \<inter> extent (pend h d', 0) = {}" if "d \<noteq> d'"
    using s that by (cases d; cases d') (simp_all add: Int_commute)
  show "unat (pstart h d') \<notin> bytes (fl d)" using s by simp
  show "unat (pstart h d) \<notin> bytes Bs" using s by simp
  show "unat (pstart h d) \<notin> extent (pend h d', 0)" using s by simp
  show "pstart h d \<noteq> pstart h d'" if "d \<noteq> d'"
    using s that by (cases d; cases d') (simp_all add: eq_commute)
  show "sorted_wrt (\<lambda>x y. extent x \<inter> extent y = {}) Bs" using s by simp
qed

text \<open>
  Conversely, the facts make up the shape of a heap with a new store; the heads and end
  markers are those of the old one.
\<close>

lemma shape_memI:
  assumes "\<And>d. pool_ok m (pstart h d) (fl d) (pend h d)"
    and "\<And>d d'. d \<noteq> d' \<Longrightarrow> bytes (fl d) \<inter> bytes (fl d') = {}"
    and "\<And>d. bytes (fl d) \<inter> bytes Bs = {}"
    and "\<And>d d'. extent (pend h d', 0) \<inter> bytes (fl d) = {}"
    and "\<And>d. extent (pend h d, 0) \<inter> bytes Bs = {}"
    and "\<And>d d'. d \<noteq> d' \<Longrightarrow> extent (pend h d, 0) \<inter> extent (pend h d', 0) = {}"
    and "\<And>d d'. unat (pstart h d') \<notin> bytes (fl d)"
    and "\<And>d. unat (pstart h d) \<notin> bytes Bs"
    and "\<And>d d'. unat (pstart h d) \<notin> extent (pend h d', 0)"
    and "\<And>d d'. d \<noteq> d' \<Longrightarrow> pstart h d \<noteq> pstart h d'"
    and "sorted_wrt (\<lambda>x y. extent x \<inter> extent y = {}) Bs"
  shows "heap_shape (h\<lparr>hmem := m\<rparr>) fl Bs"
proof -
  have st: "pstart (h\<lparr>hmem := m\<rparr>) = pstart h" "pend (h\<lparr>hmem := m\<rparr>) = pend h"
    by (simp_all add: pstart_def pend_def fun_eq_iff)
  show ?thesis
    unfolding heap_shape_def st
    using assms(1,3,4,5,7,8,9,11) assms(2,6,10) [of False True] by (simp add: Int_Un_distrib)
qed

lemma notin_extent: "unat x \<in> A \<Longrightarrow> extent (y, n) \<inter> A = {} \<Longrightarrow> x \<noteq> y"
  using extent_addr(2) by blast

lemma shape_apart:
  assumes sh: "heap_shape h fl Bs" and x: "unat x \<in> bytes Bs"
  shows "x \<noteq> pstart h d" "x \<noteq> pend h d" "x \<notin> addrs (fl d)"
proof -
  show "x \<noteq> pstart h d" using shape_start_Bs [OF sh, of d] x by auto
  show "x \<noteq> pend h d" by (rule notin_extent [OF x shape_end_Bs [OF sh]])
  show "x \<notin> addrs (fl d)" using shape_fl_Bs [OF sh, of d] x addrs_bytes by blast
qed

lemma shape_pools_apart:
  assumes sh: "heap_shape h fl Bs" and ne: "d \<noteq> d'"
    and x: "x = pstart h d' \<or> x = pend h d' \<or> x \<in> addrs (fl d')"
  shows "x \<noteq> pstart h d" "x \<noteq> pend h d" "x \<notin> addrs (fl d)"
proof -
  have st: "pstart h d \<noteq> pstart h d'" by (rule shape_starts [OF sh ne])
  have en: "pend h d \<noteq> pend h d'"
    using notin_extent [of "pend h d'" _ "pend h d" 0] shape_ends [OF sh ne] by force
  have fl: "bytes (fl d) \<inter> bytes (fl d') = {}" by (rule shape_fl [OF sh ne])
  have se: "pstart h a \<noteq> pend h b" for a b
    using shape_start_end [OF sh, of a b] extent_addr(2) by metis
  have sf: "pstart h a \<notin> addrs (fl b)" for a b
    using shape_start_fl [OF sh, of a b] addrs_bytes by blast
  have ef: "pend h a \<notin> addrs (fl b)" for a b
    using shape_end_fl [OF sh, of a b] addrs_bytes extent_addr(2) by blast
  show "x \<noteq> pstart h d" using x st se sf by metis
  show "x \<noteq> pend h d" using x en se ef by metis
  have "x \<in> addrs (fl d') \<Longrightarrow> x \<notin> addrs (fl d)"
    using fl addrs_bytes [of x "fl d"] addrs_bytes [of x "fl d'"] by blast
  then show "x \<notin> addrs (fl d)" using x sf ef by metis
qed

lemma shape_store:
  assumes "heap_shape h fl Bs" "unat x \<in> bytes Bs"
  shows "heap_shape (h\<lparr>hmem := (hmem h)(x := v)\<rparr>) fl Bs"
proof -
  let ?h = "h\<lparr>hmem := (hmem h)(x := v)\<rparr>"
  have *: "pstart ?h d = pstart h d" "pend ?h d = pend h d" for d
    by (simp_all add: pstart_def pend_def)
  have "pool_ok (hmem ?h) (pstart h d) (fl d) (pend h d)" for d
    using shape_apart [OF assms, of d] shape_pool [OF assms(1), of d]
    by (subst pool_ok_frame [where m = "hmem h"]) auto
  with assms(1) show ?thesis by (simp add: heap_shape_def *)
qed

lemma shape_cong:
  assumes "hmem h' = hmem h" "addr_xStart h' = addr_xStart h" "addr_xStartDMA h' = addr_xStartDMA h"
    "pxEnd h' = pxEnd h" "pxEndDMA h' = pxEndDMA h"
  shows "heap_shape h' fl Bs = heap_shape h fl Bs"
proof -
  have "pstart h' = pstart h" "pend h' = pend h"
    using assms by (auto simp: pstart_def pend_def fun_eq_iff)
  with assms(1) show ?thesis by (simp add: heap_shape_def)
qed

section \<open>Insertion, removal and splitting at the level of the heap\<close>

definition in_pool :: "heap5 \<Rightarrow> bool \<Rightarrow> fblk \<Rightarrow> bool" where
  "in_pool h d b \<longleftrightarrow> 16 \<le> unat (snd b) \<and> 16 \<le> unat (fst b) \<and> blk_ok b \<and>
     unat (fst b) + unat (snd b) \<le> unat (pend h d)"

lemma shape_insertable:
  assumes "heap_shape h fl ((b, k) # Bs)" "in_pool h d (b, k)"
  shows "insertable (b, k) (fl d) (unat (pend h d))"
  using assms shape_fl_Bs [OF assms(1), of d] by (auto simp: insertable_def in_pool_def bytes_def)

lemma shape_insert:
  assumes sh: "heap_shape h fl ((b, k) # Bs)" and k: "xBlockSize (hmem h b) = k"
    and ip: "in_pool h d (b, k)" and small: "fsum (fl d) + unat k < 2147483648"
  shows "\<exists>m. prvInsertBlockIntoFreeListWithDMA h b d = Inr (h\<lparr>hmem := m\<rparr>) \<and>
           heap_shape (h\<lparr>hmem := m\<rparr>) (fl(d := fl_insert (b, k) (fl d))) Bs \<and>
           fsum (fl_insert (b, k) (fl d)) = fsum (fl d) + unat k \<and>
           (\<forall>x. unat x \<in> bytes Bs \<longrightarrow> m x = hmem h x)"
proof -
  note pool = shape_pool [OF sh, of d]
  have ub: "unat b \<in> bytes ((b, k) # Bs)" by simp
  note ap = shape_apart [OF sh ub]
  note ins = shape_insertable [OF sh ip]
  obtain it where it: "insert_position (hmem h) (pstart h d) b = Some it"
    and pl: "pool_ok (link_block (hmem h) it b (pend h d)) (pstart h d)
               (fl_insert (b, k) (fl d)) (pend h d)"
    and fr: "\<forall>x. x \<noteq> pstart h d \<longrightarrow> x \<noteq> b \<longrightarrow> x \<notin> addrs (fl d) \<longrightarrow>
               link_block (hmem h) it b (pend h d) x = hmem h x"
    using pool_insert [OF pool k ins] ip ap(1) [of d] small by (auto simp: in_pool_def)
  let ?m = "link_block (hmem h) it b (pend h d)" and ?fl = "fl(d := fl_insert (b, k) (fl d))"
  have sp: "spaced 16 (fl d) (unat (pend h d))" using pool by (simp add: pool_ok_def)
  have fresh: "extent (b, k) \<inter> bytes Bs = {}"
    using shape_Bs [OF sh] by (simp only: disjoint_sym2)
  have sub: "bytes (?fl d') \<subseteq> bytes (fl d') \<union> extent (b, k)" for d'
    using extent_fl_insert [OF sp ins] by (auto simp: bytes_def)
  have sub': "d' \<noteq> d \<Longrightarrow> bytes (?fl d') = bytes (fl d')" for d' by simp
  have pools: "pool_ok ?m (pstart h d') (?fl d') (pend h d')" for d'
  proof (cases "d' = d")
    case False
    have "?m x = hmem h x" if "x = pstart h d' \<or> x = pend h d' \<or> x \<in> addrs (fl d')" for x
      using shape_pools_apart [OF sh False [symmetric] that] ap that fr by metis
    then show ?thesis
      using False shape_pool [OF sh, of d'] by (subst pool_ok_frame [where m = "hmem h"]) auto
  qed (simp add: pl)
  have "bytes (?fl d1) \<inter> bytes (?fl d2) = {}" if "d1 \<noteq> d2" for d1 d2
    using sub [of d1] sub [of d2] sub' [of d1] sub' [of d2] that shape_fl [OF sh that]
      shape_fl_Bs [OF sh, of d1] shape_fl_Bs [OF sh, of d2] by fastforce
  moreover have "bytes (?fl d') \<inter> bytes Bs = {}" for d'
    using sub [of d'] shape_fl_Bs [OF sh, of d'] fresh by fastforce
  moreover have "extent (pend h d'', 0) \<inter> bytes (?fl d') = {}" for d' d''
    using sub [of d'] shape_end_fl [OF sh, of d'' d'] shape_end_Bs [OF sh, of d''] by fastforce
  moreover have "extent (pend h d', 0) \<inter> bytes Bs = {}" for d'
    using shape_end_Bs [OF sh, of d'] by auto
  moreover have "unat (pstart h d'') \<notin> bytes (?fl d')" for d' d''
    using sub [of d'] shape_start_fl [OF sh, of d'' d'] shape_start_Bs [OF sh, of d''] by fastforce
  moreover have "unat (pstart h d') \<notin> bytes Bs" for d'
    using shape_start_Bs [OF sh, of d'] by auto
  moreover have "sorted_wrt (\<lambda>x y. extent x \<inter> extent y = {}) Bs"
    using shape_Bs [OF sh] by simp
  ultimately have "heap_shape (h\<lparr>hmem := ?m\<rparr>) ?fl Bs"
    by (intro shape_memI pools shape_ends [OF sh] shape_start_end [OF sh] shape_starts [OF sh])
  moreover have "prvInsertBlockIntoFreeListWithDMA h b d = Inr (h\<lparr>hmem := ?m\<rparr>)"
    using it by (simp add: prvInsertBlockIntoFreeListWithDMA_def pstart_def pend_def Let_def)
  moreover have "?m x = hmem h x" if "unat x \<in> bytes Bs" for x
  proof -
    have "x \<noteq> b" using that fresh extent_addr(2) [of b k] by (metis IntI empty_iff)
    with that shape_apart [OF sh, of x] fr show ?thesis by simp
  qed
  ultimately show ?thesis using fsum_fl_insert [OF sp ins] by blast
qed

lemma shape_remove:
  assumes sh: "heap_shape h fl Bs" and fl: "fl d = l @ (a, n) # r"
  defines "m \<equiv> set_next (hmem h) (prev_of (pstart h d) l) (pxNextFreeBlock (hmem h a))"
  shows "heap_shape (h\<lparr>hmem := m\<rparr>) (fl(d := l @ r)) ((a, n) # Bs)"
    and "\<forall>x. unat x \<in> extent (a, n) \<union> bytes Bs \<longrightarrow> m x = hmem h x"
proof -
  let ?q = "prev_of (pstart h d) l" and ?fl = "fl(d := l @ r)"
  note pool = shape_pool [OF sh, of d, unfolded fl]
  note rem = pool_remove [OF pool]
  have sp: "spaced 16 (l @ (a, n) # r) (unat (pend h d))" using pool by (simp add: pool_ok_def)
  have mem: "bytes (?fl d') \<subseteq> bytes (fl d')" for d' by (auto simp: fl)
  have an: "extent (a, n) \<subseteq> bytes (fl d)" by (auto simp: fl)
  have gap: "extent (a, n) \<inter> bytes (l @ r) = {}"
  proof -
    obtain mid where lm: "spaced 16 l mid" "mid \<le> unat a"
        and rm: "spaced (unat a + flen n) r (unat (pend h d))"
      using sp unfolding spaced_append by auto
    have "extent x \<inter> extent (a, n) = {}" if "x \<in> set l" for x
      using spaced_mem [OF lm(1), of "fst x" "snd x"] that lm(2) by (auto simp: extent_def)
    moreover have "extent x \<inter> extent (a, n) = {}" if "x \<in> set r" for x
      using spaced_mem [OF rm, of "fst x" "snd x"] that by (auto simp: extent_def)
    ultimately show ?thesis unfolding bytes_def set_append by blast
  qed
  have q: "?q = pstart h d \<or> ?q \<in> addrs (fl d)" using rem(4) by (auto simp: fl)
  have pools: "pool_ok m (pstart h d') (?fl d') (pend h d')" for d'
  proof (cases "d' = d")
    case False
    have "m x = hmem h x" if "x = pstart h d' \<or> x = pend h d' \<or> x \<in> addrs (fl d')" for x
      using shape_pools_apart [OF sh False [symmetric] that] q by (auto simp: m_def set_next_def)
    then show ?thesis
      using False shape_pool [OF sh, of d'] by (subst pool_ok_frame [where m = "hmem h"]) auto
  qed (use rem(1) in \<open>simp add: m_def\<close>)
  have "bytes (?fl d1) \<inter> bytes (?fl d2) = {}" if "d1 \<noteq> d2" for d1 d2
    using mem [of d1] mem [of d2] shape_fl [OF sh that] by blast
  moreover have "bytes (?fl d') \<inter> bytes ((a, n) # Bs) = {}" for d'
  proof (cases "d' = d")
    case True
    then show ?thesis using gap mem [of d] shape_fl_Bs [OF sh, of d] by (auto simp: fl)
  next
    case False
    then show ?thesis using an mem [of d'] shape_fl [OF sh False] shape_fl_Bs [OF sh, of d'] by auto
  qed
  moreover have "extent (pend h d'', 0) \<inter> bytes (?fl d') = {}" for d' d''
    using mem [of d'] shape_end_fl [OF sh, of d'' d'] by blast
  moreover have "extent (pend h d', 0) \<inter> bytes ((a, n) # Bs) = {}" for d'
    using an shape_end_fl [OF sh, of d' d] shape_end_Bs [OF sh, of d'] by auto
  moreover have "unat (pstart h d'') \<notin> bytes (?fl d')" for d' d''
    using mem [of d'] shape_start_fl [OF sh, of d'' d'] by blast
  moreover have "unat (pstart h d') \<notin> bytes ((a, n) # Bs)" for d'
    using an shape_start_fl [OF sh, of d' d] shape_start_Bs [OF sh, of d'] by auto
  moreover have "sorted_wrt (\<lambda>x y. extent x \<inter> extent y = {}) ((a, n) # Bs)"
    using an shape_Bs [OF sh] shape_fl_Bs [OF sh, of d] unfolding disjoint_sym2 by blast
  ultimately show "heap_shape (h\<lparr>hmem := m\<rparr>) ?fl ((a, n) # Bs)"
    by (intro shape_memI pools shape_ends [OF sh] shape_start_end [OF sh] shape_starts [OF sh])
  show "\<forall>x. unat x \<in> extent (a, n) \<union> bytes Bs \<longrightarrow> m x = hmem h x"
  proof (intro allI impI)
    fix x :: u32 assume x: "unat x \<in> extent (a, n) \<union> bytes Bs"
    have "x \<noteq> ?q"
    proof
      assume "x = ?q"
      then have "x = pstart h d \<or> unat x \<in> bytes l"
        using rem(4) addrs_bytes [of x l] by auto
      then show False
        using x an gap shape_start_fl [OF sh, of d d] shape_start_Bs [OF sh, of d]
          shape_fl_Bs [OF sh, of d] by (auto simp: fl)
    qed
    then show "m x = hmem h x" by (simp add: m_def set_next_def)
  qed
qed

lemma shape_split:
  assumes sh: "heap_shape h fl ((a, n) # Bs)"
    and w: "16 \<le> unat w" "unat w + 16 \<le> unat n" and nowrap: "unat a + unat n < 4294967296"
  shows "heap_shape h fl ((a + w, n - w) # (a, w) # Bs)"
    and "unat (a + w) = unat a + unat w" "unat (n - w) = unat n - unat w"
    and "extent (a, n) = extent (a, w) \<union> extent (a + w, n - w)"
proof -
  show aw: "unat (a + w) = unat a + unat w" using w nowrap by (intro unat_plus32) linarith
  show nw: "unat (n - w) = unat n - unat w" using w by (intro unat_minus32) linarith
  have disj: "extent (a, w) \<inter> extent (a + w, n - w) = {}"
    using w by (auto simp: extent_def aw)
  show un: "extent (a, n) = extent (a, w) \<union> extent (a + w, n - w)"
    using w by (auto simp: extent_def aw nw)
  have b: "bytes ((a + w, n - w) # (a, w) # Bs) = bytes ((a, n) # Bs)"
    by (auto simp: un)
  have "sorted_wrt (\<lambda>x y. extent x \<inter> extent y = {}) ((a + w, n - w) # (a, w) # Bs)"
    using shape_Bs [OF sh] disj unfolding disjoint_sym2 by (auto simp: un)
  then show "heap_shape h fl ((a + w, n - w) # (a, w) # Bs)"
    using sh unfolding heap_shape_def b by blast
qed

section \<open>The heap invariant\<close>

type_synonym live = "u32 \<times> u32 \<times> bool"

fun lblk :: "live \<Rightarrow> fblk" where
  "lblk (a, n, d) = (a, n)"

fun live_ok :: "heap5 \<Rightarrow> live \<Rightarrow> bool" where
  "live_ok h (a, n, d) \<longleftrightarrow>
     hmem h a = \<lparr>pxNextFreeBlock = (if d then DMA_BUFFER_MARK else NULL),
                 xBlockSize = n OR 0x80000000\<rparr> \<and>
     in_pool h d (a, n)"

definition heap_inv :: "heap5 \<Rightarrow> nat \<Rightarrow> (bool \<Rightarrow> fblk list) \<Rightarrow> live list \<Rightarrow> bool" where
  "heap_inv h T fl As \<longleftrightarrow>
     heap_shape h fl (map lblk As) \<and> (\<forall>x\<in>set As. live_ok h x) \<and>
     unat (xFreeBytesRemaining h) = fsum (fl False) + fsum (fl True) \<and>
     fsum (fl False) + fsum (fl True) + fsum (map lblk As) = T \<and> T < 2147483648 \<and>
     xMinimumEverFreeBytesRemaining h \<le> xFreeBytesRemaining h \<and>
     xBlockAllocatedBit h = 0x80000000"

lemma live_frame:
  assumes "\<forall>x. unat x \<in> bytes (map lblk As) \<longrightarrow> hmem h' x = hmem h x"
    and "pend h' = pend h" and "\<forall>x\<in>set As. live_ok h x"
  shows "\<forall>x\<in>set As. live_ok h' x"
proof
  fix x assume x: "x \<in> set As"
  obtain a n d where xa: "x = (a, n, d)" by (cases x) auto
  have "unat a \<in> bytes (map lblk As)" using x xa by (force simp: bytes_def)
  with assms x xa show "live_ok h' x" by (auto simp: in_pool_def)
qed

end
