(* ===== verification/Heap5_Ops.thy ===== *)
theory Heap5_Ops
  imports Heap5_Inv
begin

unbundle bit_operations_syntax

text \<open>
  The operations of the heap under \<open>heap_inv\<close>: allocation and freeing return, keep the
  invariant, and do what their callers rely on.
\<close>

section \<open>Constants and sizes\<close>

lemma heap_consts [simp]:
  "xHeapStructSize = 16" "heapMINIMUM_BLOCK_SIZE = 32"
  "portBYTE_ALIGNMENT = 16" "portBYTE_ALIGNMENT_MASK = 15"
  by (simp_all add: xHeapStructSize_def heapMINIMUM_BLOCK_SIZE_def portBYTE_ALIGNMENT_def
      portBYTE_ALIGNMENT_MASK_def)

lemma invD:
  assumes "heap_inv h T fl As"
  shows inv_shape: "heap_shape h fl (map lblk As)"
    and inv_live: "\<forall>x\<in>set As. live_ok h x"
    and inv_free: "unat (xFreeBytesRemaining h) = fsum (fl False) + fsum (fl True)"
    and inv_total: "fsum (fl False) + fsum (fl True) + fsum (map lblk As) = T" "T < 2147483648"
    and inv_least: "xMinimumEverFreeBytesRemaining h \<le> xFreeBytesRemaining h"
    and inv_bit: "xBlockAllocatedBit h = 0x80000000"
    and inv_pool: "pool_ok (hmem h) (pstart h d) (fl d) (pend h d)"
  using assms by (auto simp: heap_inv_def dest: shape_pool)

text \<open>A block of a free list lies within its pool.\<close>

lemma free_in_pool:
  assumes "pool_ok m s bs (pend h d)" "(a, n) \<in> set bs" "16 \<le> unat n"
  shows "in_pool h d (a, n)"
proof -
  from assms(1) have "spaced 16 bs (unat (pend h d))" "blk_ok (a, n)"
    using assms(2) by (auto simp: pool_ok_def)
  with assms(2,3) show ?thesis by (auto simp: in_pool_def dest: spaced_mem)
qed

lemma in_pool_cong: "pend h' d = pend h d \<Longrightarrow> in_pool h' d b = in_pool h d b"
  by (simp add: in_pool_def)

section \<open>Marking a detached block as allocated\<close>

definition mark_live :: "heap5 \<Rightarrow> u32 \<Rightarrow> bool \<Rightarrow> heap5" where
  "mark_live h a d =
     (let free = xFreeBytesRemaining h - xBlockSize (hmem h a);
          least = (if free < xMinimumEverFreeBytesRemaining h then free
                   else xMinimumEverFreeBytesRemaining h);
          m = set_size (hmem h) a (xBlockSize (hmem h a) OR xBlockAllocatedBit h)
      in h\<lparr>xFreeBytesRemaining := free, xMinimumEverFreeBytesRemaining := least,
           hmem := set_next m a (if d then DMA_BUFFER_MARK else NULL)\<rparr>)"

lemma take_block_mark:
  "take_block h p a w d =
     (let h1 = h\<lparr>hmem := set_next (hmem h) p (pxNextFreeBlock (hmem h a))\<rparr>
      in res_bind
           (if xBlockSize (hmem h1 a) - w > 32
            then prvInsertBlockIntoFreeListWithDMA
                   (h1\<lparr>hmem := set_size (set_size (hmem h1) (a + w) (xBlockSize (hmem h1 a) - w)) a w\<rparr>)
                   (a + w) d
            else Inr h1)
           (\<lambda>h2. Inr (pxNextFreeBlock (hmem h p) + 16, mark_live h2 a d)))"
  by (simp add: take_block_def mark_live_def Let_def)

lemma link_both [simp]:
  "(r :: BlockLink_t)\<lparr>xBlockSize := s, pxNextFreeBlock := p\<rparr> =
     \<lparr>pxNextFreeBlock = p, xBlockSize = s\<rparr>"
  by (cases r) simp

lemma mark_live_inv:
  assumes sh: "heap_shape h fl ((a, k) # map lblk As)" and k: "xBlockSize (hmem h a) = k"
    and ip: "in_pool h d (a, k)" and lv: "\<forall>x\<in>set As. live_ok h x"
    and free: "unat (xFreeBytesRemaining h) = fsum (fl False) + fsum (fl True) + unat k"
    and total: "fsum (fl False) + fsum (fl True) + unat k + fsum (map lblk As) = T"
      "T < 2147483648"
    and bit: "xBlockAllocatedBit h = 0x80000000"
  shows "heap_inv (mark_live h a d) T fl ((a, k, d) # As)"
proof -
  let ?h = "mark_live h a d"
  let ?v = "\<lparr>pxNextFreeBlock = (if d then DMA_BUFFER_MARK else NULL),
              xBlockSize = k OR 0x80000000\<rparr>"
  have mem: "hmem ?h = (hmem h)(a := ?v)"
    using k bit by (simp add: mark_live_def set_next_def set_size_def Let_def)
  have ends: "pend ?h = pend h"
    by (simp add: mark_live_def pend_def Let_def fun_eq_iff)
  have "heap_shape (h\<lparr>hmem := (hmem h)(a := ?v)\<rparr>) fl ((a, k) # map lblk As)"
    by (rule shape_store [OF sh]) simp
  then have sh': "heap_shape ?h fl (map lblk ((a, k, d) # As))"
    by (subst shape_cong [of _ "h\<lparr>hmem := (hmem h)(a := ?v)\<rparr>"])
      (simp_all add: mem, simp_all add: mark_live_def Let_def)
  have "extent (a, k) \<inter> bytes (map lblk As) = {}"
    using shape_Bs [OF sh] by (simp only: disjoint_sym2)
  then have "unat a \<notin> bytes (map lblk As)" using extent_addr(2) by blast
  then have lv': "\<forall>x\<in>set As. live_ok ?h x"
    by (intro live_frame [OF _ ends lv]) (auto simp: mem)
  have "live_ok ?h (a, k, d)" using ip by (simp add: mem in_pool_cong [OF fun_cong [OF ends]])
  moreover have "unat (xFreeBytesRemaining ?h) = fsum (fl False) + fsum (fl True)"
    using free k by (simp add: mark_live_def Let_def unat_minus32)
  moreover have "xMinimumEverFreeBytesRemaining ?h \<le> xFreeBytesRemaining ?h"
    by (simp add: mark_live_def Let_def not_less)
  moreover have "xBlockAllocatedBit ?h = 0x80000000"
    using bit by (simp add: mark_live_def Let_def)
  ultimately show ?thesis
    using sh' lv' total by (simp add: heap_inv_def)
qed

section \<open>Taking a block\<close>

lemma fsum_upd:
  "fsum ((fl(d := xs)) False) + fsum ((fl(d := xs)) True) + fsum (fl d) =
     fsum (fl False) + fsum (fl True) + fsum xs"
  by (cases d) simp_all

lemma take_block_inv:
  assumes inv: "heap_inv h T fl As" and fl: "fl d = l @ (a, n) # r"
    and w: "\<not> n < w" "aligned16 w" "16 \<le> unat w"
  shows "\<exists>h' k fl'. take_block h (prev_of (pstart h d) l) a w d = Inr (a + 16, h') \<and>
           heap_inv h' T fl' ((a, k, d) # As) \<and> unat w \<le> unat k \<and> unat k \<le> unat w + 32"
proof -
  note sh = inv_shape [OF inv] and pool = inv_pool [OF inv, of d]
  let ?q = "prev_of (pstart h d) l" and ?Bs = "map lblk As"
  let ?h1 = "h\<lparr>hmem := set_next (hmem h) ?q (pxNextFreeBlock (hmem h a))\<rparr>"
  note rem = pool_remove [OF pool [unfolded fl]] and srem = shape_remove [OF sh fl]
  have wn: "unat w \<le> unat n" using w(1) by (simp add: less_iff32)
  have ip: "in_pool h d (a, n)" using free_in_pool [OF pool, of a n] fl wn w(3) by auto
  have nowrap: "unat a + unat n < 4294967296"
    using ip by (auto simp: in_pool_def intro: le_less_trans [OF _ unat_lt32])
  have n1: "xBlockSize (hmem ?h1 a) = n" using srem(2) rem(3) by simp
  have ends: "pend (h\<lparr>hmem := m\<rparr>) = pend h" for m by (simp add: pend_def fun_eq_iff)
  have diff: "n - w > 32 \<longleftrightarrow> unat w + 32 < unat n"
    using wn by (auto simp: less_iff32 unat_minus32)
  have lv1: "\<forall>x\<in>set As. live_ok ?h1 x"
    using srem(2) by (intro live_frame [OF _ ends inv_live [OF inv]]) auto
  let ?fl1 = "fl(d := l @ r)"
  have sum1: "fsum (?fl1 False) + fsum (?fl1 True) + unat n = fsum (fl False) + fsum (fl True)"
    using fsum_upd [of fl d "l @ r"] by (simp add: fl)
  have alloc: "take_block h ?q a w d =
     res_bind (if n - w > 32
               then prvInsertBlockIntoFreeListWithDMA
                      (?h1\<lparr>hmem := set_size (set_size (hmem ?h1) (a + w) (n - w)) a w\<rparr>) (a + w) d
               else Inr ?h1)
       (\<lambda>h2. Inr (a + 16, mark_live h2 a d))"
    unfolding take_block_mark Let_def n1 rem(2) ..
  show ?thesis
  proof (cases "n - w > 32")
    case False
    have "heap_inv (mark_live ?h1 a d) T ?fl1 ((a, n, d) # As)"
      using srem(1) n1 ip lv1 sum1 inv_free [OF inv] inv_total [OF inv] inv_bit [OF inv]
      by (intro mark_live_inv) (simp_all add: in_pool_cong [OF fun_cong [OF ends]])
    with alloc False diff wn show ?thesis by auto
  next
    case True
    with diff have big: "unat w + 32 < unat n" by simp
    let ?m = "set_size (set_size (hmem ?h1) (a + w) (n - w)) a w"
    let ?h2 = "?h1\<lparr>hmem := ?m\<rparr>"
    have w16: "unat w + 16 \<le> unat n" using big by simp
    note sp = shape_split [OF srem(1) w(3) w16 nowrap]
    have ne: "a + w \<noteq> a" using sp(2) w(3) by auto
    have "heap_shape ?h2 ?fl1 ((a + w, n - w) # (a, w) # ?Bs)"
      unfolding set_size_def
      using shape_store [OF shape_store [OF sp(1), of "a + w"], of a] by simp
    moreover have "xBlockSize (hmem ?h2 (a + w)) = n - w"
      using ne by (simp add: set_size_def)
    moreover have "aligned16 (a + w)" "aligned16 (n - w)"
      using ip w(2) wn by (auto simp: in_pool_def blk_ok_def intro: aligned16_plus aligned16_minus)
    then have "in_pool ?h2 d (a + w, n - w)"
      using ip sp(2,3) big by (auto simp: in_pool_def blk_ok_def pend_def)
    moreover have "fsum (?fl1 d) + unat (n - w) < 2147483648"
    proof -
      have "fsum (?fl1 d) + unat n = fsum (fl d)" by (simp add: fl)
      moreover have "fsum (fl d) \<le> fsum (fl False) + fsum (fl True)" by (cases d) simp_all
      ultimately show ?thesis using inv_total [OF inv] sp(3) by linarith
    qed
    ultimately obtain m3 where
      ins: "prvInsertBlockIntoFreeListWithDMA ?h2 (a + w) d = Inr (?h2\<lparr>hmem := m3\<rparr>)"
      and sh3: "heap_shape (?h2\<lparr>hmem := m3\<rparr>)
                  (?fl1(d := fl_insert (a + w, n - w) (?fl1 d))) ((a, w) # ?Bs)"
      and sum3: "fsum (fl_insert (a + w, n - w) (?fl1 d)) = fsum (?fl1 d) + unat (n - w)"
      and fr3: "\<forall>x. unat x \<in> bytes ((a, w) # ?Bs) \<longrightarrow> m3 x = hmem ?h2 x"
      using shape_insert [of ?h2 ?fl1 "a + w" "n - w" "(a, w) # ?Bs" d] by blast
    let ?h3 = "?h2\<lparr>hmem := m3\<rparr>" and ?fl3 = "?fl1(d := fl_insert (a + w, n - w) (?fl1 d))"
    have "xBlockSize (hmem ?h3 a) = w" using fr3 by (simp add: set_size_def)
    moreover have "in_pool ?h3 d (a, w)"
      using ip w big by (auto simp: in_pool_def blk_ok_def pend_def)
    moreover have "\<forall>x\<in>set As. live_ok ?h3 x"
    proof (rule live_frame [OF _ _ lv1])
      show "\<forall>x. unat x \<in> bytes ?Bs \<longrightarrow> hmem ?h3 x = hmem ?h1 x"
      proof (intro allI impI)
        fix x :: u32 assume x: "unat x \<in> bytes ?Bs"
        have "extent (a, n) \<inter> bytes ?Bs = {}"
          using shape_Bs [OF srem(1)] by (simp only: disjoint_sym2)
        then have "x \<noteq> a" "x \<noteq> a + w"
          using x sp(4) extent_addr(2) by blast+
        with fr3 x show "hmem ?h3 x = hmem ?h1 x" by (simp add: set_size_def)
      qed
    qed (simp add: pend_def fun_eq_iff)
    moreover have "fsum (?fl3 False) + fsum (?fl3 True) + unat w =
        fsum (fl False) + fsum (fl True)"
      using sum1 sum3 sp(3) wn fsum_upd [of ?fl1 d "fl_insert (a + w, n - w) (?fl1 d)"]
      by linarith
    ultimately have "heap_inv (mark_live ?h3 a d) T ?fl3 ((a, w, d) # As)"
      using sh3 inv_free [OF inv] inv_total [OF inv] inv_bit [OF inv]
      by (intro mark_live_inv) simp_all
    with alloc True ins show ?thesis by auto
  qed
qed

section \<open>The rounded request\<close>

lemma adjust_wanted_0 [simp]: "adjust_wanted 0 = 0"
  by (simp add: adjust_wanted_def)

lemma round_up16:
  "n + 16 + (if (n + 16) mod 16 = 0 then 0 else 16 - (n + 16) mod 16) = 16 * ((n + 31) div 16)"
  for n :: nat
proof -
  obtain q r where n: "n = 16 * q + r" "r < 16"
    using mod_less_divisor [of 16 n] mult_div_mod_eq [of 16 n] by (metis zero_less_numeral)
  have "(n + 31) div 16 = q + 1 + (r + 15) div 16" using n by simp
  moreover have "(r + 15) div 16 = (if r = 0 then 0 else 1)"
    using n(2) div_nat_eqI [of 16 1 "r + 15"] by auto
  moreover have "(n + 16) mod 16 = r" using n by simp
  ultimately show ?thesis using n by simp
qed

lemma adjust_wanted_unat:
  assumes "0 < x" "unat x < 2147483648"
  shows "unat (adjust_wanted x) = 16 * ((unat x + 31) div 16)"
proof -
  have w: "unat (x + 16) = unat x + 16"
    using assms(2) by (subst unat_plus32) simp_all
  let ?r = "(unat x + 16) mod 16"
  have r: "unat ((x + 16) AND 15) = ?r" by (simp add: and_15_nat w)
  have r0: "(x + 16) AND 15 \<noteq> 0 \<longleftrightarrow> ?r \<noteq> 0" by (simp add: unat_eq_iff32 r)
  have r16: "unat (16 - ((x + 16) AND 15)) = 16 - ?r"
    by (subst unat_minus32) (simp_all add: r)
  have "unat (adjust_wanted x) = unat x + 16 + (if ?r = 0 then 0 else 16 - ?r)"
  proof (cases "?r = 0")
    case True
    then show ?thesis using assms(1) r0 w by (simp add: adjust_wanted_def Let_def)
  next
    case False
    have "unat (x + 16 + (16 - ((x + 16) AND 15))) = unat x + 16 + (16 - ?r)"
      using assms(2) by (subst unat_plus32) (simp_all add: w r16)
    with False show ?thesis using assms(1) r0 by (simp add: adjust_wanted_def Let_def)
  qed
  also have "\<dots> = 16 * ((unat x + 31) div 16)" by (rule round_up16)
  finally show ?thesis .
qed

lemma adjust_wanted_props:
  assumes "0 < x" "unat x < 2147483648"
  shows "aligned16 (adjust_wanted x)" "32 \<le> unat (adjust_wanted x)" "0 < adjust_wanted x"
    "unat x + 16 \<le> unat (adjust_wanted x)" "unat (adjust_wanted x) < unat x + 32"
proof -
  have x: "0 < unat x" using assms(1) by (simp add: less_iff32)
  show "aligned16 (adjust_wanted x)" by (simp add: aligned16_def adjust_wanted_unat [OF assms])
  show "32 \<le> unat (adjust_wanted x)" unfolding adjust_wanted_unat [OF assms] using x by presburger
  then show "0 < adjust_wanted x" by (simp add: less_iff32)
  show "unat x + 16 \<le> unat (adjust_wanted x)" unfolding adjust_wanted_unat [OF assms] by presburger
  show "unat (adjust_wanted x) < unat x + 32" unfolding adjust_wanted_unat [OF assms] by presburger
qed

section \<open>Allocation\<close>

text \<open>No block of the list is large enough for a request of \<open>w\<close> bytes, header included.\<close>

definition none_fits :: "u32 \<Rightarrow> fblk list \<Rightarrow> bool" where
  "none_fits w bs \<longleftrightarrow> (\<forall>x\<in>set bs. snd x < w)"

lemma fsum_member: "x \<in> set bs \<Longrightarrow> unat (snd x) \<le> fsum bs"
  by (induction bs) auto

lemma pool_names:
  "pstart h False = addr_xStart h" "pstart h True = addr_xStartDMA h"
  "pend h False = pxEnd h" "pend h True = pxEndDMA h"
  by (simp_all add: pstart_def pend_def)

lemma pend_facts:
  assumes "heap_inv h T fl As"
  shows "pend h d \<noteq> NULL" "pend h False \<noteq> pend h True"
    "pxNextFreeBlock (hmem h (pend h d)) = NULL"
proof -
  have p: "pool_ok (hmem h) (pstart h d) (fl d) (pend h d)" by (rule inv_pool [OF assms])
  then have "16 \<le> unat (pend h d)" by (auto simp: pool_ok_def dest: spaced_le)
  then show "pend h d \<noteq> NULL" by auto
  have "extent (pend h False, 0) \<inter> extent (pend h True, 0) = {}"
    by (rule shape_ends [OF inv_shape [OF assms]]) simp
  then show "pend h False \<noteq> pend h True" using extent_addr(2) by fastforce
  show "pxNextFreeBlock (hmem h (pend h d)) = NULL" using p by (simp add: pool_ok_def)
qed

lemma pool_search:
  assumes inv: "heap_inv h T fl As"
  obtains (none) q where "none_fits w (fl d)"
      "find_fit (hmem h) w (pstart h d) (pxNextFreeBlock (hmem h (pstart h d))) = Some (q, pend h d)"
  | (fit) l a n r where "fl d = l @ (a, n) # r" "\<not> n < w" "a \<noteq> pend h d" "none_fits w l"
      "find_fit (hmem h) w (pstart h d) (pxNextFreeBlock (hmem h (pstart h d))) =
         Some (prev_of (pstart h d) l, a)"
proof -
  have p: "fchain (hmem h) (pxNextFreeBlock (hmem h (pstart h d))) (fl d) (pend h d)"
      "spaced 16 (fl d) (unat (pend h d))"
    using inv_pool [OF inv, of d] by (auto simp: pool_ok_def)
  show thesis
  proof (cases rule: find_fit_cases [OF p(1) pend_facts(3) [OF inv] p(2) pend_facts(1) [OF inv],
        where w = w, case_names None Fit])
    case (None q)
    then show thesis by (intro none) (auto simp: none_fits_def)
  next
    case (Fit l a n r)
    then show thesis by (intro fit) (auto simp: none_fits_def)
  qed
qed

lemma fits_free_bytes:
  assumes inv: "heap_inv h T fl As" and "\<not> w \<le> xFreeBytesRemaining h"
  shows "none_fits w (fl d)"
  unfolding none_fits_def
proof
  fix x assume "x \<in> set (fl d)"
  then have "unat (snd x) \<le> fsum (fl d)" by (rule fsum_member)
  moreover have "fsum (fl d) \<le> fsum (fl False) + fsum (fl True)" by (cases d) simp_all
  ultimately show "snd x < w"
    using assms(2) inv_free [OF inv] by (simp add: less_iff32 le_iff32)
qed

text \<open>What an allocation of \<open>w\<close> bytes gives when it does not return null.\<close>

definition alloc_result ::
  "heap5 \<Rightarrow> nat \<Rightarrow> live list \<Rightarrow> u32 \<Rightarrow> bool \<Rightarrow> u32 \<times> heap5 \<Rightarrow> bool" where
  "alloc_result h T As w d r \<longleftrightarrow>
     (\<exists>a k fl'. fst r = a + 16 \<and> heap_inv (snd r) T fl' ((a, k, d) # As) \<and>
        unat w + 16 \<le> unat k \<and> unat k \<le> unat w + 63)"

lemma take_block_result:
  assumes inv: "heap_inv h T fl As" and fl: "fl d = l @ (a, n) # r"
    and w: "\<not> n < adjust_wanted w" "0 < w" "unat w < 2147483648"
  shows "\<exists>r. take_block h (prev_of (pstart h d) l) a (adjust_wanted w) d = Inr r \<and>
           alloc_result h T As w d r"
proof -
  note aw = adjust_wanted_props [OF w(2,3)]
  obtain h' k fl' where
    "take_block h (prev_of (pstart h d) l) a (adjust_wanted w) d = Inr (a + 16, h')"
    "heap_inv h' T fl' ((a, k, d) # As)" "unat (adjust_wanted w) \<le> unat k"
    "unat k \<le> unat (adjust_wanted w) + 32"
    using take_block_inv [OF inv fl w(1) aw(1)] aw(2) by auto
  then show ?thesis using aw(4,5) by (fastforce simp: alloc_result_def)
qed

lemma malloc_spec:
  assumes inv: "heap_inv h T fl As"
  shows "if w = 0 \<or> 2147483648 \<le> unat w \<or>
            none_fits (adjust_wanted w) (fl False) \<and> none_fits (adjust_wanted w) (fl True)
         then p_pvPortMalloc h w = Inr (NULL, h)
         else \<exists>r. p_pvPortMalloc h w = Inr r \<and>
                alloc_result h T As w (none_fits (adjust_wanted w) (fl False)) r"
proof (cases "w = 0 \<or> 2147483648 \<le> unat w")
  case True
  then show ?thesis
    using pend_facts(1) [OF inv, of False] inv_bit [OF inv]
    by (auto simp: p_pvPortMalloc_def pend_def top_bit_clear)
next
  case False
  then have w: "0 < w" "unat w < 2147483648" by (auto simp: word_gt_0)
  let ?w = "adjust_wanted w"
  note aw = adjust_wanted_props [OF w]
  have pe: "pxEnd h \<noteq> NULL" "pxEndDMA h \<noteq> pxEnd h"
    using pend_facts(1) [OF inv, of False] pend_facts(2) [OF inv] by (auto simp: pend_def)
  have unfold: "p_pvPortMalloc h w =
     (if ?w \<le> xFreeBytesRemaining h
      then res_bind (res_of_option NoReturn (find_fit (hmem h) ?w (pstart h False)
                       (pxNextFreeBlock (hmem h (pstart h False)))))
        (\<lambda>(prev, blk).
           if blk = pend h False
           then res_bind (res_of_option NoReturn (find_fit (hmem h) ?w (pstart h True)
                            (pxNextFreeBlock (hmem h (pstart h True)))))
                  (\<lambda>(prev', blk'). if blk' \<noteq> pend h True then take_block h prev' blk' ?w True
                                   else Inr (NULL, h))
           else if blk \<noteq> pend h False then take_block h prev blk ?w False
           else Inr (NULL, h))
      else Inr (NULL, h))"
    unfolding pool_names using pe w aw inv_bit [OF inv]
    by (simp add: p_pvPortMalloc_def top_bit_clear Let_def)
  show ?thesis
  proof (cases "?w \<le> xFreeBytesRemaining h")
    case nofit: False
    then show ?thesis using fits_free_bytes [OF inv nofit] unfold by simp
  next
    case enough: True
    show ?thesis
    proof (cases rule: pool_search [OF inv, where d = False and w = ?w, case_names None Fit])
      case (Fit l a n r)
      then have "\<not> none_fits ?w (fl False)" by (auto simp: none_fits_def)
      with Fit False enough unfold take_block_result [OF inv Fit(1,2) w] show ?thesis by auto
    next
      case none: (None q)
      show ?thesis
      proof (cases rule: pool_search [OF inv, where d = True and w = ?w, case_names None Fit])
        case (Fit l a n r)
        then have "\<not> none_fits ?w (fl True)" by (auto simp: none_fits_def)
        with Fit none False enough unfold take_block_result [OF inv Fit(1,2) w] show ?thesis
          by auto
      next
        case (None q')
        with none enough unfold show ?thesis by simp
      qed
    qed
  qed
qed

lemma mallocDMA_spec:
  assumes inv: "heap_inv h T fl As"
  shows "if w = 0 \<or> 2147483648 \<le> unat w \<or> none_fits (adjust_wanted w) (fl True)
         then pvPortMallocDMA h w = Inr (NULL, h)
         else \<exists>r. pvPortMallocDMA h w = Inr r \<and> alloc_result h T As w True r"
proof (cases "w = 0 \<or> 2147483648 \<le> unat w")
  case True
  then show ?thesis
    using pend_facts(1) [OF inv, of False] inv_bit [OF inv]
    by (auto simp: pvPortMallocDMA_def pend_def top_bit_clear)
next
  case False
  then have w: "0 < w" "unat w < 2147483648" by (auto simp: word_gt_0)
  let ?w = "adjust_wanted w"
  note aw = adjust_wanted_props [OF w]
  have unfold: "pvPortMallocDMA h w =
     (if ?w \<le> xFreeBytesRemaining h
      then res_bind (res_of_option NoReturn (find_fit (hmem h) ?w (pstart h True)
                       (pxNextFreeBlock (hmem h (pstart h True)))))
        (\<lambda>(prev, blk). if blk \<noteq> pend h True then take_block h prev blk ?w True
                       else Inr (NULL, h))
      else Inr (NULL, h))"
    unfolding pool_names using pend_facts(1) [OF inv, of False] w aw inv_bit [OF inv]
    by (simp add: pvPortMallocDMA_def top_bit_clear pool_names Let_def)
  show ?thesis
  proof (cases "?w \<le> xFreeBytesRemaining h")
    case nofit: False
    then show ?thesis using fits_free_bytes [OF inv nofit, of True] unfold by simp
  next
    case enough: True
    show ?thesis
    proof (cases rule: pool_search [OF inv, where d = True and w = ?w, case_names None Fit])
      case (Fit l a n r)
      then have "\<not> none_fits ?w (fl True)" by (auto simp: none_fits_def)
      with Fit False enough unfold take_block_result [OF inv Fit(1,2) w] show ?thesis by auto
    next
      case (None q)
      with enough unfold show ?thesis by simp
    qed
  qed
qed

section \<open>Freeing\<close>

text \<open>The order of the live blocks is of no consequence.\<close>

lemma fsum_append [simp]: "fsum (xs @ ys) = fsum xs + fsum ys"
  by (induction xs) auto

lemma inv_rotate: "heap_inv h T fl (xs @ x # ys) \<longleftrightarrow> heap_inv h T fl (x # xs @ ys)"
proof -
  have "bytes (map lblk (xs @ x # ys)) = bytes (map lblk (x # xs @ ys))" by auto
  moreover have "sorted_wrt (\<lambda>x y. extent x \<inter> extent y = {}) (map lblk (xs @ x # ys)) \<longleftrightarrow>
      sorted_wrt (\<lambda>x y. extent x \<inter> extent y = {}) (map lblk (x # xs @ ys))"
    by (simp add: sorted_wrt_append ball_Un Int_commute) blast
  ultimately have "heap_shape h fl (map lblk (xs @ x # ys)) \<longleftrightarrow>
      heap_shape h fl (map lblk (x # xs @ ys))"
    unfolding heap_shape_def by simp
  then show ?thesis unfolding heap_inv_def by (simp add: ac_simps)
qed

lemma live_head:
  assumes "heap_inv h T fl ((a, n, d) # As)"
  shows "live_ok h (a, n, d)" "in_pool h d (a, n)" "unat n < 2147483648"
    "unat (a + 16) = unat a + 16" "a + 16 \<noteq> NULL"
proof -
  show l: "live_ok h (a, n, d)" using inv_live [OF assms] by simp
  then show i: "in_pool h d (a, n)" by simp
  show "unat n < 2147483648" using inv_total [OF assms] by simp
  have "unat a + 16 \<le> unat (pend h d)" using i by (simp add: in_pool_def)
  then have "unat a + 16 < 4294967296" using unat_lt32 by (rule le_less_trans)
  then show u: "unat (a + 16) = unat a + 16" by (subst unat_plus32) simp_all
  show "a + 16 \<noteq> NULL"
  proof
    assume "a + 16 = NULL"
    with u show False by simp
  qed
qed

lemma free_unfold:
  assumes inv: "heap_inv h T fl ((a, n, d) # As)"
  shows "p_vPortFree h (a + 16) =
     prvInsertBlockIntoFreeListWithDMA
       (h\<lparr>hmem := (hmem h)(a := \<lparr>pxNextFreeBlock = NULL, xBlockSize = n\<rparr>),
          xFreeBytesRemaining := xFreeBytesRemaining h + n\<rparr>) a d"
proof -
  note l = live_head [OF inv]
  have a: "hmem h a = \<lparr>pxNextFreeBlock = (if d then DMA_BUFFER_MARK else NULL),
                 xBlockSize = n OR 0x80000000\<rparr>"
    using l(1) by simp
  have "DMA_BUFFER_MARK \<noteq> NULL" by (simp add: DMA_BUFFER_MARK_def)
  then show ?thesis
    using l(5) a top_bit_set_clear [OF l(3)] inv_bit [OF inv]
    by (cases d) (simp_all add: p_vPortFree_def set_size_def set_next_def Let_def
        del: not_numeral_eq)
qed

text \<open>Before the insertion: the header no longer carries the mark or the bit.\<close>

lemma cleared_shape:
  fixes h a n
  assumes inv: "heap_inv h T fl ((a, n, d) # As)"
  defines "h1 \<equiv> h\<lparr>hmem := (hmem h)(a := \<lparr>pxNextFreeBlock = NULL, xBlockSize = n\<rparr>),
          xFreeBytesRemaining := xFreeBytesRemaining h + n\<rparr>"
  shows "heap_shape h1 fl ((a, n) # map lblk As)" "in_pool h1 d (a, n)"
    "fsum (fl d) + unat n < 2147483648"
proof -
  let ?m = "(hmem h)(a := \<lparr>pxNextFreeBlock = NULL, xBlockSize = n\<rparr>)"
  have "heap_shape h fl ((a, n) # map lblk As)" using inv_shape [OF inv] by simp
  then have "heap_shape (h\<lparr>hmem := ?m\<rparr>) fl ((a, n) # map lblk As)"
    by (rule shape_store) simp
  then show "heap_shape h1 fl ((a, n) # map lblk As)"
    unfolding h1_def by (subst shape_cong [of _ "h\<lparr>hmem := ?m\<rparr>"]) simp_all
  have pe: "pend h1 = pend h" by (simp add: h1_def pend_def fun_eq_iff)
  show "in_pool h1 d (a, n)"
    using live_head(2) [OF inv] in_pool_cong [OF fun_cong [OF pe]] by blast
  have "fsum (fl d) \<le> fsum (fl False) + fsum (fl True)" by (cases d) simp_all
  then show "fsum (fl d) + unat n < 2147483648" using inv_total [OF inv] by simp
qed

lemma free_head_inv:
  assumes inv: "heap_inv h T fl ((a, n, d) # As)"
  shows "\<exists>h'. p_vPortFree h (a + 16) = Inr h' \<and>
           heap_inv h' T (fl(d := fl_insert (a, n) (fl d))) As"
proof -
  let ?m = "(hmem h)(a := \<lparr>pxNextFreeBlock = NULL, xBlockSize = n\<rparr>)"
  let ?h = "h\<lparr>hmem := ?m, xFreeBytesRemaining := xFreeBytesRemaining h + n\<rparr>"
  have sh: "heap_shape h fl ((a, n) # map lblk As)" using inv_shape [OF inv] by simp
  note sh' = cleared_shape(1) [OF inv] and ip = cleared_shape(2) [OF inv]
    and small = cleared_shape(3) [OF inv]
  have tot: "fsum (fl False) + fsum (fl True) + unat n + fsum (map lblk As) = T"
    using inv_total(1) [OF inv] by simp
  obtain m where m: "prvInsertBlockIntoFreeListWithDMA ?h a d = Inr (?h\<lparr>hmem := m\<rparr>)"
    "heap_shape (?h\<lparr>hmem := m\<rparr>) (fl(d := fl_insert (a, n) (fl d))) (map lblk As)"
    "fsum (fl_insert (a, n) (fl d)) = fsum (fl d) + unat n"
    "\<forall>x. unat x \<in> bytes (map lblk As) \<longrightarrow> m x = hmem ?h x"
    using shape_insert [OF sh' _ ip small] by auto
  let ?h' = "?h\<lparr>hmem := m\<rparr>" and ?fl = "fl(d := fl_insert (a, n) (fl d))"
  have "unat a \<notin> bytes (map lblk As)"
    using shape_Bs [OF sh] extent_addr(2) [of a n] unfolding disjoint_sym2 by blast
  then have "\<forall>x. unat x \<in> bytes (map lblk As) \<longrightarrow> hmem ?h' x = hmem h x" using m(4) by auto
  moreover have "pend ?h' = pend h" by (simp add: pend_def fun_eq_iff)
  moreover have "\<forall>x\<in>set As. live_ok h x" using inv_live [OF inv] by simp
  ultimately have lv: "\<forall>x\<in>set As. live_ok ?h' x" by (rule live_frame)
  have sum: "fsum (?fl False) + fsum (?fl True) = fsum (fl False) + fsum (fl True) + unat n"
    using fsum_upd [of fl d "fl_insert (a, n) (fl d)"] m(3) by linarith
  have "unat (xFreeBytesRemaining h) + unat n < 4294967296"
    using inv_free [OF inv] tot inv_total(2) [OF inv] by linarith
  then have u: "unat (xFreeBytesRemaining h + n) = unat (xFreeBytesRemaining h) + unat n"
    by (rule unat_plus32)
  then have "xMinimumEverFreeBytesRemaining h \<le> xFreeBytesRemaining h + n"
    using inv_least [OF inv] by (simp add: le_iff32)
  moreover have "unat (xFreeBytesRemaining ?h') = fsum (?fl False) + fsum (?fl True)"
    using u inv_free [OF inv] sum by simp
  moreover have "fsum (?fl False) + fsum (?fl True) + fsum (map lblk As) = T"
    using sum tot by linarith
  ultimately have "heap_inv ?h' T ?fl As"
    using m(2) lv inv_total(2) [OF inv] inv_bit [OF inv] by (simp add: heap_inv_def)
  with m(1) free_unfold [OF inv] show ?thesis by auto
qed

lemma free_live_inv:
  assumes "heap_inv h T fl (xs @ (a, n, d) # ys)"
  shows "\<exists>h'. p_vPortFree h (a + 16) = Inr h' \<and>
           heap_inv h' T (fl(d := fl_insert (a, n) (fl d))) (xs @ ys)"
  using free_head_inv [OF assms [unfolded inv_rotate]] .

text \<open>A pointer whose header does not carry the allocated bit stops at the assertion.\<close>

lemma free_not_allocated:
  assumes "heap_inv h T fl As" "pv \<noteq> NULL" "unat (xBlockSize (hmem h (pv - 16))) < 2147483648"
  shows "p_vPortFree h pv = Inl AssertFail"
  using assms inv_bit [OF assms(1)] by (simp add: p_vPortFree_def Let_def top_bit_clear)

text \<open>After a free the header does not carry it, so that a second free is caught.\<close>

lemma free_clears_bit:
  assumes inv: "heap_inv h T fl ((a, n, d) # As)" and fr: "p_vPortFree h (a + 16) = Inr h'"
  shows "unat (xBlockSize (hmem h' a)) < 2147483648"
proof -
  let ?h = "h\<lparr>hmem := (hmem h)(a := \<lparr>pxNextFreeBlock = NULL, xBlockSize = n\<rparr>),
          xFreeBytesRemaining := xFreeBytesRemaining h + n\<rparr>"
  note c = cleared_shape [OF inv]
  obtain it where it: "insert_position (hmem ?h) (pstart ?h d) a = Some it"
    and h': "hmem h' = link_block (hmem ?h) it a (pend ?h d)"
    using fr free_unfold [OF inv]
    by (auto simp: prvInsertBlockIntoFreeListWithDMA_def pstart_def pend_def Let_def
        res_bind_Inr_iff res_of_option_def split: option.splits)
  have "a \<noteq> pstart ?h d" using shape_start_Bs [OF c(1), of d] by auto
  then show ?thesis
    unfolding h' using c(2,3)
    by (intro inserted_header [OF shape_pool [OF c(1)] _ shape_insertable [OF c(1,2)] _ _ _ it])
      (simp_all add: in_pool_def)
qed

lemma double_free_caught:
  assumes inv: "heap_inv h T fl (xs @ (a, n, d) # ys)" and fr: "p_vPortFree h (a + 16) = Inr h'"
  shows "p_vPortFree h' (a + 16) = Inl AssertFail"
proof -
  note i = inv [unfolded inv_rotate]
  obtain fl' where "heap_inv h' T fl' (xs @ ys)" using free_live_inv [OF inv] fr by auto
  then show ?thesis
    by (rule free_not_allocated) (use live_head(5) [OF i] free_clears_bit [OF i fr] in simp_all)
qed

end
