(* ===== verification/Heap5_Init.thy ===== *)
theory Heap5_Init
  imports Heap5_Ops
begin

unbundle bit_operations_syntax

text \<open>
  Defining the heap regions establishes the heap invariant: the region arrays of the
  ordinary and of the DMA heap turn into two well-formed free lists that hold every region
  but for the bytes lost to alignment and to the end markers.
\<close>

section \<open>Region arrays\<close>

text \<open>
  What the callers of the two functions provide: regions in ascending address order that do
  not overlap, none below \<open>lo\<close>, each of at least 64 bytes, ended by a region of size zero.
\<close>

fun regions_ok :: "nat \<Rightarrow> HeapRegion_t list \<Rightarrow> bool" where
  "regions_ok lo [] \<longleftrightarrow> False"
| "regions_ok lo (r # rs) \<longleftrightarrow>
     xSizeInBytes r = 0 \<or>
     lo \<le> unat (pucStartAddress r) \<and> 64 \<le> unat (xSizeInBytes r) \<and>
     unat (xSizeInBytes r) < 2147483648 \<and>
     unat (pucStartAddress r) + unat (xSizeInBytes r) < 4294967296 \<and>
     regions_ok (unat (pucStartAddress r) + unat (xSizeInBytes r)) rs"

fun live_regions :: "HeapRegion_t list \<Rightarrow> HeapRegion_t list" where
  "live_regions [] = []"
| "live_regions (r # rs) = (if xSizeInBytes r = 0 then [] else r # live_regions rs)"

definition region_bytes :: "HeapRegion_t list \<Rightarrow> nat set" where
  "region_bytes rs = (\<Union>r\<in>set (live_regions rs).
     {unat (pucStartAddress r) ..< unat (pucStartAddress r) + unat (xSizeInBytes r)})"

definition region_total :: "HeapRegion_t list \<Rightarrow> nat" where
  "region_total rs = sum_list (map (unat \<circ> xSizeInBytes) (live_regions rs))"

lemma region_simps:
  "xSizeInBytes r = 0 \<Longrightarrow> region_bytes (r # rs) = {}"
  "xSizeInBytes r \<noteq> 0 \<Longrightarrow> region_bytes (r # rs) =
     {unat (pucStartAddress r) ..< unat (pucStartAddress r) + unat (xSizeInBytes r)} \<union>
     region_bytes rs"
  "xSizeInBytes r = 0 \<Longrightarrow> region_total (r # rs) = 0"
  "xSizeInBytes r \<noteq> 0 \<Longrightarrow>
     region_total (r # rs) = unat (xSizeInBytes r) + region_total rs"
  by (simp_all add: region_bytes_def region_total_def)

section \<open>The geometry of one region\<close>

lemma align_up_nat:
  assumes "unat (a :: u32) + 15 < 4294967296"
  shows "unat ((a + 15) AND - 16) = unat a + (if unat a mod 16 = 0 then 0 else 16 - unat a mod 16)"
proof -
  obtain q r where n: "unat a = 16 * q + r" "r < 16"
    using mod_less_divisor [of 16 "unat a"] mult_div_mod_eq [of 16 "unat a"]
    by (metis zero_less_numeral)
  have "unat ((a + 15) AND - 16) = (16 * q + r + 15) - (16 * q + r + 15) mod 16"
    using assms n by (simp add: unat_and_not_15 unat_plus32)
  also have "(16 * q + r + 15) mod 16 = (if r = 0 then 15 else r - 1)"
  proof (cases r)
    case (Suc k)
    then have "16 * q + r + 15 = 16 * (q + 1) + k" by simp
    then have "(16 * q + r + 15) mod 16 = k mod 16" by (simp only: mod_mult_self4)
    with Suc n(2) show ?thesis by simp
  qed simp
  finally show ?thesis using n by auto
qed

lemma align_region_nat:
  assumes "align_region st sz = (a, t)" "unat st + unat sz < 4294967296" "64 \<le> unat sz"
  shows "aligned16 a" "unat st \<le> unat a" "unat a < unat st + 16"
    "unat a + unat t = unat st + unat sz"
proof -
  let ?a = "if st AND 15 \<noteq> 0 then (st + 15) AND - 16 else st"
  have a: "a = ?a" "t = sz - (a - st)"
    using assms(1) by (auto simp: align_region_def Let_def split: if_splits)
  have al: "unat ?a = unat st + (if unat st mod 16 = 0 then 0 else 16 - unat st mod 16)"
    using assms(2,3) by (simp add: align_up_nat and_15_eq_0 aligned16_def)
  then have ua: "unat a = unat st + (if unat st mod 16 = 0 then 0 else 16 - unat st mod 16)"
    using a(1) by simp
  show "aligned16 a" using a(1) by (auto simp: and_15_eq_0)
  show le: "unat st \<le> unat a" using ua by simp
  show lt: "unat a < unat st + 16" using ua by simp
  have "unat (a - st) = unat a - unat st" using le by (rule unat_minus32)
  then have "unat t = unat sz - (unat a - unat st)"
    using a(2) lt assms(3) by (simp add: unat_minus32)
  then show "unat a + unat t = unat st + unat sz" using le lt assms(3) by simp
qed

lemma region_geometry:
  assumes al: "align_region st sz = (a, t)" and r: "unat st + unat sz < 4294967296" "64 \<le> unat sz"
    and x: "x = ((a + t) - 16) AND - 16"
  shows "aligned16 x" "unat a + 16 \<le> unat x" "unat x + 16 \<le> unat st + unat sz"
    "aligned16 (x - a)" "unat (x - a) = unat x - unat a" "unat sz \<le> unat (x - a) + 46"
proof -
  note g = align_region_nat [OF al r]
  have "unat (a + t) = unat st + unat sz" using g(4) r(1) by (simp add: unat_plus32)
  then have b: "unat (a + t - 16) = unat st + unat sz - 16"
    using r(2) by (subst unat_minus32) simp_all
  have ux: "unat x = unat st + unat sz - 16 - (unat st + unat sz - 16) mod 16"
    unfolding x unat_and_not_15 b ..
  have m: "(unat st + unat sz - 16) mod 16 < 16" by simp
  show ax: "aligned16 x" by (simp add: x)
  show le: "unat a + 16 \<le> unat x" using ux m g(3) r(2) by linarith
  show "unat x + 16 \<le> unat st + unat sz" using ux r(2) by linarith
  show "aligned16 (x - a)" using ax g(1) le by (intro aligned16_minus) simp_all
  show d: "unat (x - a) = unat x - unat a" using le by (intro unat_minus32) simp
  show "unat sz \<le> unat (x - a) + 46" unfolding d using ux m g(3) r(2) by linarith
qed

section \<open>The loop over the regions\<close>

definition region_heads :: "hstore \<Rightarrow> u32 \<Rightarrow> u32 \<Rightarrow> hstore" where
  "region_heads m a x =
     set_next (set_size (set_next (set_size m x 0) x NULL) a (x - a)) a x"

lemma region_heads_upd:
  assumes "a \<noteq> x"
  shows "region_heads m a x =
     m(x := \<lparr>pxNextFreeBlock = NULL, xBlockSize = 0\<rparr>,
       a := \<lparr>pxNextFreeBlock = x, xBlockSize = x - a\<rparr>)"
  using assms by (auto simp: region_heads_def set_next_def set_size_def fun_eq_iff)

text \<open>A region: an aligned block \<open>a\<close> and its end marker \<open>x\<close>, above \<open>lo\<close>, below \<open>hi\<close>.\<close>

definition region_at :: "nat \<Rightarrow> u32 \<Rightarrow> u32 \<Rightarrow> nat \<Rightarrow> bool" where
  "region_at lo a x hi \<longleftrightarrow> lo \<le> unat a \<and> unat a + 16 \<le> unat x \<and> unat x + 16 \<le> hi \<and>
     aligned16 a \<and> aligned16 x \<and> aligned16 (x - a) \<and> unat (x - a) = unat x - unat a \<and>
     unat x - unat a < 2147483648"

lemma region_at_ne: "region_at lo a x hi \<Longrightarrow> a \<noteq> x"
  by (auto simp: region_at_def)

lemma region_extent:
  "region_at lo a x hi \<Longrightarrow> extent (a, x - a) \<union> extent (x, 0) = {unat a ..< unat x + 16}"
  by (auto simp: region_at_def extent_def flen_def)

lemma pool_first:
  assumes r: "region_at lo a x hi" "16 \<le> lo" and s: "s \<noteq> a" "s \<noteq> x"
  shows "pool_ok (region_heads (set_size (set_next m s a) s 0) a x) s [(a, x - a)] x"
  using assms region_at_ne [OF r(1)]
  by (auto simp: pool_ok_def region_heads_upd set_next_def set_size_def region_at_def blk_ok_def
      coalesced_def)

lemma coalesced_snoc:
  assumes "coalesced bs" "bs \<noteq> [] \<Longrightarrow> touches (last bs) b \<Longrightarrow> snd b = 0"
  shows "coalesced (bs @ [b])"
  using assms by (cases bs rule: rev_cases) (auto simp: coalesced_def successively_append_iff)

lemma pool_next:
  assumes p: "pool_ok m s bs e" and r: "region_at lo a x hi" "unat e + 16 \<le> lo"
    and s: "s \<noteq> a" "s \<noteq> x"
  shows "pool_ok (set_next (region_heads m a x) e a) s (bs @ [(e, 0), (a, x - a)]) x"
proof -
  note ne = region_at_ne [OF r(1)]
  have e: "e \<noteq> a" "e \<noteq> x" "s \<noteq> e" using r p by (auto simp: region_at_def pool_ok_def)
  have bs: "spaced 16 bs (unat e)" "fchain m (pxNextFreeBlock (m s)) bs e" "s \<notin> addrs bs"
    using p by (auto simp: pool_ok_def)
  have fresh: "y \<notin> addrs bs" if "unat e \<le> unat y" for y
  proof
    assume "y \<in> addrs bs"
    then obtain k where "(y, k) \<in> set bs" by force
    then have "unat y + flen k \<le> unat e" using bs(1) by (auto dest: spaced_mem)
    with that flen_pos(1) [of k] show False by linarith
  qed
  let ?m = "set_next (region_heads m a x) e a"
  have m: "?m = m(x := \<lparr>pxNextFreeBlock = NULL, xBlockSize = 0\<rparr>,
       a := \<lparr>pxNextFreeBlock = x, xBlockSize = x - a\<rparr>,
       e := \<lparr>pxNextFreeBlock = a, xBlockSize = 0\<rparr>)"
    using p e ne by (auto simp: region_heads_upd set_next_def pool_ok_def)
  have "fchain ?m (pxNextFreeBlock (?m s)) (bs @ [(e, 0), (a, x - a)]) x"
    unfolding m using bs e ne s fresh [of a] fresh [of x] fresh [of e] r
    by (auto simp: fchain_append region_at_def)
  moreover have "spaced 16 (bs @ [(e, 0), (a, x - a)]) (unat x)"
    unfolding spaced_append using bs(1) r
    by (intro exI [of _ "unat e"]) (auto simp: region_at_def flen_def max_def)
  moreover have "coalesced ((bs @ [(e, 0)]) @ [(a, x - a)])"
    using p r by (intro coalesced_snoc) (auto simp: pool_ok_def touches_def region_at_def)
  ultimately show ?thesis
    using p r s e ne bs(3) by (auto simp: pool_ok_def m blk_ok_def region_at_def aligned16_def)
qed

lemma region_step:
  assumes ok: "regions_ok lo (r # rs)" and sz: "xSizeInBytes r \<noteq> 0"
    and al: "align_region (pucStartAddress r) (xSizeInBytes r) = (a, t)"
    and x: "x = ((a + t) - 16) AND - 16"
  shows "region_at (max lo (unat (pucStartAddress r))) a x
           (unat (pucStartAddress r) + unat (xSizeInBytes r))"
    and "regions_ok (unat (pucStartAddress r) + unat (xSizeInBytes r)) rs"
    and "unat (xSizeInBytes r) \<le> unat (x - a) + 46" "unat (x - a) \<le> unat (xSizeInBytes r)"
proof -
  have r: "unat (pucStartAddress r) + unat (xSizeInBytes r) < 4294967296"
    "64 \<le> unat (xSizeInBytes r)" "lo \<le> unat (pucStartAddress r)"
    "unat (xSizeInBytes r) < 2147483648"
    using ok sz by auto
  note g = align_region_nat [OF al r(1,2)] and h = region_geometry [OF al r(1,2) x]
  show le: "unat (x - a) \<le> unat (xSizeInBytes r)" using g h by linarith
  show "region_at (max lo (unat (pucStartAddress r))) a x
           (unat (pucStartAddress r) + unat (xSizeInBytes r))"
    unfolding region_at_def using g h r le by linarith
  show "regions_ok (unat (pucStartAddress r) + unat (xSizeInBytes r)) rs" using ok sz by simp
  show "unat (xSizeInBytes r) \<le> unat (x - a) + 46" by (rule h(6))
qed

lemma define_regions_next:
  assumes "xSizeInBytes r \<noteq> 0" "0 < n" "e \<noteq> NULL" "e < a" "a \<noteq> x"
    and "align_region (pucStartAddress r) (xSizeInBytes r) = (a, t')"
    and "x = ((a + t') - 16) AND - 16"
  shows "define_regions s (r # rs) n m e t =
     define_regions s rs (Suc n) (set_next (region_heads m a x) e a) x (t + (x - a))"
  using assms
  by (auto simp: Let_def word_gt_0 region_heads_def set_next_def set_size_def)

lemma define_regions_first:
  assumes "xSizeInBytes r \<noteq> 0" "a \<noteq> x"
    and "align_region (pucStartAddress r) (xSizeInBytes r) = (a, t')"
    and "x = ((a + t') - 16) AND - 16"
  shows "define_regions s (r # rs) 0 m NULL t =
     define_regions s rs 1 (region_heads (set_size (set_next m s a) s 0) a x) x (t + (x - a))"
  using assms
  by (auto simp: Let_def word_gt_0 region_heads_def set_next_def set_size_def)

text \<open>
  What the loop leaves: the free list \<open>cs\<close> it appended, all within the regions, and the
  bytes it counted.
\<close>

definition regions_defined ::
  "HeapRegion_t list \<Rightarrow> nat set \<Rightarrow> u32 \<Rightarrow> hstore \<Rightarrow> u32 \<Rightarrow> fblk list \<Rightarrow> fblk list \<Rightarrow>
     hstore \<times> u32 \<times> u32 \<Rightarrow> bool" where
  "regions_defined rs B s m t bs cs = (\<lambda>(m', e', t').
     pool_ok m' s (bs @ cs) e' \<and> bytes cs \<union> extent (e', 0) \<subseteq> B \<union> region_bytes rs \<and>
     unat t' = unat t + fsum cs \<and> fsum cs \<le> region_total rs \<and>
     region_total rs \<le> fsum cs + 46 * length (live_regions rs) \<and>
     (\<forall>y. unat y \<notin> B \<union> region_bytes rs \<longrightarrow> m' y = m y))"

lemma region_disjoint_start:
  assumes "region_at lo a x hi" "unat s \<notin> {lo ..< hi}"
  shows "s \<noteq> a" "s \<noteq> x"
  using assms by (auto simp: region_at_def)

lemma region_next_defined:
  assumes r: "region_at lo a x hi" and hi: "hi = st + unat (xSizeInBytes rg)" "st \<le> lo"
      "st = unat (pucStartAddress rg)" "xSizeInBytes rg \<noteq> 0"
      "unat (xSizeInBytes rg) \<le> unat (x - a) + 46" "unat (x - a) \<le> unat (xSizeInBytes rg)"
    and t: "unat (t + (x - a)) = unat t + unat (x - a)"
    and m: "\<forall>y. unat y \<notin> B \<union> {st ..< hi} \<longrightarrow> m' y = m y"
    and d: "regions_defined rs (extent (x, 0)) s m' (t + (x - a)) (bs @ c @ [(a, x - a)]) cs res"
    and c: "bytes c \<subseteq> B" "fsum c = 0"
  shows "regions_defined (rg # rs) B s m t bs (c @ (a, x - a) # cs) res"
proof -
  obtain m2 e2 t2 where res: "res = (m2, e2, t2)" by (cases res)
  have ex: "extent (a, x - a) \<union> extent (x, 0) \<subseteq> {st ..< hi}"
    unfolding region_extent [OF r] using r hi(2) by (auto simp: region_at_def)
  note rg = region_simps(2,4) [OF hi(4), of rs]
  have rb: "region_bytes (rg # rs) = {st ..< hi} \<union> region_bytes rs" using rg(1) hi by simp
  note dd = d [unfolded regions_defined_def res split]
  have "bytes (c @ (a, x - a) # cs) \<union> extent (e2, 0) \<subseteq> B \<union> region_bytes (rg # rs)"
    unfolding rb using dd ex c(1) by auto
  moreover have "\<forall>y. unat y \<notin> B \<union> region_bytes (rg # rs) \<longrightarrow> m2 y = m y"
  proof (intro allI impI)
    fix y :: u32 assume y: "unat y \<notin> B \<union> region_bytes (rg # rs)"
    then have "unat y \<notin> extent (x, 0) \<union> region_bytes rs" unfolding rb using ex by blast
    with dd have "m2 y = m' y" by blast
    with y m show "m2 y = m y" unfolding rb by simp
  qed
  moreover have "fsum (c @ (a, x - a) # cs) = unat (x - a) + fsum cs"
    using c(2) by (simp add: fsum_def)
  moreover have "length (live_regions (rg # rs)) = Suc (length (live_regions rs))"
    using hi(4) by simp
  ultimately show ?thesis
    using dd t hi(5,6) rg(2) by (simp add: regions_defined_def res)
qed

lemma define_regions_loop:
  assumes "regions_ok lo rs" "pool_ok m s bs e" "unat e + 16 \<le> lo" "0 < n"
    "unat s \<notin> region_bytes rs" "unat t + region_total rs < 2147483648"
  shows "\<exists>res cs. define_regions s rs n m e t = Inr res \<and>
           regions_defined rs (extent (e, 0)) s m t bs cs res"
  using assms
proof (induction rs arbitrary: lo m bs e n t)
  case (Cons r rs)
  show ?case
  proof (cases "xSizeInBytes r = 0")
    case True
    with Cons.prems(2) have "regions_defined (r # rs) (extent (e, 0)) s m t bs [] (m, e, t)"
      by (simp add: regions_defined_def region_simps fsum_def)
    with True show ?thesis by auto
  next
    case False
    let ?st = "unat (pucStartAddress r)"
    let ?hi = "?st + unat (xSizeInBytes r)"
    obtain a t' where al: "align_region (pucStartAddress r) (xSizeInBytes r) = (a, t')" by fastforce
    obtain x where x: "x = ((a + t') - 16) AND - 16" by simp
    note g = region_step [OF Cons.prems(1) False al x]
    note rg = region_simps(2,4) [OF False, of rs]
    have lo: "lo \<le> unat a" "unat e < unat a" "unat x + 16 \<le> ?hi"
      using g(1) Cons.prems(3) by (auto simp: region_at_def)
    have "16 \<le> unat e" using Cons.prems(2) by (auto simp: pool_ok_def dest: spaced_le)
    then have e: "e \<noteq> NULL" "e < a" using lo by (auto simp: less_iff32)
    have s: "s \<noteq> a" "s \<noteq> x"
      using region_disjoint_start [OF g(1), of s] Cons.prems(5) rg(1) by auto
    let ?m = "set_next (region_heads m a x) e a"
    have p: "pool_ok ?m s (bs @ [(e, 0), (a, x - a)]) x"
      using pool_next [OF Cons.prems(2) g(1) _ s] Cons.prems(3) by simp
    have t: "unat (t + (x - a)) = unat t + unat (x - a)"
      using Cons.prems(6) g(4) rg(2) by (intro unat_plus32) linarith
    have "\<exists>res cs. define_regions s rs (Suc n) ?m x (t + (x - a)) = Inr res \<and>
       regions_defined rs (extent (x, 0)) s ?m (t + (x - a)) (bs @ [(e, 0), (a, x - a)]) cs res"
      using g(2) p lo Cons.prems(5,6) rg t g(4) by (intro Cons.IH) auto
    then obtain res cs where i: "define_regions s rs (Suc n) ?m x (t + (x - a)) = Inr res"
      "regions_defined rs (extent (x, 0)) s ?m (t + (x - a)) (bs @ [(e, 0)] @ [(a, x - a)]) cs res"
      by auto
    have fr: "\<forall>y. unat y \<notin> extent (e, 0) \<union> {?st ..< ?hi} \<longrightarrow> ?m y = m y"
      using g(1) extent_addr(2) [of e 0] region_at_ne [OF g(1)]
      by (auto simp: region_at_def set_next_def region_heads_upd)
    have "regions_defined (r # rs) (extent (e, 0)) s m t bs ([(e, 0)] @ (a, x - a) # cs) res"
      using False g(3,4) t fr i(2)
      by (intro region_next_defined [OF g(1), where st = ?st]) (auto simp: fsum_def)
    then show ?thesis
      using i(1) define_regions_next [OF False Cons.prems(4) e region_at_ne [OF g(1)] al x]
      by metis
  qed
qed simp

section \<open>Defining a pool\<close>

lemma region_total_least: "regions_ok lo rs \<Longrightarrow> 64 * length (live_regions rs) \<le> region_total rs"
proof (induction rs arbitrary: lo)
  case (Cons r rs)
  show ?case
  proof (cases "xSizeInBytes r = 0")
    case False
    with Cons.prems have "64 * length (live_regions rs) \<le> region_total rs" by (intro Cons.IH) auto
    with False Cons.prems show ?thesis by (simp add: region_simps)
  qed (simp add: region_simps)
qed simp

definition pool_defined ::
  "HeapRegion_t list \<Rightarrow> u32 \<Rightarrow> hstore \<Rightarrow> hstore \<Rightarrow> u32 \<Rightarrow> u32 \<Rightarrow> fblk list \<Rightarrow> bool" where
  "pool_defined rs s m m' e t bs \<longleftrightarrow>
     t \<noteq> 0 \<and> pool_ok m' s bs e \<and> bs \<noteq> [] \<and> bytes bs \<union> extent (e, 0) \<subseteq> region_bytes rs \<and>
     unat t = fsum bs \<and> fsum bs \<le> region_total rs \<and>
     region_total rs \<le> fsum bs + 46 * length (live_regions rs) \<and>
     (\<forall>y. y \<noteq> s \<and> unat y \<notin> region_bytes rs \<longrightarrow> m' y = m y)"

lemma define_pool:
  assumes ok: "regions_ok 16 rs" "live_regions rs \<noteq> []" and s: "unat s \<notin> region_bytes rs"
    and tot: "region_total rs < 2147483648"
  shows "\<exists>m' e t bs. define_regions s rs 0 m NULL 0 = Inr (m', e, t) \<and>
           pool_defined rs s m m' e t bs"
proof -
  obtain r rs' where rs: "rs = r # rs'" and sz: "xSizeInBytes r \<noteq> 0"
    using ok(2) by (cases rs) (auto split: if_splits)
  let ?st = "unat (pucStartAddress r)"
  let ?hi = "?st + unat (xSizeInBytes r)"
  obtain a t' where al: "align_region (pucStartAddress r) (xSizeInBytes r) = (a, t')" by fastforce
  obtain x where x: "x = ((a + t') - 16) AND - 16" by simp
  note g = region_step [OF ok(1) [unfolded rs] sz al x]
  note rg = region_simps(2,4) [OF sz, of rs'] and ne = region_at_ne [OF g(1)]
  have s': "s \<noteq> a" "s \<noteq> x"
    using region_disjoint_start [OF g(1), of s] s rg(1) by (auto simp: rs)
  let ?m1 = "set_size (set_next m s a) s 0"
  let ?m = "region_heads ?m1 a x"
  have p: "pool_ok ?m s [(a, x - a)] x" using pool_first [OF g(1) _ s'] by simp
  have hi: "unat x + 16 \<le> ?hi" using g(1) by (simp add: region_at_def)
  obtain res cs where i: "define_regions s rs' 1 ?m x (0 + (x - a)) = Inr res"
    "regions_defined rs' (extent (x, 0)) s ?m (0 + (x - a)) ([] @ [] @ [(a, x - a)]) cs res"
    using define_regions_loop [OF g(2) p hi, of 1 "x - a"] s rg tot g(4) by (auto simp: rs)
  have fr: "\<forall>y. unat y \<notin> {} \<union> {?st ..< ?hi} \<longrightarrow> ?m y = ?m1 y"
    using g(1) ne by (auto simp: region_at_def region_heads_upd)
  have "regions_defined rs {} s ?m1 0 [] ([] @ (a, x - a) # cs) res"
    unfolding rs using sz g(3,4) fr i(2)
    by (intro region_next_defined [OF g(1), where st = ?st]) (auto simp: fsum_def)
  then have d: "regions_defined rs {} s ?m1 0 [] ((a, x - a) # cs) res" by simp
  obtain m2 e2 t2 where res: "res = (m2, e2, t2)" by (cases res)
  have "length (live_regions rs) \<noteq> 0" using ok(2) by simp
  moreover have "region_total rs \<le> unat t2 + 46 * length (live_regions rs)"
    using d by (simp add: regions_defined_def res)
  ultimately have "unat t2 \<noteq> 0" using region_total_least [OF ok(1)] by linarith
  then have "t2 \<noteq> 0" by auto
  moreover have "?m1 y = m y" if "y \<noteq> s" for y
    using that by (simp add: set_size_def set_next_def)
  ultimately have "pool_defined rs s m m2 e2 t2 ((a, x - a) # cs)"
    using d by (simp add: pool_defined_def regions_defined_def res)
  then show ?thesis
    using i(1) define_regions_first [OF sz ne al x, of s rs' m 0] by (auto simp: rs res)
qed

section \<open>Bringing up the heap\<close>

definition heap_fresh :: "heap5 \<Rightarrow> bool" where
  "heap_fresh h \<longleftrightarrow> pxEnd h = NULL \<and> pxEndDMA h = NULL \<and> addr_xStart h \<noteq> addr_xStartDMA h"

definition layout_ok :: "heap5 \<Rightarrow> HeapRegion_t list \<Rightarrow> HeapRegion_t list \<Rightarrow> bool" where
  "layout_ok h rs ds \<longleftrightarrow>
     regions_ok 16 rs \<and> regions_ok 16 ds \<and> live_regions rs \<noteq> [] \<and> live_regions ds \<noteq> [] \<and>
     region_bytes rs \<inter> region_bytes ds = {} \<and>
     unat (addr_xStart h) \<notin> region_bytes rs \<union> region_bytes ds \<and>
     unat (addr_xStartDMA h) \<notin> region_bytes rs \<union> region_bytes ds \<and>
     region_total rs + region_total ds < 2147483648"

lemma pool_defined_frame:
  assumes p: "pool_defined rs s m m1 e t bs" and s: "s \<noteq> s'" "unat s \<notin> region_bytes ds"
    and d: "region_bytes rs \<inter> region_bytes ds = {}"
    and f: "\<forall>y. y \<noteq> s' \<and> unat y \<notin> region_bytes ds \<longrightarrow> m2 y = m1 y"
    and s': "unat s' \<notin> region_bytes rs"
  shows "pool_ok m2 s bs e"
proof -
  have in_rs: "unat y \<in> region_bytes rs" if "y = e \<or> y \<in> addrs bs" for y
    using that p addrs_bytes [of y bs] extent_addr(2) [of e 0] by (auto simp: pool_defined_def)
  have "m2 y = m1 y" if y: "y = s \<or> y = e \<or> y \<in> addrs bs" for y
  proof -
    have "y = s \<or> unat y \<in> region_bytes rs" using y in_rs by blast
    then have "y \<noteq> s' \<and> unat y \<notin> region_bytes ds" using d s s' by blast
    with f show ?thesis by blast
  qed
  then have "pool_ok m2 s bs e = pool_ok m1 s bs e" by (intro pool_ok_frame) blast
  with p show ?thesis by (simp add: pool_defined_def)
qed

lemma not_same_region:
  assumes p: "pool_defined rs s m m1 e t bs" and ds: "regions_ok 16 (r # ds)" "xSizeInBytes r \<noteq> 0"
    and d: "region_bytes rs \<inter> region_bytes (r # ds) = {}"
  shows "\<not> xPortHeapRegionsIsSame r (m1 s)"
proof
  assume same: "xPortHeapRegionsIsSame r (m1 s)"
  obtain a t' where al: "align_region (pucStartAddress r) (xSizeInBytes r) = (a, t')" by fastforce
  have r: "unat (pucStartAddress r) + unat (xSizeInBytes r) < 4294967296"
    "64 \<le> unat (xSizeInBytes r)" using ds by auto
  note g = align_region_nat [OF al r]
  have "a = pxNextFreeBlock (m1 s)"
    using same al by (auto simp: xPortHeapRegionsIsSame_def align_region_def Let_def split: if_splits)
  moreover obtain b n cs where bs: "bs = (b, n) # cs" using p by (cases bs) (auto simp: pool_defined_def)
  ultimately have "a = b" using p by (simp add: pool_defined_def pool_ok_def)
  moreover have "unat b \<in> region_bytes rs" using p bs extent_addr(2) [of b n] by (auto simp: pool_defined_def)
  moreover have "unat a \<in> region_bytes (r # ds)" using g r ds(2) by (simp add: region_simps)
  ultimately show False using d by blast
qed

lemma spaced_end_disjoint: "spaced lo bs (unat e) \<Longrightarrow> extent (e, 0) \<inter> bytes bs = {}"
proof -
  assume sp: "spaced lo bs (unat e)"
  have "extent (e, 0) \<inter> extent b = {}" if "b \<in> set bs" for b
    using spaced_mem [OF sp, of "fst b" "snd b"] that by (auto simp: extent_def)
  then show ?thesis by (auto simp: bytes_def)
qed

lemma two_pools_shape:
  assumes pools: "pool_ok (hmem h) (pstart h False) bs (pend h False)"
      "pool_ok (hmem h) (pstart h True) cs (pend h True)"
    and R: "bytes bs \<union> extent (pend h False, 0) \<subseteq> R"
    and D: "bytes cs \<union> extent (pend h True, 0) \<subseteq> D"
    and disj: "R \<inter> D = {}" "unat (pstart h False) \<notin> R \<union> D" "unat (pstart h True) \<notin> R \<union> D"
      "pstart h False \<noteq> pstart h True"
  shows "heap_shape h (\<lambda>d. if d then cs else bs) []"
proof -
  have own: "extent (pend h False, 0) \<inter> bytes bs = {}" "extent (pend h True, 0) \<inter> bytes cs = {}"
    using pools spaced_end_disjoint unfolding pool_ok_def by blast+
  have "bytes bs \<inter> bytes cs = {}" "extent (pend h False, 0) \<inter> bytes cs = {}"
    "extent (pend h True, 0) \<inter> bytes bs = {}"
    "extent (pend h False, 0) \<inter> extent (pend h True, 0) = {}"
    using R D disj(1) by blast+
  with own pools disj show ?thesis
    unfolding heap_shape_def all_bool_eq using R D by auto
qed

lemma heap_bring_up:
  assumes fresh: "heap_fresh h" and lay: "layout_ok h rs ds"
  shows "\<exists>h1 h2 T fl. p_vPortDefineHeapRegions h rs = Inr h1 \<and>
           vPortDefineHeapRegionsDMA h1 ds = Inr h2 \<and> heap_inv h2 T fl [] \<and>
           T \<le> region_total rs + region_total ds \<and>
           region_total rs + region_total ds \<le>
             T + 46 * (length (live_regions rs) + length (live_regions ds))"
proof -
  let ?s = "addr_xStart h" and ?s' = "addr_xStartDMA h"
  note lays = lay [unfolded layout_ok_def] and fr = fresh [unfolded heap_fresh_def]
  obtain m1 e t bs where d1: "define_regions ?s rs 0 (hmem h) NULL 0 = Inr (m1, e, t)"
    and p1: "pool_defined rs ?s (hmem h) m1 e t bs"
    using define_pool [of rs ?s "hmem h"] lays by auto
  note p1' = p1 [unfolded pool_defined_def]
  define h1 where "h1 = h\<lparr>hmem := m1, pxEnd := e, xMinimumEverFreeBytesRemaining := t,
     xFreeBytesRemaining := t, xBlockAllocatedBit := push_bit (4 * 8 - 1) 1\<rparr>"
  have r1: "p_vPortDefineHeapRegions h rs = Inr h1"
    using d1 p1' fr by (simp add: p_vPortDefineHeapRegions_def h1_def)
  obtain m2 e' t' cs where d2: "define_regions ?s' ds 0 m1 NULL 0 = Inr (m2, e', t')"
    and p2: "pool_defined ds ?s' m1 m2 e' t' cs"
    using define_pool [of ds ?s' m1] lays by auto
  note p2' = p2 [unfolded pool_defined_def]
  have ne: "e \<noteq> NULL" using p1' by (auto simp: pool_ok_def dest: spaced_le)
  obtain d ds' where ds: "ds = d # ds'" "xSizeInBytes d \<noteq> 0"
    using lays by (cases ds) (auto split: if_splits)
  have ns: "\<not> xPortHeapRegionsIsSame d (m1 ?s)"
    using not_same_region [OF p1, of d ds'] lays ds by auto
  define h2 where "h2 = h1\<lparr>hmem := m2, pxEndDMA := e', xMinimumEverFreeBytesRemaining := t + t',
     xFreeBytesRemaining := t + t'\<rparr>"
  have "t' \<noteq> 0" using p2' by blast
  then have r2: "vPortDefineHeapRegionsDMA h1 ds = Inr h2"
    unfolding vPortDefineHeapRegionsDMA_def h2_def
    using d2 [unfolded ds(1)] ne ns fr by (simp add: h1_def ds(1) del: define_regions.simps)
  let ?fl = "\<lambda>d. if d then cs else bs"
  have pool1: "pool_ok m2 ?s bs e"
    using pool_defined_frame [OF p1, of ?s' ds m2] lays fr p2' by blast
  have st: "pstart h2 d = (if d then ?s' else ?s)" "pend h2 d = (if d then e' else e)" for d
    by (simp_all add: pstart_def pend_def h2_def h1_def)
  have "heap_shape h2 ?fl []"
    by (rule two_pools_shape [where R = "region_bytes rs" and D = "region_bytes ds"])
      (use pool1 p1' p2' lays fr st in \<open>simp_all add: h2_def\<close>)
  moreover have "unat (t + t') = fsum bs + fsum cs"
    using p1' p2' lays by (subst unat_plus32) auto
  ultimately have "heap_inv h2 (fsum bs + fsum cs) ?fl []"
    using p1' p2' lays by (simp add: heap_inv_def h2_def h1_def fsum_def)
  with r1 r2 show ?thesis
    using p1' p2' by (intro exI [of _ h1] exI [of _ h2] exI [of _ "fsum bs + fsum cs"] exI [of _ ?fl])
      auto
qed

section \<open>The regions of the scm2010\<close>

text \<open>What the linker script guarantees of the symbols, the two list heads included.\<close>

definition dma_span :: "heap_syms \<Rightarrow> nat set" where
  "dma_span s = {unat (heapext1_start s) ..< unat (heapext1_end s)} \<union>
     {unat (heapext2_start s) ..< unat (heapext2_end s)}"

definition heap_span :: "heap_syms \<Rightarrow> nat set" where
  "heap_span s = {unat (heap_start s) ..< unat (heap_end s)}"

definition syms_total :: "heap_syms \<Rightarrow> nat" where
  "syms_total s = unat (heap_end s) - unat (heap_start s) +
     (unat (heapext1_end s) - unat (heapext1_start s)) +
     (unat (heapext2_end s) - unat (heapext2_start s))"

definition syms_ok :: "heap5 \<Rightarrow> heap_syms \<Rightarrow> bool" where
  "syms_ok h s \<longleftrightarrow>
     16 \<le> unat (heap_start s) \<and> unat (heap_start s) + 64 \<le> unat (heap_end s) \<and>
     16 \<le> unat (heapext1_start s) \<and> unat (heapext1_start s) + 64 \<le> unat (heapext1_end s) \<and>
     unat (heapext1_end s) \<le> unat (heapext2_start s) \<and>
     unat (heapext2_start s) + 64 \<le> unat (heapext2_end s) \<and>
     heap_span s \<inter> dma_span s = {} \<and>
     unat (addr_xStart h) \<notin> heap_span s \<union> dma_span s \<and>
     unat (addr_xStartDMA h) \<notin> heap_span s \<union> dma_span s \<and>
     syms_total s < 2147483648"

lemma region_size:
  "unat (a :: u32) + 64 \<le> unat b \<Longrightarrow> unat (b - a) = unat b - unat a \<and> b - a \<noteq> 0"
  by (subst unat_minus32) (auto simp: unat_eq_iff32 unat_minus32)

lemma sum_nowrap:
  assumes "unat (a :: u32) + unat b + unat c = n" "n < 4294967296"
  shows "unat (a + b + c) = n"
proof -
  have "unat (a + b) = unat a + unat b" using assms by (intro unat_plus32) linarith
  with assms show ?thesis by (subst unat_plus32) simp_all
qed

lemma syms_layout:
  assumes "syms_ok h s"
  shows "layout_ok h (xHeapRegions s) (xHeapRegionsDMA s)"
    and "region_total (xHeapRegions s) + region_total (xHeapRegionsDMA s) = syms_total s"
    and "length (live_regions (xHeapRegions s)) = 1"
      "length (live_regions (xHeapRegionsDMA s)) = 2"
proof -
  note ok = assms [unfolded syms_ok_def]
  note sz = region_size [of "heap_start s" "heap_end s"]
    region_size [of "heapext1_start s" "heapext1_end s"]
    region_size [of "heapext2_start s" "heapext2_end s"]
  have l: "live_regions (xHeapRegions s) =
      [\<lparr>pucStartAddress = heap_start s, xSizeInBytes = heap_end s - heap_start s\<rparr>]"
    "live_regions (xHeapRegionsDMA s) =
      [\<lparr>pucStartAddress = heapext1_start s, xSizeInBytes = heapext1_end s - heapext1_start s\<rparr>,
       \<lparr>pucStartAddress = heapext2_start s, xSizeInBytes = heapext2_end s - heapext2_start s\<rparr>]"
    using ok sz by (auto simp: xHeapRegions_def xHeapRegionsDMA_def)
  then show "length (live_regions (xHeapRegions s)) = 1"
      "length (live_regions (xHeapRegionsDMA s)) = 2" by simp_all
  show tot: "region_total (xHeapRegions s) + region_total (xHeapRegionsDMA s) = syms_total s"
    using ok sz by (simp add: region_total_def l syms_total_def)
  have lo: "16 \<le> unat (heap_start s)" "unat (heap_start s) + 64 \<le> unat (heap_end s)"
    "16 \<le> unat (heapext1_start s)" "unat (heapext1_start s) + 64 \<le> unat (heapext1_end s)"
    "unat (heapext1_end s) \<le> unat (heapext2_start s)"
    "unat (heapext2_start s) + 64 \<le> unat (heapext2_end s)"
    using ok by blast+
  have top: "unat (heap_end s) - unat (heap_start s) < 2147483648"
    "unat (heapext1_end s) - unat (heapext1_start s) < 2147483648"
    "unat (heapext2_end s) - unat (heapext2_start s) < 2147483648"
    using ok by (simp_all add: syms_total_def)
  note z = sz(1) [OF lo(2)] sz(2) [OF lo(4)] sz(3) [OF lo(6)]
  have "regions_ok 16 (xHeapRegions s)"
    unfolding xHeapRegions_def using lo top z by (simp add: le_diff_conv2)
  moreover have "regions_ok 16 (xHeapRegionsDMA s)"
    unfolding xHeapRegionsDMA_def using lo top z by (simp add: le_diff_conv2)
  moreover have "region_bytes (xHeapRegions s) = heap_span s"
    "region_bytes (xHeapRegionsDMA s) = dma_span s"
    using lo z by (simp_all add: region_bytes_def l heap_span_def dma_span_def)
  ultimately show "layout_ok h (xHeapRegions s) (xHeapRegionsDMA s)"
    unfolding layout_ok_def tot using ok by (simp add: l)
qed

lemma heap_init_ok:
  assumes fresh: "heap_fresh h" and ok: "syms_ok h s"
  shows "\<exists>h' T fl. heap_init h s 0 = Inr (h', of_nat (syms_total s)) \<and> heap_inv h' T fl [] \<and>
           T \<le> syms_total s \<and> syms_total s \<le> T + 138"
proof -
  note ok' = ok [unfolded syms_ok_def]
  have nz: "heap_start s \<noteq> NULL" "heapext1_start s \<noteq> NULL" "heapext2_start s \<noteq> NULL"
    using ok' by auto
  obtain m t where c1: "clear_regions (xHeapRegions s) (hmem h) 0 = Inr (m, t)"
    and t: "t = heap_end s - heap_start s"
    using nz by (auto simp: xHeapRegions_def)
  obtain m' t' where c2: "clear_regions (xHeapRegionsDMA s) m t = Inr (m', t')"
    and t': "t' = t + (heapext1_end s - heapext1_start s) + (heapext2_end s - heapext2_start s)"
    using nz by (auto simp: xHeapRegionsDMA_def)
  let ?h = "h\<lparr>hmem := m'\<rparr>"
  have "heap_fresh ?h" "syms_ok ?h s" using fresh ok by (simp_all add: heap_fresh_def syms_ok_def)
  note up = heap_bring_up [OF this(1) syms_layout(1) [OF this(2)]] and sl = syms_layout(2-4) [OF ok]
  obtain h1 h2 T fl where r: "p_vPortDefineHeapRegions ?h (xHeapRegions s) = Inr h1"
      "vPortDefineHeapRegionsDMA h1 (xHeapRegionsDMA s) = Inr h2" "heap_inv h2 T fl []"
      "T \<le> syms_total s" "syms_total s \<le> T + 138"
    using up unfolding sl by auto
  have small: "syms_total s < 4294967296" using ok' by linarith
  have "unat t' = syms_total s"
    unfolding t' t using ok'
    by (intro sum_nowrap [OF _ small]) (simp add: region_size syms_total_def)
  then have "t' = of_nat (syms_total s)" by (auto dest: sym)
  moreover have "heap_init h s 0 = Inr (h2, t')"
    using c1 c2 r nz by (simp add: heap_init_def) (simp add: xHeapRegionsDMA_def)
  ultimately show ?thesis using r by auto
qed

end
