(* ===== verification/Allocator.thy ===== *)
theory Allocator
  imports Wise_Prelude
begin

text \<open>
  The contract of a dynamic memory allocator, as its clients rely on it.  \<open>inv h As\<close> relates
  a state to the blocks that are handed out; \<open>alloc k\<close> allocates from the pools of kind \<open>k\<close>.
  The client's view is a list of pointers with the sizes that were asked for; what a client
  may assume is proved once, from the laws.
\<close>

locale allocator =
  fixes inv :: "'h \<Rightarrow> 'b list \<Rightarrow> bool"
    and alloc :: "'k \<Rightarrow> 'h \<Rightarrow> u32 \<Rightarrow> (u32 \<times> 'h) res"
    and free :: "'h \<Rightarrow> u32 \<Rightarrow> 'h res"
    and ptr :: "'b \<Rightarrow> u32"
    and room :: "'b \<Rightarrow> nat"
  assumes alloc_law: "inv h As \<Longrightarrow>
      alloc k h w = Inr (NULL, h) \<or>
      (\<exists>h' b. alloc k h w = Inr (ptr b, h') \<and> inv h' (b # As) \<and> unat w \<le> room b)"
    and free_law: "inv h (xs @ b # ys) \<Longrightarrow> \<exists>h'. free h (ptr b) = Inr h' \<and> inv h' (xs @ ys)"
    and sep_law: "inv h As \<Longrightarrow>
      sorted_wrt (\<lambda>b c. {unat (ptr b) ..< unat (ptr b) + room b} \<inter>
                        {unat (ptr c) ..< unat (ptr c) + room c} = {}) As"
    and distinct_law: "inv h As \<Longrightarrow> distinct (map ptr As)"
    and ptr_law: "inv h As \<Longrightarrow> b \<in> set As \<Longrightarrow>
      ptr b \<noteq> NULL \<and> aligned16 (ptr b) \<and> unat (ptr b) + room b < 4294967296"
begin

definition held :: "u32 \<times> u32 \<Rightarrow> 'b \<Rightarrow> bool" where
  "held pw b \<longleftrightarrow> fst pw = ptr b \<and> unat (snd pw) \<le> room b"

definition client :: "'h \<Rightarrow> (u32 \<times> u32) list \<Rightarrow> bool" where
  "client h ps \<longleftrightarrow> (\<exists>As. inv h As \<and> list_all2 held ps As)"

lemma client_start: "inv h [] \<Longrightarrow> client h []"
  by (auto simp: client_def)

lemma client_alloc:
  assumes "client h ps"
  shows "\<exists>p h'. alloc k h w = Inr (p, h') \<and>
           client h' (if p = NULL then ps else (p, w) # ps)"
proof -
  obtain As where As: "inv h As" "list_all2 held ps As"
    using assms by (auto simp: client_def)
  from alloc_law [OF As(1), of k w] show ?thesis
  proof (elim disjE exE conjE)
    assume "alloc k h w = Inr (NULL, h)"
    with assms show ?thesis by auto
  next
    fix h' b assume a: "alloc k h w = Inr (ptr b, h')" "inv h' (b # As)" "unat w \<le> room b"
    have "ptr b \<noteq> NULL" using ptr_law [OF a(2), of b] by simp
    moreover have "list_all2 held ((ptr b, w) # ps) (b # As)"
      using As(2) a(3) by (simp add: held_def)
    ultimately show ?thesis using a by (auto simp: client_def)
  qed
qed

lemma client_free:
  assumes "client h (xs @ (p, w) # ys)"
  shows "\<exists>h'. free h p = Inr h' \<and> client h' (xs @ ys)"
proof -
  obtain As where As: "inv h As" "list_all2 held (xs @ (p, w) # ys) As"
    using assms by (auto simp: client_def)
  then obtain Xs b Ys where sp: "As = Xs @ b # Ys" "list_all2 held xs Xs" "held (p, w) b"
      "list_all2 held ys Ys"
    by (auto simp: list_all2_append1 list_all2_Cons1)
  obtain h' where "free h (ptr b) = Inr h'" "inv h' (Xs @ Ys)"
    using free_law As(1) sp(1) by blast
  moreover have "list_all2 held (xs @ ys) (Xs @ Ys)" using sp by (intro list_all2_appendI)
  ultimately show ?thesis using sp(3) by (auto simp: client_def held_def)
qed

lemma client_disjoint:
  assumes "client h ps"
  shows "sorted_wrt (\<lambda>(p, w) (q, v). {unat p ..< unat p + unat w} \<inter>
                                     {unat q ..< unat q + unat v} = {}) ps"
proof -
  obtain As where As: "inv h As" "list_all2 held ps As"
    using assms by (auto simp: client_def)
  show ?thesis
    by (rule list_all2_sorted_wrt [OF As(2) sep_law [OF As(1)]])
      (fastforce simp: held_def)
qed

lemma client_distinct:
  assumes "client h ps"
  shows "distinct (map fst ps)"
proof -
  obtain As where As: "inv h As" "list_all2 held ps As"
    using assms by (auto simp: client_def)
  have "map fst ps = map ptr As"
    using As(2) by (induction rule: list_all2_induct) (auto simp: held_def)
  with distinct_law [OF As(1)] show ?thesis by simp
qed

lemma client_pointers:
  assumes "client h ps" "(p, w) \<in> set ps"
  shows "p \<noteq> NULL" "aligned16 p" "unat p + unat w < 4294967296"
proof -
  obtain As where As: "inv h As" "list_all2 held ps As"
    using assms by (auto simp: client_def)
  then obtain b where "b \<in> set As" "held (p, w) b"
    using assms(2) by (metis list_all2_conv_all_nth in_set_conv_nth)
  with ptr_law [OF As(1)] show "p \<noteq> NULL" "aligned16 p" "unat p + unat w < 4294967296"
    by (fastforce simp: held_def)+
qed

lemmas client_facts = client_disjoint client_distinct client_pointers

end

end
