(* ===== verification/Heap5_Safety.thy ===== *)
theory Heap5_Safety
  imports Heap5_Init Allocator
begin

unbundle bit_operations_syntax

text \<open>
  The heap as its clients see it: the interpretation of the allocator contract on the model
  of \<^verbatim>\<open>heap_5_ext.c\<close>, the runs of a client that frees only what it holds, and the
  properties of the heap.
\<close>

section \<open>The allocator contract\<close>

definition heap_ok :: "heap5 \<Rightarrow> live list \<Rightarrow> bool" where
  "heap_ok h As \<longleftrightarrow> (\<exists>T fl. heap_inv h T fl As)"

definition heap_alloc :: "bool \<Rightarrow> heap5 \<Rightarrow> u32 \<Rightarrow> (u32 \<times> heap5) res" where
  "heap_alloc dma = (if dma then pvPortMallocDMA else p_pvPortMalloc)"

fun live_ptr :: "live \<Rightarrow> u32" where
  "live_ptr (a, n, d) = a + 16"

fun live_room :: "live \<Rightarrow> nat" where
  "live_room (a, n, d) = unat n - 16"

lemma live_member:
  assumes "heap_inv h T fl As" "(a, n, d) \<in> set As"
  shows "in_pool h d (a, n)" "unat (a + 16) = unat a + 16" "a + 16 \<noteq> NULL" "aligned16 (a + 16)"
    "unat a + unat n < 4294967296"
proof -
  obtain xs ys where "As = xs @ (a, n, d) # ys" using assms(2) by (meson split_list)
  then have i: "heap_inv h T fl ((a, n, d) # xs @ ys)" using assms(1) inv_rotate by blast
  note l = live_head [OF i]
  show ip: "in_pool h d (a, n)" by (rule l(2))
  show "unat (a + 16) = unat a + 16" "a + 16 \<noteq> NULL" by (rule l(4), rule l(5))
  show "aligned16 (a + 16)"
    using ip by (intro aligned16_plus) (simp_all add: in_pool_def blk_ok_def aligned16_def)
  show "unat a + unat n < 4294967296"
    using ip by (auto simp: in_pool_def intro: le_less_trans [OF _ unat_lt32])
qed

lemma live_extents:
  assumes "heap_inv h T fl As" "b \<in> set As"
  shows "{unat (live_ptr b) ..< unat (live_ptr b) + live_room b} \<subseteq> extent (lblk b)"
    "unat (live_ptr b) - 16 \<in> extent (lblk b)"
proof -
  obtain a n d where b: "b = (a, n, d)" by (cases b)
  note m = live_member [OF assms(1) assms(2) [unfolded b]]
  then show "{unat (live_ptr b) ..< unat (live_ptr b) + live_room b} \<subseteq> extent (lblk b)"
    "unat (live_ptr b) - 16 \<in> extent (lblk b)"
    by (auto simp: b extent_def in_pool_def)
qed

lemma live_separate:
  assumes inv: "heap_inv h T fl As"
  shows "sorted_wrt (\<lambda>b c. {unat (live_ptr b) ..< unat (live_ptr b) + live_room b} \<inter>
                           {unat (live_ptr c) ..< unat (live_ptr c) + live_room c} = {}) As"
    and "distinct (map live_ptr As)"
proof -
  have s: "sorted_wrt (\<lambda>b c. extent (lblk b) \<inter> extent (lblk c) = {}) As"
    using shape_Bs [OF inv_shape [OF inv]] by (simp add: sorted_wrt_map)
  show "sorted_wrt (\<lambda>b c. {unat (live_ptr b) ..< unat (live_ptr b) + live_room b} \<inter>
                           {unat (live_ptr c) ..< unat (live_ptr c) + live_room c} = {}) As"
    using s by (rule sorted_wrt_mono_rel [rotated]) (use live_extents(1) [OF inv] in blast)
  have "sorted_wrt (\<lambda>b c. live_ptr b \<noteq> live_ptr c) As"
    using s by (rule sorted_wrt_mono_rel [rotated]) (metis live_extents(2) [OF inv] disjoint_iff)
  then show "distinct (map live_ptr As)"
    by (simp add: distinct_map distinct_conv_nth sorted_wrt_iff_nth_less inj_on_def in_set_conv_nth)
      (metis nat_neq_iff)
qed

lemma alloc_result_ok:
  "alloc_result h T As w d r \<Longrightarrow>
     \<exists>b. r = (live_ptr b, snd r) \<and> heap_ok (snd r) (b # As) \<and> unat w \<le> live_room b"
  by (cases r) (fastforce simp: alloc_result_def heap_ok_def)

lemma heap_alloc_cases:
  assumes inv: "heap_inv h T fl As"
  shows "heap_alloc k h w = Inr (NULL, h) \<or>
         (\<exists>d r. heap_alloc k h w = Inr r \<and> alloc_result h T As w d r)"
proof (cases k)
  case True
  with mallocDMA_spec [OF inv, of w] show ?thesis
    by (simp only: heap_alloc_def if_True split: if_splits) blast+
next
  case False
  with malloc_spec [OF inv, of w] show ?thesis
    by (simp only: heap_alloc_def if_False split: if_splits) blast+
qed

interpretation hp: allocator heap_ok heap_alloc p_vPortFree live_ptr live_room
proof
  fix h As k w assume "heap_ok h As"
  then obtain T fl where inv: "heap_inv h T fl As" by (auto simp: heap_ok_def)
  show "heap_alloc k h w = Inr (NULL, h) \<or>
      (\<exists>h' b. heap_alloc k h w = Inr (live_ptr b, h') \<and> heap_ok h' (b # As) \<and> unat w \<le> live_room b)"
    using heap_alloc_cases [OF inv, of k w] alloc_result_ok by metis
next
  fix h xs b ys assume "heap_ok h (xs @ b # ys)"
  then show "\<exists>h'. p_vPortFree h (live_ptr b) = Inr h' \<and> heap_ok h' (xs @ ys)"
    using free_live_inv by (cases b) (fastforce simp: heap_ok_def)
next
  fix h As assume "heap_ok h As"
  then show "sorted_wrt (\<lambda>b c. {unat (live_ptr b) ..< unat (live_ptr b) + live_room b} \<inter>
        {unat (live_ptr c) ..< unat (live_ptr c) + live_room c} = {}) As" "distinct (map live_ptr As)"
    using live_separate by (auto simp: heap_ok_def)
next
  fix h As b assume "heap_ok h As" "b \<in> set As"
  then obtain T fl where inv: "heap_inv h T fl As" by (auto simp: heap_ok_def)
  obtain a n d where b: "b = (a, n, d)" by (cases b)
  note m = live_member [OF inv \<open>b \<in> set As\<close> [unfolded b]]
  then show "live_ptr b \<noteq> NULL \<and> aligned16 (live_ptr b) \<and>
      unat (live_ptr b) + live_room b < 4294967296"
    by (simp add: b in_pool_def)
qed

section \<open>Runs of a client\<close>

text \<open>
  A client that starts on the heap \<open>h0\<close> with nothing, allocates from either function, and
  frees only what it holds, in any order.  \<open>ps\<close> are the pointers it holds, each with the
  size it asked for.
\<close>

inductive heap_run :: "heap5 \<Rightarrow> heap5 \<Rightarrow> (u32 \<times> u32) list \<Rightarrow> bool" for h0 where
  start: "heap_run h0 h0 []"
| malloc: "heap_run h0 h ps \<Longrightarrow> p_pvPortMalloc h w = Inr (p, h') \<Longrightarrow>
     heap_run h0 h' (if p = NULL then ps else (p, w) # ps)"
| mallocDMA: "heap_run h0 h ps \<Longrightarrow> pvPortMallocDMA h w = Inr (p, h') \<Longrightarrow>
     heap_run h0 h' (if p = NULL then ps else (p, w) # ps)"
| free: "heap_run h0 h (xs @ (p, w) # ys) \<Longrightarrow> p_vPortFree h p = Inr h' \<Longrightarrow>
     heap_run h0 h' (xs @ ys)"
| free_null: "heap_run h0 h ps \<Longrightarrow> p_vPortFree h NULL = Inr h' \<Longrightarrow> heap_run h0 h' ps"

lemma heap_run_client: "heap_run h0 h ps \<Longrightarrow> heap_ok h0 [] \<Longrightarrow> hp.client h ps"
proof (induction rule: heap_run.induct)
  case start
  then show ?case by (rule hp.client_start)
next
  case (malloc h ps w p h')
  then show ?case using hp.client_alloc [of h ps False w] by (auto simp: heap_alloc_def)
next
  case (mallocDMA h ps w p h')
  then show ?case using hp.client_alloc [of h ps True w] by (auto simp: heap_alloc_def)
next
  case (free h xs p w ys h')
  then show ?case using hp.client_free [of h xs p w ys] by auto
next
  case (free_null h ps h')
  then show ?case by (simp add: p_vPortFree_def)
qed

text \<open>What a client can count on in a state \<open>h\<close> in which it holds \<open>ps\<close>.\<close>

definition client_safe :: "heap5 \<Rightarrow> (u32 \<times> u32) list \<Rightarrow> bool" where
  "client_safe h ps \<longleftrightarrow>
     (\<forall>w. \<exists>r. p_pvPortMalloc h w = Inr r) \<and> (\<forall>w. \<exists>r. pvPortMallocDMA h w = Inr r) \<and>
     (\<forall>x\<in>set ps. \<exists>h'. p_vPortFree h (fst x) = Inr h') \<and>
     (\<forall>x\<in>set ps. fst x \<noteq> NULL \<and> aligned16 (fst x) \<and> unat (fst x) + unat (snd x) < 4294967296) \<and>
     sorted_wrt (\<lambda>(p, w) (q, v). {unat p ..< unat p + unat w} \<inter>
                                 {unat q ..< unat q + unat v} = {}) ps \<and>
     distinct (map fst ps)"

lemma client_is_safe:
  assumes c: "hp.client h ps"
  shows "client_safe h ps"
  unfolding client_safe_def
proof (intro conjI allI ballI)
  show "\<exists>r. p_pvPortMalloc h w = Inr r" for w
    using hp.client_alloc [OF c, of False w] by (auto simp: heap_alloc_def)
  show "\<exists>r. pvPortMallocDMA h w = Inr r" for w
    using hp.client_alloc [OF c, of True w] by (auto simp: heap_alloc_def)
  fix x assume x: "x \<in> set ps"
  then have x': "(fst x, snd x) \<in> set ps" by simp
  obtain xs ys where "ps = xs @ (fst x, snd x) # ys" using x' by (meson split_list)
  then show "\<exists>h'. p_vPortFree h (fst x) = Inr h'" using hp.client_free c by blast
  show "fst x \<noteq> NULL" "aligned16 (fst x)" "unat (fst x) + unat (snd x) < 4294967296"
    using hp.client_pointers [OF c x'] by auto
qed (rule hp.client_disjoint [OF c], rule hp.client_distinct [OF c])

section \<open>Properties of the heap\<close>

text \<open>A small heap, laid out as the linker would, for the examples.\<close>

definition ex_heap :: heap5 where
  "ex_heap = \<lparr>hmem = (\<lambda>_. \<lparr>pxNextFreeBlock = 0, xBlockSize = 0\<rparr>), addr_xStart = 0x100,
     addr_xStartDMA = 0x200, pxEnd = 0, pxEndDMA = 0, xFreeBytesRemaining = 0,
     xMinimumEverFreeBytesRemaining = 0, xBlockAllocatedBit = 0\<rparr>"

definition ex_syms :: heap_syms where
  "ex_syms = \<lparr>heap_start = 0x1008, heap_end = 0x1408, heapext1_start = 0x3000,
     heapext1_end = 0x3200, heapext2_start = 0x4000, heapext2_end = 0x4200\<rparr>"

lemma ex_heap_fresh: "heap_fresh ex_heap"
  by (simp add: heap_fresh_def ex_heap_def)

lemma ex_syms_ok: "syms_ok ex_heap ex_syms"
  by (simp add: syms_ok_def heap_span_def dma_span_def syms_total_def ex_heap_def ex_syms_def
      Int_Un_distrib)

text \<open>The definitions that evaluate a run on a concrete heap.\<close>

lemmas heap_eval = heap_init_def p_vPortDefineHeapRegions_def vPortDefineHeapRegionsDMA_def
  xHeapRegions_def xHeapRegionsDMA_def p_pvPortMalloc_def pvPortMallocDMA_def take_block_def
  p_vPortFree_def prvInsertBlockIntoFreeListWithDMA_def link_block_def adjust_wanted_def
  align_region_def xPortHeapRegionsIsSame_def set_next_def set_size_def Let_def
  DMA_BUFFER_MARK_def find_fit.simps insert_position.simps ex_heap_def ex_syms_def

lemma ex_alloc:
  "res_bind (heap_init ex_heap ex_syms 0)
     (\<lambda>(h0, t). res_bind (p_pvPortMalloc h0 20)
        (\<lambda>(p, h1). Inr (t, p, xFreeBytesRemaining h0, xFreeBytesRemaining h1))) =
   Inr (2048, 0x1020, 1984, 1936)"
  by (simp add: heap_eval)

lemma ex_heap_live:
  "\<exists>h T fl a n d. heap_inv h T fl [(a, n, d)] \<and> a + 16 = 0x1020"
proof -
  obtain h0 T fl where i: "heap_init ex_heap ex_syms 0 = Inr (h0, of_nat (syms_total ex_syms))"
      "heap_inv h0 T fl []"
    using heap_init_ok [OF ex_heap_fresh ex_syms_ok] by blast
  then obtain h1 where m: "p_pvPortMalloc h0 20 = Inr (0x1020, h1)"
    using ex_alloc by (auto simp: res_bind_Inr_iff)
  then obtain d r where "p_pvPortMalloc h0 20 = Inr r" "alloc_result h0 T [] 20 d r"
    using heap_alloc_cases [OF i(2), of False 20] by (auto simp: heap_alloc_def)
  with m show ?thesis by (fastforce simp: alloc_result_def)
qed

lemma ex_heap_inv: "\<exists>h T fl. heap_inv h T fl []"
  using heap_init_ok [OF ex_heap_fresh ex_syms_ok] by blast

text \<open>
  C1.  After \<^verbatim>\<open>heap_init\<close> on the regions the linker lays out, the heap is safe in every
  state a client can reach that frees only what it holds: both allocation functions return,
  without an assertion failing and without an endless loop; freeing a held pointer returns;
  every held pointer is non-null and aligned to 16 bytes, and the byte ranges asked for are
  pairwise disjoint.
\<close>

theorem heap_client_safe:
  assumes "heap_fresh h" and "syms_ok h s"
  shows "\<exists>h0. heap_init h s 0 = Inr (h0, of_nat (syms_total s)) \<and>
           (\<forall>h' ps. heap_run h0 h' ps \<longrightarrow> client_safe h' ps)"
proof -
  obtain h0 T fl where "heap_init h s 0 = Inr (h0, of_nat (syms_total s))" "heap_inv h0 T fl []"
    using heap_init_ok [OF assms] by blast
  then show ?thesis
    using heap_run_client client_is_safe by (metis heap_ok_def)
qed

theorem heap_client_safe_witness:
  "\<exists>h0. heap_init ex_heap ex_syms 0 = Inr (h0, 2048) \<and>
     (\<forall>h' ps. heap_run h0 h' ps \<longrightarrow> client_safe h' ps) \<and> client_safe h0 []"
  using heap_client_safe [OF ex_heap_fresh ex_syms_ok] start
  by (auto simp: syms_total_def ex_syms_def)

text \<open>
  C2.  \<^verbatim>\<open>heap_init\<close> brings the heap up: it returns with the two free lists well formed and
  nothing allocated, reports the size of the three regions, and leaves all of it free but
  for at most 46 bytes for each region, which alignment and the end markers take.
\<close>

theorem heap_init_establishes:
  assumes "heap_fresh h" and "syms_ok h s"
  shows "\<exists>h0 T fl. heap_init h s 0 = Inr (h0, of_nat (syms_total s)) \<and> heap_inv h0 T fl [] \<and>
           unat (xFreeBytesRemaining h0) = T \<and> T \<le> syms_total s \<and> syms_total s \<le> T + 3 * 46"
proof -
  obtain h0 T fl where i: "heap_init h s 0 = Inr (h0, of_nat (syms_total s))" "heap_inv h0 T fl []"
    "T \<le> syms_total s" "syms_total s \<le> T + 138"
    using heap_init_ok [OF assms] by blast
  moreover have "unat (xFreeBytesRemaining h0) = T"
    using inv_free [OF i(2)] inv_total(1) [OF i(2)] by (simp add: fsum_def)
  ultimately show ?thesis by auto
qed

theorem heap_init_establishes_witness:
  "\<exists>h0 T fl. heap_init ex_heap ex_syms 0 = Inr (h0, 2048) \<and> heap_inv h0 T fl [] \<and>
     unat (xFreeBytesRemaining h0) = T \<and> 1910 \<le> T \<and> T \<le> 2048"
  using heap_init_establishes [OF ex_heap_fresh ex_syms_ok]
  by (auto simp: syms_total_def ex_syms_def)

text \<open>
  C3.  What \<^verbatim>\<open>pvPortMalloc\<close> and \<^verbatim>\<open>pvPortMallocDMA\<close> return.  A request of zero, one with
  the top bit set, and one that no free block can hold with its header gets a null pointer
  and leaves the heap as it was; every other request gets a block, of at most 63 bytes more
  than asked, that joins the live blocks.  The ordinary pool comes first and the DMA pool is
  used when nothing in the ordinary one fits.
\<close>

theorem heap_malloc_exact:
  assumes "heap_inv h T fl As"
  shows "(if w = 0 \<or> 2147483648 \<le> unat w \<or>
            none_fits (adjust_wanted w) (fl False) \<and> none_fits (adjust_wanted w) (fl True)
          then p_pvPortMalloc h w = Inr (NULL, h)
          else \<exists>a k h' fl'. p_pvPortMalloc h w = Inr (a + 16, h') \<and> a + 16 \<noteq> NULL \<and>
                 heap_inv h' T fl' ((a, k, none_fits (adjust_wanted w) (fl False)) # As) \<and>
                 unat w + 16 \<le> unat k \<and> unat k \<le> unat w + 63) \<and>
         (if w = 0 \<or> 2147483648 \<le> unat w \<or> none_fits (adjust_wanted w) (fl True)
          then pvPortMallocDMA h w = Inr (NULL, h)
          else \<exists>a k h' fl'. pvPortMallocDMA h w = Inr (a + 16, h') \<and> a + 16 \<noteq> NULL \<and>
                 heap_inv h' T fl' ((a, k, True) # As) \<and>
                 unat w + 16 \<le> unat k \<and> unat k \<le> unat w + 63)"
proof -
  have r: "\<exists>a k h' fl'. f = Inr (a + 16, h') \<and> a + 16 \<noteq> NULL \<and> heap_inv h' T fl' ((a, k, d) # As) \<and>
      unat w + 16 \<le> unat k \<and> unat k \<le> unat w + 63"
    if "\<exists>r. f = Inr r \<and> alloc_result h T As w d r" for d f
    using that live_head(5) by (fastforce simp: alloc_result_def)
  show ?thesis
    by (intro conjI if_else_mono [OF malloc_spec [OF assms]]
        if_else_mono [OF mallocDMA_spec [OF assms]] r)
qed

theorem heap_malloc_exact_witness:
  "\<exists>h T fl. heap_inv h T fl [] \<and> p_pvPortMalloc h 0 = Inr (NULL, h) \<and>
     pvPortMallocDMA h 0x80000000 = Inr (NULL, h)"
proof -
  obtain h T fl where i: "heap_inv h T fl []" using ex_heap_inv by blast
  show ?thesis
    using heap_malloc_exact [OF i, where w = 0] heap_malloc_exact [OF i, where w = "0x80000000"] i
    by auto
qed

text \<open>
  C4.  \<^verbatim>\<open>vPortFree\<close> of a live block gives it back: the call returns, the block goes into the
  free list of the pool it came from, in address order and merged with the free neighbours
  it touches, no other block is affected, and the free bytes grow by its size.  The total of
  free and live bytes never changes.
\<close>

theorem heap_free_exact:
  assumes inv: "heap_inv h T fl (xs @ (a, n, d) # ys)"
  shows "\<exists>h'. p_vPortFree h (a + 16) = Inr h' \<and>
           heap_inv h' T (fl(d := fl_insert (a, n) (fl d))) (xs @ ys) \<and>
           sorted_wrt (\<lambda>x y. fst x < fst y) (fl_insert (a, n) (fl d)) \<and>
           coalesced (fl_insert (a, n) (fl d)) \<and>
           unat (xFreeBytesRemaining h') = unat (xFreeBytesRemaining h) + unat n"
proof -
  obtain h' where f: "p_vPortFree h (a + 16) = Inr h'"
    and i: "heap_inv h' T (fl(d := fl_insert (a, n) (fl d))) (xs @ ys)"
    using free_live_inv [OF inv] by blast
  have "pool_ok (hmem h') (pstart h' d) (fl_insert (a, n) (fl d)) (pend h' d)"
    using inv_pool [OF i, of d] by simp
  then have "sorted_wrt (\<lambda>x y. fst x < fst y) (fl_insert (a, n) (fl d))"
    "coalesced (fl_insert (a, n) (fl d))"
    by (auto simp: pool_ok_def dest: spaced_sorted)
  moreover have "unat (xFreeBytesRemaining h') = unat (xFreeBytesRemaining h) + unat n"
    using inv_free [OF inv] inv_total(1) [OF inv] inv_free [OF i] inv_total(1) [OF i] by simp
  ultimately show ?thesis using f i by auto
qed

theorem heap_free_exact_witness:
  "\<exists>h T fl a n d h'. heap_inv h T fl [(a, n, d)] \<and> p_vPortFree h (a + 16) = Inr h' \<and>
     heap_inv h' T (fl(d := fl_insert (a, n) (fl d))) []"
proof -
  obtain h T fl a n d where i: "heap_inv h T fl [(a, n, d)]" using ex_heap_live by blast
  show ?thesis using heap_free_exact [of h T fl "[]" a n d "[]"] i by fastforce
qed

text \<open>
  C5.  Freeing a block twice is caught: after \<^verbatim>\<open>vPortFree\<close> of a live block the header never
  carries the allocated bit, not even when the block was merged into its neighbours, and a
  second call on the same pointer stops at the assertion.
\<close>

theorem heap_double_free_caught:
  assumes "heap_inv h T fl (xs @ (a, n, d) # ys)" and "p_vPortFree h (a + 16) = Inr h'"
  shows "p_vPortFree h' (a + 16) = Inl AssertFail"
  by (rule double_free_caught [OF assms])

theorem heap_double_free_caught_witness:
  "\<exists>h T fl a n d h'. heap_inv h T fl [(a, n, d)] \<and> p_vPortFree h (a + 16) = Inr h' \<and>
     p_vPortFree h' (a + 16) = Inl AssertFail"
proof -
  obtain h T fl a n d where i: "heap_inv h T fl ([] @ [(a, n, d)])" using ex_heap_live by auto
  obtain h' where f: "p_vPortFree h (a + 16) = Inr h'" using free_live_inv [OF i] by blast
  show ?thesis using heap_double_free_caught [OF i f] i [simplified] f by blast
qed

text \<open>
  C6.  The pointer code that inserts a block into a free list implements the insertion with
  coalescing on lists: it returns, and the chain of headers it leaves is exactly
  \<open>fl_insert\<close> of the list before.  For the ordinary pool the routine for builds without
  DMA allocation does the same.
\<close>

theorem heap_insert_refines:
  assumes "heap_shape h fl ((b, k) # Bs)" and "xBlockSize (hmem h b) = k"
    and "in_pool h d (b, k)" and "fsum (fl d) + unat k < 2147483648"
  shows "\<exists>h'. prvInsertBlockIntoFreeListWithDMA h b d = Inr h' \<and>
           fchain (hmem h') (pxNextFreeBlock (hmem h' (pstart h' d)))
             (fl_insert (b, k) (fl d)) (pend h' d) \<and>
           fsum (fl_insert (b, k) (fl d)) = fsum (fl d) + unat k \<and>
           (\<not> d \<longrightarrow> p_prvInsertBlockIntoFreeList h b = Inr h')"
proof -
  obtain m where m: "prvInsertBlockIntoFreeListWithDMA h b d = Inr (h\<lparr>hmem := m\<rparr>)"
    "heap_shape (h\<lparr>hmem := m\<rparr>) (fl(d := fl_insert (b, k) (fl d))) Bs"
    "fsum (fl_insert (b, k) (fl d)) = fsum (fl d) + unat k"
    using shape_insert [OF assms] by blast
  have "fchain m (pxNextFreeBlock (m (pstart (h\<lparr>hmem := m\<rparr>) d))) (fl_insert (b, k) (fl d))
      (pend (h\<lparr>hmem := m\<rparr>) d)"
    using shape_pool [OF m(2), of d] by (simp add: pool_ok_def)
  moreover have "\<not> d \<longrightarrow> p_prvInsertBlockIntoFreeList h b = prvInsertBlockIntoFreeListWithDMA h b d"
    by (simp add: p_prvInsertBlockIntoFreeList_def prvInsertBlockIntoFreeListWithDMA_def)
  ultimately show ?thesis using m by auto
qed

theorem heap_insert_refines_witness:
  "\<exists>h fl b k d h'. xBlockSize (hmem h b) = k \<and> prvInsertBlockIntoFreeListWithDMA h b d = Inr h' \<and>
     fchain (hmem h') (pxNextFreeBlock (hmem h' (pstart h' d))) (fl_insert (b, k) (fl d)) (pend h' d)"
proof -
  obtain h T fl a n d where i: "heap_inv h T fl [(a, n, d)]" using ex_heap_live by blast
  note c = cleared_shape [OF i]
  show ?thesis using heap_insert_refines [OF c(1) _ c(2,3)] by fastforce
qed

text \<open>
  When the DMA heap is declared on the region of the ordinary heap, the list head of
  the DMA heap is a copy that the ordinary allocator does not keep up to date: after one
  \<^verbatim>\<open>pvPortMalloc\<close> the DMA free list starts at the block just handed out.
\<close>

definition ex_same_region :: "HeapRegion_t list" where
  "ex_same_region = [\<lparr>pucStartAddress = 0x1008, xSizeInBytes = 0x400\<rparr>,
     \<lparr>pucStartAddress = 0, xSizeInBytes = 0\<rparr>]"

theorem heap_same_region_stale:
  "res_bind (p_vPortDefineHeapRegions ex_heap ex_same_region)
     (\<lambda>h1. res_bind (vPortDefineHeapRegionsDMA h1 ex_same_region)
        (\<lambda>h2. res_bind (p_pvPortMalloc h2 20)
           (\<lambda>(p, h3). Inr (p, pxNextFreeBlock (hmem h3 (addr_xStartDMA h3)) + xHeapStructSize)))) =
   Inr (0x1020, 0x1020)"
  by (simp add: heap_eval ex_same_region_def)

end
