(* ===== verification/Mem_Slab.thy ===== *)
theory Mem_Slab
  imports Wise_Prelude
begin

unbundle bit_operations_syntax

text \<open>
  The memory slabs of \<^verbatim>\<open>kernel/mem_slab.c\<close>: fixed-size blocks on a free list threaded
  through the blocks themselves, with a message queue of length one that hands a freed
  block to a waiting task.  The message queue is the RTOS's; its operations are a
  parameter, a record of functions on a queue state.
\<close>

section \<open>State\<close>

type_synonym wstore = "u32 \<Rightarrow> u32"

record mem_slab =
  wait_q :: u32
  slab_buffer :: u32
  free_list :: u32
  num_blocks :: u32
  block_size :: u32
  num_used :: u32
  max_used :: u32

datatype osStatus = osOK | osErrorTimeout | osErrorResource | osErrorParameter
  | osErrorNeedSched | osErrorOther

record 'q mq_ops =
  osMessageQueueNew :: "'q \<Rightarrow> u32 \<times> 'q"
  osMessageQueueGetCount :: "'q \<Rightarrow> u32 \<Rightarrow> u32"
  osMessageQueueDelete :: "'q \<Rightarrow> u32 \<Rightarrow> osStatus \<times> 'q"
  osMessageQueueGet :: "'q \<Rightarrow> u32 \<Rightarrow> u32 \<Rightarrow> osStatus \<times> u32 \<times> 'q"
  osMessageQueuePut :: "'q \<Rightarrow> u32 \<Rightarrow> u32 \<Rightarrow> osStatus \<times> 'q"
  osMessageQueueGetNumberOfTasksWaitingToReceive :: "'q \<Rightarrow> u32 \<Rightarrow> u32"
  osMessageQueueGetSpace :: "'q \<Rightarrow> u32 \<Rightarrow> u32"

text \<open>\<^verbatim>\<open>osWaitForever\<close>, and the tick rate of 1000 Hz that makes \<^verbatim>\<open>pdMS_TO_TICKS\<close> the identity
  up to the wrap-around of its product.\<close>

definition osWaitForever :: u32 where
  "osWaitForever = 0xFFFFFFFF"

definition pdMS_TO_TICKS :: "u32 \<Rightarrow> u32" where
  "pdMS_TO_TICKS ms = (ms * 1000) div 1000"

section \<open>Initialization\<close>

partial_function (option) free_list_loop ::
  "wstore \<Rightarrow> u32 \<Rightarrow> u32 \<Rightarrow> u32 \<Rightarrow> u32 \<Rightarrow> (wstore \<times> u32) option" where
  [code]: "free_list_loop m buf bs p fl =
     (if p \<ge> buf then free_list_loop (m(p := fl)) buf bs (p - bs) p
      else Some (m, fl))"

definition create_free_list :: "mem_slab \<Rightarrow> wstore \<Rightarrow> (int \<times> mem_slab \<times> wstore) res" where
  "create_free_list slab m =
     (if (block_size slab OR slab_buffer slab) AND (4 - 1) \<noteq> 0 then Inr (- EINVAL, slab, m)
      else res_bind (res_of_option NoReturn
             (free_list_loop m (slab_buffer slab) (block_size slab)
                (slab_buffer slab + block_size slab * (num_blocks slab - 1)) NULL))
             (\<lambda>(m', fl). Inr (0, slab\<lparr>free_list := fl\<rparr>, m')))"

definition create_wait_q :: "'q mq_ops \<Rightarrow> mem_slab \<Rightarrow> 'q \<Rightarrow> int \<times> mem_slab \<times> 'q" where
  "create_wait_q mq slab q =
     (let (id, q') = osMessageQueueNew mq q; slab' = slab\<lparr>wait_q := id\<rparr>
      in if id = NULL then (- EINVAL, slab', q') else (0, slab', q'))"

text \<open>\<open>l\<close> is the list \<^verbatim>\<open>memslabs\<close> of the slabs' addresses and \<open>self\<close> the address of the slab.\<close>

definition mem_slab_init ::
  "'q mq_ops \<Rightarrow> u32 \<Rightarrow> mem_slab \<Rightarrow> u32 \<Rightarrow> u32 \<Rightarrow> u32 \<Rightarrow> wstore \<Rightarrow> 'q \<Rightarrow> u32 list \<Rightarrow>
     (int \<times> mem_slab \<times> wstore \<times> 'q \<times> u32 list) res" where
  "mem_slab_init mq self slab buf bs n m q l =
     (let s0 = slab\<lparr>num_blocks := n, block_size := bs, slab_buffer := buf, num_used := 0,
                    max_used := 0\<rparr>
      in res_bind (create_free_list s0 m)
           (\<lambda>(rc, s1, m1).
              if rc < 0 then Inr (rc, s1, m1, q, l)
              else (let (rc', s2, q') = create_wait_q mq s1 q
                    in if rc' < 0 then Inr (rc', s2, m1, q', l)
                       else Inr (0, s2, m1, q', l @ [self]))))"

definition delete_wait_q :: "'q mq_ops \<Rightarrow> mem_slab \<Rightarrow> 'q \<Rightarrow> (int \<times> mem_slab \<times> 'q) res" where
  "delete_wait_q mq slab q =
     (if wait_q slab = NULL then Inr (0, slab, q)
      else if osMessageQueueGetCount mq q (wait_q slab) \<noteq> 0 then Inl AssertFail
      else (let (st, q') = osMessageQueueDelete mq q (wait_q slab)
            in if st \<noteq> osOK then Inr (- EINVAL, slab, q')
               else Inr (0, slab\<lparr>wait_q := NULL\<rparr>, q')))"

definition mem_slab_deinit :: "'q mq_ops \<Rightarrow> mem_slab \<Rightarrow> 'q \<Rightarrow> (int \<times> mem_slab \<times> 'q) res" where
  "mem_slab_deinit mq slab q =
     (if num_used slab \<noteq> 0 then Inl AssertFail
      else res_bind (delete_wait_q mq slab q)
             (\<lambda>(rc, slab', q'). if rc < 0 then Inr (rc, slab', q') else Inr (0, slab', q')))"

section \<open>Allocation and freeing\<close>

text \<open>The offset is signed in the first test and unsigned in the two others.\<close>

definition slab_ptr_is_good :: "mem_slab \<Rightarrow> u32 \<Rightarrow> bool" where
  "slab_ptr_is_good slab ptr \<longleftrightarrow>
     (let offset = ptr - slab_buffer slab
      in 0 \<le> sint offset \<and> offset < block_size slab * num_blocks slab \<and>
         offset mod block_size slab = 0)"

text \<open>
  The part of \<^verbatim>\<open>mem_slab_alloc\<close> with interrupts off: either the call is done, with the
  result, the value stored through \<^verbatim>\<open>mem\<close> and the new slab, or it has to wait for the
  given number of ticks, with interrupts enabled again.
\<close>

datatype slab_try = Done int u32 mem_slab | Wait u32

definition mem_slab_try :: "mem_slab \<Rightarrow> wstore \<Rightarrow> u32 \<Rightarrow> slab_try res" where
  "mem_slab_try slab m timeout =
     (if free_list slab \<noteq> NULL
      then (let mem = free_list slab;
                s1 = slab\<lparr>free_list := m (free_list slab), num_used := num_used slab + 1\<rparr>;
                sane = (free_list s1 = NULL \<and> num_used s1 = num_blocks s1 \<or>
                        slab_ptr_is_good s1 (free_list s1))
            in if \<not> sane then Inl AssertFail
               else Inr (Done 0 mem (s1\<lparr>max_used := max (num_used s1) (max_used s1)\<rparr>)))
      else if timeout = 0 then Inr (Done (- ENOMEM) NULL slab)
      else Inr (Wait (if timeout = osWaitForever then timeout else pdMS_TO_TICKS timeout)))"

fun slab_wait_result :: "osStatus \<Rightarrow> int" where
  "slab_wait_result osErrorParameter = - EINVAL"
| "slab_wait_result osErrorResource = - EINVAL"
| "slab_wait_result osErrorTimeout = - ETIME"
| "slab_wait_result _ = 0"

text \<open>The whole call; a message is stored through \<^verbatim>\<open>mem\<close> only when one was received.\<close>

definition mem_slab_alloc ::
  "'q mq_ops \<Rightarrow> mem_slab \<Rightarrow> wstore \<Rightarrow> u32 \<Rightarrow> u32 \<Rightarrow> 'q \<Rightarrow> (int \<times> u32 \<times> mem_slab \<times> 'q) res" where
  "mem_slab_alloc mq slab m mem timeout q =
     res_bind (mem_slab_try slab m timeout)
       (\<lambda>t. case t of
              Done r mem' slab' \<Rightarrow> Inr (r, mem', slab', q)
            | Wait tick \<Rightarrow>
                (let (st, x, q') = osMessageQueueGet mq q (wait_q slab) tick
                 in Inr (slab_wait_result st, if st = osOK then x else mem, slab, q')))"

definition mem_slab_free ::
  "'q mq_ops \<Rightarrow> mem_slab \<Rightarrow> wstore \<Rightarrow> u32 \<Rightarrow> 'q \<Rightarrow> (mem_slab \<times> wstore \<times> 'q) res" where
  "mem_slab_free mq slab m mem q =
     (if free_list slab = NULL \<and>
         osMessageQueueGetNumberOfTasksWaitingToReceive mq q (wait_q slab) \<noteq> 0 \<and>
         osMessageQueueGetSpace mq q (wait_q slab) \<noteq> 0
      then (let (st, q') = osMessageQueuePut mq q (wait_q slab) mem
            in if st = osOK \<or> st = osErrorNeedSched then Inr (slab, m, q') else Inl AssertFail)
      else Inr (slab\<lparr>free_list := mem, num_used := num_used slab - 1\<rparr>,
                m(mem := free_list slab), q))"

section \<open>The statically defined slabs\<close>

text \<open>The slabs of the section \<^verbatim>\<open>memslab\<close>, each with its address, initialized in order until
  one fails.\<close>

fun memory_slab_init ::
  "'q mq_ops \<Rightarrow> (u32 \<times> mem_slab) list \<Rightarrow> wstore \<Rightarrow> 'q \<Rightarrow> u32 list \<Rightarrow>
     (int \<times> (u32 \<times> mem_slab) list \<times> wstore \<times> 'q \<times> u32 list) res" where
  "memory_slab_init mq [] m q l = Inr (0, [], m, q, l)"
| "memory_slab_init mq ((self, s) # ss) m q l =
     res_bind (create_free_list s m)
       (\<lambda>(rc, s1, m1).
          if rc < 0 then Inr (rc, (self, s1) # ss, m1, q, l)
          else (let (rc', s2, q') = create_wait_q mq s1 q
                in if rc' < 0 then Inr (rc', (self, s2) # ss, m1, q', l)
                   else res_bind (memory_slab_init mq ss m1 q' (l @ [self]))
                          (\<lambda>(rc'', ss', m', q'', l'). Inr (rc'', (self, s2) # ss', m', q'', l'))))"

definition memory_slab_fini :: "u32 list \<Rightarrow> int \<times> u32 list" where
  "memory_slab_fini l = (0, [])"

end
