(* ===== verification/Mem_Slab_Inv.thy ===== *)
theory Mem_Slab_Inv
  imports Mem_Slab
begin

unbundle bit_operations_syntax

text \<open>
  The invariant of a slab: the free list is a null-terminated chain through the blocks, and
  the blocks on it and the blocks handed out are together exactly the blocks of the slab.
\<close>

section \<open>Blocks\<close>

definition blk :: "mem_slab \<Rightarrow> nat \<Rightarrow> u32" where
  "blk s i = slab_buffer s + of_nat i * block_size s"

definition slab_blocks :: "mem_slab \<Rightarrow> u32 list" where
  "slab_blocks s = map (blk s) [0 ..< unat (num_blocks s)]"

definition slab_geom :: "mem_slab \<Rightarrow> bool" where
  "slab_geom s \<longleftrightarrow>
     0 < unat (block_size s) \<and> unat (block_size s) mod 4 = 0 \<and> unat (slab_buffer s) mod 4 = 0 \<and>
     unat (block_size s) \<le> unat (slab_buffer s) \<and>
     unat (block_size s) * unat (num_blocks s) < 2147483648 \<and>
     unat (slab_buffer s) + unat (block_size s) * unat (num_blocks s) \<le> 4294967296"

lemma unat_mult32: "unat (a :: u32) * unat b < 4294967296 \<Longrightarrow> unat (a * b) = unat a * unat b"
  by (simp add: unat_word_ariths)

lemma unat_blk:
  assumes "slab_geom s" "i < unat (num_blocks s)"
  shows "unat (blk s i) = unat (slab_buffer s) + i * unat (block_size s)"
    and "unat (slab_buffer s) + i * unat (block_size s) + unat (block_size s) \<le> 4294967296"
    and "i * unat (block_size s) < 2147483648"
proof -
  have le: "Suc i * unat (block_size s) \<le> unat (block_size s) * unat (num_blocks s)"
    using assms(2) by (subst mult.commute) (intro mult_le_mono, simp_all)
  show hi: "unat (slab_buffer s) + i * unat (block_size s) + unat (block_size s) \<le> 4294967296"
    using le assms(1) by (simp add: slab_geom_def)
  show lo: "i * unat (block_size s) < 2147483648" using le assms(1) by (simp add: slab_geom_def)
  have i: "unat (of_nat i :: u32) = i"
    using less_trans [OF assms(2) unat_lt32] by (rule unat_of_nat32)
  have "unat (of_nat i * block_size s) = i * unat (block_size s)"
    using lo i by (subst unat_mult32) simp_all
  then show "unat (blk s i) = unat (slab_buffer s) + i * unat (block_size s)"
    using hi assms(1) unfolding blk_def by (subst unat_plus32) (simp_all add: slab_geom_def)
qed

lemma blk_inj:
  assumes "slab_geom s" "i < unat (num_blocks s)" "j < unat (num_blocks s)"
  shows "blk s i = blk s j \<longleftrightarrow> i = j"
  using unat_blk(1) [OF assms(1,2)] unat_blk(1) [OF assms(1,3)] assms(1)
  by (auto simp: unat_eq_iff32 slab_geom_def)

lemma distinct_slab_blocks: "slab_geom s \<Longrightarrow> distinct (slab_blocks s)"
  by (auto simp: slab_blocks_def distinct_map inj_on_def blk_inj)

lemma blk_not_null: "slab_geom s \<Longrightarrow> i < unat (num_blocks s) \<Longrightarrow> blk s i \<noteq> NULL"
  using unat_blk(1) [of s i] by (auto simp: slab_geom_def)

lemma blk_good:
  assumes g: "slab_geom s" and i: "i < unat (num_blocks s)"
  shows "slab_ptr_is_good s (blk s i)"
proof -
  let ?o = "blk s i - slab_buffer s"
  have o: "unat ?o = i * unat (block_size s)"
    using unat_blk(1) [OF g i] by (subst unat_minus32) simp_all
  have "\<not> bit ?o 31" using o unat_blk(3) [OF g i] by (simp add: bit31_iff)
  then have "0 \<le> sint ?o" using bit_last_iff [of ?o] by simp
  moreover have "?o < block_size s * num_blocks s"
  proof -
    have "unat (block_size s * num_blocks s) = unat (block_size s) * unat (num_blocks s)"
      using g by (intro unat_mult32) (simp add: slab_geom_def)
    moreover have "i * unat (block_size s) < unat (block_size s) * unat (num_blocks s)"
      using i g by (simp add: slab_geom_def mult.commute)
    ultimately show ?thesis by (simp add: less_iff32 o)
  qed
  moreover have "?o mod block_size s = 0"
    by (simp add: unat_eq_iff32 unat_mod_distrib o)
  ultimately show ?thesis by (simp add: slab_ptr_is_good_def Let_def)
qed

section \<open>The free list\<close>

fun schain :: "wstore \<Rightarrow> u32 \<Rightarrow> u32 list \<Rightarrow> bool" where
  "schain m p [] \<longleftrightarrow> p = NULL"
| "schain m p (a # as) \<longleftrightarrow> p = a \<and> a \<noteq> NULL \<and> schain m (m a) as"

lemma schain_frame: "\<forall>a\<in>set as. m' a = m a \<Longrightarrow> schain m' p as = schain m p as"
  by (induction as arbitrary: p) auto

lemma schain_upd [simp]: "a \<notin> set as \<Longrightarrow> schain (m(a := v)) p as = schain m p as"
  by (rule schain_frame) auto

lemma schain_null: "schain m p as \<Longrightarrow> p = NULL \<longleftrightarrow> as = []"
  by (cases as) auto

lemma free_list_loop_chain:
  assumes g: "slab_geom s" and k: "k \<le> unat (num_blocks s)"
    and c: "schain m fl (map (blk s) [k ..< unat (num_blocks s)])"
  shows "\<exists>m' fl'. free_list_loop m (slab_buffer s) (block_size s) (blk s k - block_size s) fl =
           Some (m', fl') \<and> schain m' fl' (slab_blocks s)"
  using k c
proof (induction k arbitrary: m fl)
  case 0
  have b: "blk s 0 = slab_buffer s" by (simp add: blk_def)
  have "unat (slab_buffer s - block_size s) = unat (slab_buffer s) - unat (block_size s)"
    using g by (intro unat_minus32) (simp add: slab_geom_def)
  then have "\<not> slab_buffer s \<le> slab_buffer s - block_size s"
    using g by (auto simp: le_iff32 slab_geom_def)
  then show ?case using 0 b by (subst free_list_loop.simps) (simp add: slab_blocks_def)
next
  case (Suc k)
  let ?n = "unat (num_blocks s)"
  have k: "k < ?n" using Suc.prems by simp
  have p: "blk s (Suc k) - block_size s = blk s k" by (simp add: blk_def algebra_simps)
  have ge: "slab_buffer s \<le> blk s k" using unat_blk(1) [OF g k] by (simp add: le_iff32)
  have "blk s k \<notin> set (map (blk s) [Suc k ..< ?n])"
    using blk_inj [OF g k] by (auto simp del: upt_Suc) fastforce
  then have "schain (m(blk s k := fl)) (blk s k) (map (blk s) [k ..< ?n])"
    using Suc.prems(2) k blk_not_null [OF g k] by (simp add: upt_conv_Cons)
  from Suc.IH [OF less_imp_le [OF k] this] show ?case
    unfolding p using ge by (subst free_list_loop.simps) (simp add: fun_upd_def)
qed

lemma geom_aligned:
  assumes "slab_geom s"
  shows "(block_size s OR slab_buffer s) AND 3 = 0"
proof -
  have "x AND 3 = 0" if "unat x mod 4 = 0" for x :: u32
  proof -
    have "x AND 3 = take_bit 2 x" by (simp add: take_bit_eq_mask mask_eq_exp_minus_1)
    then have "unat (x AND 3) = unat x mod 4"
      by (simp add: unsigned_take_bit_eq take_bit_eq_mod unat_mod_distrib)
    with that show ?thesis by (simp add: unat_eq_iff32)
  qed
  then show ?thesis
    using assms by (simp add: bit.conj_disj_distrib2 slab_geom_def)
qed

lemma create_free_list_chain:
  assumes g: "slab_geom s"
  shows "\<exists>fl m'. create_free_list s m = Inr (0, s\<lparr>free_list := fl\<rparr>, m') \<and>
           schain m' fl (slab_blocks s)"
proof -
  have "slab_buffer s + block_size s * (num_blocks s - 1) =
      blk s (unat (num_blocks s)) - block_size s"
    by (simp add: blk_def algebra_simps)
  then show ?thesis
    using free_list_loop_chain [OF g order_refl, of m NULL] geom_aligned [OF g]
    by (auto simp: create_free_list_def)
qed

section \<open>The invariant\<close>

definition slab_inv :: "mem_slab \<Rightarrow> wstore \<Rightarrow> u32 list \<Rightarrow> u32 list \<Rightarrow> bool" where
  "slab_inv s m F U \<longleftrightarrow>
     slab_geom s \<and> schain m (free_list s) F \<and> distinct (F @ U) \<and>
     set (F @ U) = set (slab_blocks s) \<and> unat (num_used s) = length U \<and>
     num_used s \<le> max_used s \<and> max_used s \<le> num_blocks s"

lemma slab_blocks_cong:
  "slab_buffer s' = slab_buffer s \<Longrightarrow> block_size s' = block_size s \<Longrightarrow> num_blocks s' = num_blocks s \<Longrightarrow>
     slab_blocks s' = slab_blocks s \<and> slab_geom s' = slab_geom s"
  by (simp add: slab_blocks_def slab_geom_def blk_def [abs_def])

lemma slab_count:
  assumes "slab_inv s m F U"
  shows "length F + length U = unat (num_blocks s)"
proof -
  have d: "distinct (F @ U)" "set (F @ U) = set (slab_blocks s)" "slab_geom s"
    using assms by (simp_all add: slab_inv_def)
  have "length (F @ U) = card (set (slab_blocks s))"
    using distinct_card [OF d(1)] unfolding d(2) by (rule sym)
  also have "\<dots> = length (slab_blocks s)"
    by (rule distinct_card [OF distinct_slab_blocks [OF d(3)]])
  finally show ?thesis by (simp add: slab_blocks_def)
qed

lemma slab_inv_perm:
  "slab_inv s m F U \<Longrightarrow> distinct U' \<Longrightarrow> set U' = set U \<Longrightarrow> slab_inv s m F U'"
  using distinct_card [of U] distinct_card [of U'] by (auto simp: slab_inv_def)

lemma block_good: "slab_geom s \<Longrightarrow> a \<in> set (slab_blocks s) \<Longrightarrow> slab_ptr_is_good s a \<and> a \<noteq> NULL"
  using blk_good blk_not_null by (auto simp: slab_blocks_def)

lemma slab_try_take:
  assumes inv: "slab_inv s m (a # F) U"
  shows "\<exists>s'. mem_slab_try s m t = Inr (Done 0 a s') \<and> slab_inv s' m F (a # U) \<and>
           wait_q s' = wait_q s"
proof -
  let ?s1 = "s\<lparr>free_list := m a, num_used := num_used s + 1\<rparr>"
  have c: "free_list s = a" "a \<noteq> NULL" "schain m (m a) F" and g: "slab_geom s"
    using inv by (auto simp: slab_inv_def)
  have cnt: "length F + length U + 1 = unat (num_blocks s)" using slab_count [OF inv] by simp
  have "unat (num_used s) = length U" using inv by (simp add: slab_inv_def)
  then have "unat (num_used s) + 1 < 4294967296"
    using cnt unat_lt32 [of "num_blocks s"] by linarith
  then have u: "unat (num_used s + 1) = length U + 1"
    using inv by (subst unat_plus32) (simp_all add: slab_inv_def)
  have "(m a = NULL \<and> num_used s + 1 = num_blocks s) \<or> slab_ptr_is_good ?s1 (m a)"
  proof (cases F)
    case Nil
    with c(3) cnt u show ?thesis by (simp add: unat_eq_iff32)
  next
    case (Cons b F')
    then have "b \<in> set (slab_blocks s)" "m a = b" using inv c by (auto simp: slab_inv_def)
    then show ?thesis using block_good [OF g] by (simp add: slab_ptr_is_good_def)
  qed
  then have t: "mem_slab_try s m t = Inr (Done 0 a
      (?s1\<lparr>max_used := max (num_used s + 1) (max_used s)\<rparr>))"
    using c(1,2) by (simp add: mem_slab_try_def Let_def)
  have "slab_inv (?s1\<lparr>max_used := max (num_used s + 1) (max_used s)\<rparr>) m F (a # U)"
    using inv c(3) u cnt slab_blocks_cong [of "?s1\<lparr>max_used := max (num_used s + 1) (max_used s)\<rparr>" s]
    by (auto simp: slab_inv_def le_iff32 max_def)
  with t show ?thesis by simp
qed

lemma slab_free_list:
  assumes inv: "slab_inv s m F (xs @ a # ys)"
  shows "slab_inv (s\<lparr>free_list := a, num_used := num_used s - 1\<rparr>) (m(a := free_list s))
           (a # F) (xs @ ys)"
proof -
  have "a \<noteq> NULL" using inv block_good [of s a] by (auto simp: slab_inv_def)
  moreover have "unat (num_used s - 1) = length (xs @ ys)"
    using inv by (subst unat_minus32) (simp_all add: slab_inv_def)
  ultimately show ?thesis
    using inv slab_blocks_cong [of "s\<lparr>free_list := a, num_used := num_used s - 1\<rparr>" s]
    by (auto simp: slab_inv_def le_iff32)
qed

end
