(* ===== verification/Mem_Slab_Safety.thy ===== *)
theory Mem_Slab_Safety
  imports Mem_Slab_Inv
begin

unbundle bit_operations_syntax

text \<open>
  Memory slabs used by several tasks: the steps of tasks that allocate, wait, receive, write
  to their blocks and free them, interleaved at the points where interrupts are enabled,
  and the properties of the slabs.
\<close>

section \<open>What the message queue promises\<close>

text \<open>
  \<open>c q id\<close> are the messages in the queue \<open>id\<close>.  With space left, \<^verbatim>\<open>osMessageQueuePut\<close> appends
  and reports success, possibly asking for a reschedule; \<^verbatim>\<open>osMessageQueueGet\<close> takes the first
  message when it succeeds and none when it fails.
\<close>

definition mq_ok :: "'q mq_ops \<Rightarrow> ('q \<Rightarrow> u32 \<Rightarrow> u32 list) \<Rightarrow> bool" where
  "mq_ok mq c \<longleftrightarrow>
     (\<forall>q id x. osMessageQueueGetSpace mq q id \<noteq> 0 \<longrightarrow>
        fst (osMessageQueuePut mq q id x) \<in> {osOK, osErrorNeedSched} \<and>
        c (snd (osMessageQueuePut mq q id x)) id = c q id @ [x]) \<and>
     (\<forall>q id t st x q'. osMessageQueueGet mq q id t = (st, x, q') \<longrightarrow>
        c q id = (if st = osOK then x # c q' id else c q' id))"

section \<open>Interleaved tasks\<close>

text \<open>
  The state: the slab, the memory, the queue and the blocks the tasks own.  A call of
  \<^verbatim>\<open>mem_slab_alloc\<close> is one step when it does not wait; when it waits, its first part
  changes nothing, and its end, the return of \<^verbatim>\<open>osMessageQueueGet\<close>, is a step of its own.
  Tasks start and stop waiting at any time, which may change the queue but not its
  messages, and owners write what they like to the words of their blocks.
\<close>

type_synonym 'q slab_state = "mem_slab \<times> wstore \<times> 'q \<times> u32 list"

inductive slab_step ::
  "'q mq_ops \<Rightarrow> ('q \<Rightarrow> u32 \<Rightarrow> u32 list) \<Rightarrow> 'q slab_state \<Rightarrow> 'q slab_state \<Rightarrow> bool"
  for mq :: "'q mq_ops" and c where
  alloc: "mem_slab_try s m t = Inr (Done 0 x s') \<Longrightarrow>
     slab_step mq c (s, m, q, own) (s', m, q, x # own)"
| receive: "osMessageQueueGet mq q (wait_q s) t = (osOK, x, q') \<Longrightarrow>
     slab_step mq c (s, m, q, own) (s, m, q', x # own)"
| fail: "osMessageQueueGet mq q (wait_q s) t = (st, x, q') \<Longrightarrow> st \<noteq> osOK \<Longrightarrow>
     slab_step mq c (s, m, q, own) (s, m, q', own)"
| waiters: "c q' (wait_q s) = c q (wait_q s) \<Longrightarrow>
     slab_step mq c (s, m, q, own) (s, m, q', own)"
| put: "x \<in> set own \<Longrightarrow> unat x \<le> unat a \<Longrightarrow> unat a < unat x + unat (block_size s) \<Longrightarrow>
     slab_step mq c (s, m, q, own) (s, m(a := v), q, own)"
| free: "mem_slab_free mq s m x q = Inr (s', m', q') \<Longrightarrow>
     slab_step mq c (s, m, q, xs @ x # ys) (s', m', q', xs @ ys)"

inductive_cases slab_stepE: "slab_step mq c (s, m, q, own) st"

definition slab_state_ok :: "('q \<Rightarrow> u32 \<Rightarrow> u32 list) \<Rightarrow> 'q slab_state \<Rightarrow> bool" where
  "slab_state_ok c = (\<lambda>(s, m, q, own). \<exists>F. slab_inv s m F (own @ c q (wait_q s)))"

lemma slab_take_cases:
  assumes inv: "slab_inv s m F U" and t: "mem_slab_try s m t = Inr (Done 0 x s')"
  shows "\<exists>F'. slab_inv s' m F' (x # U) \<and> wait_q s' = wait_q s"
proof (cases F)
  case Nil
  then have "free_list s = NULL" using inv by (simp add: slab_inv_def)
  with t show ?thesis by (auto simp: mem_slab_try_def split: if_splits)
next
  case (Cons a F')
  obtain s'' where "mem_slab_try s m t = Inr (Done 0 a s'')" "slab_inv s'' m F' (a # U)"
    "wait_q s'' = wait_q s"
    using slab_try_take [OF inv [unfolded Cons]] by blast
  with t show ?thesis by auto
qed

lemma blocks_apart:
  assumes g: "slab_geom s" and x: "x \<in> set (slab_blocks s)" "y \<in> set (slab_blocks s)"
    and a: "unat x \<le> unat y" "unat y < unat x + unat (block_size s)"
  shows "x = y"
proof -
  obtain i j where ij: "x = blk s i" "y = blk s j" "i < unat (num_blocks s)" "j < unat (num_blocks s)"
    using x by (auto simp: slab_blocks_def)
  let ?b = "unat (block_size s)"
  have u: "i * ?b \<le> j * ?b" "j * ?b < i * ?b + ?b"
    using a unat_blk(1) [OF g ij(3)] unat_blk(1) [OF g ij(4)] by (simp_all add: ij)
  then have "j * ?b < Suc i * ?b" by simp
  then have "j < Suc i" by (simp only: mult_less_cancel2)
  moreover have "i \<le> j" using u(1) g by (simp add: slab_geom_def)
  ultimately have "i = j" by simp
  then show ?thesis by (simp add: ij)
qed

lemma slab_write_inv:
  assumes inv: "slab_inv s m F U" and x: "x \<in> set U"
    and a: "unat x \<le> unat a" "unat a < unat x + unat (block_size s)"
  shows "slab_inv s (m(a := v)) F U"
proof -
  have i: "slab_geom s" "set F \<union> set U = set (slab_blocks s)" "set F \<inter> set U = {}"
    using inv by (auto simp: slab_inv_def)
  have "a \<notin> set F"
  proof
    assume "a \<in> set F"
    then have "x = a" using blocks_apart [OF i(1) _ _ a] x i(2) by blast
    with \<open>a \<in> set F\<close> x i(3) show False by blast
  qed
  with inv show ?thesis by (simp add: slab_inv_def)
qed

lemma slab_free_cases:
  assumes mq: "mq_ok mq c" and inv: "slab_inv s m F ((xs @ x # ys) @ c q (wait_q s))"
  shows "\<exists>s' m' q' F'. mem_slab_free mq s m x q = Inr (s', m', q') \<and>
           slab_inv s' m' F' ((xs @ ys) @ c q' (wait_q s'))"
proof (cases "free_list s = NULL \<and>
    osMessageQueueGetNumberOfTasksWaitingToReceive mq q (wait_q s) \<noteq> 0 \<and>
    osMessageQueueGetSpace mq q (wait_q s) \<noteq> 0")
  case True
  obtain st q' where p: "osMessageQueuePut mq q (wait_q s) x = (st, q')" by fastforce
  then have st: "st \<in> {osOK, osErrorNeedSched}" and c: "c q' (wait_q s) = c q (wait_q s) @ [x]"
    using mq True unfolding mq_ok_def by (metis fst_conv, metis snd_conv)
  have "slab_inv s m F ((xs @ ys) @ c q' (wait_q s))"
    by (rule slab_inv_perm [OF inv]) (use inv in \<open>auto simp: c slab_inv_def\<close>)
  with True p st show ?thesis by (auto simp: mem_slab_free_def)
next
  case False
  have "slab_inv (s\<lparr>free_list := x, num_used := num_used s - 1\<rparr>) (m(x := free_list s)) (x # F)
      (xs @ ys @ c q (wait_q s))"
    using slab_free_list [of s m F xs x "ys @ c q (wait_q s)"] inv by simp
  with False show ?thesis by (auto simp: mem_slab_free_def)
qed

lemma slab_step_ok:
  assumes mq: "mq_ok mq c"
  shows "slab_step mq c st st' \<Longrightarrow> slab_state_ok c st \<Longrightarrow> slab_state_ok c st'"
proof (induction rule: slab_step.induct)
  case (alloc s m t x s' q own)
  then show ?case
    using slab_take_cases [of s m _ "own @ c q (wait_q s)" t x s'] by (fastforce simp: slab_state_ok_def)
next
  case (receive q s t x q' m own)
  then obtain F where F: "slab_inv s m F (own @ c q (wait_q s))" by (auto simp: slab_state_ok_def)
  have "c q (wait_q s) = x # c q' (wait_q s)" using receive mq unfolding mq_ok_def by metis
  then have "slab_inv s m F ((x # own) @ c q' (wait_q s))"
    by (intro slab_inv_perm [OF F]) (use F in \<open>auto simp: slab_inv_def\<close>)
  then show ?case by (auto simp: slab_state_ok_def)
next
  case (fail q s t st x q' m own)
  then have "c q (wait_q s) = c q' (wait_q s)" using mq unfolding mq_ok_def by metis
  with fail show ?case by (simp add: slab_state_ok_def)
next
  case (waiters q' s q m own)
  then show ?case by (simp add: slab_state_ok_def)
next
  case (put x own a s m q v)
  then show ?case
    using slab_write_inv [of s m _ "own @ c q (wait_q s)" x a v] by (auto simp: slab_state_ok_def)
next
  case (free s m x q s' m' q' xs ys)
  then show ?case using slab_free_cases [OF mq] by (fastforce simp: slab_state_ok_def)
qed

lemma slab_steps_ok:
  "(slab_step mq c)\<^sup>*\<^sup>* st st' \<Longrightarrow> mq_ok mq c \<Longrightarrow> slab_state_ok c st \<Longrightarrow> slab_state_ok c st'"
  by (induction rule: rtranclp_induct) (auto dest: slab_step_ok)

lemma slab_try_returns: "slab_inv s m F U \<Longrightarrow> \<exists>r. mem_slab_try s m t = Inr r"
proof (cases F)
  case Nil
  assume "slab_inv s m F U"
  with Nil have "free_list s = NULL" by (simp add: slab_inv_def)
  then show ?thesis by (simp add: mem_slab_try_def)
next
  case (Cons a F')
  assume "slab_inv s m F U"
  with Cons slab_try_take [of s m a F' U t] show ?thesis by auto
qed

text \<open>A new slab: every block is free.\<close>

definition slab_conf :: "mem_slab \<Rightarrow> u32 \<Rightarrow> u32 \<Rightarrow> u32 \<Rightarrow> mem_slab" where
  "slab_conf slab buf bs n =
     slab\<lparr>num_blocks := n, block_size := bs, slab_buffer := buf, num_used := 0, max_used := 0\<rparr>"

lemma slab_init_inv:
  assumes g: "slab_geom (slab_conf slab buf bs n)"
  shows "\<exists>fl m'. mem_slab_init mq self slab buf bs n m q l =
      (let (id, q') = osMessageQueueNew mq q;
           s = (slab_conf slab buf bs n)\<lparr>free_list := fl, wait_q := id\<rparr>
       in Inr (if id = NULL then (- EINVAL, s, m', q', l) else (0, s, m', q', l @ [self]))) \<and>
      (\<forall>id. slab_inv ((slab_conf slab buf bs n)\<lparr>free_list := fl, wait_q := id\<rparr>) m'
              (slab_blocks (slab_conf slab buf bs n)) [])"
proof -
  let ?s = "slab_conf slab buf bs n"
  obtain fl m' where c: "create_free_list ?s m = Inr (0, ?s\<lparr>free_list := fl\<rparr>, m')"
    "schain m' fl (slab_blocks ?s)"
    using create_free_list_chain [OF g] by blast
  have "slab_inv (?s\<lparr>free_list := fl, wait_q := id\<rparr>) m' (slab_blocks ?s) []" for id
    using c(2) g distinct_slab_blocks [OF g] slab_blocks_cong [of "?s\<lparr>free_list := fl, wait_q := id\<rparr>" ?s]
    by (simp add: slab_inv_def slab_conf_def)
  moreover have "mem_slab_init mq self slab buf bs n m q l =
      (let (id, q') = osMessageQueueNew mq q; s = ?s\<lparr>free_list := fl, wait_q := id\<rparr>
       in Inr (if id = NULL then (- EINVAL, s, m', q', l) else (0, s, m', q', l @ [self])))"
    using c(1) by (simp add: mem_slab_init_def slab_conf_def create_wait_q_def Let_def split: prod.splits)
  ultimately show ?thesis by blast
qed

section \<open>Properties of the slabs\<close>

text \<open>A message queue of length one, with a count of waiting tasks, for the examples.\<close>

definition ex_mq :: "(u32 list \<times> u32) mq_ops" where
  "ex_mq = \<lparr>osMessageQueueNew = (\<lambda>q. (1, q)),
     osMessageQueueGetCount = (\<lambda>(l, w) id. of_nat (length l)),
     osMessageQueueDelete = (\<lambda>q id. (osOK, q)),
     osMessageQueueGet = (\<lambda>(l, w) id t. case l of [] \<Rightarrow> (osErrorTimeout, 0, (l, w))
                                                | x # xs \<Rightarrow> (osOK, x, (xs, w))),
     osMessageQueuePut = (\<lambda>(l, w) id x. if l = [] then (osOK, ([x], w)) else (osErrorResource, (l, w))),
     osMessageQueueGetNumberOfTasksWaitingToReceive = (\<lambda>(l, w) id. w),
     osMessageQueueGetSpace = (\<lambda>(l, w) id. if l = [] then 1 else 0)\<rparr>"

definition ex_slab :: mem_slab where
  "ex_slab = \<lparr>wait_q = 0, slab_buffer = 0, free_list = 0, num_blocks = 0, block_size = 0,
     num_used = 0, max_used = 0\<rparr>"

lemma ex_mq_ok: "mq_ok ex_mq (\<lambda>(l, w) id. l)"
  by (auto simp: mq_ok_def ex_mq_def split: list.splits if_splits)

lemma ex_geom: "slab_geom (slab_conf ex_slab 0x1000 16 2)"
  by (simp add: slab_geom_def slab_conf_def)

text \<open>
  C15.  However the tasks that use a slab interleave, from its initialization on: no block
  is owned twice, every owned block is a block of the slab, \<^verbatim>\<open>num_used\<close> counts the owned
  blocks and those on their way to a waiting task, the sanity check of \<^verbatim>\<open>mem_slab_alloc\<close>
  and the assertion of \<^verbatim>\<open>mem_slab_free\<close> never fail, and freeing an owned block returns.
\<close>

theorem slab_tasks_safe:
  assumes mq: "mq_ok mq c" and g: "slab_geom (slab_conf slab buf bs n)"
    and i: "mem_slab_init mq self slab buf bs n m q l = Inr (0, s0, m0, q0, l0)"
    and e: "c q0 (wait_q s0) = []"
    and r: "(slab_step mq c)\<^sup>*\<^sup>* (s0, m0, q0, []) (s', m', q', own)"
  shows "distinct own \<and> set own \<subseteq> set (slab_blocks s') \<and>
         unat (num_used s') = length own + length (c q' (wait_q s')) \<and>
         (\<forall>t. \<exists>r. mem_slab_try s' m' t = Inr r) \<and>
         (\<forall>x\<in>set own. \<exists>r. mem_slab_free mq s' m' x q' = Inr r)"
proof -
  have "\<exists>F. slab_inv s0 m0 F []"
    using slab_init_inv [OF g, of mq self m q l] i
    by (fastforce simp: Let_def split: prod.splits if_splits)
  then have "slab_state_ok c (s0, m0, q0, [])" using e by (simp add: slab_state_ok_def)
  from slab_steps_ok [OF r mq this] obtain F where F: "slab_inv s' m' F (own @ c q' (wait_q s'))"
    by (auto simp: slab_state_ok_def)
  have "\<exists>r. mem_slab_free mq s' m' x q' = Inr r" if x: "x \<in> set own" for x
  proof -
    obtain xs ys where "own = xs @ x # ys" using x by (meson split_list)
    with F slab_free_cases [OF mq, of s' m' F xs x ys q'] show ?thesis by auto
  qed
  moreover have "set own \<subseteq> set (slab_blocks s')" using F unfolding slab_inv_def by auto
  ultimately show ?thesis
    using F slab_try_returns [OF F] by (auto simp: slab_inv_def)
qed

theorem slab_tasks_safe_witness:
  "\<exists>s0 m0 q0 s1. mem_slab_init ex_mq 0x20 ex_slab 0x1000 16 2 (\<lambda>_. 0) ([], 0) [] =
      Inr (0, s0, m0, q0, [0x20]) \<and>
     slab_step ex_mq (\<lambda>(l, w) id. l) (s0, m0, q0, []) (s1, m0, q0, [0x1000]) \<and>
     unat (num_used s1) = 1 \<and> (\<exists>r. mem_slab_free ex_mq s1 m0 0x1000 q0 = Inr r)"
proof -
  let ?c = "\<lambda>(l, w) id. l :: u32 list"
  obtain s0 m0 q0 where i: "mem_slab_init ex_mq 0x20 ex_slab 0x1000 16 2 (\<lambda>_. 0) ([], 0) [] =
      Inr (0, s0, m0, q0, [0x20])" and q0: "q0 = ([], 0)" and s0: "free_list s0 = 0x1000"
      "m0 0x1000 = 0x1010" "num_used s0 = 0" "slab_buffer s0 = 0x1000" "block_size s0 = 16"
      "num_blocks s0 = 2"
    by (simp add: mem_slab_init_def create_free_list_def create_wait_q_def ex_mq_def ex_slab_def
        free_list_loop.simps)
  define s1 where "s1 = s0\<lparr>free_list := 0x1010, num_used := 1, max_used := max 1 (max_used s0)\<rparr>"
  have "mem_slab_try s0 m0 0 = Inr (Done 0 0x1000 s1)"
    using s0 by (simp add: mem_slab_try_def Let_def slab_ptr_is_good_def s1_def)
  then have st: "slab_step ex_mq ?c (s0, m0, q0, []) (s1, m0, q0, [0x1000])" by (rule alloc)
  show ?thesis
    using slab_tasks_safe [OF ex_mq_ok ex_geom i, of s1 m0 q0 "[0x1000]"] i st q0
    by (intro exI [of _ s0] exI [of _ m0] exI [of _ q0] exI [of _ s1]) auto
qed

text \<open>
  C16.  \<^verbatim>\<open>mem_slab_init\<close>: on a block size and a buffer that are word aligned it returns with
  every block on the free list in address order and the slab appended to \<^verbatim>\<open>memslabs\<close>,
  unless the message queue cannot be created; on a misaligned one it returns
  \<^verbatim>\<open>-EINVAL\<close> and registers nothing.
\<close>

theorem slab_init_exact:
  "(slab_geom (slab_conf slab buf bs n) \<longrightarrow>
      (\<exists>fl m'. mem_slab_init mq self slab buf bs n m q l =
         (let (id, q') = osMessageQueueNew mq q;
              s = (slab_conf slab buf bs n)\<lparr>free_list := fl, wait_q := id\<rparr>
          in Inr (if id = NULL then (- EINVAL, s, m', q', l) else (0, s, m', q', l @ [self]))) \<and>
         schain m' fl (map (\<lambda>i. buf + of_nat i * bs) [0 ..< unat n]))) \<and>
   ((bs OR buf) AND 3 \<noteq> 0 \<longrightarrow>
      mem_slab_init mq self slab buf bs n m q l = Inr (- EINVAL, slab_conf slab buf bs n, m, q, l))"
proof (intro conjI impI)
  assume g: "slab_geom (slab_conf slab buf bs n)"
  have "slab_blocks (slab_conf slab buf bs n) = map (\<lambda>i. buf + of_nat i * bs) [0 ..< unat n]"
    by (simp add: slab_blocks_def blk_def slab_conf_def)
  then show "\<exists>fl m'. mem_slab_init mq self slab buf bs n m q l =
         (let (id, q') = osMessageQueueNew mq q;
              s = (slab_conf slab buf bs n)\<lparr>free_list := fl, wait_q := id\<rparr>
          in Inr (if id = NULL then (- EINVAL, s, m', q', l) else (0, s, m', q', l @ [self]))) \<and>
         schain m' fl (map (\<lambda>i. buf + of_nat i * bs) [0 ..< unat n])"
    using slab_init_inv [OF g, of mq self m q l] by (fastforce simp: slab_inv_def)
qed (simp add: mem_slab_init_def create_free_list_def slab_conf_def)

theorem slab_init_exact_witness:
  "\<exists>fl m'. mem_slab_init ex_mq 0x20 ex_slab 0x1000 16 2 (\<lambda>_. 0) ([], 0) [] =
      Inr (0, (slab_conf ex_slab 0x1000 16 2)\<lparr>free_list := fl, wait_q := 1\<rparr>, m', ([], 0), [0x20]) \<and>
    schain m' fl [0x1000, 0x1010]"
  using slab_init_exact [of ex_slab "0x1000" 16 2 ex_mq "0x20" "\<lambda>_. 0" "([], 0)" "[]"] ex_geom
  by (auto simp: ex_mq_def upt_rec)

lemma free_list_loop_stuck:
  assumes "free_list_loop m buf bs p fl = Some r"
  shows "bs = 0 \<longrightarrow> p < buf"
  by (rule free_list_loop.raw_induct [of "\<lambda>m buf bs p fl r. bs = 0 \<longrightarrow> p < buf", OF _ assms])
    (auto simp: not_le split: if_splits)

text \<open>
  C17.  A block size of zero passes the alignment check and the loop that builds the free
  list never ends.
\<close>

theorem slab_zero_size_hangs:
  assumes "buf AND 3 = 0"
  shows "mem_slab_init mq self slab buf 0 n m q l = Inl NoReturn"
proof -
  have "free_list_loop m buf 0 buf NULL = None"
    using free_list_loop_stuck [of m buf 0 buf NULL] by (cases "free_list_loop m buf 0 buf NULL") auto
  with assms show ?thesis
    by (simp add: mem_slab_init_def create_free_list_def)
qed

theorem slab_zero_size_hangs_witness:
  "mem_slab_init ex_mq 0x20 ex_slab 0x1000 0 4 (\<lambda>_. 0) ([], 0) [] = Inl NoReturn"
  by (rule slab_zero_size_hangs) simp

lemma slab_alloc_take:
  assumes inv: "slab_inv s m (b # F) U"
  shows "\<exists>s'. mem_slab_alloc mq s m v t q = Inr (0, b, s', q) \<and> slab_inv s' m F (b # U) \<and>
           unat (num_used s') = unat (num_used s) + 1"
proof -
  obtain s' where t: "mem_slab_try s m t = Inr (Done 0 b s')" and i: "slab_inv s' m F (b # U)"
    using slab_try_take [OF inv] by blast
  have "unat (num_used s') = unat (num_used s) + 1" using inv i by (simp add: slab_inv_def)
  with t i show ?thesis by (simp add: mem_slab_alloc_def)
qed

lemma slab_alloc_wait:
  assumes mq: "mq_ok mq c" and inv: "slab_inv s m [] U"
    and g: "osMessageQueueGet mq q (wait_q s) (if t = osWaitForever then t else pdMS_TO_TICKS t) = (st, x, q')"
  shows "mem_slab_alloc mq s m v t q =
      (if t = 0 then Inr (- ENOMEM, NULL, s, q)
       else if st = osOK then Inr (0, x, s, q')
       else if st = osErrorTimeout then Inr (- ETIME, v, s, q')
       else if st = osErrorParameter \<or> st = osErrorResource then Inr (- EINVAL, v, s, q')
       else Inr (0, v, s, q'))"
    and "c q (wait_q s) = (if st = osOK then x # c q' (wait_q s) else c q' (wait_q s))"
proof -
  have "free_list s = NULL" using inv by (simp add: slab_inv_def)
  then show "mem_slab_alloc mq s m v t q =
      (if t = 0 then Inr (- ENOMEM, NULL, s, q)
       else if st = osOK then Inr (0, x, s, q')
       else if st = osErrorTimeout then Inr (- ETIME, v, s, q')
       else if st = osErrorParameter \<or> st = osErrorResource then Inr (- EINVAL, v, s, q')
       else Inr (0, v, s, q'))"
    using g by (cases st) (simp_all add: mem_slab_alloc_def mem_slab_try_def split: if_splits)
  show "c q (wait_q s) = (if st = osOK then x # c q' (wait_q s) else c q' (wait_q s))"
    using mq g unfolding mq_ok_def by metis
qed

text \<open>Whether \<^verbatim>\<open>mem_slab_free\<close> hands the block to a waiting task.\<close>

definition handoff :: "'q mq_ops \<Rightarrow> mem_slab \<Rightarrow> 'q \<Rightarrow> u32 list \<Rightarrow> bool" where
  "handoff mq s q F \<longleftrightarrow> F = [] \<and> osMessageQueueGetNumberOfTasksWaitingToReceive mq q (wait_q s) \<noteq> 0 \<and>
     osMessageQueueGetSpace mq q (wait_q s) \<noteq> 0"

lemma slab_free_handoff:
  assumes mq: "mq_ok mq c" and inv: "slab_inv s m F (xs @ a # ys)" and h: "handoff mq s q F"
  shows "\<exists>q'. mem_slab_free mq s m a q = Inr (s, m, q') \<and> c q' (wait_q s) = c q (wait_q s) @ [a]"
proof -
  obtain st q' where p: "osMessageQueuePut mq q (wait_q s) a = (st, q')" by fastforce
  then have "st \<in> {osOK, osErrorNeedSched}" and "c q' (wait_q s) = c q (wait_q s) @ [a]"
    using mq h unfolding mq_ok_def handoff_def by (metis fst_conv, metis snd_conv)
  moreover have "free_list s = NULL" using inv h by (simp add: slab_inv_def handoff_def)
  ultimately show ?thesis using p h by (auto simp: mem_slab_free_def handoff_def)
qed

lemma slab_free_take:
  assumes inv: "slab_inv s m F (xs @ a # ys)" and h: "\<not> handoff mq s q F"
  shows "\<exists>s' m'. mem_slab_free mq s m a q = Inr (s', m', q) \<and> slab_inv s' m' (a # F) (xs @ ys) \<and>
    wait_q s' = wait_q s \<and> free_list s' = a"
proof -
  have "free_list s = NULL \<longleftrightarrow> F = []" using inv by (auto simp: slab_inv_def dest: schain_null)
  with h have "mem_slab_free mq s m a q = Inr (s\<lparr>free_list := a, num_used := num_used s - 1\<rparr>, m(a := free_list s), q)"
    by (auto simp: mem_slab_free_def handoff_def)
  with slab_free_list [OF inv] show ?thesis by auto
qed

text \<open>
  C18.  Allocation and freeing on a well-formed slab, on every branch.  With a free block \<^verbatim>\<open>mem_slab_alloc\<close> takes the first
  one and leaves the queue alone.  With none and no timeout it stores a null pointer and returns \<^verbatim>\<open>-ENOMEM\<close>; with a timeout it
  returns the first message of the queue and 0 when the wait succeeds, and otherwise leaves the caller's pointer as it was and returns
  \<^verbatim>\<open>-ETIME\<close> after a time-out, \<^verbatim>\<open>-EINVAL\<close> after a parameter or resource error and 0 after any other status.
  \<^verbatim>\<open>mem_slab_free\<close> with no free block, a waiting task and space in the queue appends the block to the queue and changes
  nothing else, so that the next wait that succeeds on an empty queue gets that block; on every other branch it puts the block at the head
  of the free list and the next allocation returns it.
\<close>

theorem slab_alloc_free_exact:
  assumes mq: "mq_ok mq c" and inv: "slab_inv s m F (xs @ a # ys)"
    and get: "osMessageQueueGet mq q (wait_q s) (if t = osWaitForever then t else pdMS_TO_TICKS t) = (st, x, q')"
  shows "(case F of
            [] \<Rightarrow> mem_slab_alloc mq s m v t q =
                    (if t = 0 then Inr (- ENOMEM, NULL, s, q)
                     else if st = osOK then Inr (0, x, s, q')
                     else if st = osErrorTimeout then Inr (- ETIME, v, s, q')
                     else if st = osErrorParameter \<or> st = osErrorResource then Inr (- EINVAL, v, s, q')
                     else Inr (0, v, s, q')) \<and>
                  c q (wait_q s) = (if st = osOK then x # c q' (wait_q s) else c q' (wait_q s))
          | b # F' \<Rightarrow> \<exists>s'. mem_slab_alloc mq s m v t q = Inr (0, b, s', q) \<and>
                        slab_inv s' m F' (b # xs @ a # ys) \<and> unat (num_used s') = unat (num_used s) + 1) \<and>
         (if F = [] \<and> osMessageQueueGetNumberOfTasksWaitingToReceive mq q (wait_q s) \<noteq> 0 \<and>
             osMessageQueueGetSpace mq q (wait_q s) \<noteq> 0
          then \<exists>q1. mem_slab_free mq s m a q = Inr (s, m, q1) \<and> c q1 (wait_q s) = c q (wait_q s) @ [a] \<and>
                 (\<forall>t y q2. t \<noteq> 0 \<longrightarrow> c q (wait_q s) = [] \<longrightarrow>
                    osMessageQueueGet mq q1 (wait_q s) (if t = osWaitForever then t else pdMS_TO_TICKS t) = (osOK, y, q2) \<longrightarrow>
                    mem_slab_alloc mq s m v t q1 = Inr (0, a, s, q2))
          else \<exists>s' m'. mem_slab_free mq s m a q = Inr (s', m', q) \<and> slab_inv s' m' (a # F) (xs @ ys) \<and>
                 (\<exists>s''. mem_slab_alloc mq s' m' v t q = Inr (0, a, s'', q)))"
proof (rule conjI, goal_cases)
  case 1
  show ?case
  proof (cases F)
    case Nil
    then have "slab_inv s m [] (xs @ a # ys)" using inv by simp
    from slab_alloc_wait [OF mq this get] Nil show ?thesis by simp
  next
    case (Cons b F')
    with slab_alloc_take [of s m b F' "xs @ a # ys" mq v t q] inv show ?thesis by simp
  qed
next
  case 2
  show ?case unfolding handoff_def [symmetric]
  proof (split if_split, intro conjI impI)
    assume h: "handoff mq s q F"
    then have F: "slab_inv s m [] (xs @ a # ys)" using inv by (simp add: handoff_def)
    obtain q1 where q1: "mem_slab_free mq s m a q = Inr (s, m, q1)" "c q1 (wait_q s) = c q (wait_q s) @ [a]"
      using slab_free_handoff [OF mq inv h] by blast
    then show "\<exists>q1. mem_slab_free mq s m a q = Inr (s, m, q1) \<and> c q1 (wait_q s) = c q (wait_q s) @ [a] \<and>
                 (\<forall>t y q2. t \<noteq> 0 \<longrightarrow> c q (wait_q s) = [] \<longrightarrow>
                    osMessageQueueGet mq q1 (wait_q s) (if t = osWaitForever then t else pdMS_TO_TICKS t) = (osOK, y, q2) \<longrightarrow>
                    mem_slab_alloc mq s m v t q1 = Inr (0, a, s, q2))"
      using slab_alloc_wait [OF mq F] by (fastforce intro!: exI [of _ q1])
  next
    assume "\<not> handoff mq s q F"
    with slab_free_take [OF inv] slab_alloc_take
    show "\<exists>s' m'. mem_slab_free mq s m a q = Inr (s', m', q) \<and> slab_inv s' m' (a # F) (xs @ ys) \<and>
                 (\<exists>s''. mem_slab_alloc mq s' m' v t q = Inr (0, a, s'', q))" by meson
  qed
qed

lemma ex_slab_two:
  "slab_inv \<lparr>wait_q = 1, slab_buffer = 0x1000, free_list = 0x1010, num_blocks = 2, block_size = 16,
     num_used = 1, max_used = 1\<rparr> (\<lambda>_. 0) [0x1010] [0x1000]"
  by (auto simp: slab_inv_def slab_geom_def slab_blocks_def blk_def upt_rec)

lemma ex_slab_full:
  "slab_inv \<lparr>wait_q = 1, slab_buffer = 0x1000, free_list = 0, num_blocks = 1, block_size = 16,
     num_used = 1, max_used = 1\<rparr> (\<lambda>_. 0) [] [0x1000]"
  by (auto simp: slab_inv_def slab_geom_def slab_blocks_def blk_def upt_rec)

text \<open>A free block put back and taken again, and a block handed to a waiting task.\<close>

theorem slab_alloc_free_exact_witness:
  "(\<exists>s' m'. mem_slab_free ex_mq \<lparr>wait_q = 1, slab_buffer = 0x1000, free_list = 0x1010, num_blocks = 2,
       block_size = 16, num_used = 1, max_used = 1\<rparr> (\<lambda>_. 0) 0x1000 ([], 1) = Inr (s', m', ([], 1)) \<and>
     slab_inv s' m' [0x1000, 0x1010] [] \<and>
     (\<exists>s''. mem_slab_alloc ex_mq s' m' 0 0 ([], 1) = Inr (0, 0x1000, s'', ([], 1)))) \<and>
   (let s = \<lparr>wait_q = 1, slab_buffer = 0x1000, free_list = 0, num_blocks = 1, block_size = 16, num_used = 1, max_used = 1\<rparr>
    in mem_slab_alloc ex_mq s (\<lambda>_. 0) 7 5 ([], 1) = Inr (- ETIME, 7, s, ([], 1)) \<and>
       (\<exists>q1. mem_slab_free ex_mq s (\<lambda>_. 0) 0x1000 ([], 1) = Inr (s, \<lambda>_. 0, q1) \<and> fst q1 = [0x1000]))"
proof (unfold Let_def, intro conjI, goal_cases)
  case 1
  show ?case
    using slab_alloc_free_exact [OF ex_mq_ok, of _ _ "[0x1010]" "[]" "0x1000" "[]" "([], 1)" 0] ex_slab_two
    by (fastforce simp: ex_mq_def)
next
  case 2
  show ?case
    using slab_alloc_free_exact [OF ex_mq_ok, of _ _ "[]" "[]" "0x1000" "[]" "([], 1)" 5 osErrorTimeout 0 "([], 1)" 7] ex_slab_full
    by (fastforce simp: ex_mq_def)
next
  case 3
  show ?case
    using slab_alloc_free_exact [OF ex_mq_ok, of _ _ "[]" "[]" "0x1000" "[]" "([], 1)" 5 osErrorTimeout 0 "([], 1)" 7] ex_slab_full
    by (fastforce simp: ex_mq_def)
qed

section \<open>The lost wake-up\<close>

text \<open>The steps along which the free list never runs empty.\<close>

definition free_step ::
  "'q mq_ops \<Rightarrow> ('q \<Rightarrow> u32 \<Rightarrow> u32 list) \<Rightarrow> 'q slab_state \<Rightarrow> 'q slab_state \<Rightarrow> bool" where
  "free_step mq c st st' \<longleftrightarrow> slab_step mq c st st' \<and> free_list (fst st') \<noteq> NULL"

definition starved :: "('q \<Rightarrow> u32 \<Rightarrow> u32 list) \<Rightarrow> 'q slab_state \<Rightarrow> bool" where
  "starved c = (\<lambda>(s, m, q, own). free_list s \<noteq> NULL \<and> c q (wait_q s) = [])"

lemma starved_step:
  assumes mq: "mq_ok mq c"
  shows "slab_step mq c st st' \<Longrightarrow> free_list (fst st') \<noteq> NULL \<Longrightarrow> starved c st \<Longrightarrow> starved c st'"
proof (induction rule: slab_step.induct)
  case (alloc s m t x s' q own)
  then have "wait_q s' = wait_q s" by (auto simp: mem_slab_try_def Let_def split: if_splits)
  with alloc show ?case by (simp add: starved_def)
next
  case (receive q s t x q' m own)
  then have "c q (wait_q s) = x # c q' (wait_q s)" using mq unfolding mq_ok_def by metis
  with receive show ?case by (simp add: starved_def)
next
  case (fail q s t st x q' m own)
  then have "c q (wait_q s) = c q' (wait_q s)" using mq unfolding mq_ok_def by metis
  with fail show ?case by (simp add: starved_def)
qed (auto simp: starved_def mem_slab_free_def)

lemma starved_steps:
  assumes mq: "mq_ok mq c" and r: "(free_step mq c)\<^sup>*\<^sup>* st st'" and "starved c st" "slab_state_ok c st"
  shows "starved c st' \<and> slab_state_ok c st'"
  using r assms(3,4) by (induction rule: rtranclp_induct) (auto simp: free_step_def dest: starved_step [OF mq] slab_step_ok [OF mq])

lemma starved_no_message:
  assumes "mq_ok mq c" "starved c (s, m, q, own)"
  shows "fst (osMessageQueueGet mq q (wait_q s) t) \<noteq> osOK"
proof -
  obtain st x q' where g: "osMessageQueueGet mq q (wait_q s) t = (st, x, q')" by (cases "osMessageQueueGet mq q (wait_q s) t")
  then have "c q (wait_q s) = (if st = osOK then x # c q' (wait_q s) else c q' (wait_q s))"
    using assms(1) unfolding mq_ok_def by metis
  with g assms(2) show ?thesis by (auto simp: starved_def split: if_splits)
qed

lemma state_try:
  assumes "slab_state_ok c (s, m, q, own)" "free_list s \<noteq> NULL"
  shows "\<exists>y s'. mem_slab_try s m t = Inr (Done 0 y s')"
proof -
  obtain F where F: "slab_inv s m F (own @ c q (wait_q s))" using assms(1) by (auto simp: slab_state_ok_def)
  then obtain b F' where "F = b # F'" using assms(2) by (cases F) (auto simp: slab_inv_def)
  with F slab_try_take [of s m b F' _ t] show ?thesis by blast
qed

text \<open>
  C19.  A lost wake-up.  \<^verbatim>\<open>mem_slab_alloc\<close> enables interrupts between finding no free block and waiting on the queue.  When another
  task frees a block in between, with nobody waiting yet, the block goes to the free list.  From then on, however the tasks
  interleave, as long as the free list does not run empty no \<^verbatim>\<open>osMessageQueueGet\<close> on the slab's queue succeeds: the first task is never
  given a block, although a call of \<^verbatim>\<open>mem_slab_alloc\<close> that started at any of these moments would be given one at once.
\<close>

theorem slab_lost_wakeup:
  assumes mq: "mq_ok mq c" and ok: "slab_state_ok c (s, m, q, xs @ x # ys)"
    and waits: "mem_slab_try s m t = Inr (Wait tick)"
    and nobody: "osMessageQueueGetNumberOfTasksWaitingToReceive mq q (wait_q s) = 0" "c q (wait_q s) = []"
  shows "\<exists>s1 m1. mem_slab_free mq s m x q = Inr (s1, m1, q) \<and> free_list s1 = x \<and>
    (\<forall>s2 m2 q2 own2. (free_step mq c)\<^sup>*\<^sup>* (s1, m1, q, xs @ ys) (s2, m2, q2, own2) \<longrightarrow>
       fst (osMessageQueueGet mq q2 (wait_q s2) tick) \<noteq> osOK \<and> (\<exists>y s'. mem_slab_try s2 m2 t = Inr (Done 0 y s')))"
proof -
  obtain F where F: "slab_inv s m F (xs @ x # ys)" using ok nobody(2) by (auto simp: slab_state_ok_def)
  have "\<not> handoff mq s q F" using nobody(1) by (simp add: handoff_def)
  from slab_free_take [OF F this] obtain s1 m1 where 1: "mem_slab_free mq s m x q = Inr (s1, m1, q)"
    "slab_inv s1 m1 (x # F) (xs @ ys)" "wait_q s1 = wait_q s" "free_list s1 = x" by blast
  have "slab_inv s1 m1 (x # F) ((xs @ ys) @ c q (wait_q s1))" "x \<noteq> NULL"
    using 1(2,3,4) nobody(2) by (simp_all add: slab_inv_def)
  then have st: "starved c (s1, m1, q, xs @ ys)" "slab_state_ok c (s1, m1, q, xs @ ys)"
    using 1(3,4) nobody(2) unfolding starved_def slab_state_ok_def by auto
  have "fst (osMessageQueueGet mq q2 (wait_q s2) tick) \<noteq> osOK \<and> (\<exists>y s'. mem_slab_try s2 m2 t = Inr (Done 0 y s'))"
    if "(free_step mq c)\<^sup>*\<^sup>* (s1, m1, q, xs @ ys) (s2, m2, q2, own2)" for s2 m2 q2 own2
    using starved_steps [OF mq that st] starved_no_message [OF mq] state_try by (fastforce simp: starved_def)
  with 1(1,4) show ?thesis by blast
qed

text \<open>With one block: it is freed, the other task starts to wait, and times out.\<close>

theorem slab_lost_wakeup_witness:
  "\<exists>s1 m1. mem_slab_free ex_mq \<lparr>wait_q = 1, slab_buffer = 0x1000, free_list = 0, num_blocks = 1, block_size = 16,
       num_used = 1, max_used = 1\<rparr> (\<lambda>_. 0) 0x1000 ([], 0) = Inr (s1, m1, ([], 0)) \<and>
     free_step ex_mq (\<lambda>(l, w) id. l) (s1, m1, ([], 0), []) (s1, m1, ([], 1), []) \<and>
     fst (osMessageQueueGet ex_mq ([], 1) (wait_q s1) 100) \<noteq> osOK \<and>
     (\<exists>y s'. mem_slab_try s1 m1 100 = Inr (Done 0 y s'))"
proof -
  let ?c = "\<lambda>(l, w) id. l :: u32 list"
  let ?s = "\<lparr>wait_q = 1, slab_buffer = 0x1000, free_list = 0, num_blocks = 1, block_size = 16, num_used = 1, max_used = 1\<rparr>"
  have ok: "slab_state_ok ?c (?s, \<lambda>_. 0, ([], 0), [] @ 0x1000 # [])" using ex_slab_full by (auto simp: slab_state_ok_def)
  have w: "mem_slab_try ?s (\<lambda>_. 0) 100 = Inr (Wait 100)" by (simp add: mem_slab_try_def osWaitForever_def pdMS_TO_TICKS_def)
  have n: "osMessageQueueGetNumberOfTasksWaitingToReceive ex_mq ([], 0) (wait_q ?s) = 0" "?c ([], 0) (wait_q ?s) = []"
    by (simp_all add: ex_mq_def)
  from slab_lost_wakeup [OF ex_mq_ok ok w n] obtain s1 m1
    where 1: "mem_slab_free ex_mq ?s (\<lambda>_. 0) 0x1000 ([], 0) = Inr (s1, m1, ([], 0))" "free_list s1 = 0x1000"
      and 2: "\<forall>s2 m2 q2 own2. (free_step ex_mq ?c)\<^sup>*\<^sup>* (s1, m1, ([], 0), []) (s2, m2, q2, own2) \<longrightarrow>
       fst (osMessageQueueGet ex_mq q2 (wait_q s2) 100) \<noteq> osOK \<and> (\<exists>y s'. mem_slab_try s2 m2 100 = Inr (Done 0 y s'))"
    by auto
  have 3: "free_step ex_mq ?c (s1, m1, ([], 0), []) (s1, m1, ([], 1), [])"
    using 1(2) by (auto simp: free_step_def intro: slab_step.waiters)
  with 1(1) 2 show ?thesis by (meson r_into_rtranclp)
qed

end
