(* ===== verification/Vfs.thy ===== *)
theory Vfs
  imports Wise_Prelude
begin

text \<open>
  The descriptor table and the open and close calls of the virtual file system, as patched
  in \<^verbatim>\<open>hal/fs/patch/vfsp.c\<close>.  The file systems, the callbacks of the files, \<^verbatim>\<open>strdup\<close> and the
  lookup of a file system by path are the ROM's and the drivers'; they are parameters that
  act on the file objects and on a state of their own.
\<close>

section \<open>State\<close>

definition VFS_MAX_FDS :: nat where
  "VFS_MAX_FDS = 32"

abbreviation (input) FTYPE_DEVICE_FILE :: int where "FTYPE_DEVICE_FILE \<equiv> 1"
abbreviation (input) FTYPE_VIRTUAL :: int where "FTYPE_VIRTUAL \<equiv> 3"

text \<open>A file object; \<open>f_fops\<close> and \<open>f_fs\<close> name the operations and the file system, 0 for none.\<close>

record vfile =
  f_path :: u32
  f_fops :: nat
  f_lock :: u32
  f_type :: int
  f_flags :: int
  f_refcnt :: int
  f_fs :: nat
  f_fd :: int

type_synonym files = "u32 \<Rightarrow> vfile option"

text \<open>What the calls release, in order.\<close>

datatype kevent = KFree u32 | MutexDelete u32 | ListDel u32

record vfs =
  vfs_fds_x :: "u32 list"
  addr_vfs_res :: u32
  vfiles :: files
  klog :: "kevent list"
  errno :: int

record 'w vfs_env =
  vfs_find_filesystem :: "'w \<Rightarrow> string \<Rightarrow> nat option"
  fs_open :: "nat \<Rightarrow> string \<Rightarrow> int \<Rightarrow> int \<Rightarrow> files \<Rightarrow> 'w \<Rightarrow> int \<times> u32 \<times> files \<times> 'w"
  fs_format :: "nat \<Rightarrow> ('w \<Rightarrow> int \<times> 'w) option"
  fs_unmount :: "nat \<Rightarrow> ('w \<Rightarrow> 'w) option"
  fops_open :: "nat \<Rightarrow> (u32 \<Rightarrow> files \<Rightarrow> 'w \<Rightarrow> int \<times> files \<times> 'w) option"
  fops_release :: "nat \<Rightarrow> (u32 \<Rightarrow> files \<Rightarrow> 'w \<Rightarrow> int \<times> files \<times> 'w) option"
  ext_strdup :: "string \<Rightarrow> 'w \<Rightarrow> u32 \<times> 'w"

section \<open>The descriptor table\<close>

text \<open>The loop over the table: the first empty slot is marked as reserved.\<close>

function get_free_loop :: "u32 \<Rightarrow> u32 list \<Rightarrow> nat \<Rightarrow> nat \<times> u32 list" where
  "get_free_loop res t fd =
     (if fd < length t
      then if t ! fd = NULL then (fd, t[fd := res]) else get_free_loop res t (Suc fd)
      else (fd, t))"
  by auto
termination
  by (relation "measure (\<lambda>(res, t, fd). length t - fd)") auto

definition patch_vfs_get_free_fd :: "vfs \<Rightarrow> int \<times> vfs" where
  "patch_vfs_get_free_fd v =
     (let (fd, t) = get_free_loop (addr_vfs_res v) (vfs_fds_x v) 0
      in (int fd, v\<lparr>vfs_fds_x := t\<rparr>))"

definition set_slot :: "vfs \<Rightarrow> int \<Rightarrow> u32 \<Rightarrow> vfs res" where
  "set_slot v fd x =
     (if 0 \<le> fd \<and> fd < int (length (vfs_fds_x v))
      then Inr (v\<lparr>vfs_fds_x := (vfs_fds_x v)[nat fd := x]\<rparr>)
      else Inl BadAccess)"

definition patch_vfs_free_fd :: "vfs \<Rightarrow> int \<Rightarrow> vfs res" where
  "patch_vfs_free_fd v fd = set_slot v fd NULL"

text \<open>Access to a file object; a pointer that is not one is a wild access.\<close>

definition upd_file :: "vfs \<Rightarrow> u32 \<Rightarrow> (vfile \<Rightarrow> vfile) \<Rightarrow> vfs res" where
  "upd_file v a g =
     (case vfiles v a of
        None \<Rightarrow> Inl (if a = NULL then NullDeref else BadAccess)
      | Some f \<Rightarrow> Inr (v\<lparr>vfiles := (vfiles v)(a \<mapsto> g f)\<rparr>))"

definition get_file :: "vfs \<Rightarrow> u32 \<Rightarrow> vfile res" where
  "get_file v a =
     (case vfiles v a of
        None \<Rightarrow> Inl (if a = NULL then NullDeref else BadAccess)
      | Some f \<Rightarrow> Inr f)"

definition patch_vfs_install_fd :: "vfs \<Rightarrow> int \<Rightarrow> u32 \<Rightarrow> vfs res" where
  "patch_vfs_install_fd v fd file =
     res_bind (set_slot v fd file) (\<lambda>v'. upd_file v' file (\<lambda>f. f\<lparr>f_fd := fd\<rparr>))"

definition patch_vfs_fd_to_file :: "vfs \<Rightarrow> int \<Rightarrow> u32 res" where
  "patch_vfs_fd_to_file v fd =
     (if fd < 0 \<or> int VFS_MAX_FDS * 2 \<le> fd then Inr NULL
      else if fd < int (length (vfs_fds_x v)) then Inr (vfs_fds_x v ! nat fd)
      else Inl BadAccess)"

section \<open>Reference counts\<close>

definition file_get :: "vfs \<Rightarrow> u32 \<Rightarrow> vfs res" where
  "file_get v a = upd_file v a (\<lambda>f. f\<lparr>f_refcnt := f_refcnt f + 1\<rparr>)"

definition file_put :: "vfs \<Rightarrow> u32 \<Rightarrow> vfs res" where
  "file_put v a = upd_file v a (\<lambda>f. f\<lparr>f_refcnt := f_refcnt f - 1\<rparr>)"

text \<open>The common part of destroying and freeing a file: \<open>fin\<close> follows when the count drops to zero.\<close>

definition drop_file :: "vfs \<Rightarrow> u32 \<Rightarrow> kevent list \<Rightarrow> vfs res" where
  "drop_file v a fin =
     res_bind (file_put v a) (\<lambda>v1. res_bind (get_file v1 a)
       (\<lambda>f. if f_refcnt f \<noteq> 0 then Inr v1
            else Inr (v1\<lparr>klog := klog v1 @ [ListDel a] @
                         (if f_path f \<noteq> NULL then [KFree (f_path f)] else []) @
                         [MutexDelete (f_lock f)] @ fin\<rparr>)))"

definition patch_vfs_destroy_file :: "vfs \<Rightarrow> u32 \<Rightarrow> vfs res" where
  "patch_vfs_destroy_file v a = drop_file v a []"

definition patch_vfs_free_file :: "vfs \<Rightarrow> u32 \<Rightarrow> vfs res" where
  "patch_vfs_free_file v a = drop_file v a [KFree a]"

section \<open>Opening and closing\<close>

text \<open>A callback of a file, where the file has operations and they have the callback.\<close>

definition fop :: "(nat \<Rightarrow> 'c option) \<Rightarrow> vfile \<Rightarrow> 'c option" where
  "fop g f = (if f_fops f = 0 then None else g (f_fops f))"

definition open_error :: "vfs \<Rightarrow> 'w \<Rightarrow> int \<Rightarrow> int \<Rightarrow> (int \<times> vfs \<times> 'w) res" where
  "open_error v w fd err =
     (let v' = v\<lparr>errno := err\<rparr>
      in if fd \<ge> 0 then res_bind (patch_vfs_free_fd v' fd) (\<lambda>v''. Inr (-1, v'', w))
         else Inr (-1, v', w))"

text \<open>After the callbacks: the file is set up and installed.\<close>

definition open_finish ::
  "'w vfs_env \<Rightarrow> vfs \<Rightarrow> 'w \<Rightarrow> string \<Rightarrow> int \<Rightarrow> int \<Rightarrow> nat \<Rightarrow> u32 \<Rightarrow> (int \<times> vfs \<times> 'w) res" where
  "open_finish x v w pathname flags fd fs a =
     res_bind (file_get v a) (\<lambda>v1.
     res_bind (upd_file v1 a (\<lambda>f. f\<lparr>f_flags := flags, f_fs := fs\<rparr>)) (\<lambda>v2.
     res_bind (get_file v2 a) (\<lambda>f.
     let (p, w') = (if f_type f \<noteq> FTYPE_DEVICE_FILE then ext_strdup x pathname w else (f_path f, w))
     in res_bind (upd_file v2 a (\<lambda>f. f\<lparr>f_path := p\<rparr>)) (\<lambda>v3.
        res_bind (patch_vfs_install_fd v3 fd a) (\<lambda>v4.
        res_bind (file_put v4 a) (\<lambda>v5. Inr (fd, v5, w')))))))"

text \<open>The file is open in its file system: its own \<^verbatim>\<open>open\<close> callback comes next, if it has one.\<close>

definition open_file ::
  "'w vfs_env \<Rightarrow> vfs \<Rightarrow> 'w \<Rightarrow> string \<Rightarrow> int \<Rightarrow> int \<Rightarrow> nat \<Rightarrow> u32 \<Rightarrow> (int \<times> vfs \<times> 'w) res" where
  "open_file x v w pathname flags fd fs a =
     res_bind (file_get v a) (\<lambda>v1.
     res_bind (get_file v1 a) (\<lambda>f.
     case fop (fops_open x) f of
       None \<Rightarrow> open_finish x v1 w pathname flags fd fs a
     | Some cb \<Rightarrow>
         (let (ret, fl, w') = cb a (vfiles v1) w; v2 = v1\<lparr>vfiles := fl\<rparr>
          in if ret < 0
             then res_bind (file_put v2 a) (\<lambda>v3.
                  res_bind (patch_vfs_free_file v3 a) (\<lambda>v4. open_error v4 w' fd (- ret)))
             else open_finish x v2 w' pathname flags fd fs a)))"

definition patch_os_open ::
  "'w vfs_env \<Rightarrow> vfs \<Rightarrow> 'w \<Rightarrow> string \<Rightarrow> int \<Rightarrow> (int \<times> vfs \<times> 'w) res" where
  "patch_os_open x v w pathname flags =
     (let (fd, v0) = patch_vfs_get_free_fd v
      in if fd < 0 then open_error v0 w fd (- fd)
         else case vfs_find_filesystem x w pathname of
                None \<Rightarrow> open_error v0 w fd ENOENT
              | Some fs \<Rightarrow>
                  (let (ret, a, fl, w1) = fs_open x fs pathname flags 0 (vfiles v0) w;
                       v1 = v0\<lparr>vfiles := fl\<rparr>
                   in if ret < 0 \<or> a = NULL then open_error v1 w1 fd (- ret)
                      else open_file x v1 w1 pathname flags fd fs a))"

definition patch_os_close :: "'w vfs_env \<Rightarrow> vfs \<Rightarrow> 'w \<Rightarrow> int \<Rightarrow> (int \<times> vfs \<times> 'w) res" where
  "patch_os_close x v w fd =
     res_bind (patch_vfs_fd_to_file v fd) (\<lambda>a.
     if a = NULL then Inr (-1, v\<lparr>errno := EBADF\<rparr>, w)
     else res_bind (file_get v a) (\<lambda>v1.
          res_bind (patch_vfs_free_fd v1 fd) (\<lambda>v2.
          res_bind (file_put v2 a) (\<lambda>v3.
          res_bind (get_file v3 a) (\<lambda>f.
          case fop (fops_release x) f of
            Some cb \<Rightarrow>
              (let (ret, fl, w1) = cb a (vfiles v3) w; v4 = v3\<lparr>vfiles := fl\<rparr>
               in if ret < 0 then Inr (-1, v4\<lparr>errno := - ret\<rparr>, w1) else Inr (ret, v4, w1))
          | None \<Rightarrow>
              if f_type f \<noteq> FTYPE_DEVICE_FILE
              then res_bind (patch_vfs_free_file v3 a) (\<lambda>v4. Inr (0, v4, w))
              else Inr (0, v3, w))))))"

section \<open>Unmounting and formatting\<close>

definition os_unmount :: "'w vfs_env \<Rightarrow> 'w \<Rightarrow> string \<Rightarrow> 'w" where
  "os_unmount x w pathname =
     (case vfs_find_filesystem x w pathname of
        None \<Rightarrow> w
      | Some fs \<Rightarrow> (case fs_unmount x fs of None \<Rightarrow> w | Some um \<Rightarrow> um w))"

text \<open>The error of the first check does not end the function.\<close>

definition os_format :: "'w vfs_env \<Rightarrow> vfs \<Rightarrow> 'w \<Rightarrow> string \<Rightarrow> (int \<times> vfs \<times> 'w) res" where
  "os_format x v w pathname =
     (case vfs_find_filesystem x w pathname of
        None \<Rightarrow> Inl NullDeref
      | Some fs \<Rightarrow>
          (case fs_format x fs of
             None \<Rightarrow> Inl NullDeref
           | Some fm \<Rightarrow>
               (let (ret, w') = fm w
                in if ret < 0 then Inr (-1, v\<lparr>errno := - ret\<rparr>, w') else Inr (ret, v, w'))))"

end
