(* ===== verification/Vfs_Fd.thy ===== *)
theory Vfs_Fd
  imports Vfs
begin

text \<open>
  The contract of a descriptor table and its interpretation on the table of \<^verbatim>\<open>vfsp.c\<close>: a
  descriptor is reserved, then given a file or given back.  \<open>rest\<close> is the part of the state
  that the table operations leave alone.
\<close>

section \<open>The contract\<close>

locale fd_table =
  fixes ok :: "'t \<Rightarrow> bool"
    and full :: "'t \<Rightarrow> bool"
    and get :: "'t \<Rightarrow> int \<times> 't"
    and free :: "'t \<Rightarrow> int \<Rightarrow> 't res"
    and look :: "'t \<Rightarrow> int \<Rightarrow> u32 res"
    and rest :: "'t \<Rightarrow> 'r"
  assumes get_law: "ok t \<Longrightarrow> \<not> full t \<Longrightarrow> get t = (fd, t') \<Longrightarrow>
      ok t' \<and> 0 \<le> fd \<and> look t fd = Inr NULL \<and> (\<exists>x. look t' fd = Inr x \<and> x \<noteq> NULL) \<and>
      (\<forall>k. k \<noteq> fd \<longrightarrow> look t' k = look t k) \<and> rest t' = rest t"
    and free_law: "ok t \<Longrightarrow> look t fd = Inr x \<Longrightarrow> x \<noteq> NULL \<Longrightarrow>
      \<exists>t'. free t fd = Inr t' \<and> ok t' \<and> look t' fd = Inr NULL \<and>
           (\<forall>k. k \<noteq> fd \<longrightarrow> look t' k = look t k) \<and> rest t' = rest t"
    and ext_law: "ok t \<Longrightarrow> ok t' \<Longrightarrow> \<forall>k. look t k = look t' k \<Longrightarrow> rest t = rest t' \<Longrightarrow> t = t'"
begin

lemma get_free_restores:
  assumes "ok t" "\<not> full t" "get t = (fd, t')"
  shows "free t' fd = Inr t"
proof -
  note g = get_law [OF assms]
  then obtain x where x: "look t' fd = Inr x" "x \<noteq> NULL" by blast
  obtain t'' where t'': "free t' fd = Inr t''" "ok t''" "look t'' fd = Inr NULL"
    "\<forall>k. k \<noteq> fd \<longrightarrow> look t'' k = look t' k" "rest t'' = rest t'"
    using free_law [OF _ x] g by blast
  have "\<forall>k. look t'' k = look t k"
  proof
    fix k show "look t'' k = look t k" using t'' g by (cases "k = fd") auto
  qed
  then have "t'' = t" using ext_law t'' g assms(1) by auto
  with t'' show ?thesis by simp
qed

lemma get_keeps_others:
  assumes "ok t" "\<not> full t" "get t = (fd, t')" "look t k = Inr x" "x \<noteq> NULL"
  shows "k \<noteq> fd" "look t' k = Inr x"
proof -
  note g = get_law [OF assms(1-3)]
  show "k \<noteq> fd" using g assms(4,5) by auto
  with g assms(4) show "look t' k = Inr x" by simp
qed

end

section \<open>The table of \<^verbatim>\<open>vfsp.c\<close>\<close>

definition vfs_ok :: "vfs \<Rightarrow> bool" where
  "vfs_ok v \<longleftrightarrow> length (vfs_fds_x v) = VFS_MAX_FDS \<and> addr_vfs_res v \<noteq> NULL"

definition vfs_full :: "vfs \<Rightarrow> bool" where
  "vfs_full v \<longleftrightarrow> NULL \<notin> set (vfs_fds_x v)"

definition vfs_rest :: "vfs \<Rightarrow> u32 \<times> files \<times> kevent list \<times> int" where
  "vfs_rest v = (addr_vfs_res v, vfiles v, klog v, errno v)"

lemma get_free_loop_spec:
  "get_free_loop res t fd = (k, t') \<Longrightarrow> fd \<le> length t \<Longrightarrow>
     fd \<le> k \<and> (\<forall>i. fd \<le> i \<longrightarrow> i < k \<longrightarrow> t ! i \<noteq> NULL) \<and>
     (if k < length t then t ! k = NULL \<and> t' = t[k := res] else k = length t \<and> t' = t)"
proof (induction res t fd arbitrary: k t' rule: get_free_loop.induct)
  case (1 res t fd)
  show ?case
  proof (cases "fd < length t \<and> t ! fd \<noteq> NULL")
    case True
    then have "get_free_loop res t (Suc fd) = (k, t')" using 1(2) by (simp split: if_splits)
    then have i: "Suc fd \<le> k \<and> (\<forall>i. Suc fd \<le> i \<longrightarrow> i < k \<longrightarrow> t ! i \<noteq> NULL) \<and>
       (if k < length t then t ! k = NULL \<and> t' = t[k := res] else k = length t \<and> t' = t)"
      using True by (intro 1(1)) auto
    have "t ! j \<noteq> NULL" if "fd \<le> j" "j < k" for j
      using i True that by (cases "j = fd") auto
    with i show ?thesis by auto
  next
    case False
    with 1(2,3) show ?thesis by (auto split: if_splits)
  qed
qed

declare get_free_loop.simps [simp del]

lemma get_free_fd_spec:
  assumes "vfs_ok v" "patch_vfs_get_free_fd v = (fd, v')"
  shows "if vfs_full v then fd = int VFS_MAX_FDS \<and> v' = v
         else 0 \<le> fd \<and> nat fd < VFS_MAX_FDS \<and> vfs_fds_x v ! nat fd = NULL \<and>
              (\<forall>i < nat fd. vfs_fds_x v ! i \<noteq> NULL) \<and>
              v' = v\<lparr>vfs_fds_x := (vfs_fds_x v)[nat fd := addr_vfs_res v]\<rparr>"
proof -
  obtain k t where k: "get_free_loop (addr_vfs_res v) (vfs_fds_x v) 0 = (k, t)"
    and fd: "fd = int k" "v' = v\<lparr>vfs_fds_x := t\<rparr>"
    using assms(2) by (auto simp: patch_vfs_get_free_fd_def split: prod.splits)
  note sp = get_free_loop_spec [OF k, simplified]
  have l: "length (vfs_fds_x v) = VFS_MAX_FDS" using assms(1) by (simp add: vfs_ok_def)
  show ?thesis
  proof (cases "k < length (vfs_fds_x v)")
    case True
    then have "\<not> vfs_full v" using sp by (auto simp: vfs_full_def in_set_conv_nth)
    with True sp fd l show ?thesis by auto
  next
    case False
    then have "vfs_full v" using sp by (auto simp: vfs_full_def in_set_conv_nth)
    with False sp fd l show ?thesis by simp
  qed
qed

lemma look_slot:
  "vfs_ok v \<Longrightarrow> patch_vfs_fd_to_file v k =
     (if 0 \<le> k \<and> nat k < VFS_MAX_FDS then Inr (vfs_fds_x v ! nat k)
      else if k < 0 \<or> int VFS_MAX_FDS * 2 \<le> k then Inr NULL else Inl BadAccess)"
  by (auto simp: patch_vfs_fd_to_file_def vfs_ok_def VFS_MAX_FDS_def)

lemma look_held:
  assumes "vfs_ok v" "patch_vfs_fd_to_file v fd = Inr x" "x \<noteq> NULL"
  shows "0 \<le> fd" "nat fd < VFS_MAX_FDS" "vfs_fds_x v ! nat fd = x"
  using assms by (auto simp: look_slot split: if_splits)

lemma look_upd:
  assumes "vfs_ok v" "0 \<le> fd" "nat fd < VFS_MAX_FDS"
  shows "patch_vfs_fd_to_file (v\<lparr>vfs_fds_x := (vfs_fds_x v)[nat fd := x]\<rparr>) k =
     (if k = fd then Inr x else patch_vfs_fd_to_file v k)"
  using assms by (auto simp: patch_vfs_fd_to_file_def vfs_ok_def nth_list_update)

lemma ok_upd [simp]: "vfs_ok (v\<lparr>vfs_fds_x := (vfs_fds_x v)[i := x]\<rparr>) = vfs_ok v"
  by (simp add: vfs_ok_def)

lemma free_slot:
  "vfs_ok v \<Longrightarrow> 0 \<le> fd \<Longrightarrow> nat fd < VFS_MAX_FDS \<Longrightarrow>
     patch_vfs_free_fd v fd = Inr (v\<lparr>vfs_fds_x := (vfs_fds_x v)[nat fd := NULL]\<rparr>)"
  by (simp add: patch_vfs_free_fd_def set_slot_def vfs_ok_def)

interpretation fdt: fd_table vfs_ok vfs_full patch_vfs_get_free_fd patch_vfs_free_fd
  patch_vfs_fd_to_file vfs_rest
proof
  fix t fd t' assume a: "vfs_ok t" "\<not> vfs_full t" "patch_vfs_get_free_fd t = (fd, t')"
  note g = get_free_fd_spec [OF a(1,3)]
  then have t': "t' = t\<lparr>vfs_fds_x := (vfs_fds_x t)[nat fd := addr_vfs_res t]\<rparr>"
    and fd: "0 \<le> fd" "nat fd < VFS_MAX_FDS" "vfs_fds_x t ! nat fd = NULL"
    using a(2) by auto
  have "addr_vfs_res t \<noteq> NULL" using a(1) by (simp add: vfs_ok_def)
  with fd a(1) show "vfs_ok t' \<and> 0 \<le> fd \<and> patch_vfs_fd_to_file t fd = Inr NULL \<and>
      (\<exists>x. patch_vfs_fd_to_file t' fd = Inr x \<and> x \<noteq> NULL) \<and>
      (\<forall>k. k \<noteq> fd \<longrightarrow> patch_vfs_fd_to_file t' k = patch_vfs_fd_to_file t k) \<and> vfs_rest t' = vfs_rest t"
    unfolding t' by (simp add: look_upd) (simp add: look_slot vfs_rest_def)
next
  fix t fd x assume a: "vfs_ok t" "patch_vfs_fd_to_file t fd = Inr x" "x \<noteq> NULL"
  note h = look_held [OF a]
  show "\<exists>t'. patch_vfs_free_fd t fd = Inr t' \<and> vfs_ok t' \<and>
      patch_vfs_fd_to_file t' fd = Inr NULL \<and>
      (\<forall>k. k \<noteq> fd \<longrightarrow> patch_vfs_fd_to_file t' k = patch_vfs_fd_to_file t k) \<and> vfs_rest t' = vfs_rest t"
    using free_slot [OF a(1) h(1,2)] look_upd [OF a(1) h(1,2)] a(1) by (auto simp: vfs_rest_def)
next
  fix t t' assume a: "vfs_ok t" "vfs_ok t'" "\<forall>k. patch_vfs_fd_to_file t k = patch_vfs_fd_to_file t' k"
    "vfs_rest t = vfs_rest t'"
  have "vfs_fds_x t ! i = vfs_fds_x t' ! i" if "i < VFS_MAX_FDS" for i
    using a(3) [rule_format, of "int i"] that by (simp add: look_slot [OF a(1)] look_slot [OF a(2)])
  then have "vfs_fds_x t = vfs_fds_x t'" using a(1,2) by (intro nth_equalityI) (auto simp: vfs_ok_def)
  with a(4) show "t = t'" by (cases t; cases t') (simp add: vfs_rest_def)
qed

end
