(* ===== verification/Vfs_Open.thy ===== *)
theory Vfs_Open
  imports Vfs_Fd
begin

text \<open>
  Opening and closing files over the descriptor table: which descriptor a file gets, that no
  descriptor is lost on an error, and what becomes of the file objects.
\<close>

section \<open>What the callbacks promise\<close>

text \<open>An opened file is a file object, and the callbacks of a file keep it one.\<close>

definition env_ok :: "'w vfs_env \<Rightarrow> bool" where
  "env_ok x \<longleftrightarrow>
     (\<forall>fs p flags mode fl w ret a fl' w'.
        fs_open x fs p flags mode fl w = (ret, a, fl', w') \<longrightarrow> 0 \<le> ret \<longrightarrow> a \<noteq> NULL \<longrightarrow> fl' a \<noteq> None) \<and>
     (\<forall>k cb a fl w ret fl' w'.
        fops_open x k = Some cb \<longrightarrow> fl a \<noteq> None \<longrightarrow> cb a fl w = (ret, fl', w') \<longrightarrow> fl' a \<noteq> None)"

lemma env_okD:
  assumes "env_ok x"
  shows env_open: "fs_open x fs p flags mode fl w = (ret, a, fl', w') \<Longrightarrow> 0 \<le> ret \<Longrightarrow> a \<noteq> NULL \<Longrightarrow>
      fl' a \<noteq> None"
    and env_cb: "fops_open x k = Some cb \<Longrightarrow> fl a \<noteq> None \<Longrightarrow> cb a fl w = (ret, fl', w') \<Longrightarrow>
      fl' a \<noteq> None"
  using assms unfolding env_ok_def by (metis, metis)

section \<open>Helpers\<close>

named_theorems vfs_defs

declare file_get_def [vfs_defs] file_put_def [vfs_defs] upd_file_def [vfs_defs]
  get_file_def [vfs_defs] drop_file_def [vfs_defs] patch_vfs_free_file_def [vfs_defs]
  patch_vfs_destroy_file_def [vfs_defs] patch_vfs_install_fd_def [vfs_defs] set_slot_def [vfs_defs]
  open_finish_def [vfs_defs] open_error_def [vfs_defs] patch_vfs_free_fd_def [vfs_defs]

lemma free_file_keeps:
  assumes "vfiles v a = Some f"
  shows "\<exists>v'. patch_vfs_free_file v a = Inr v' \<and> vfs_fds_x v' = vfs_fds_x v \<and>
           addr_vfs_res v' = addr_vfs_res v \<and>
           klog v' = klog v @ (if f_refcnt f = 1
             then [ListDel a] @ (if f_path f \<noteq> NULL then [KFree (f_path f)] else []) @
                  [MutexDelete (f_lock f), KFree a]
             else [])"
  using assms by (simp add: vfs_defs)

lemma open_error_ok:
  assumes "vfs_ok v" "0 \<le> fd" "nat fd < VFS_MAX_FDS"
  shows "open_error v w fd e =
     Inr (-1, v\<lparr>errno := e, vfs_fds_x := (vfs_fds_x v)[nat fd := NULL]\<rparr>, w)"
  using assms by (simp add: vfs_defs vfs_ok_def Let_def nat_less_iff)

lemma open_error_full:
  assumes "vfs_ok v" "fd = int VFS_MAX_FDS"
  shows "open_error v w fd e = Inl BadAccess"
  using assms by (simp add: vfs_defs vfs_ok_def Let_def)

lemma open_finish_ok:
  assumes "vfs_ok v" "0 \<le> fd" "nat fd < VFS_MAX_FDS" "vfiles v a = Some f"
  shows "\<exists>v' w' f'. open_finish x v w pn flags fd fs a = Inr (fd, v', w') \<and>
           vfs_fds_x v' = (vfs_fds_x v)[nat fd := a] \<and> vfs_ok v' \<and> klog v' = klog v \<and>
           vfiles v' a = Some f' \<and> f_refcnt f' = f_refcnt f \<and> f_fops f' = f_fops f \<and>
           f_type f' = f_type f \<and> f_flags f' = flags \<and> f_fs f' = fs \<and> f_fd f' = fd"
  using assms by (cases "ext_strdup x pn w") (auto simp: vfs_defs vfs_ok_def nat_less_iff)

lemma open_finish_full:
  assumes "vfs_ok v" "fd = int VFS_MAX_FDS" "vfiles v a = Some f"
  shows "open_finish x v w pn flags fd fs a = Inl BadAccess"
  using assms by (cases "ext_strdup x pn w") (auto simp: vfs_defs vfs_ok_def nat_less_iff)

lemma vfs_ok_cong:
  "vfs_fds_x v' = vfs_fds_x v \<Longrightarrow> addr_vfs_res v' = addr_vfs_res v \<Longrightarrow> vfs_ok v' = vfs_ok v"
  by (simp add: vfs_ok_def)

section \<open>Opening\<close>

text \<open>
  The outcome of \<^verbatim>\<open>os_open\<close> when a descriptor is free: an error that leaves the table as it
  was, or a file in the lowest free slot.
\<close>

definition open_outcome :: "vfs \<Rightarrow> int \<Rightarrow> vfs \<Rightarrow> bool" where
  "open_outcome v r v' \<longleftrightarrow>
     vfs_ok v' \<and>
     (r = -1 \<and> vfs_fds_x v' = vfs_fds_x v \<or>
      0 \<le> r \<and> nat r < VFS_MAX_FDS \<and> vfs_fds_x v ! nat r = NULL \<and>
      (\<forall>i < nat r. vfs_fds_x v ! i \<noteq> NULL) \<and>
      (\<exists>a f. a \<noteq> NULL \<and> vfs_fds_x v' = (vfs_fds_x v)[nat r := a] \<and> vfiles v' a = Some f \<and>
             f_fd f = r))"

lemma open_error_outcome:
  assumes "vfs_ok v" "0 \<le> fd" "nat fd < VFS_MAX_FDS" "vfs_fds_x v ! nat fd = NULL"
    "vfs_fds_x v' = (vfs_fds_x v)[nat fd := addr_vfs_res v]" "addr_vfs_res v' = addr_vfs_res v"
  shows "\<exists>r v'' w'. open_error v' w fd e = Inr (r, v'', w') \<and> open_outcome v r v''"
proof -
  have "vfs_ok v'" using assms(1,5,6) by (simp add: vfs_ok_def)
  then have "open_error v' w fd e = Inr (-1, v'\<lparr>errno := e, vfs_fds_x := vfs_fds_x v\<rparr>, w)"
    using open_error_ok [OF _ assms(2,3), of v' w e] assms(4,5) by (metis list_update_id list_update_overwrite)
  with assms(1) show ?thesis using \<open>vfs_ok v'\<close> by (auto simp: open_outcome_def vfs_ok_def)
qed

lemma open_finish_outcome:
  assumes "vfs_ok v" "0 \<le> fd" "nat fd < VFS_MAX_FDS" "vfs_fds_x v ! nat fd = NULL"
    "\<forall>i < nat fd. vfs_fds_x v ! i \<noteq> NULL"
    "vfs_fds_x v' = (vfs_fds_x v)[nat fd := addr_vfs_res v]" "addr_vfs_res v' = addr_vfs_res v"
    "a \<noteq> NULL" "vfiles v' a \<noteq> None"
  shows "\<exists>r v'' w'. open_finish x v' w pn flags fd fs a = Inr (r, v'', w') \<and> open_outcome v r v''"
proof -
  obtain f where f: "vfiles v' a = Some f" using assms(9) by blast
  have ok: "vfs_ok v'" using assms(1,6,7) by (simp add: vfs_ok_def)
  obtain v'' w' f' where "open_finish x v' w pn flags fd fs a = Inr (fd, v'', w')"
    "vfs_fds_x v'' = (vfs_fds_x v')[nat fd := a]" "vfs_ok v''" "vfiles v'' a = Some f'" "f_fd f' = fd"
    using open_finish_ok [OF ok assms(2,3) f, of x w pn flags fs] by auto
  with assms show ?thesis by (auto simp: open_outcome_def)
qed

lemma open_file_unfold:
  assumes "vfiles v a = Some f"
  shows "open_file x v w pn flags fd fs a =
     (let f1 = f\<lparr>f_refcnt := f_refcnt f + 1\<rparr>; v1 = v\<lparr>vfiles := (vfiles v)(a \<mapsto> f1)\<rparr>
      in case fop (fops_open x) f1 of
           None \<Rightarrow> open_finish x v1 w pn flags fd fs a
         | Some cb \<Rightarrow>
             (let (ret, fl, w') = cb a (vfiles v1) w; v2 = v1\<lparr>vfiles := fl\<rparr>
              in if ret < 0
                 then res_bind (file_put v2 a) (\<lambda>v3.
                      res_bind (patch_vfs_free_file v3 a) (\<lambda>v4. open_error v4 w' fd (- ret)))
                 else open_finish x v2 w' pn flags fd fs a))"
  using assms by (simp add: open_file_def file_get_def upd_file_def get_file_def Let_def)

text \<open>The two ways on from a file that is open in its file system.\<close>

lemma open_file_cases:
  assumes env: "env_ok x" and f: "vfiles v a = Some f"
  obtains (finish) v' w' where "open_file x v w pn flags fd fs a = open_finish x v' w' pn flags fd fs a"
      "vfs_fds_x v' = vfs_fds_x v" "addr_vfs_res v' = addr_vfs_res v" "vfiles v' a \<noteq> None"
  | (error) v' w' e where "open_file x v w pn flags fd fs a = open_error v' w' fd e"
      "vfs_fds_x v' = vfs_fds_x v" "addr_vfs_res v' = addr_vfs_res v"
proof -
  let ?f1 = "f\<lparr>f_refcnt := f_refcnt f + 1\<rparr>"
  let ?v1 = "v\<lparr>vfiles := (vfiles v)(a \<mapsto> ?f1)\<rparr>"
  show thesis
  proof (cases "fop (fops_open x) ?f1")
    case None
    then show thesis
      by (intro finish [of ?v1 w]) (simp_all add: open_file_unfold [of v a f, OF f] Let_def)
  next
    case (Some cb)
    obtain ret fl w' where c: "cb a (vfiles ?v1) w = (ret, fl, w')" by (metis prod_cases3)
    have "fops_open x (f_fops f) = Some cb" using Some by (simp add: fop_def split: if_splits)
    then have "fl a \<noteq> None"
      by (rule env_cb [OF env, where fl = "vfiles ?v1" and w = w and ret = ret and w' = w'])
        (simp, rule c)
    then obtain f' where f': "fl a = Some f'" by blast
    let ?v2 = "?v1\<lparr>vfiles := fl\<rparr>"
    show thesis
    proof (cases "ret < 0")
      case True
      let ?v3 = "?v2\<lparr>vfiles := fl(a \<mapsto> f'\<lparr>f_refcnt := f_refcnt f' - 1\<rparr>)\<rparr>"
      have p: "file_put ?v2 a = Inr ?v3" using f' by (simp add: file_put_def upd_file_def)
      obtain v4 where v4: "patch_vfs_free_file ?v3 a = Inr v4" "vfs_fds_x v4 = vfs_fds_x ?v3"
          "addr_vfs_res v4 = addr_vfs_res ?v3"
        using free_file_keeps [of ?v3 a] by fastforce
      show thesis
        using Some c True p v4 by (intro error [of v4 w' "- ret"])
          (simp_all add: open_file_unfold [of v a f, OF f] Let_def)
    next
      case False
      then show thesis
        using Some c f' by (intro finish [of ?v2 w'])
          (simp_all add: open_file_unfold [of v a f, OF f] Let_def)
    qed
  qed
qed

text \<open>Every way through \<^verbatim>\<open>os_open\<close> ends in the error exit or in the installation.\<close>

lemma os_open_cases:
  assumes env: "env_ok x" and g: "patch_vfs_get_free_fd v = (fd, v0)" "0 \<le> fd"
  obtains (finish) v' w' fs a where
      "patch_os_open x v w pn flags = open_finish x v' w' pn flags fd fs a"
      "vfs_fds_x v' = vfs_fds_x v0" "addr_vfs_res v' = addr_vfs_res v0" "a \<noteq> NULL" "vfiles v' a \<noteq> None"
  | (error) v' w' e where "patch_os_open x v w pn flags = open_error v' w' fd e"
      "vfs_fds_x v' = vfs_fds_x v0" "addr_vfs_res v' = addr_vfs_res v0"
proof (cases "vfs_find_filesystem x w pn")
  case None
  with g error [of v0 w ENOENT] show thesis by (simp add: patch_os_open_def)
next
  case (Some fs)
  obtain ret a fl w1 where o: "fs_open x fs pn flags 0 (vfiles v0) w = (ret, a, fl, w1)"
    by (metis prod_cases4)
  let ?v1 = "v0\<lparr>vfiles := fl\<rparr>"
  show thesis
  proof (cases "ret < 0 \<or> a = NULL")
    case True
    with g Some o error [of ?v1 w1 "- ret"] show thesis by (simp add: patch_os_open_def)
  next
    case False
    then obtain f where "fl a = Some f" using env_open [OF env o] by auto
    then have f: "vfiles ?v1 a = Some f" by simp
    have body: "patch_os_open x v w pn flags = open_file x ?v1 w1 pn flags fd fs a"
      using g Some o False by (simp add: patch_os_open_def)
    show thesis
    proof (cases rule: open_file_cases [OF env f, of w1 pn flags fd fs, case_names fin err])
      case (fin v' w')
      with body False show thesis by (intro finish [of v' w' fs a]) simp_all
    next
      case (err v' w' e)
      with body show thesis by (intro error [of v' w' e]) simp_all
    qed
  qed
qed

lemma open_returns:
  assumes ok: "vfs_ok v" and nf: "\<not> vfs_full v" and env: "env_ok x"
  shows "\<exists>r v' w'. patch_os_open x v w pn flags = Inr (r, v', w') \<and> open_outcome v r v'"
proof -
  obtain fd v0 where g: "patch_vfs_get_free_fd v = (fd, v0)" by fastforce
  have fd: "0 \<le> fd" "nat fd < VFS_MAX_FDS" "vfs_fds_x v ! nat fd = NULL"
      "\<forall>i < nat fd. vfs_fds_x v ! i \<noteq> NULL"
    and v0: "vfs_fds_x v0 = (vfs_fds_x v)[nat fd := addr_vfs_res v]" "addr_vfs_res v0 = addr_vfs_res v"
    using get_free_fd_spec [OF ok g] nf by auto
  show ?thesis
  proof (cases rule: os_open_cases [OF env g fd(1), of w pn flags, case_names finish error])
    case (finish v' w' fs a)
    with open_finish_outcome [OF ok fd, of v' a x w' pn flags fs] v0 show ?thesis by simp
  next
    case (error v' w' e)
    with open_error_outcome [OF ok fd(1-3), of v' w' e] v0 show ?thesis by simp
  qed
qed

lemma open_full_faults:
  assumes ok: "vfs_ok v" and full: "vfs_full v" and env: "env_ok x"
  shows "patch_os_open x v w pn flags = Inl BadAccess"
proof -
  have g: "patch_vfs_get_free_fd v = (int VFS_MAX_FDS, v)"
    using get_free_fd_spec [OF ok] full by (metis surj_pair)
  show ?thesis
  proof (cases rule: os_open_cases [OF env g, of w pn flags, case_names nonneg finish error])
    case (finish v' w' fs a)
    then have "vfs_ok v'" using ok by (simp add: vfs_ok_def)
    with finish open_finish_full show ?thesis by (metis option.exhaust)
  next
    case (error v' w' e)
    then have "vfs_ok v'" using ok by (simp add: vfs_ok_def)
    with error open_error_full show ?thesis by metis
  qed simp
qed

section \<open>Closing\<close>

lemma close_clears:
  assumes ok: "vfs_ok v" and l: "patch_vfs_fd_to_file v fd = Inr a" "a \<noteq> NULL"
    and f: "vfiles v a = Some f"
  shows "\<exists>r v' w'. patch_os_close x v w fd = Inr (r, v', w') \<and> vfs_ok v' \<and>
           vfs_fds_x v' = (vfs_fds_x v)[nat fd := NULL]"
proof -
  note h = look_held [OF ok l]
  let ?v2 = "v\<lparr>vfs_fds_x := (vfs_fds_x v)[nat fd := NULL], vfiles := (vfiles v)(a \<mapsto> f)\<rparr>"
  have body: "patch_os_close x v w fd =
     (case fop (fops_release x) f of
        Some cb \<Rightarrow>
          (let (ret, fl, w1) = cb a (vfiles ?v2) w; v4 = ?v2\<lparr>vfiles := fl\<rparr>
           in if ret < 0 then Inr (-1, v4\<lparr>errno := - ret\<rparr>, w1) else Inr (ret, v4, w1))
      | None \<Rightarrow>
          if f_type f \<noteq> FTYPE_DEVICE_FILE
          then res_bind (patch_vfs_free_file ?v2 a) (\<lambda>v4. Inr (0, v4, w))
          else Inr (0, ?v2, w))"
    using l f h ok
    by (simp add: patch_os_close_def file_get_def file_put_def upd_file_def get_file_def
        patch_vfs_free_fd_def set_slot_def vfs_ok_def nat_less_iff)
  have ok2: "vfs_ok ?v2" using ok by (simp add: vfs_ok_def)
  show ?thesis
  proof (cases "fop (fops_release x) f")
    case None
    obtain v4 where "patch_vfs_free_file ?v2 a = Inr v4" "vfs_fds_x v4 = vfs_fds_x ?v2"
        "addr_vfs_res v4 = addr_vfs_res ?v2"
      using free_file_keeps [of ?v2 a f] by auto
    with body None ok2 show ?thesis by (simp add: vfs_ok_def)
  next
    case (Some cb)
    obtain ret fl w1 where "cb a (vfiles ?v2) w = (ret, fl, w1)" by (metis prod_cases3)
    with body Some ok2 show ?thesis by (simp add: vfs_ok_def Let_def)
  qed
qed

section \<open>Properties\<close>

text \<open>
  A file system for the examples: it opens every path, with a new file object at \<open>0x500\<close>
  whose reference count is \<open>r\<close>; \<open>cb\<close> is the file's own \<^verbatim>\<open>open\<close> callback.
\<close>

definition ex_env :: "int \<Rightarrow> (u32 \<Rightarrow> files \<Rightarrow> unit \<Rightarrow> int \<times> files \<times> unit) option \<Rightarrow> unit vfs_env" where
  "ex_env r cb = \<lparr>vfs_find_filesystem = (\<lambda>w p. if p = ''x'' then None else Some 1),
     fs_open = (\<lambda>fs p flags mode fl w. (0, 0x500, fl(0x500 \<mapsto> \<lparr>f_path = 0, f_fops = 1, f_lock = 0x700,
        f_type = 0, f_flags = 0, f_refcnt = r, f_fs = 0, f_fd = 0\<rparr>), w)),
     fs_format = (\<lambda>_. None), fs_unmount = (\<lambda>_. None), fops_open = (\<lambda>_. cb),
     fops_release = (\<lambda>_. None), ext_strdup = (\<lambda>s w. (0x600, w))\<rparr>"

definition ex_vfs :: vfs where
  "ex_vfs = \<lparr>vfs_fds_x = replicate 32 0, addr_vfs_res = 0x80, vfiles = (\<lambda>_. None), klog = [], errno = 0\<rparr>"

lemma ex_env_ok: "env_ok (ex_env r None)"
  by (auto simp: env_ok_def ex_env_def)

lemma ex_vfs_ok: "vfs_ok ex_vfs" "\<not> vfs_full ex_vfs"
  by (simp_all add: vfs_ok_def vfs_full_def ex_vfs_def VFS_MAX_FDS_def)

text \<open>
  C20.  \<^verbatim>\<open>os_open\<close> with a free descriptor returns.  It returns -1 and leaves the descriptor
  table exactly as it was, whichever step failed, or it returns the lowest free
  descriptor, with the opened file in that slot and every other slot unchanged.
\<close>

theorem vfs_open_exact:
  assumes "vfs_ok v" and "\<not> vfs_full v" and "env_ok x"
  shows "\<exists>r v' w'. patch_os_open x v w pn flags = Inr (r, v', w') \<and> vfs_ok v' \<and>
           (r = -1 \<and> vfs_fds_x v' = vfs_fds_x v \<or>
            0 \<le> r \<and> nat r < VFS_MAX_FDS \<and> vfs_fds_x v ! nat r = NULL \<and>
            (\<forall>i < nat r. vfs_fds_x v ! i \<noteq> NULL) \<and>
            (\<exists>a f. a \<noteq> NULL \<and> vfs_fds_x v' = (vfs_fds_x v)[nat r := a] \<and> vfiles v' a = Some f \<and>
                   f_fd f = r))"
  using open_returns [OF assms, of w pn flags] unfolding open_outcome_def by blast

theorem vfs_open_exact_witness:
  "\<exists>r v' w'. patch_os_open (ex_env 0 None) ex_vfs () ''x'' 0 = Inr (r, v', w') \<and>
     (r = -1 \<and> vfs_fds_x v' = replicate 32 0 \<or> 0 \<le> r)"
  using vfs_open_exact [OF ex_vfs_ok ex_env_ok [of 0], of "()" "''x''" 0]
  by (auto simp: ex_vfs_def)

text \<open>
  C21.  Opening and closing a file is a round trip for the descriptor table: \<^verbatim>\<open>os_close\<close> of
  the descriptor that \<^verbatim>\<open>os_open\<close> returned returns and empties that slot again, and a second
  close fails with \<^verbatim>\<open>EBADF\<close>.
\<close>

theorem vfs_open_close_roundtrip:
  assumes "vfs_ok v" and "\<not> vfs_full v" and "env_ok x"
    and "patch_os_open x v w pn flags = Inr (fd, v1, w1)" and "0 \<le> fd"
  shows "\<exists>r v2 w2. patch_os_close x v1 w1 fd = Inr (r, v2, w2) \<and> vfs_fds_x v2 = vfs_fds_x v \<and>
           patch_os_close x v2 w2 fd = Inr (-1, v2\<lparr>errno := EBADF\<rparr>, w2)"
proof -
  have ok1: "vfs_ok v1" and fd: "nat fd < VFS_MAX_FDS" "vfs_fds_x v ! nat fd = NULL"
    using open_returns [OF assms(1-3), of w pn flags] assms(4,5) by (auto simp: open_outcome_def)
  obtain a f where a: "a \<noteq> NULL" "vfs_fds_x v1 = (vfs_fds_x v)[nat fd := a]" "vfiles v1 a = Some f"
    using open_returns [OF assms(1-3), of w pn flags] assms(4,5) by (auto simp: open_outcome_def)
  have "patch_vfs_fd_to_file v1 fd = Inr a"
    using a(2) fd assms(1,5) by (simp add: look_slot [OF ok1] vfs_ok_def)
  from close_clears [OF ok1 this a(1,3), of x w1] obtain r v2 w2 where
    c: "patch_os_close x v1 w1 fd = Inr (r, v2, w2)" "vfs_ok v2"
      "vfs_fds_x v2 = (vfs_fds_x v1)[nat fd := NULL]"
    by blast
  then have same: "vfs_fds_x v2 = vfs_fds_x v" using a(2) fd by (metis list_update_id list_update_overwrite)
  then have "patch_vfs_fd_to_file v2 fd = Inr NULL" using fd assms(5) by (simp add: look_slot [OF c(2)])
  then have "patch_os_close x v2 w2 fd = Inr (-1, v2\<lparr>errno := EBADF\<rparr>, w2)"
    by (simp add: patch_os_close_def)
  with c same show ?thesis by blast
qed

lemma ex_open:
  "\<exists>v1. patch_os_open (ex_env r None) ex_vfs () ''a'' 0 = Inr (0, v1, ()) \<and>
     vfs_fds_x v1 = (replicate 32 0)[0 := 0x500] \<and> klog v1 = [] \<and>
     vfiles v1 = [0x500 \<mapsto> \<lparr>f_path = 0x600, f_fops = 1, f_lock = 0x700, f_type = 0, f_flags = 0,
       f_refcnt = 1 + r, f_fs = 1, f_fd = 0\<rparr>]"
  by (simp add: patch_os_open_def patch_vfs_get_free_fd_def get_free_loop.simps ex_vfs_def ex_env_def
      open_file_def fop_def vfs_defs Let_def)

theorem vfs_open_close_roundtrip_witness:
  "\<exists>v1 r v2. patch_os_open (ex_env 0 None) ex_vfs () ''a'' 0 = Inr (0, v1, ()) \<and>
     patch_os_close (ex_env 0 None) v1 () 0 = Inr (r, v2, ()) \<and> vfs_fds_x v2 = replicate 32 0"
proof -
  obtain v1 where o: "patch_os_open (ex_env 0 None) ex_vfs () ''a'' 0 = Inr (0, v1, ())"
    using ex_open [of 0] by blast
  from vfs_open_close_roundtrip [OF ex_vfs_ok ex_env_ok o] show ?thesis
    using o by (auto simp: ex_vfs_def)
qed

text \<open>
  The reference counts do not balance.  With the count \<open>r\<close> that a file system gives a
  new file object, a file that is opened and closed is freed only if \<open>r\<close> is 0, and a file
  whose own \<^verbatim>\<open>open\<close> callback fails is freed only if \<open>r\<close> is 1: for every \<open>r\<close>, one of the two
  paths leaks the object.
\<close>

theorem vfs_refcount_leak:
  "\<exists>v1 v2 v3.
     patch_os_open (ex_env r None) ex_vfs () ''a'' 0 = Inr (0, v1, ()) \<and>
     patch_os_close (ex_env r None) v1 () 0 = Inr (0, v2, ()) \<and>
     (KFree 0x500 \<in> set (klog v2) \<longleftrightarrow> r = 0) \<and>
     patch_os_open (ex_env r (Some (\<lambda>a fl w. (-5, fl, w)))) ex_vfs () ''a'' 0 = Inr (-1, v3, ()) \<and>
     (KFree 0x500 \<in> set (klog v3) \<longleftrightarrow> r = 1)"
proof -
  obtain v1 where o: "patch_os_open (ex_env r None) ex_vfs () ''a'' 0 = Inr (0, v1, ())"
    "vfs_fds_x v1 = (replicate 32 0)[0 := 0x500]" "klog v1 = []"
    "vfiles v1 = [0x500 \<mapsto> \<lparr>f_path = 0x600, f_fops = 1, f_lock = 0x700, f_type = 0, f_flags = 0,
       f_refcnt = 1 + r, f_fs = 1, f_fd = 0\<rparr>]"
    using ex_open by blast
  have "\<exists>v2. patch_os_close (ex_env r None) v1 () 0 = Inr (0, v2, ()) \<and>
      (KFree 0x500 \<in> set (klog v2) \<longleftrightarrow> r = 0)"
    using o(2-4) by (simp add: patch_os_close_def patch_vfs_fd_to_file_def VFS_MAX_FDS_def ex_env_def
        fop_def vfs_defs Let_def)
  moreover have "\<exists>v3. patch_os_open (ex_env r (Some (\<lambda>a fl w. (-5, fl, w)))) ex_vfs () ''a'' 0 =
      Inr (-1, v3, ()) \<and> (KFree 0x500 \<in> set (klog v3) \<longleftrightarrow> r = 1)"
    by (simp add: patch_os_open_def patch_vfs_get_free_fd_def get_free_loop.simps ex_vfs_def
        ex_env_def open_file_def fop_def vfs_defs Let_def)
  ultimately show ?thesis using o(1) by blast
qed

text \<open>
  A full table is not reported: \<^verbatim>\<open>vfs_get_free_fd\<close> then returns 32, not
  \<^verbatim>\<open>-ENFILE\<close>, and \<^verbatim>\<open>os_open\<close> accesses the table past its end on every path.  A lookup of the
  descriptors 32 to 63 reads past its end as well.
\<close>

theorem vfs_full_out_of_bounds:
  assumes "vfs_ok v" and "vfs_full v" and "env_ok x" and "32 \<le> fd" and "fd < 64"
  shows "patch_vfs_get_free_fd v = (32, v) \<and> patch_os_open x v w pn flags = Inl BadAccess \<and>
         patch_vfs_fd_to_file v fd = Inl BadAccess \<and> patch_os_close x v w fd = Inl BadAccess"
proof -
  have "patch_vfs_get_free_fd v = (32, v)"
    using get_free_fd_spec [OF assms(1)] assms(2)
    by (cases "patch_vfs_get_free_fd v") (simp add: VFS_MAX_FDS_def)
  moreover have "patch_vfs_fd_to_file v fd = Inl BadAccess"
    using look_slot [OF assms(1), of fd] assms(4,5) by (auto simp: VFS_MAX_FDS_def)
  ultimately show ?thesis
    using open_full_faults [OF assms(1-3)] by (simp add: patch_os_close_def)
qed

theorem vfs_full_out_of_bounds_witness:
  "patch_os_open (ex_env 0 None) (ex_vfs\<lparr>vfs_fds_x := replicate 32 0x500\<rparr>) () ''a'' 0 = Inl BadAccess \<and>
   patch_vfs_fd_to_file (ex_vfs\<lparr>vfs_fds_x := replicate 32 0x500\<rparr>) 40 = Inl BadAccess"
proof -
  have "vfs_ok (ex_vfs\<lparr>vfs_fds_x := replicate 32 0x500\<rparr>)" "vfs_full (ex_vfs\<lparr>vfs_fds_x := replicate 32 0x500\<rparr>)"
    by (simp_all add: vfs_ok_def vfs_full_def ex_vfs_def VFS_MAX_FDS_def)
  from vfs_full_out_of_bounds [OF this ex_env_ok, of 40 0 "()" "''a''" 0] show ?thesis by simp
qed

end
