(* ===== verification/Vqueue.thy ===== *)
theory Vqueue
  imports Vfs_Fd Mem_Slab
begin

text \<open>
  Message queues behind file descriptors, \<^verbatim>\<open>kernel/vqueue.c\<close>.  A \<^verbatim>\<open>struct vqueue\<close> starts with
  its file object, so that both have the same address.  The RTOS message queues, the
  allocator, the ROM's \<^verbatim>\<open>vfs_init_file\<close> and its \<^verbatim>\<open>ioctl\<close> are parameters.
\<close>

section \<open>State\<close>

text \<open>\<open>vq_qid\<close> gives the message queue of the vqueue at an address.\<close>

record 'q vqs =
  vq_vfs :: vfs
  vq_qid :: "u32 \<Rightarrow> u32"
  vq_rtos :: 'q

record ('m, 'q) vq_env =
  vq_zalloc :: "'q \<Rightarrow> u32 \<times> 'q"
  vq_mqNew :: "int \<Rightarrow> int \<Rightarrow> 'q \<Rightarrow> u32 \<times> 'q"
  vq_mqDelete :: "u32 \<Rightarrow> 'q \<Rightarrow> 'q"
  vq_mqPut :: "u32 \<Rightarrow> 'm \<Rightarrow> u8 \<Rightarrow> u32 \<Rightarrow> 'q \<Rightarrow> osStatus \<times> 'q"
  vq_mqGet :: "u32 \<Rightarrow> 'm \<Rightarrow> u8 \<Rightarrow> u32 \<Rightarrow> 'q \<Rightarrow> osStatus \<times> 'm \<times> u8 \<times> 'q"
  vq_mqCount :: "u32 \<Rightarrow> 'q \<Rightarrow> u32"
  vq_mqSpace :: "u32 \<Rightarrow> 'q \<Rightarrow> u32"
  vq_init_file :: "vfile \<Rightarrow> vfile"

abbreviation (input) O_RDWR :: int where "O_RDWR \<equiv> 2"

text \<open>The number that stands for \<^verbatim>\<open>vqueue_fops\<close>.\<close>

definition VQUEUE_FOPS :: nat where
  "VQUEUE_FOPS = 7"

definition zero_file :: vfile where
  "zero_file = \<lparr>f_path = 0, f_fops = 0, f_lock = 0, f_type = 0, f_flags = 0, f_refcnt = 0,
     f_fs = 0, f_fd = 0\<rparr>"

datatype vqueue_query_item = VQUEUE_CAPACITY | VQUEUE_MSGSIZE | VQUEUE_COUNT | VQUEUE_SPACE

text \<open>The ioctl commands with their argument structures.\<close>

datatype 'm vqueue_arg =
    VqPut 'm u8 u32
  | VqGet 'm u8 u32
  | VqQuery vqueue_query_item u32
  | VqReset

section \<open>Allocation and release\<close>

definition vqueue_alloc :: "('m, 'q) vq_env \<Rightarrow> int \<Rightarrow> int \<Rightarrow> 'q vqs \<Rightarrow> u32 \<times> 'q vqs" where
  "vqueue_alloc x count sz s =
     (let (a, q1) = vq_zalloc x (vq_rtos s)
      in if a = NULL then (NULL, s\<lparr>vq_rtos := q1\<rparr>)
         else (let (id, q2) = vq_mqNew x count sz q1;
                   f = (vq_init_file x zero_file)\<lparr>f_flags := O_RDWR, f_type := FTYPE_VIRTUAL,
                                                 f_fops := VQUEUE_FOPS\<rparr>;
                   v = vq_vfs s
               in (a, s\<lparr>vq_rtos := q2, vq_qid := (vq_qid s)(a := id),
                        vq_vfs := v\<lparr>vfiles := (vfiles v)(a \<mapsto> f)\<rparr>\<rparr>)))"

definition vqueue_free :: "('m, 'q) vq_env \<Rightarrow> u32 \<Rightarrow> 'q vqs \<Rightarrow> 'q vqs res" where
  "vqueue_free x a s =
     (let s1 = s\<lparr>vq_rtos := vq_mqDelete x (vq_qid s a) (vq_rtos s), vq_qid := (vq_qid s)(a := NULL)\<rparr>
      in res_bind (patch_vfs_destroy_file (vq_vfs s1) a)
           (\<lambda>v. Inr (s1\<lparr>vq_vfs := v\<lparr>klog := klog v @ [KFree a]\<rparr>\<rparr>)))"

definition fd_to_vqueue :: "'q vqs \<Rightarrow> int \<Rightarrow> u32 res" where
  "fd_to_vqueue s fd = patch_vfs_fd_to_file (vq_vfs s) fd"

definition vqueue_release :: "('m, 'q) vq_env \<Rightarrow> u32 \<Rightarrow> 'q vqs \<Rightarrow> (int \<times> 'q vqs) res" where
  "vqueue_release x a s = res_bind (vqueue_free x a s) (\<lambda>s'. Inr (0, s'))"

definition vqueue :: "('m, 'q) vq_env \<Rightarrow> int \<Rightarrow> int \<Rightarrow> 'q vqs \<Rightarrow> (int \<times> 'q vqs) res" where
  "vqueue x count sz s =
     (let (fd, v1) = patch_vfs_get_free_fd (vq_vfs s); s1 = s\<lparr>vq_vfs := v1\<rparr>
      in if fd < 0 then Inr (-1, s1\<lparr>vq_vfs := v1\<lparr>errno := - fd\<rparr>\<rparr>)
         else (let (a, s2) = vqueue_alloc x count sz s1
               in if a = NULL
                  then res_bind (patch_vfs_free_fd (vq_vfs s2) fd)
                         (\<lambda>v. Inr (-1, s2\<lparr>vq_vfs := v\<lparr>errno := ENOMEM\<rparr>\<rparr>))
                  else res_bind (file_get (vq_vfs s2) a) (\<lambda>v3.
                       res_bind (patch_vfs_install_fd v3 fd a) (\<lambda>v4.
                       Inr (fd, s2\<lparr>vq_vfs := v4\<rparr>)))))"

section \<open>File operations\<close>

definition vqueue_ioctl ::
  "('m, 'q) vq_env \<Rightarrow> u32 \<Rightarrow> 'm vqueue_arg \<Rightarrow> 'q vqs \<Rightarrow> int \<times> 'm vqueue_arg \<times> 'q vqs" where
  "vqueue_ioctl x a arg s =
     (case arg of
        VqPut m p t \<Rightarrow>
          (let (st, q) = vq_mqPut x (vq_qid s a) m p t (vq_rtos s)
           in (if st \<noteq> osOK then - EINVAL else 0, arg, s\<lparr>vq_rtos := q\<rparr>))
      | VqGet m p t \<Rightarrow>
          (let (st, m', p', q) = vq_mqGet x (vq_qid s a) m p t (vq_rtos s)
           in (if st \<noteq> osOK then - ENOMEM else 0, VqGet m' p' t, s\<lparr>vq_rtos := q\<rparr>))
      | VqQuery item val \<Rightarrow>
          (case item of
             VQUEUE_COUNT \<Rightarrow> (0, VqQuery item (vq_mqCount x (vq_qid s a) (vq_rtos s)), s)
           | VQUEUE_SPACE \<Rightarrow> (0, VqQuery item (vq_mqSpace x (vq_qid s a) (vq_rtos s)), s)
           | _ \<Rightarrow> (- EINVAL, arg, s))
      | VqReset \<Rightarrow> (0, arg, s))"

text \<open>\<open>pollin\<close> and \<open>pollout\<close> are the bits of the events polled for; the result is \<^verbatim>\<open>POLLIN\<close> or 0.\<close>

definition vqueue_poll :: "('m, 'q) vq_env \<Rightarrow> u32 \<Rightarrow> bool \<Rightarrow> bool \<Rightarrow> 'q vqs \<Rightarrow> bool res" where
  "vqueue_poll x a pollin pollout s =
     (if pollout then Inl AssertFail
      else if \<not> pollin then Inl AssertFail
      else Inr (vq_mqCount x (vq_qid s a) (vq_rtos s) \<noteq> 0))"

section \<open>Library functions\<close>

text \<open>
  \<open>io\<close> is the ROM's \<^verbatim>\<open>ioctl\<close>.  The functions raise the reference count around it.  A query
  whose structure is not filled in by the driver reads the value \<open>g\<close> that was on the stack.
\<close>

type_synonym ('m, 'q) ioctl = "int \<Rightarrow> 'm vqueue_arg \<Rightarrow> 'q vqs \<Rightarrow> int \<times> 'm vqueue_arg \<times> 'q vqs"

definition with_vq :: "'q vqs \<Rightarrow> u32 \<Rightarrow> ('q vqs \<Rightarrow> 'r \<times> 'q vqs) \<Rightarrow> ('r \<times> 'q vqs) res" where
  "with_vq s a body =
     res_bind (file_get (vq_vfs s) a) (\<lambda>v1.
     let (r, s2) = body (s\<lparr>vq_vfs := v1\<rparr>)
     in res_bind (file_put (vq_vfs s2) a) (\<lambda>v3. Inr (r, s2\<lparr>vq_vfs := v3\<rparr>)))"

definition vqueue_put ::
  "('m, 'q) ioctl \<Rightarrow> int \<Rightarrow> 'm \<Rightarrow> u8 \<Rightarrow> u32 \<Rightarrow> 'q vqs \<Rightarrow> (int \<times> 'q vqs) res" where
  "vqueue_put io fd m p t s =
     res_bind (fd_to_vqueue s fd) (\<lambda>a.
     if a = NULL then Inl AssertFail
     else with_vq s a (\<lambda>s1. let (r, _, s2) = io fd (VqPut m p t) s1 in (r, s2)))"

definition vqueue_get ::
  "('m, 'q) ioctl \<Rightarrow> int \<Rightarrow> 'm \<Rightarrow> u8 \<Rightarrow> u32 \<Rightarrow> 'q vqs \<Rightarrow> ((int \<times> 'm \<times> u8) \<times> 'q vqs) res" where
  "vqueue_get io fd m g t s =
     res_bind (fd_to_vqueue s fd) (\<lambda>a.
     if a = NULL then Inl AssertFail
     else with_vq s a (\<lambda>s1. let (r, arg, s2) = io fd (VqGet m g t) s1
                            in (case arg of VqGet m' p' _ \<Rightarrow> (r, m', p') | _ \<Rightarrow> (r, m, g), s2)))"

definition vqueue_query ::
  "('m, 'q) ioctl \<Rightarrow> vqueue_query_item \<Rightarrow> int \<Rightarrow> u32 \<Rightarrow> 'q vqs \<Rightarrow> (u32 \<times> 'q vqs) res" where
  "vqueue_query io item fd g s =
     res_bind (fd_to_vqueue s fd) (\<lambda>a.
     with_vq s a (\<lambda>s1. let (_, arg, s2) = io fd (VqQuery item g) s1
                       in (case arg of VqQuery _ val \<Rightarrow> val | _ \<Rightarrow> g, s2)))"

definition vqueue_capacity :: "('m, 'q) ioctl \<Rightarrow> int \<Rightarrow> u32 \<Rightarrow> 'q vqs \<Rightarrow> (u32 \<times> 'q vqs) res" where
  "vqueue_capacity io = vqueue_query io VQUEUE_CAPACITY"

definition vqueue_msg_size :: "('m, 'q) ioctl \<Rightarrow> int \<Rightarrow> u32 \<Rightarrow> 'q vqs \<Rightarrow> (u32 \<times> 'q vqs) res" where
  "vqueue_msg_size io = vqueue_query io VQUEUE_MSGSIZE"

definition vqueue_count :: "('m, 'q) ioctl \<Rightarrow> int \<Rightarrow> u32 \<Rightarrow> 'q vqs \<Rightarrow> (u32 \<times> 'q vqs) res" where
  "vqueue_count io = vqueue_query io VQUEUE_COUNT"

definition vqueue_space :: "('m, 'q) ioctl \<Rightarrow> int \<Rightarrow> u32 \<Rightarrow> 'q vqs \<Rightarrow> (u32 \<times> 'q vqs) res" where
  "vqueue_space io = vqueue_query io VQUEUE_SPACE"

end
