(* ===== verification/Vqueue_Props.thy ===== *)
theory Vqueue_Props
  imports Vqueue
begin

text \<open>
  Properties of the vqueues: creation over the descriptor table's contract, delivery in the order
  of the priorities through \<^verbatim>\<open>ioctl\<close>, and the queries.
\<close>

section \<open>What the RTOS and the ROM promise\<close>

text \<open>
  The messages of a queue with their priorities, the next one to be received first.  \<^verbatim>\<open>osMessageQueuePut\<close> sorts a message in by
  its priority, higher numbers first, behind those of the same priority.
\<close>

definition insert_prio :: "'m \<Rightarrow> u8 \<Rightarrow> ('m \<times> u8) list \<Rightarrow> ('m \<times> u8) list" where
  "insert_prio m p l = takeWhile (\<lambda>e. p \<le> snd e) l @ (m, p) # dropWhile (\<lambda>e. p \<le> snd e) l"

text \<open>
  A call that succeeds sorts its message in or takes the first one; a call that fails, on a full or an empty queue or for
  any other reason, leaves the messages alone.
\<close>

definition vq_queue_ok :: "('m, 'q) vq_env \<Rightarrow> ('q \<Rightarrow> u32 \<Rightarrow> ('m \<times> u8) list) \<Rightarrow> bool" where
  "vq_queue_ok x c \<longleftrightarrow>
     (\<forall>id m p t q st q'. vq_mqPut x id m p t q = (st, q') \<longrightarrow>
        c q' id = (if st = osOK then insert_prio m p (c q id) else c q id)) \<and>
     (\<forall>id m p t q st m' p' q'. vq_mqGet x id m p t q = (st, m', p', q') \<longrightarrow>
        c q id = (if st = osOK then (m', p') # c q' id else c q' id))"

text \<open>\<^verbatim>\<open>ioctl\<close> on a vqueue's descriptor runs its driver, and turns an error into -1 and \<^verbatim>\<open>errno\<close>.\<close>

definition ioctl_ok :: "('m, 'q) vq_env \<Rightarrow> ('m, 'q) ioctl \<Rightarrow> bool" where
  "ioctl_ok x io \<longleftrightarrow>
     (\<forall>fd a f arg s r arg' s'.
        fd_to_vqueue s fd = Inr a \<longrightarrow> a \<noteq> NULL \<longrightarrow> vfiles (vq_vfs s) a = Some f \<longrightarrow>
        f_fops f = VQUEUE_FOPS \<longrightarrow> vqueue_ioctl x a arg s = (r, arg', s') \<longrightarrow>
        io fd arg s = (if r < 0 then (-1, arg', s'\<lparr>vq_vfs := (vq_vfs s')\<lparr>errno := - r\<rparr>\<rparr>)
                       else (r, arg', s')))"

text \<open>An open vqueue: the descriptor holds a file object with the vqueue's operations.\<close>

definition vq_open :: "'q vqs \<Rightarrow> int \<Rightarrow> u32 \<Rightarrow> vfile \<Rightarrow> bool" where
  "vq_open s fd a f \<longleftrightarrow>
     fd_to_vqueue s fd = Inr a \<and> a \<noteq> NULL \<and> vfiles (vq_vfs s) a = Some f \<and> f_fops f = VQUEUE_FOPS"

lemma look_files [simp]:
  "patch_vfs_fd_to_file (v\<lparr>vfiles := fl\<rparr>) fd = patch_vfs_fd_to_file v fd"
  "patch_vfs_fd_to_file (v\<lparr>errno := e\<rparr>) fd = patch_vfs_fd_to_file v fd"
  by (simp_all add: patch_vfs_fd_to_file_def)

lemma ioctl_run:
  assumes io: "ioctl_ok x io" and o: "vq_open s fd a f"
    and r: "vqueue_ioctl x a arg (s\<lparr>vq_vfs := (vq_vfs s)\<lparr>vfiles := (vfiles (vq_vfs s))(a \<mapsto> f')\<rparr>\<rparr>) =
      (r, arg', s')" and f': "f_fops f' = VQUEUE_FOPS"
  shows "io fd arg (s\<lparr>vq_vfs := (vq_vfs s)\<lparr>vfiles := (vfiles (vq_vfs s))(a \<mapsto> f')\<rparr>\<rparr>) =
      (if r < 0 then (-1, arg', s'\<lparr>vq_vfs := (vq_vfs s')\<lparr>errno := - r\<rparr>\<rparr>) else (r, arg', s'))"
proof -
  let ?s = "s\<lparr>vq_vfs := (vq_vfs s)\<lparr>vfiles := (vfiles (vq_vfs s))(a \<mapsto> f')\<rparr>\<rparr>"
  have "fd_to_vqueue ?s fd = Inr a" "a \<noteq> NULL" "vfiles (vq_vfs ?s) a = Some f'"
    using o by (auto simp: vq_open_def fd_to_vqueue_def)
  then show ?thesis using io r f' unfolding ioctl_ok_def by blast
qed

section \<open>Putting, getting and queries on an open vqueue\<close>

definition set_errno :: "int \<Rightarrow> 'q vqs \<Rightarrow> 'q vqs" where
  "set_errno e s = s\<lparr>vq_vfs := (vq_vfs s)\<lparr>errno := e\<rparr>\<rparr>"

lemma vqueue_put_run:
  assumes io: "ioctl_ok x io" and o: "vq_open s fd a f"
    and p: "vq_mqPut x (vq_qid s a) m p t (vq_rtos s) = (st, q)"
  shows "vqueue_put io fd m p t s =
    Inr (if st = osOK then (0, s\<lparr>vq_rtos := q\<rparr>) else (-1, set_errno EINVAL (s\<lparr>vq_rtos := q\<rparr>)))"
proof -
  let ?f = "f\<lparr>f_refcnt := f_refcnt f + 1\<rparr>"
  let ?s = "s\<lparr>vq_vfs := (vq_vfs s)\<lparr>vfiles := (vfiles (vq_vfs s))(a \<mapsto> ?f)\<rparr>\<rparr>"
  have a: "fd_to_vqueue s fd = Inr a" "a \<noteq> NULL" and f: "vfiles (vq_vfs s) a = Some f"
    and ops: "f_fops ?f = VQUEUE_FOPS"
    using o by (auto simp: vq_open_def)
  have "vqueue_ioctl x a (VqPut m p t) ?s = (if st \<noteq> osOK then - EINVAL else 0, VqPut m p t, ?s\<lparr>vq_rtos := q\<rparr>)"
    using p by (simp add: vqueue_ioctl_def)
  note i = ioctl_run [OF io o this ops]
  have id: "(vfiles (vq_vfs s))(a \<mapsto> f) = vfiles (vq_vfs s)" using f by auto
  show ?thesis
    using a f i id by (simp add: vqueue_put_def with_vq_def file_get_def file_put_def upd_file_def set_errno_def)
qed

lemma vqueue_get_run:
  assumes io: "ioctl_ok x io" and o: "vq_open s fd a f"
    and p: "vq_mqGet x (vq_qid s a) m g t (vq_rtos s) = (st, m', p', q)"
  shows "vqueue_get io fd m g t s =
    Inr (if st = osOK then ((0, m', p'), s\<lparr>vq_rtos := q\<rparr>) else ((-1, m', p'), set_errno ENOMEM (s\<lparr>vq_rtos := q\<rparr>)))"
proof -
  let ?f = "f\<lparr>f_refcnt := f_refcnt f + 1\<rparr>"
  let ?s = "s\<lparr>vq_vfs := (vq_vfs s)\<lparr>vfiles := (vfiles (vq_vfs s))(a \<mapsto> ?f)\<rparr>\<rparr>"
  have a: "fd_to_vqueue s fd = Inr a" "a \<noteq> NULL" and f: "vfiles (vq_vfs s) a = Some f"
    and ops: "f_fops ?f = VQUEUE_FOPS"
    using o by (auto simp: vq_open_def)
  have "vqueue_ioctl x a (VqGet m g t) ?s = (if st \<noteq> osOK then - ENOMEM else 0, VqGet m' p' t, ?s\<lparr>vq_rtos := q\<rparr>)"
    using p by (simp add: vqueue_ioctl_def)
  note i = ioctl_run [OF io o this ops]
  have id: "(vfiles (vq_vfs s))(a \<mapsto> f) = vfiles (vq_vfs s)" using f by auto
  show ?thesis
    using a f i id by (simp add: vqueue_get_def with_vq_def file_get_def file_put_def upd_file_def set_errno_def)
qed

lemma vqueue_query_run:
  assumes io: "ioctl_ok x io" and o: "vq_open s fd a f"
    and r: "\<And>s'. vq_qid s' = vq_qid s \<Longrightarrow> vq_rtos s' = vq_rtos s \<Longrightarrow>
      vqueue_ioctl x a (VqQuery item g) s' = (e, VqQuery item val, s')"
  shows "\<exists>s'. vqueue_query io item fd g s = Inr (val, s') \<and> vq_rtos s' = vq_rtos s"
proof -
  let ?f = "f\<lparr>f_refcnt := f_refcnt f + 1\<rparr>"
  let ?s = "s\<lparr>vq_vfs := (vq_vfs s)\<lparr>vfiles := (vfiles (vq_vfs s))(a \<mapsto> ?f)\<rparr>\<rparr>"
  have a: "fd_to_vqueue s fd = Inr a" and f: "vfiles (vq_vfs s) a = Some f"
    and ops: "f_fops ?f = VQUEUE_FOPS"
    using o by (auto simp: vq_open_def)
  have "vqueue_ioctl x a (VqQuery item g) ?s = (e, VqQuery item val, ?s)" by (rule r) simp_all
  note i = ioctl_run [OF io o this ops]
  show ?thesis
    using a f i by (simp add: vqueue_query_def with_vq_def file_get_def file_put_def upd_file_def)
qed

section \<open>Properties\<close>

text \<open>One message queue over lists, and an \<^verbatim>\<open>ioctl\<close> that runs the driver, for the examples.\<close>

definition ex_vq :: "(nat, (nat \<times> u8) list) vq_env" where
  "ex_vq = \<lparr>vq_zalloc = (\<lambda>q. (0x900, q)), vq_mqNew = (\<lambda>c z q. (1, q)), vq_mqDelete = (\<lambda>id q. []),
     vq_mqPut = (\<lambda>id m p t q. if length q < 5 then (osOK, insert_prio m p q) else (osErrorResource, q)),
     vq_mqGet = (\<lambda>id m p t q. case q of [] \<Rightarrow> (osErrorTimeout, m, p, q) | (m', p') # ys \<Rightarrow> (osOK, m', p', ys)),
     vq_mqCount = (\<lambda>id q. of_nat (length q)), vq_mqSpace = (\<lambda>id q. 5), vq_init_file = (\<lambda>f. f)\<rparr>"

definition ex_io :: "(nat, (nat \<times> u8) list) ioctl" where
  "ex_io fd arg s =
     (case fd_to_vqueue s fd of
        Inl _ \<Rightarrow> (-1, arg, s)
      | Inr a \<Rightarrow> (let (r, arg', s') = vqueue_ioctl ex_vq a arg s
                 in if r < 0 then (-1, arg', s'\<lparr>vq_vfs := (vq_vfs s')\<lparr>errno := - r\<rparr>\<rparr>)
                    else (r, arg', s')))"

definition ex_vqs :: "(nat \<times> u8) list vqs" where
  "ex_vqs = \<lparr>vq_vfs = \<lparr>vfs_fds_x = replicate 32 0, addr_vfs_res = 0x80, vfiles = (\<lambda>_. None), klog = [],
     errno = 0\<rparr>, vq_qid = (\<lambda>_. 0), vq_rtos = []\<rparr>"

lemma ex_vq_queue_ok: "vq_queue_ok ex_vq (\<lambda>q id. q)"
  by (auto simp: vq_queue_ok_def ex_vq_def split: list.splits if_splits)

lemma ex_vq_ioctl_ok: "ioctl_ok ex_vq ex_io"
  unfolding ioctl_ok_def
proof (intro allI impI)
  fix fd a f arg s r arg' s'
  assume "fd_to_vqueue s fd = Inr a" "vqueue_ioctl ex_vq a arg s = (r, arg', s')"
  then show "ex_io fd arg s = (if r < 0 then (-1, arg', s'\<lparr>vq_vfs := (vq_vfs s')\<lparr>errno := - r\<rparr>\<rparr>)
                       else (r, arg', s'))"
    by (simp add: ex_io_def)
qed

lemma ex_vqs_ok: "vfs_ok (vq_vfs ex_vqs)" "\<not> vfs_full (vq_vfs ex_vqs)"
  by (simp_all add: vfs_ok_def vfs_full_def ex_vqs_def VFS_MAX_FDS_def)

text \<open>
  C22.  \<^verbatim>\<open>vqueue\<close> with a free descriptor.  When the object cannot be allocated the call returns
  -1 with \<^verbatim>\<open>ENOMEM\<close> and the descriptor table, indeed the whole file system state but for
  \<^verbatim>\<open>errno\<close>, is as before; otherwise it returns a descriptor that was free, which now leads
  to the new vqueue, while every descriptor in use leads where it led.
\<close>

theorem vqueue_create_exact:
  assumes ok: "vfs_ok (vq_vfs s)" and nf: "\<not> vfs_full (vq_vfs s)"
    and z: "vq_zalloc x (vq_rtos s) = (a, q1)" and n: "vq_mqNew x count sz q1 = (qid, q2)"
  shows "if a = NULL
         then vqueue x count sz s =
                Inr (-1, s\<lparr>vq_rtos := q1, vq_vfs := (vq_vfs s)\<lparr>errno := ENOMEM\<rparr>\<rparr>)
         else \<exists>fd s' f. vqueue x count sz s = Inr (fd, s') \<and> 0 \<le> fd \<and> fd_to_vqueue s fd = Inr NULL \<and>
                vq_open s' fd a f \<and> f_fd f = fd \<and> vq_qid s' a = qid \<and>
                f_refcnt f = f_refcnt (vq_init_file x zero_file) + 1 \<and>
                (\<forall>k b. fd_to_vqueue s k = Inr b \<longrightarrow> b \<noteq> NULL \<longrightarrow> fd_to_vqueue s' k = Inr b)"
proof -
  obtain fd v1 where g: "patch_vfs_get_free_fd (vq_vfs s) = (fd, v1)" by fastforce
  note gl = fdt.get_law [OF ok nf g] and gs = get_free_fd_spec [OF ok g]
  have fd: "0 \<le> fd" "nat fd < VFS_MAX_FDS" using gs nf by auto
  have re: "vfiles v1 = vfiles (vq_vfs s)" using gl by (simp add: vfs_rest_def)
  show ?thesis
  proof (cases "a = NULL")
    case True
    have "patch_vfs_free_fd v1 fd = Inr (vq_vfs s)" by (rule fdt.get_free_restores [OF ok nf g])
    with True g fd z show ?thesis by (simp add: vqueue_def vqueue_alloc_def)
  next
    case False
    let ?f = "(vq_init_file x zero_file)\<lparr>f_flags := O_RDWR, f_type := FTYPE_VIRTUAL,
      f_fops := VQUEUE_FOPS, f_refcnt := f_refcnt (vq_init_file x zero_file) + 1, f_fd := fd\<rparr>"
    let ?v = "v1\<lparr>vfs_fds_x := (vfs_fds_x v1)[nat fd := a], vfiles := (vfiles v1)(a \<mapsto> ?f)\<rparr>"
    let ?s = "s\<lparr>vq_vfs := ?v, vq_qid := (vq_qid s)(a := qid), vq_rtos := q2\<rparr>"
    have ok1: "vfs_ok v1" using gl by blast
    then have l1: "fd < int (length (vfs_fds_x v1))" using fd by (simp add: vfs_ok_def nat_less_iff)
    have run: "vqueue x count sz s = Inr (fd, ?s)"
      using False g fd z n l1
      by (simp add: vqueue_def vqueue_alloc_def file_get_def upd_file_def patch_vfs_install_fd_def
          set_slot_def)
    have look: "fd_to_vqueue ?s k = (if k = fd then Inr a else patch_vfs_fd_to_file v1 k)" for k
      using look_upd [OF ok1 fd, of a k] by (simp add: fd_to_vqueue_def)
    have "vq_open ?s fd a ?f" using False by (simp add: vq_open_def look)
    moreover have "fd_to_vqueue ?s k = Inr b" if "fd_to_vqueue s k = Inr b" "b \<noteq> NULL" for k b
    proof -
      have "k \<noteq> fd" "patch_vfs_fd_to_file v1 k = Inr b"
        using fdt.get_keeps_others [OF ok nf g, of k b] that by (auto simp: fd_to_vqueue_def)
      then show ?thesis by (simp only: look if_False)
    qed
    moreover have "fd_to_vqueue s fd = Inr NULL" using gl by (simp add: fd_to_vqueue_def)
    ultimately show ?thesis
      using False run fd by fastforce
  qed
qed

theorem vqueue_create_exact_witness:
  "\<exists>fd s' f. vqueue ex_vq 5 4 ex_vqs = Inr (fd, s') \<and> vq_open s' fd 0x900 f \<and> f_refcnt f = 1"
  using vqueue_create_exact [OF ex_vqs_ok, of ex_vq "0x900" "[]" 5 4 1 "[]"]
  by (auto simp: ex_vq_def ex_vqs_def zero_file_def)

section \<open>Sequences of calls\<close>

datatype 'm vq_call = CPut 'm u8 u32 | CGet 'm u8 u32

text \<open>The outcome of a call: the result, for \<^verbatim>\<open>vqueue_get\<close> the message and its priority, and \<^verbatim>\<open>errno\<close> after it.\<close>

datatype 'm vq_outcome = OPut int int | OGet int 'm u8 int

fun do_call :: "('m, 'q) ioctl \<Rightarrow> int \<Rightarrow> 'm vq_call \<Rightarrow> 'q vqs \<Rightarrow> ('m vq_outcome \<times> 'q vqs) res" where
  "do_call io fd (CPut m p t) s = res_bind (vqueue_put io fd m p t s) (\<lambda>(r, s'). Inr (OPut r (errno (vq_vfs s')), s'))"
| "do_call io fd (CGet m p t) s =
     res_bind (vqueue_get io fd m p t s) (\<lambda>((r, m', p'), s'). Inr (OGet r m' p' (errno (vq_vfs s')), s'))"

fun vq_calls :: "('m, 'q) ioctl \<Rightarrow> int \<Rightarrow> 'm vq_call list \<Rightarrow> 'q vqs \<Rightarrow> ('m vq_outcome list \<times> 'q vqs) res" where
  "vq_calls io fd [] s = Inr ([], s)"
| "vq_calls io fd (c # cs) s =
     res_bind (do_call io fd c s) (\<lambda>(r, s'). res_bind (vq_calls io fd cs s') (\<lambda>(rs, s''). Inr (r # rs, s'')))"

text \<open>A priority queue: what a call with an outcome does to the messages, and whether the outcome is one it may have.\<close>

fun pq_step :: "'m vq_call \<Rightarrow> 'm vq_outcome \<Rightarrow> ('m \<times> u8) list \<Rightarrow> ('m \<times> u8) list \<Rightarrow> bool" where
  "pq_step (CPut m p t) (OPut r e) l l' =
     (if r = 0 then l' = insert_prio m p l else r = -1 \<and> e = EINVAL \<and> l' = l)"
| "pq_step (CGet _ _ t) (OGet r m p e) l l' =
     (if r = 0 then l = (m, p) # l' else r = -1 \<and> e = ENOMEM \<and> l' = l)"
| "pq_step _ _ l l' = False"

fun pq_run :: "'m vq_call list \<Rightarrow> 'm vq_outcome list \<Rightarrow> ('m \<times> u8) list \<Rightarrow> ('m \<times> u8) list \<Rightarrow> bool" where
  "pq_run [] [] l l' = (l' = l)"
| "pq_run (c # cs) (r # rs) l l' = (\<exists>l1. pq_step c r l l1 \<and> pq_run cs rs l1 l')"
| "pq_run _ _ l l' = False"

text \<open>The messages of one priority: those accepted by a sequence of calls, those delivered, and those in a queue.\<close>

fun accepted :: "u8 \<Rightarrow> 'm vq_call list \<Rightarrow> 'm vq_outcome list \<Rightarrow> 'm list" where
  "accepted k (CPut m p t # cs) (OPut r e # rs) = (if r = 0 \<and> p = k then m # accepted k cs rs else accepted k cs rs)"
| "accepted k (c # cs) (r # rs) = accepted k cs rs"
| "accepted k _ _ = []"

fun delivered :: "u8 \<Rightarrow> 'm vq_outcome list \<Rightarrow> 'm list" where
  "delivered k (OGet r m p e # rs) = (if r = 0 \<and> p = k then m # delivered k rs else delivered k rs)"
| "delivered k (OPut r e # rs) = delivered k rs"
| "delivered k [] = []"

definition of_prio :: "u8 \<Rightarrow> ('m \<times> u8) list \<Rightarrow> 'm list" where
  "of_prio k l = map fst (filter (\<lambda>e. snd e = k) l)"

definition by_prio :: "('m \<times> u8) list \<Rightarrow> bool" where
  "by_prio = sorted_wrt (\<lambda>d e. snd e \<le> snd d)"

lemma by_prio_Cons: "by_prio (d # l) \<longleftrightarrow> (\<forall>e\<in>set l. snd e \<le> snd d) \<and> by_prio l"
  by (simp add: by_prio_def)

lemma insert_prio_Cons:
  "insert_prio m p (d # l) = (if p \<le> snd d then d # insert_prio m p l else (m, p) # d # l)"
  by (simp add: insert_prio_def)

lemma set_insert_prio: "set (insert_prio m p l) = insert (m, p) (set l)"
  by (induction l) (auto simp: insert_prio_Cons insert_prio_def)

lemma by_prio_insert: "by_prio l \<Longrightarrow> by_prio (insert_prio m p l)"
proof (induction l)
  case (Cons d l)
  then show ?case by (auto simp: insert_prio_Cons by_prio_Cons set_insert_prio)
qed (simp add: insert_prio_def by_prio_def)

lemma of_prio_insert: "by_prio l \<Longrightarrow> of_prio k (insert_prio m p l) = of_prio k l @ (if p = k then [m] else [])"
proof (induction l)
  case (Cons d l)
  show ?case
  proof (cases "p \<le> snd d")
    case True
    with Cons show ?thesis by (auto simp: insert_prio_Cons by_prio_Cons of_prio_def)
  next
    case False
    then have "\<forall>e\<in>set (d # l). snd e \<noteq> p" using Cons.prems by (fastforce simp: by_prio_Cons)
    then have "filter (\<lambda>e. snd e = p) (d # l) = []" by (simp only: filter_empty_conv)
    with False show ?thesis by (auto simp: insert_prio_Cons of_prio_def)
  qed
qed (simp add: insert_prio_def of_prio_def)

lemma pq_step_prio: "pq_step c r l l' \<Longrightarrow> by_prio l \<Longrightarrow> by_prio l'"
  by (cases c; cases r) (auto simp: by_prio_insert by_prio_Cons split: if_splits)

lemma of_prio_Cons: "of_prio k ((m, p) # l) = (if p = k then m # of_prio k l else of_prio k l)"
  by (simp add: of_prio_def)

lemma pq_step_fifo:
  assumes "pq_step c r l l1" "by_prio l" "ds @ rest = of_prio k l1 @ accepted k cs rs" "ds = delivered k rs"
  shows "delivered k (r # rs) @ rest = of_prio k l @ accepted k (c # cs) (r # rs)"
proof (cases c)
  case (CPut m p t)
  then obtain v e where "r = OPut v e" using assms(1) by (cases r) auto
  with CPut assms of_prio_insert [OF assms(2)] show ?thesis by (simp split: if_splits)
next
  case (CGet m p t)
  then obtain v m' p' e where r: "r = OGet v m' p' e" using assms(1) by (cases r) auto
  with CGet assms show ?thesis by (simp add: of_prio_Cons split: if_splits)
qed

lemma pq_run_fifo:
  "pq_run cs rs l l' \<Longrightarrow> by_prio l \<Longrightarrow> delivered k rs @ of_prio k l' = of_prio k l @ accepted k cs rs"
proof (induction cs rs l l' rule: pq_run.induct)
  case (2 c cs r rs l l')
  then obtain l1 where s: "pq_step c r l l1" "pq_run cs rs l1 l'" by auto
  have IH: "delivered k rs @ of_prio k l' = of_prio k l1 @ accepted k cs rs"
    using 2(1) [OF s(2) pq_step_prio [OF s(1) 2(3)]] .
  show ?case by (rule pq_step_fifo [OF s(1) 2(3) IH refl])
qed (auto simp: of_prio_def)

lemma vq_call_step:
  assumes q: "vq_queue_ok x c" and io: "ioctl_ok x io" and o: "vq_open s fd a f"
  shows "\<exists>r s'. do_call io fd call s = Inr (r, s') \<and> vq_open s' fd a f \<and> vq_qid s' = vq_qid s \<and>
    vq_vfs s' = (vq_vfs s)\<lparr>errno := errno (vq_vfs s')\<rparr> \<and>
    pq_step call r (c (vq_rtos s) (vq_qid s a)) (c (vq_rtos s') (vq_qid s a))"
proof (cases call)
  case (CPut m p t)
  obtain st q' where p: "vq_mqPut x (vq_qid s a) m p t (vq_rtos s) = (st, q')" by fastforce
  then have "c q' (vq_qid s a) = (if st = osOK then insert_prio m p (c (vq_rtos s) (vq_qid s a)) else c (vq_rtos s) (vq_qid s a))"
    using q unfolding vq_queue_ok_def by blast
  with vqueue_put_run [OF io o p] CPut o show ?thesis
    by (auto simp: set_errno_def vq_open_def fd_to_vqueue_def)
next
  case (CGet m p t)
  obtain st m' p' q' where p: "vq_mqGet x (vq_qid s a) m p t (vq_rtos s) = (st, m', p', q')" by (metis prod_cases4)
  then have "c (vq_rtos s) (vq_qid s a) = (if st = osOK then (m', p') # c q' (vq_qid s a) else c q' (vq_qid s a))"
    using q unfolding vq_queue_ok_def by blast
  with vqueue_get_run [OF io o p] CGet o show ?thesis
    by (auto simp: set_errno_def vq_open_def fd_to_vqueue_def)
qed

lemma vq_calls_run:
  assumes q: "vq_queue_ok x c" and io: "ioctl_ok x io"
  shows "vq_open s fd a f \<Longrightarrow> \<exists>rs s'. vq_calls io fd calls s = Inr (rs, s') \<and> vq_open s' fd a f \<and> vq_qid s' = vq_qid s \<and>
    vq_vfs s' = (vq_vfs s)\<lparr>errno := errno (vq_vfs s')\<rparr> \<and>
    pq_run calls rs (c (vq_rtos s) (vq_qid s a)) (c (vq_rtos s') (vq_qid s a))"
proof (induction calls arbitrary: s)
  case (Cons call calls)
  obtain r s1 where 1: "do_call io fd call s = Inr (r, s1)" "vq_open s1 fd a f" "vq_qid s1 = vq_qid s"
    "vq_vfs s1 = (vq_vfs s)\<lparr>errno := errno (vq_vfs s1)\<rparr>"
    "pq_step call r (c (vq_rtos s) (vq_qid s a)) (c (vq_rtos s1) (vq_qid s a))"
    using vq_call_step [OF q io Cons.prems, of call] by blast
  obtain rs s2 where 2: "vq_calls io fd calls s1 = Inr (rs, s2)" "vq_open s2 fd a f" "vq_qid s2 = vq_qid s1"
    "vq_vfs s2 = (vq_vfs s1)\<lparr>errno := errno (vq_vfs s2)\<rparr>"
    "pq_run calls rs (c (vq_rtos s1) (vq_qid s1 a)) (c (vq_rtos s2) (vq_qid s1 a))"
    using Cons.IH [OF 1(2)] by blast
  have "vq_vfs s2 = (vq_vfs s)\<lparr>errno := errno (vq_vfs s2)\<rparr>" by (subst 2(4), subst 1(4)) simp
  moreover have "vq_calls io fd (call # calls) s = Inr (r # rs, s2)" using 1(1) 2(1) by simp
  moreover have "pq_run (call # calls) (r # rs) (c (vq_rtos s) (vq_qid s a)) (c (vq_rtos s2) (vq_qid s a))"
    using 1(3,5) 2(5) by auto
  ultimately show ?case using 2(2,3) 1(3) by (intro exI [of _ "r # rs"] exI [of _ s2]) simp
qed simp


definition ex_open_vqs :: "(nat \<times> u8) list vqs" where
  "ex_open_vqs = ex_vqs\<lparr>vq_vfs := (vq_vfs ex_vqs)\<lparr>vfs_fds_x := (replicate 32 0)[3 := 0x900],
     vfiles := [0x900 \<mapsto> zero_file\<lparr>f_fops := VQUEUE_FOPS, f_refcnt := 1\<rparr>]\<rparr>\<rparr>"

lemma ex_vq_open: "vq_open ex_open_vqs 3 0x900 (zero_file\<lparr>f_fops := VQUEUE_FOPS, f_refcnt := 1\<rparr>)"
  by (simp add: vq_open_def fd_to_vqueue_def patch_vfs_fd_to_file_def ex_open_vqs_def ex_vqs_def
      VFS_MAX_FDS_def)


text \<open>
  The queries: \<^verbatim>\<open>vqueue_count\<close> and \<^verbatim>\<open>vqueue_space\<close> return what the message queue
  reports, but \<^verbatim>\<open>vqueue_capacity\<close> and \<^verbatim>\<open>vqueue_msg_size\<close> return the value \<open>g\<close> that happened to
  be in the uninitialized argument structure, since the driver rejects those queries.
\<close>

theorem vqueue_queries:
  assumes "ioctl_ok x io" and "vq_open s fd a f"
  shows "(\<exists>s'. vqueue_count io fd g s = Inr (vq_mqCount x (vq_qid s a) (vq_rtos s), s')) \<and>
         (\<exists>s'. vqueue_space io fd g s = Inr (vq_mqSpace x (vq_qid s a) (vq_rtos s), s')) \<and>
         (\<exists>s'. vqueue_capacity io fd g s = Inr (g, s')) \<and>
         (\<exists>s'. vqueue_msg_size io fd g s = Inr (g, s'))"
  using vqueue_query_run [OF assms, of VQUEUE_COUNT g 0 "vq_mqCount x (vq_qid s a) (vq_rtos s)"]
    vqueue_query_run [OF assms, of VQUEUE_SPACE g 0 "vq_mqSpace x (vq_qid s a) (vq_rtos s)"]
    vqueue_query_run [OF assms, of VQUEUE_CAPACITY g "- EINVAL" g]
    vqueue_query_run [OF assms, of VQUEUE_MSGSIZE g "- EINVAL" g]
  by (simp add: vqueue_count_def vqueue_space_def vqueue_capacity_def vqueue_msg_size_def
      vqueue_ioctl_def) blast

theorem vqueue_queries_witness:
  "(\<exists>s'. vqueue_count ex_io 3 77 ex_open_vqs = Inr (0, s')) \<and>
   (\<exists>s'. vqueue_capacity ex_io 3 77 ex_open_vqs = Inr (77, s'))"
  using vqueue_queries [OF ex_vq_ioctl_ok ex_vq_open, of 77]
  by (simp add: ex_vq_def ex_open_vqs_def ex_vqs_def)

end
