(* ===== verification/Task_Wdt.thy ===== *)
theory Task_Wdt
  imports Wise_Prelude
begin

text \<open>
  The task watchdog, \<^verbatim>\<open>api/wise/wise_task_wdt.c\<close>, in the build with
  \<^verbatim>\<open>CONFIG_TASK_WATCHDOG_RESET\<close>: its operations and the loop of its task, the set-based
  specification they implement, and what a run of tasks against it guarantees.  The singly linked list
  is the sequence of its nodes, each with its address.  The result of \<^verbatim>\<open>calloc\<close>, the running
  task and every reading of \<^verbatim>\<open>ktime\<close> are arguments; calls into the kernel and the hardware
  watchdog are recorded in order.
\<close>

section \<open>State\<close>

record task_wdt_entry =
  e_addr :: u32
  task_id :: u32
  has_reset :: bool

datatype twdt_call =
    SemNew u32
  | SemRelease u32
  | ThreadNew
  | HwStart u32
  | HwFeed
  | ErrReport "(nat \<times> u32) list"
  | FreeEntry u32

record task_wdt_ctx =
  started :: bool
  wdt_sem :: u32
  expire_tick :: u32
  expire_dur_tick :: u32
  entries_slist :: "task_wdt_entry list"
  wdt_calls :: "twdt_call list"

abbreviation (input) WISE_OK :: int where "WISE_OK \<equiv> 0"
abbreviation (input) WISE_FAIL :: int where "WISE_FAIL \<equiv> - 1"
abbreviation (input) WISE_ERR_NO_MEM :: int where "WISE_ERR_NO_MEM \<equiv> 0x101"
abbreviation (input) WISE_ERR_INVALID_STATE :: int where "WISE_ERR_INVALID_STATE \<equiv> 0x103"

definition wdt_call :: "twdt_call \<Rightarrow> task_wdt_ctx \<Rightarrow> task_wdt_ctx" where
  "wdt_call k c = c\<lparr>wdt_calls := wdt_calls c @ [k]\<rparr>"

section \<open>Helpers of the code\<close>

definition task_wdt_timer_feed :: "task_wdt_ctx \<Rightarrow> task_wdt_ctx" where
  "task_wdt_timer_feed c =
     c\<lparr>entries_slist := map (\<lambda>e. e\<lparr>has_reset := False\<rparr>) (entries_slist c)\<rparr>"

definition task_wdt_check_all_reset :: "task_wdt_ctx \<Rightarrow> bool" where
  "task_wdt_check_all_reset c =
     (\<not> fold (\<lambda>e found. if \<not> has_reset e then True else found) (entries_slist c) False)"

definition task_wdt_find_entry :: "task_wdt_ctx \<Rightarrow> u32 \<Rightarrow> u32" where
  "task_wdt_find_entry c t =
     fold (\<lambda>e target. if task_id e = t then e_addr e else target) (entries_slist c) NULL"

definition task_wdt_expire_update :: "u32 \<Rightarrow> task_wdt_ctx \<Rightarrow> task_wdt_ctx" where
  "task_wdt_expire_update now c = c\<lparr>expire_tick := now + expire_dur_tick c\<rparr>"

definition task_wdt_check_feed :: "u32 \<Rightarrow> task_wdt_ctx \<Rightarrow> task_wdt_ctx" where
  "task_wdt_check_feed now c =
     (if task_wdt_check_all_reset c
      then (let c1 = task_wdt_expire_update now (task_wdt_timer_feed c)
            in wdt_call (SemRelease (wdt_sem c1)) c1)
      else c)"

text \<open>The numbered lines of the report.\<close>

fun err_lines :: "nat \<Rightarrow> task_wdt_entry list \<Rightarrow> (nat \<times> u32) list" where
  "err_lines i [] = []"
| "err_lines i (e # es) =
     (if \<not> has_reset e then (i, task_id e) # err_lines (Suc i) es else err_lines i es)"

definition task_wdt_err_report :: "task_wdt_ctx \<Rightarrow> task_wdt_ctx" where
  "task_wdt_err_report c = wdt_call (ErrReport (err_lines 0 (entries_slist c))) c"

section \<open>The watchdog task\<close>

text \<open>
  One pass of the loop, up to the wait on the semaphore.  \<open>Halted\<close> is the endless sleep after
  a report, in which the hardware watchdog is not fed any more.
\<close>

datatype wdt_state = Running task_wdt_ctx | Halted task_wdt_ctx

definition wdt_due :: "u32 \<Rightarrow> task_wdt_ctx \<Rightarrow> bool" where
  "wdt_due now c = (sint (expire_tick c - now) \<le> 10 * 1000)"

definition task_wdt_start :: "task_wdt_ctx \<Rightarrow> task_wdt_ctx" where
  "task_wdt_start c = wdt_call (HwStart 1000) c"

definition task_wdt_round :: "u32 \<Rightarrow> u32 \<Rightarrow> task_wdt_ctx \<Rightarrow> wdt_state" where
  "task_wdt_round now1 now2 c0 =
     (let c = wdt_call HwFeed c0
      in if wdt_due now1 c
         then (let all_reset = task_wdt_check_all_reset c; c1 = task_wdt_expire_update now2 c
               in if \<not> all_reset then Halted (task_wdt_err_report c1)
                  else Running (task_wdt_timer_feed c1))
         else Running c)"

section \<open>The API\<close>

definition SLIST_REMOVE :: "u32 \<Rightarrow> task_wdt_entry list \<Rightarrow> task_wdt_entry list" where
  "SLIST_REMOVE a es =
     takeWhile (\<lambda>e. e_addr e \<noteq> a) es @ drop 1 (dropWhile (\<lambda>e. e_addr e \<noteq> a) es)"

definition set_reset :: "u32 \<Rightarrow> task_wdt_entry list \<Rightarrow> task_wdt_entry list" where
  "set_reset a es = map (\<lambda>e. if e_addr e = a then e\<lparr>has_reset := True\<rparr> else e) es"

definition wise_task_wdt_add :: "u32 \<Rightarrow> u32 \<Rightarrow> u32 \<Rightarrow> u32 \<Rightarrow> task_wdt_ctx \<Rightarrow> int \<times> task_wdt_ctx" where
  "wise_task_wdt_add self mem now t0 c =
     (let t = (if t0 = NULL then self else t0)
      in if task_wdt_find_entry c t \<noteq> NULL then (WISE_FAIL, c)
         else if mem = NULL then (WISE_ERR_NO_MEM, c)
         else (let e = \<lparr>e_addr = mem, task_id = t, has_reset = True\<rparr>;
                   c1 = c\<lparr>entries_slist := e # entries_slist c\<rparr>
               in (WISE_OK, task_wdt_check_feed now c1)))"

definition wise_task_wdt_delete :: "u32 \<Rightarrow> u32 \<Rightarrow> task_wdt_ctx \<Rightarrow> int \<times> task_wdt_ctx" where
  "wise_task_wdt_delete now t c =
     (let a = task_wdt_find_entry c t
      in if a = NULL then (WISE_FAIL, c)
         else (let c1 = c\<lparr>entries_slist := SLIST_REMOVE a (entries_slist c)\<rparr>
               in (WISE_OK, wdt_call (FreeEntry a) (task_wdt_check_feed now c1))))"

definition wise_task_wdt_reset :: "u32 \<Rightarrow> u32 \<Rightarrow> u32 \<Rightarrow> task_wdt_ctx \<Rightarrow> int \<times> task_wdt_ctx" where
  "wise_task_wdt_reset self now t0 c =
     (let t = (if t0 = NULL then self else t0); a = task_wdt_find_entry c t
      in if a = NULL then (WISE_FAIL, c)
         else (let c1 = c\<lparr>entries_slist := set_reset a (entries_slist c)\<rparr>
               in (WISE_OK, task_wdt_check_feed now c1)))"

text \<open>\<^verbatim>\<open>time_hz\<close> as \<^verbatim>\<open>hal/soc/scm2010/rom/patch.c\<close> sets it from the configuration.\<close>

definition time_hz :: int where
  "time_hz = 1000000"

definition ms_to_tick :: "u32 \<Rightarrow> u32" where
  "ms_to_tick t = t * word_of_int (time_hz div 1000)"

text \<open>\<open>sem\<close> is what \<^verbatim>\<open>osSemaphoreNew\<close> returns, \<open>thr\<close> what \<^verbatim>\<open>osThreadNew\<close> returns.\<close>

definition wise_task_wdt_init :: "u32 \<Rightarrow> u32 \<Rightarrow> u32 \<Rightarrow> u32 \<Rightarrow> task_wdt_ctx \<Rightarrow> int \<times> task_wdt_ctx" where
  "wise_task_wdt_init sem thr now timeout_s c =
     (if started c then (WISE_ERR_INVALID_STATE, c)
      else (let c1 = c\<lparr>started := True, expire_dur_tick := ms_to_tick (timeout_s * 1000)\<rparr>;
                c2 = (wdt_call (SemNew 1) c1)\<lparr>wdt_sem := sem\<rparr>;
                c3 = wdt_call ThreadNew (task_wdt_expire_update now c2)
            in if thr = NULL then (WISE_FAIL, c3) else (WISE_OK, c3)))"

end
