(* ===== verification/Task_Wdt_Props.thy ===== *)
theory Task_Wdt_Props
  imports Task_Wdt
begin

text \<open>
  What the task watchdog guarantees: its list code implements a specification over two sets
  of tasks, those watched and those that still owe a reset; a task that stops resetting is
  reported at the deadline at the latest one renewal after its last reset; and the time-outs that the
  tick arithmetic can represent.
\<close>

section \<open>Specification\<close>

record wdt_spec =
  members :: "u32 set"
  pending :: "u32 set"
  deadline :: u32
  renewed :: nat

definition spec_renew :: "u32 \<Rightarrow> u32 \<Rightarrow> wdt_spec \<Rightarrow> wdt_spec" where
  "spec_renew dur now w =
     (if pending w = {}
      then w\<lparr>pending := members w, deadline := now + dur, renewed := Suc (renewed w)\<rparr> else w)"

definition spec_add :: "u32 \<Rightarrow> bool \<Rightarrow> u32 \<Rightarrow> u32 \<Rightarrow> wdt_spec \<Rightarrow> int \<times> wdt_spec" where
  "spec_add dur mem_ok now t w =
     (if t \<in> members w then (WISE_FAIL, w)
      else if \<not> mem_ok then (WISE_ERR_NO_MEM, w)
      else (WISE_OK, spec_renew dur now (w\<lparr>members := insert t (members w)\<rparr>)))"

definition spec_delete :: "u32 \<Rightarrow> u32 \<Rightarrow> u32 \<Rightarrow> wdt_spec \<Rightarrow> int \<times> wdt_spec" where
  "spec_delete dur now t w =
     (if t \<notin> members w then (WISE_FAIL, w)
      else (WISE_OK, spec_renew dur now
              (w\<lparr>members := members w - {t}, pending := pending w - {t}\<rparr>)))"

definition spec_reset :: "u32 \<Rightarrow> u32 \<Rightarrow> u32 \<Rightarrow> wdt_spec \<Rightarrow> int \<times> wdt_spec" where
  "spec_reset dur now t w =
     (if t \<notin> members w then (WISE_FAIL, w)
      else (WISE_OK, spec_renew dur now (w\<lparr>pending := pending w - {t}\<rparr>)))"

text \<open>The specification also counts the renewals; in the code each one releases the semaphore.\<close>

definition is_release :: "twdt_call \<Rightarrow> bool" where
  "is_release k = (case k of SemRelease _ \<Rightarrow> True | _ \<Rightarrow> False)"

definition wdt_abs :: "task_wdt_ctx \<Rightarrow> wdt_spec" where
  "wdt_abs c = \<lparr>members = task_id ` set (entries_slist c),
                pending = task_id ` {e \<in> set (entries_slist c). \<not> has_reset e},
                deadline = expire_tick c,
                renewed = length (filter is_release (wdt_calls c))\<rparr>"

text \<open>
  Nodes and tasks are distinct and non-null, and while a task is watched at least one task
  owes a reset.
\<close>

definition nodes_ok :: "task_wdt_entry list \<Rightarrow> bool" where
  "nodes_ok es \<longleftrightarrow> distinct (map e_addr es) \<and> distinct (map task_id es) \<and>
     NULL \<notin> e_addr ` set es \<and> NULL \<notin> task_id ` set es"

definition wdt_inv :: "task_wdt_ctx \<Rightarrow> bool" where
  "wdt_inv c \<longleftrightarrow> nodes_ok (entries_slist c) \<and>
     (entries_slist c \<noteq> [] \<longrightarrow> (\<exists>e \<in> set (entries_slist c). \<not> has_reset e))"

definition fresh_node :: "u32 \<Rightarrow> task_wdt_ctx \<Rightarrow> bool" where
  "fresh_node mem c \<longleftrightarrow> mem \<notin> e_addr ` set (entries_slist c)"

section \<open>The list code\<close>

lemma fold_found: "fold (\<lambda>e found. if \<not> has_reset e then True else found) es b \<longleftrightarrow>
    b \<or> (\<exists>e \<in> set es. \<not> has_reset e)"
  by (induction es arbitrary: b) auto

lemma check_all_reset_iff:
  "task_wdt_check_all_reset c \<longleftrightarrow> (\<forall>e \<in> set (entries_slist c). has_reset e)"
  by (simp add: task_wdt_check_all_reset_def fold_found)

lemma fold_find_absent:
  "t \<notin> task_id ` set es \<Longrightarrow>
     fold (\<lambda>e target. if task_id e = t then e_addr e else target) es a = a"
  by (induction es arbitrary: a) auto

lemma fold_find_present:
  "distinct (map task_id es) \<Longrightarrow> e \<in> set es \<Longrightarrow>
     fold (\<lambda>x target. if task_id x = task_id e then e_addr x else target) es a = e_addr e"
proof (induction es arbitrary: a)
  case (Cons x es)
  show ?case
  proof (cases "x = e")
    case True
    with Cons.prems show ?thesis
      using fold_find_absent [of "task_id e" es "e_addr e"] by simp
  next
    case False
    with Cons show ?thesis by auto
  qed
qed simp

lemma find_entry_present:
  "nodes_ok (entries_slist c) \<Longrightarrow> e \<in> set (entries_slist c) \<Longrightarrow>
     task_wdt_find_entry c (task_id e) = e_addr e"
  by (simp add: task_wdt_find_entry_def nodes_ok_def fold_find_present)

lemma find_entry_null:
  assumes "nodes_ok (entries_slist c)"
  shows "task_wdt_find_entry c t = NULL \<longleftrightarrow> t \<notin> members (wdt_abs c)"
proof
  assume "t \<notin> members (wdt_abs c)"
  then show "task_wdt_find_entry c t = NULL"
    by (simp add: wdt_abs_def task_wdt_find_entry_def fold_find_absent)
next
  assume null: "task_wdt_find_entry c t = NULL"
  show "t \<notin> members (wdt_abs c)"
  proof
    assume "t \<in> members (wdt_abs c)"
    then obtain e where e: "e \<in> set (entries_slist c)" "t = task_id e"
      by (auto simp: wdt_abs_def)
    with null find_entry_present [OF assms e(1)] have "e_addr e = NULL" by simp
    with assms e(1) show False by (metis image_eqI nodes_ok_def)
  qed
qed

lemma task_id_inj:
  "nodes_ok es \<Longrightarrow> e \<in> set es \<Longrightarrow> f \<in> set es \<Longrightarrow> task_id e = task_id f \<longleftrightarrow> e = f"
  by (auto simp: nodes_ok_def distinct_map inj_on_def)

lemma addr_inj:
  "nodes_ok es \<Longrightarrow> e \<in> set es \<Longrightarrow> f \<in> set es \<Longrightarrow> e_addr e = e_addr f \<longleftrightarrow> e = f"
  by (auto simp: nodes_ok_def distinct_map inj_on_def)

lemma SLIST_REMOVE_Cons:
  "SLIST_REMOVE a (x # xs) = (if e_addr x = a then xs else x # SLIST_REMOVE a xs)"
  by (simp add: SLIST_REMOVE_def)

lemma SLIST_REMOVE_eq:
  "nodes_ok es \<Longrightarrow> SLIST_REMOVE a es = filter (\<lambda>e. e_addr e \<noteq> a) es"
proof (induction es)
  case (Cons x xs)
  have ok: "nodes_ok xs" and x: "e_addr x \<notin> e_addr ` set xs"
    using Cons.prems by (auto simp: nodes_ok_def)
  show ?case
  proof (cases "e_addr x = a")
    case True
    with x have "\<forall>e \<in> set xs. e_addr e \<noteq> a" by (metis imageI)
    with True show ?thesis by (simp add: SLIST_REMOVE_Cons)
  qed (simp add: SLIST_REMOVE_Cons Cons.IH [OF ok])
qed (simp add: SLIST_REMOVE_def)

lemma nodes_ok_filter: "nodes_ok es \<Longrightarrow> nodes_ok (filter P es)"
  by (induction es) (auto simp: nodes_ok_def)

lemma nodes_ok_map:
  "(\<And>e. e_addr (f e) = e_addr e) \<Longrightarrow> (\<And>e. task_id (f e) = task_id e) \<Longrightarrow>
     nodes_ok (map f es) = nodes_ok es"
  by (simp add: nodes_ok_def comp_def image_image)

section \<open>Renewal\<close>

lemma check_feed_fields:
  "expire_dur_tick (task_wdt_check_feed now c) = expire_dur_tick c"
  "nodes_ok (entries_slist (task_wdt_check_feed now c)) = nodes_ok (entries_slist c)"
  by (simp_all add: task_wdt_check_feed_def task_wdt_expire_update_def task_wdt_timer_feed_def
      wdt_call_def nodes_ok_map)

lemma pending_empty: "pending (wdt_abs c) = {} \<longleftrightarrow> task_wdt_check_all_reset c"
  by (auto simp: wdt_abs_def check_all_reset_iff)

lemma unreset_image:
  "{e \<in> has_reset_update (\<lambda>_. False) ` A. \<not> has_reset e} = has_reset_update (\<lambda>_. False) ` A"
  by auto

lemma check_feed_abs:
  "wdt_abs (task_wdt_check_feed now c) = spec_renew (expire_dur_tick c) now (wdt_abs c)"
proof (cases "task_wdt_check_all_reset c")
  case True
  with pending_empty [of c] show ?thesis
    by (simp add: task_wdt_check_feed_def spec_renew_def)
      (auto simp: wdt_abs_def task_wdt_expire_update_def task_wdt_timer_feed_def wdt_call_def
        unreset_image image_image is_release_def)
next
  case False
  with pending_empty [of c] show ?thesis
    by (simp add: task_wdt_check_feed_def spec_renew_def)
qed

lemma check_feed_inv:
  assumes "nodes_ok (entries_slist c)"
  shows "wdt_inv (task_wdt_check_feed now c)"
proof (cases "task_wdt_check_all_reset c")
  case True
  then have "entries_slist (task_wdt_check_feed now c) =
      map (\<lambda>e. e\<lparr>has_reset := False\<rparr>) (entries_slist c)"
    by (simp add: task_wdt_check_feed_def task_wdt_expire_update_def task_wdt_timer_feed_def
        wdt_call_def)
  then show ?thesis
    using assms check_feed_fields(2) [of now c] by (cases "entries_slist c") (auto simp: wdt_inv_def)
next
  case False
  then have "task_wdt_check_feed now c = c" by (simp add: task_wdt_check_feed_def)
  with False assms show ?thesis by (simp add: wdt_inv_def check_all_reset_iff)
qed

section \<open>The operations\<close>

lemma add_sim:
  assumes inv: "wdt_inv c" and fresh: "fresh_node mem c" and self: "self \<noteq> NULL"
    and run: "wise_task_wdt_add self mem now t c = (rc, c')"
  shows "wdt_inv c' \<and> expire_dur_tick c' = expire_dur_tick c \<and>
    (rc, wdt_abs c') = spec_add (expire_dur_tick c) (mem \<noteq> NULL) now (if t = NULL then self else t)
      (wdt_abs c)"
proof -
  define u where "u = (if t = NULL then self else t)"
  define c1 where "c1 = c\<lparr>entries_slist :=
    \<lparr>e_addr = mem, task_id = u, has_reset = True\<rparr> # entries_slist c\<rparr>"
  have ok: "nodes_ok (entries_slist c)" using inv by (simp add: wdt_inv_def)
  have u: "u \<noteq> NULL" using self by (simp add: u_def)
  have run': "(rc, c') = (if u \<in> members (wdt_abs c) then (WISE_FAIL, c)
      else if mem = NULL then (WISE_ERR_NO_MEM, c) else (WISE_OK, task_wdt_check_feed now c1))"
    using run find_entry_null [OF ok, of u]
    by (simp add: wise_task_wdt_add_def Let_def u_def c1_def split: if_splits)
  have abs1: "wdt_abs c1 = (wdt_abs c)\<lparr>members := insert u (members (wdt_abs c))\<rparr>"
    by (auto simp: c1_def wdt_abs_def)
  have ok1: "nodes_ok (entries_slist c1)" if "u \<notin> members (wdt_abs c)" "mem \<noteq> NULL"
    using that ok u fresh by (auto simp: c1_def nodes_ok_def fresh_node_def wdt_abs_def)
  have dur1: "expire_dur_tick c1 = expire_dur_tick c" by (simp add: c1_def)
  show ?thesis
    using run' inv check_feed_inv [OF ok1, of now] abs1 dur1
    unfolding spec_add_def u_def [symmetric]
    by (auto simp: check_feed_abs check_feed_fields split: if_splits)
qed

lemma delete_sim:
  assumes inv: "wdt_inv c" and run: "wise_task_wdt_delete now t c = (rc, c')"
  shows "wdt_inv c' \<and> expire_dur_tick c' = expire_dur_tick c \<and>
    (rc, wdt_abs c') = spec_delete (expire_dur_tick c) now t (wdt_abs c)"
proof (cases "t \<in> members (wdt_abs c)")
  case True
  have ok: "nodes_ok (entries_slist c)" using inv by (simp add: wdt_inv_def)
  obtain e where e: "e \<in> set (entries_slist c)" "t = task_id e"
    using True by (auto simp: wdt_abs_def)
  define a where "a = task_wdt_find_entry c t"
  define c1 where "c1 = c\<lparr>entries_slist := SLIST_REMOVE a (entries_slist c)\<rparr>"
  have a: "a = e_addr e" "a \<noteq> NULL"
    using find_entry_present [OF ok e(1)] find_entry_null [OF ok, of t] True e(2)
    by (simp_all add: a_def)
  have es1: "entries_slist c1 = filter (\<lambda>x. x \<noteq> e) (entries_slist c)"
    using addr_inj [OF ok _ e(1)] ok a by (simp add: c1_def SLIST_REMOVE_eq cong: filter_cong)
  have rc: "rc = WISE_OK" and c': "c' = wdt_call (FreeEntry a) (task_wdt_check_feed now c1)"
    using run a(2) by (simp_all add: wise_task_wdt_delete_def Let_def c1_def a_def)
  have "wdt_abs c1 = (wdt_abs c)\<lparr>members := members (wdt_abs c) - {t},
      pending := pending (wdt_abs c) - {t}\<rparr>"
    using task_id_inj [OF ok _ e(1)] e(2) by (auto simp: wdt_abs_def es1) (simp_all add: c1_def)
  moreover have "wdt_inv (task_wdt_check_feed now c1)"
    by (rule check_feed_inv) (simp add: es1 nodes_ok_filter ok)
  moreover have "wdt_abs (wdt_call k d) = wdt_abs d" "wdt_inv (wdt_call k d) = wdt_inv d"
    "expire_dur_tick (wdt_call k d) = expire_dur_tick d"
    if "\<not> is_release k" for k d
    using that by (simp_all add: wdt_abs_def wdt_inv_def wdt_call_def)
  moreover have "\<not> is_release (FreeEntry a)" by (simp add: is_release_def)
  ultimately show ?thesis
    using True rc c' by (simp add: spec_delete_def check_feed_abs check_feed_fields c1_def)
next
  case False
  then show ?thesis
    using inv run find_entry_null [of c t]
    by (simp add: wise_task_wdt_delete_def spec_delete_def wdt_inv_def)
qed

lemma reset_sim:
  assumes inv: "wdt_inv c" and run: "wise_task_wdt_reset self now t c = (rc, c')"
  shows "wdt_inv c' \<and> expire_dur_tick c' = expire_dur_tick c \<and>
    (rc, wdt_abs c') = spec_reset (expire_dur_tick c) now (if t = NULL then self else t) (wdt_abs c)"
proof -
  define u where "u = (if t = NULL then self else t)"
  have ok: "nodes_ok (entries_slist c)" using inv by (simp add: wdt_inv_def)
  define a where "a = task_wdt_find_entry c u"
  define c1 where "c1 = c\<lparr>entries_slist := set_reset a (entries_slist c)\<rparr>"
  have run': "(rc, c') = (if u \<in> members (wdt_abs c) then (WISE_OK, task_wdt_check_feed now c1)
      else (WISE_FAIL, c))"
    using run find_entry_null [OF ok, of u]
    by (simp add: wise_task_wdt_reset_def Let_def u_def c1_def a_def split: if_splits)
  have ok1: "nodes_ok (entries_slist c1)"
    using ok by (simp add: c1_def set_reset_def nodes_ok_map)
  have abs1: "wdt_abs c1 = (wdt_abs c)\<lparr>pending := pending (wdt_abs c) - {u}\<rparr>"
    if mem: "u \<in> members (wdt_abs c)"
  proof -
    obtain e where e: "e \<in> set (entries_slist c)" "u = task_id e"
      using mem by (auto simp: wdt_abs_def)
    have a: "a = e_addr e" using find_entry_present [OF ok e(1)] e(2) by (simp add: a_def)
    have "entries_slist c1 = map (\<lambda>x. if x = e then x\<lparr>has_reset := True\<rparr> else x) (entries_slist c)"
      using addr_inj [OF ok _ e(1)] a by (simp add: c1_def set_reset_def)
    then show ?thesis
      using task_id_inj [OF ok _ e(1)] e
      by (auto simp: wdt_abs_def image_iff c1_def split: if_splits)
  qed
  have dur1: "expire_dur_tick c1 = expire_dur_tick c" by (simp add: c1_def)
  show ?thesis
    using run' inv check_feed_inv [OF ok1, of now] abs1 dur1
    unfolding spec_reset_def u_def [symmetric]
    by (auto simp: check_feed_abs check_feed_fields split: if_splits)
qed

lemma err_lines_tasks:
  "snd ` set (err_lines i es) = task_id ` {e \<in> set es. \<not> has_reset e}"
  by (induction es arbitrary: i) auto

lemma err_lines_numbered: "map fst (err_lines i es) = [i ..< i + length (err_lines i es)]"
proof (induction es arbitrary: i)
  case (Cons e es)
  have "[i ..< i + Suc (length (err_lines (Suc i) es))] =
      i # [Suc i ..< Suc i + length (err_lines (Suc i) es)]"
    by (metis add_Suc add_Suc_right le_add1 less_Suc_eq_le upt_conv_Cons)
  with Cons [of i] Cons [of "Suc i"] show ?case by (simp del: upt_Suc)
qed simp

text \<open>One pass of the watchdog task, on the specification.\<close>

definition spec_due :: "u32 \<Rightarrow> wdt_spec \<Rightarrow> bool" where
  "spec_due now w \<longleftrightarrow> sint (deadline w - now) \<le> 10000"

definition round_ok :: "u32 \<Rightarrow> u32 \<Rightarrow> u32 \<Rightarrow> wdt_spec \<Rightarrow> wdt_state \<Rightarrow> bool" where
  "round_ok dur now1 now2 w st =
     (case st of
        Running c' \<Rightarrow> expire_dur_tick c' = dur \<and> wdt_inv c' \<and>
          (\<not> spec_due now1 w \<and> wdt_abs c' = w \<or>
           spec_due now1 w \<and> members w = {} \<and> wdt_abs c' = w\<lparr>deadline := now2 + dur\<rparr>)
      | Halted c' \<Rightarrow> spec_due now1 w \<and> members w \<noteq> {} \<and>
          (\<exists>ls. last (wdt_calls c') = ErrReport ls \<and> snd ` set ls = pending w \<and> ls \<noteq> [] \<and>
                map fst ls = [0 ..< length ls]))"

lemma round_sim:
  assumes inv: "wdt_inv c"
  shows "round_ok (expire_dur_tick c) now1 now2 (wdt_abs c) (task_wdt_round now1 now2 c)"
proof -
  have feed: "wdt_abs (wdt_call HwFeed c) = wdt_abs c"
    by (simp add: wdt_abs_def wdt_call_def is_release_def)
  have due: "wdt_due now1 (wdt_call HwFeed c) = spec_due now1 (wdt_abs c)"
    by (simp add: wdt_due_def spec_due_def wdt_abs_def wdt_call_def)
  have all: "task_wdt_check_all_reset (wdt_call HwFeed c) \<longleftrightarrow> entries_slist c = []"
    using inv by (auto simp: check_all_reset_iff wdt_inv_def wdt_call_def)
  consider "\<not> spec_due now1 (wdt_abs c)" | "spec_due now1 (wdt_abs c)" "entries_slist c = []"
    | "spec_due now1 (wdt_abs c)" "entries_slist c \<noteq> []" by blast
  then show ?thesis
  proof cases
    case 1
    then have "task_wdt_round now1 now2 c = Running (wdt_call HwFeed c)"
      by (simp add: task_wdt_round_def due)
    with 1 inv feed show ?thesis by (simp add: round_ok_def wdt_inv_def wdt_call_def)
  next
    case 2
    then show ?thesis
      using all due by (simp add: task_wdt_round_def round_ok_def)
        (simp add: wdt_inv_def nodes_ok_def wdt_abs_def task_wdt_expire_update_def
          task_wdt_timer_feed_def wdt_call_def is_release_def)
  next
    case 3
    then have halt: "task_wdt_round now1 now2 c =
        Halted (task_wdt_err_report (task_wdt_expire_update now2 (wdt_call HwFeed c)))"
      using all due by (simp add: task_wdt_round_def)
    define ls where "ls = err_lines 0 (entries_slist c)"
    have "snd ` set ls = pending (wdt_abs c)"
      by (simp add: ls_def err_lines_tasks wdt_abs_def)
    moreover have "pending (wdt_abs c) \<noteq> {}"
      using 3 inv by (auto simp: wdt_abs_def wdt_inv_def)
    moreover have "map fst ls = [0 ..< length ls]"
      using err_lines_numbered [of 0] by (simp add: ls_def)
    ultimately show ?thesis
      using 3 by (simp add: halt round_ok_def task_wdt_err_report_def wdt_call_def
          task_wdt_expire_update_def ls_def [symmetric]) (auto simp: wdt_abs_def)
  qed
qed

section \<open>Runs\<close>

datatype wdt_event =
    EvAdd u32 u32 u32 u32
  | EvDelete u32 u32
  | EvReset u32 u32 u32
  | EvRound u32 u32

inductive wdt_step :: "task_wdt_ctx \<Rightarrow> wdt_event \<Rightarrow> wdt_state \<Rightarrow> bool" where
  step_add: "fresh_node mem c \<Longrightarrow> self \<noteq> NULL \<Longrightarrow> wise_task_wdt_add self mem now t c = (rc, c') \<Longrightarrow>
    wdt_step c (EvAdd self mem now t) (Running c')"
| step_delete: "wise_task_wdt_delete now t c = (rc, c') \<Longrightarrow>
    wdt_step c (EvDelete now t) (Running c')"
| step_reset: "wise_task_wdt_reset self now t c = (rc, c') \<Longrightarrow>
    wdt_step c (EvReset self now t) (Running c')"
| step_round: "wdt_step c (EvRound now1 now2) (task_wdt_round now1 now2 c)"

inductive wdt_trace :: "task_wdt_ctx \<Rightarrow> wdt_event list \<Rightarrow> task_wdt_ctx \<Rightarrow> bool" where
  trace_nil: "wdt_trace c [] c"
| trace_step: "wdt_trace c evs c1 \<Longrightarrow> wdt_step c1 ev (Running c2) \<Longrightarrow> wdt_trace c (evs @ [ev]) c2"

text \<open>The events by which a task resets or leaves the watchdog.\<close>

fun concerns :: "u32 \<Rightarrow> wdt_event \<Rightarrow> bool" where
  "concerns u (EvDelete now t) = (t = u)"
| "concerns u (EvReset self now t) = ((if t = NULL then self else t) = u)"
| "concerns u _ = False"

text \<open>What a run can do to a task that takes no part in it.\<close>

definition owes :: "u32 \<Rightarrow> wdt_spec \<Rightarrow> wdt_spec \<Rightarrow> bool" where
  "owes u w w' \<longleftrightarrow> u \<in> members w' \<and> pending w' \<subseteq> members w' \<and>
     (u \<in> pending w \<longrightarrow> u \<in> pending w' \<and> deadline w' = deadline w \<and> renewed w' = renewed w) \<and>
     (w' = w\<lparr>members := members w', pending := pending w'\<rparr> \<or>
      u \<in> pending w' \<and> renewed w' = Suc (renewed w))"

lemma owes_refl: "u \<in> members w \<Longrightarrow> pending w \<subseteq> members w \<Longrightarrow> owes u w w"
  by (simp add: owes_def)

lemma owes_trans: "owes u w w1 \<Longrightarrow> owes u w1 w2 \<Longrightarrow> owes u w w2"
  by (cases w; cases w1; cases w2) (auto simp: owes_def)

lemma owes_renew:
  "u \<in> members v \<Longrightarrow> pending v \<subseteq> members v \<Longrightarrow> (u \<in> pending w \<longrightarrow> u \<in> pending v) \<Longrightarrow>
     v = w\<lparr>members := members v, pending := pending v\<rparr> \<Longrightarrow> owes u w (spec_renew dur now v)"
  by (cases v; cases w) (auto simp: owes_def spec_renew_def)

lemma pending_sub: "pending (wdt_abs c) \<subseteq> members (wdt_abs c)"
  by (auto simp: wdt_abs_def)

lemma owes_step:
  assumes step: "wdt_step c ev (Running c')" and inv: "wdt_inv c"
    and mem: "u \<in> members (wdt_abs c)" and no: "\<not> concerns u ev"
  shows "wdt_inv c' \<and> owes u (wdt_abs c) (wdt_abs c')"
proof -
  note sub = pending_sub [of c]
  note refl = owes_refl [OF mem sub]
  from step show ?thesis
  proof cases
    case (step_add mem self now t rc)
    from add_sim [OF inv step_add(2-4)] show ?thesis
      using refl mem sub by (auto simp: spec_add_def split: if_splits intro!: owes_renew)
  next
    case (step_delete now t rc)
    from delete_sim [OF inv step_delete(2)] show ?thesis
      using refl mem sub no step_delete(1)
      by (auto simp: spec_delete_def split: if_splits intro!: owes_renew)
  next
    case (step_reset self now t rc)
    from reset_sim [OF inv step_reset(2)] show ?thesis
      using refl mem sub no step_reset(1)
      by (auto simp: spec_reset_def split: if_splits intro!: owes_renew)
  next
    case (step_round now1 now2)
    have "round_ok (expire_dur_tick c) now1 now2 (wdt_abs c) (Running c')"
      using round_sim [OF inv, of now1 now2] step_round(2) by simp
    then show ?thesis using refl mem by (auto simp: round_ok_def)
  qed
qed

lemma owes_trace:
  assumes "wdt_trace c evs c'" "wdt_inv c" "u \<in> members (wdt_abs c)"
    "\<forall>ev \<in> set evs. \<not> concerns u ev"
  shows "wdt_inv c' \<and> owes u (wdt_abs c) (wdt_abs c')"
  using assms
proof (induction rule: wdt_trace.induct)
  case (trace_nil c)
  then show ?case by (simp add: owes_refl pending_sub)
next
  case (trace_step c evs c1 ev c2)
  then have "wdt_inv c1" "owes u (wdt_abs c) (wdt_abs c1)" by simp_all
  moreover from this have "u \<in> members (wdt_abs c1)" by (simp add: owes_def)
  ultimately show ?case
    using owes_step [OF trace_step.hyps(2)] trace_step.prems by (auto intro: owes_trans)
qed

section \<open>Properties\<close>

text \<open>
  C24: the list code of the task watchdog implements the set specification: adding, deleting
  and resetting return the codes of the specification and lead to its states; a pass of the
  watchdog task does nothing before the deadline, moves the deadline when no task is watched,
  and otherwise reports exactly the tasks that owe a reset, numbered from zero, and stops.
\<close>

theorem twdt_refines:
  assumes "wdt_inv c" "fresh_node mem c" "self \<noteq> NULL"
  shows "(let (rc, c') = wise_task_wdt_add self mem now t c
          in wdt_inv c' \<and> (rc, wdt_abs c') =
             spec_add (expire_dur_tick c) (mem \<noteq> NULL) now (if t = NULL then self else t) (wdt_abs c))
    \<and> (let (rc, c') = wise_task_wdt_delete now t c
       in wdt_inv c' \<and> (rc, wdt_abs c') = spec_delete (expire_dur_tick c) now t (wdt_abs c))
    \<and> (let (rc, c') = wise_task_wdt_reset self now t c
       in wdt_inv c' \<and> (rc, wdt_abs c') =
          spec_reset (expire_dur_tick c) now (if t = NULL then self else t) (wdt_abs c))
    \<and> round_ok (expire_dur_tick c) now now2 (wdt_abs c) (task_wdt_round now now2 c)"
  using add_sim [OF assms(1,2,3), of now t] delete_sim [OF assms(1), of now t]
    reset_sim [OF assms(1), of self now t] round_sim [OF assms(1), of now now2]
  by (auto simp: Let_def split: prod.splits)

definition wdt0 :: task_wdt_ctx where
  "wdt0 = \<lparr>started = False, wdt_sem = 0, expire_tick = 0, expire_dur_tick = 0,
           entries_slist = [], wdt_calls = []\<rparr>"

theorem twdt_refines_witness:
  "wise_task_wdt_add 7 0x100 50 NULL wdt0 =
     (WISE_OK, wdt0\<lparr>expire_tick := 50,
        entries_slist := [\<lparr>e_addr = 0x100, task_id = 7, has_reset = False\<rparr>],
        wdt_calls := [SemRelease 0]\<rparr>) \<and>
   snd (wise_task_wdt_add 7 0x100 50 NULL wdt0) \<noteq> wdt0 \<and>
   wdt_inv (snd (wise_task_wdt_add 7 0x100 50 NULL wdt0))"
proof -
  have "wdt_inv wdt0" "fresh_node 0x100 wdt0"
    by (simp_all add: wdt_inv_def nodes_ok_def fresh_node_def wdt0_def)
  then have "wdt_inv (snd (wise_task_wdt_add 7 0x100 50 NULL wdt0))"
    using twdt_refines [of wdt0 256 7 50 NULL 0] by (auto simp: Let_def split: prod.splits)
  then show ?thesis
    by (simp add: wise_task_wdt_add_def wdt0_def task_wdt_find_entry_def task_wdt_check_feed_def
        task_wdt_check_all_reset_def task_wdt_expire_update_def task_wdt_timer_feed_def wdt_call_def
        Let_def)
qed

text \<open>
  C25: a watched task that neither resets nor leaves stops the system.  Whatever the other tasks do, the
  deadline moves at most once; if the task already owes its reset, or after that move, it does not
  move again; and a pass of the watchdog task that is due stops the system with a
  report of exactly the tasks that owe a reset, at least one.  The stuck task is among them if it owed its reset
  at the start or the deadline has moved since; if it had reset in the period that runs out, the
  report names the others, which owe theirs.
\<close>

theorem twdt_stuck_caught:
  assumes "wdt_trace c evs c'" "wdt_inv c" "u \<in> members (wdt_abs c)"
    "\<forall>ev \<in> set evs. \<not> concerns u ev"
  shows "(u \<in> pending (wdt_abs c) \<longrightarrow> u \<in> pending (wdt_abs c') \<and> expire_tick c' = expire_tick c)
    \<and> (expire_tick c' \<noteq> expire_tick c \<longrightarrow>
         u \<in> pending (wdt_abs c') \<and> renewed (wdt_abs c') = Suc (renewed (wdt_abs c)))
    \<and> renewed (wdt_abs c') \<le> Suc (renewed (wdt_abs c))
    \<and> (wdt_due now c' \<longrightarrow>
         (\<exists>d ls. task_wdt_round now now2 c' = Halted d \<and> last (wdt_calls d) = ErrReport ls \<and>
            ls \<noteq> [] \<and> snd ` set ls = pending (wdt_abs c') \<and>
            (u \<in> pending (wdt_abs c) \<or> expire_tick c' \<noteq> expire_tick c \<longrightarrow> u \<in> snd ` set ls)))"
proof -
  have inv: "wdt_inv c'" and ow: "owes u (wdt_abs c) (wdt_abs c')"
    using owes_trace [OF assms] by simp_all
  have dl: "deadline (wdt_abs x) = expire_tick x" for x by (simp add: wdt_abs_def)
  have ne: "deadline w' \<noteq> deadline w \<or> renewed w' \<noteq> renewed w \<Longrightarrow>
      w' \<noteq> w\<lparr>members := members w', pending := pending w'\<rparr>" for w w'
    by (cases w; cases w') auto
  have mv: "deadline (wdt_abs c') = deadline (wdt_abs c) \<and> renewed (wdt_abs c') = renewed (wdt_abs c)
      \<or> u \<in> pending (wdt_abs c') \<and> renewed (wdt_abs c') = Suc (renewed (wdt_abs c))"
    using ow ne unfolding owes_def by metis
  have due: "wdt_due now c' = spec_due now (wdt_abs c')"
    by (simp add: wdt_due_def spec_due_def dl)
  have "\<exists>d ls. task_wdt_round now now2 c' = Halted d \<and> last (wdt_calls d) = ErrReport ls \<and>
      ls \<noteq> [] \<and> snd ` set ls = pending (wdt_abs c')" if d: "wdt_due now c'"
  proof -
    note r = round_sim [OF inv, of now now2]
    have "members (wdt_abs c') \<noteq> {}" using ow by (auto simp: owes_def)
    with r d due show ?thesis
      by (force simp: round_ok_def split: wdt_state.splits)
  qed
  then show ?thesis
    using mv ow unfolding owes_def dl by (metis le_Suc_eq le_refl)
qed

theorem twdt_stuck_caught_witness:
  "\<exists>d ls. task_wdt_round 60 60 (snd (wise_task_wdt_add 7 0x100 50 NULL wdt0)) = Halted d \<and>
     last (wdt_calls d) = ErrReport ls \<and> ls \<noteq> [] \<and> 7 \<in> snd ` set ls"
proof -
  define c where "c = snd (wise_task_wdt_add 7 0x100 50 NULL wdt0)"
  have c: "c = wdt0\<lparr>expire_tick := 50,
      entries_slist := [\<lparr>e_addr = 0x100, task_id = 7, has_reset = False\<rparr>],
      wdt_calls := [SemRelease 0]\<rparr>"
    by (simp add: c_def wise_task_wdt_add_def wdt0_def task_wdt_find_entry_def
        task_wdt_check_feed_def task_wdt_check_all_reset_def task_wdt_expire_update_def
        task_wdt_timer_feed_def wdt_call_def Let_def)
  have p: "7 \<in> pending (wdt_abs c)" "7 \<in> members (wdt_abs c)"
    by (simp_all add: wdt_abs_def c image_iff)
  have i: "wdt_inv c" by (simp add: c wdt_inv_def nodes_ok_def)
  have d: "wdt_due 60 c" by (simp add: wdt_due_def c)
  from twdt_stuck_caught [OF trace_nil i p(2), of 60 60] p(1) d show ?thesis
    unfolding c_def [symmetric] by auto
qed

text \<open>
  The time-outs the tick arithmetic can hold.  After initialisation with a time-out of at
  most 2147 seconds a pass is due exactly when the time-out less ten milliseconds is over; with
  2148 to 4294 seconds the very first pass is due, since the signed difference is negative.
\<close>

theorem twdt_timeout_range:
  assumes "\<not> started c" "wise_task_wdt_init sem thr now timeout c = (rc, c')"
  shows "(unat timeout \<le> 2147 \<and> unat d \<le> unat timeout * 1000000 \<longrightarrow>
            (wdt_due (now + d) c' \<longleftrightarrow> unat timeout * 1000000 \<le> unat d + 10000))
       \<and> (2148 \<le> unat timeout \<and> unat timeout \<le> 4294 \<longrightarrow> wdt_due now c')"
proof -
  have e: "expire_tick c' = now + timeout * 1000000"
    using assms by (auto simp: wise_task_wdt_init_def Let_def task_wdt_expire_update_def wdt_call_def
        ms_to_tick_def time_hz_def mult.assoc split: if_splits)
  have u: "unat (timeout * 1000000) = unat timeout * 1000000" if "unat timeout \<le> 4294"
    using that by (simp add: unat_word_ariths)
  have signed_le: "n < 4294967296 \<Longrightarrow>
      (if n < 2147483648 then int n else int n - 4294967296) \<le> 10000 \<longleftrightarrow>
      n \<le> 10000 \<or> 2147483648 \<le> n" for n
    by auto
  have le: "sint y \<le> 10000 \<longleftrightarrow> unat y \<le> 10000 \<or> 2147483648 \<le> unat y" for y :: u32
    unfolding sint32 by (rule signed_le) (rule unat_lt32)
  have due: "wdt_due (now + x) c' \<longleftrightarrow> unat (timeout * 1000000 - x) \<le> 10000 \<or>
      2147483648 \<le> unat (timeout * 1000000 - x)" for x
    by (simp add: wdt_due_def e le)
  have "wdt_due (now + d) c' \<longleftrightarrow> unat timeout * 1000000 \<le> unat d + 10000"
    if "unat timeout \<le> 2147" "unat d \<le> unat timeout * 1000000"
  proof -
    have "unat (timeout * 1000000 - d) = unat timeout * 1000000 - unat d"
      using that u by (simp add: unat_minus32)
    with that show ?thesis unfolding due by auto
  qed
  moreover have "wdt_due now c'" if "2148 \<le> unat timeout" "unat timeout \<le> 4294"
    using that u due [of 0] by simp
  ultimately show ?thesis by blast
qed

theorem twdt_timeout_range_witness:
  "\<not> wdt_due 0 (snd (wise_task_wdt_init 1 1 0 2147 wdt0)) \<and>
   wdt_due 0 (snd (wise_task_wdt_init 1 1 0 2148 wdt0))"
proof -
  have n: "\<not> started wdt0" by (simp add: wdt0_def)
  show ?thesis
    using twdt_timeout_range [OF n, of 1 1 0 2147 "fst (wise_task_wdt_init 1 1 0 2147 wdt0)"
        "snd (wise_task_wdt_init 1 1 0 2147 wdt0)" 0]
      twdt_timeout_range [OF n, of 1 1 0 2148 "fst (wise_task_wdt_init 1 1 0 2148 wdt0)"
        "snd (wise_task_wdt_init 1 1 0 2148 wdt0)" 0] by simp
qed

text \<open>
  Unsubscribing with a null task fails.  The header promises that null stands for the
  running task, as it does for subscribing and resetting, but the code looks for a node with
  the null task, and no reachable list has one.
\<close>

theorem twdt_delete_null:
  assumes "wdt_inv c"
  shows "wise_task_wdt_delete now NULL c = (WISE_FAIL, c)"
proof -
  have "NULL \<notin> members (wdt_abs c)"
    using assms by (auto simp: wdt_inv_def nodes_ok_def wdt_abs_def)
  then show ?thesis
    using assms find_entry_null [of c NULL] by (simp add: wise_task_wdt_delete_def wdt_inv_def)
qed

theorem twdt_delete_null_witness:
  "let c = snd (wise_task_wdt_add 7 256 50 NULL wdt0)
   in wise_task_wdt_delete 60 NULL c = (WISE_FAIL, c) \<and> fst (wise_task_wdt_delete 60 7 c) = WISE_OK"
proof -
  define c where "c = snd (wise_task_wdt_add 7 256 50 NULL wdt0)"
  have c: "c = wdt0\<lparr>expire_tick := 50,
      entries_slist := [\<lparr>e_addr = 256, task_id = 7, has_reset = False\<rparr>],
      wdt_calls := [SemRelease 0]\<rparr>"
    by (simp add: c_def wise_task_wdt_add_def wdt0_def task_wdt_find_entry_def
        task_wdt_check_feed_def task_wdt_check_all_reset_def task_wdt_expire_update_def
        task_wdt_timer_feed_def wdt_call_def Let_def)
  have i: "wdt_inv c" by (simp add: c wdt_inv_def nodes_ok_def)
  have "fst (wise_task_wdt_delete 60 7 c) = WISE_OK"
    by (simp add: wise_task_wdt_delete_def c task_wdt_find_entry_def Let_def)
  with twdt_delete_null [OF i, of 60] show ?thesis
    unfolding c_def [symmetric] Let_def by simp
qed

end
