(* ===== verification/Crc16.thy ===== *)
theory Crc16
  imports Wise_Prelude
begin

text \<open>
  The checksum of the serial download, \<^verbatim>\<open>lib/serial/crc16.c\<close>: the bitwise loop that is compiled, with
  its 32-bit accumulator and signed byte, and the table-driven variant that the file keeps.
  Both are compared over the 16-bit shift register, and the register is shown to be
  invertible, which is why a damaged byte cannot go unnoticed.
\<close>

section \<open>The code\<close>

text \<open>
  One round of the loop.  \<^verbatim>\<open>byte & 0x80\<close> promotes the signed byte to \<^verbatim>\<open>int\<close> first and leaves
  its bit seven; \<^verbatim>\<open>byte <<= 1\<close> keeps the low eight bits.
\<close>

definition crc16_bit :: "u32 \<times> u8 \<Rightarrow> u32 \<times> u8" where
  "crc16_bit cb = (case cb of (crc, byte) \<Rightarrow>
     ((if drop_bit 8 (crc AND 0x8000) XOR (scast byte AND 0x80) \<noteq> 0
       then push_bit 1 crc XOR 0x1021
       else push_bit 1 crc), push_bit 1 byte))"

definition crc16 :: "u32 \<Rightarrow> u8 \<Rightarrow> u32" where
  "crc16 crc byte = fst ((crc16_bit ^^ 8) (crc, byte))"

fun crc16_loop :: "u32 \<Rightarrow> u8 list \<Rightarrow> u32" where
  "crc16_loop crc [] = crc"
| "crc16_loop crc (b # bs) = crc16_loop (crc16 crc b) bs"

definition crc16_ccitt :: "u8 list \<Rightarrow> u16" where
  "crc16_ccitt buf = (if buf = [] then 0 else ucast (crc16_loop 0 buf))"

definition crc16_tab :: "u16 list" where
  "crc16_tab =
     [0x0000, 0x1021, 0x2042, 0x3063, 0x4084, 0x50a5, 0x60c6, 0x70e7,
      0x8108, 0x9129, 0xa14a, 0xb16b, 0xc18c, 0xd1ad, 0xe1ce, 0xf1ef,
      0x1231, 0x0210, 0x3273, 0x2252, 0x52b5, 0x4294, 0x72f7, 0x62d6,
      0x9339, 0x8318, 0xb37b, 0xa35a, 0xd3bd, 0xc39c, 0xf3ff, 0xe3de,
      0x2462, 0x3443, 0x0420, 0x1401, 0x64e6, 0x74c7, 0x44a4, 0x5485,
      0xa56a, 0xb54b, 0x8528, 0x9509, 0xe5ee, 0xf5cf, 0xc5ac, 0xd58d,
      0x3653, 0x2672, 0x1611, 0x0630, 0x76d7, 0x66f6, 0x5695, 0x46b4,
      0xb75b, 0xa77a, 0x9719, 0x8738, 0xf7df, 0xe7fe, 0xd79d, 0xc7bc,
      0x48c4, 0x58e5, 0x6886, 0x78a7, 0x0840, 0x1861, 0x2802, 0x3823,
      0xc9cc, 0xd9ed, 0xe98e, 0xf9af, 0x8948, 0x9969, 0xa90a, 0xb92b,
      0x5af5, 0x4ad4, 0x7ab7, 0x6a96, 0x1a71, 0x0a50, 0x3a33, 0x2a12,
      0xdbfd, 0xcbdc, 0xfbbf, 0xeb9e, 0x9b79, 0x8b58, 0xbb3b, 0xab1a,
      0x6ca6, 0x7c87, 0x4ce4, 0x5cc5, 0x2c22, 0x3c03, 0x0c60, 0x1c41,
      0xedae, 0xfd8f, 0xcdec, 0xddcd, 0xad2a, 0xbd0b, 0x8d68, 0x9d49,
      0x7e97, 0x6eb6, 0x5ed5, 0x4ef4, 0x3e13, 0x2e32, 0x1e51, 0x0e70,
      0xff9f, 0xefbe, 0xdfdd, 0xcffc, 0xbf1b, 0xaf3a, 0x9f59, 0x8f78,
      0x9188, 0x81a9, 0xb1ca, 0xa1eb, 0xd10c, 0xc12d, 0xf14e, 0xe16f,
      0x1080, 0x00a1, 0x30c2, 0x20e3, 0x5004, 0x4025, 0x7046, 0x6067,
      0x83b9, 0x9398, 0xa3fb, 0xb3da, 0xc33d, 0xd31c, 0xe37f, 0xf35e,
      0x02b1, 0x1290, 0x22f3, 0x32d2, 0x4235, 0x5214, 0x6277, 0x7256,
      0xb5ea, 0xa5cb, 0x95a8, 0x8589, 0xf56e, 0xe54f, 0xd52c, 0xc50d,
      0x34e2, 0x24c3, 0x14a0, 0x0481, 0x7466, 0x6447, 0x5424, 0x4405,
      0xa7db, 0xb7fa, 0x8799, 0x97b8, 0xe75f, 0xf77e, 0xc71d, 0xd73c,
      0x26d3, 0x36f2, 0x0691, 0x16b0, 0x6657, 0x7676, 0x4615, 0x5634,
      0xd94c, 0xc96d, 0xf90e, 0xe92f, 0x99c8, 0x89e9, 0xb98a, 0xa9ab,
      0x5844, 0x4865, 0x7806, 0x6827, 0x18c0, 0x08e1, 0x3882, 0x28a3,
      0xcb7d, 0xdb5c, 0xeb3f, 0xfb1e, 0x8bf9, 0x9bd8, 0xabbb, 0xbb9a,
      0x4a75, 0x5a54, 0x6a37, 0x7a16, 0x0af1, 0x1ad0, 0x2ab3, 0x3a92,
      0xfd2e, 0xed0f, 0xdd6c, 0xcd4d, 0xbdaa, 0xad8b, 0x9de8, 0x8dc9,
      0x7c26, 0x6c07, 0x5c64, 0x4c45, 0x3ca2, 0x2c83, 0x1ce0, 0x0cc1,
      0xef1f, 0xff3e, 0xcf5d, 0xdf7c, 0xaf9b, 0xbfba, 0x8fd9, 0x9ff8,
      0x6e17, 0x7e36, 0x4e55, 0x5e74, 0x2e93, 0x3eb2, 0x0ed1, 0x1ef0]"

fun crc16_ccitt_old :: "u16 \<Rightarrow> u8 list \<Rightarrow> u16" where
  "crc16_ccitt_old cksum [] = cksum"
| "crc16_ccitt_old cksum (b # bs) =
     crc16_ccitt_old (crc16_tab ! unat ((drop_bit 8 cksum XOR ucast b) AND 0xff) XOR
                      push_bit 8 cksum) bs"

section \<open>The shift register\<close>

definition reg_step :: "u16 \<Rightarrow> u16" where
  "reg_step c = push_bit 1 c XOR (if bit c 15 then 0x1021 else 0)"

definition reg_byte :: "u16 \<Rightarrow> u8 \<Rightarrow> u16" where
  "reg_byte c b = (reg_step ^^ 8) (c XOR push_bit 8 (ucast b))"

lemma reg_step_xor: "reg_step (a XOR b) = reg_step a XOR reg_step b"
  by (rule bit_word_eqI) (auto simp: reg_step_def bit_simps)

lemma reg_steps_xor: "(reg_step ^^ n) (a XOR b) = (reg_step ^^ n) a XOR (reg_step ^^ n) b"
  by (induction n) (simp_all add: reg_step_xor)

lemma reg_step_0: "reg_step c = 0 \<Longrightarrow> c = 0"
proof -
  assume z: "reg_step c = 0"
  have "bit (reg_step c) 0 = bit c 15"
    by (simp add: reg_step_def bit_0 even_xor_iff)
  with z have n15: "\<not> bit c 15" by simp
  with z have "push_bit 1 c = 0" by (simp add: reg_step_def)
  then have "\<not> bit (push_bit 1 c) (Suc n)" for n by (metis bit_0_eq bot_apply bot_bool_def)
  then have "n < 15 \<Longrightarrow> \<not> bit c n" for n unfolding bit_push_bit_iff by simp
  with n15 have "n < 16 \<Longrightarrow> \<not> bit c n" for n
    using less_Suc_eq [of n 15] by auto
  then show "c = 0" by (intro bit_word_eqI) simp
qed

lemma reg_steps_0: "(reg_step ^^ n) c = 0 \<longleftrightarrow> c = 0"
proof (induction n)
  case (Suc n)
  have "reg_step 0 = 0" by (simp add: reg_step_def)
  with Suc reg_step_0 show ?case by auto
qed simp

lemma xor_eq_0: "(a :: 'a :: len word) XOR b = 0 \<longleftrightarrow> a = b"
  by (metis bit.xor_left_self bit.xor_self xor.right_neutral)

lemma reg_steps_inj: "(reg_step ^^ n) a = (reg_step ^^ n) b \<longleftrightarrow> a = b"
proof -
  have "(reg_step ^^ n) a = (reg_step ^^ n) b \<longleftrightarrow> (reg_step ^^ n) (a XOR b) = 0"
    by (simp add: reg_steps_xor xor_eq_0)
  also have "\<dots> \<longleftrightarrow> a = b" by (simp add: reg_steps_0 xor_eq_0)
  finally show ?thesis .
qed

lemma and_power_bit:
  "(x :: u32) AND push_bit n 1 = (if bit x n then push_bit n 1 else 0)"
  by (rule bit_word_eqI) (auto simp: bit_and_iff bit_exp_iff)

lemma crc16_bit_cond:
  "drop_bit 8 ((crc :: u32) AND 0x8000) XOR (scast (byte :: u8) AND 0x80) \<noteq> 0 \<longleftrightarrow>
     bit crc 15 \<noteq> bit byte 7"
proof -
  have "crc AND 0x8000 = (if bit crc 15 then 0x8000 else 0)"
    using and_power_bit [of crc 15] by simp
  moreover have "(scast byte :: u32) AND 0x80 = (if bit byte 7 then 0x80 else 0)"
    using and_power_bit [of "scast byte" 7] by (simp add: bit_signed_iff)
  ultimately show ?thesis by simp
qed

lemma crc16_bit_step:
  assumes "crc16_bit (crc, byte) = (crc', byte')"
  shows "ucast crc' XOR push_bit 8 (ucast byte') =
    reg_step (ucast crc XOR push_bit 8 (ucast byte))"
proof -
  define p where "p \<longleftrightarrow> bit crc 15 \<noteq> bit byte 7"
  have "bit (ucast crc XOR push_bit 8 (ucast byte) :: u16) 15 \<longleftrightarrow> p"
    by (simp add: bit_simps p_def)
  moreover have "crc' = push_bit 1 crc XOR (if p then 0x1021 else 0)" "byte' = push_bit 1 byte"
    using assms unfolding crc16_bit_def prod.case crc16_bit_cond p_def by auto
  moreover have "(ucast (push_bit 1 crc XOR q) :: u16) XOR push_bit 8 (ucast (push_bit 1 byte)) =
      push_bit 1 (ucast crc XOR push_bit 8 (ucast byte)) XOR ucast q" for q :: u32
    by (rule bit_word_eqI, unfold bit_xor_iff bit_push_bit_iff bit_ucast_iff) auto
  ultimately show ?thesis by (simp add: reg_step_def)
qed

lemma crc16_bit_iterate:
  assumes "(crc16_bit ^^ n) (crc, byte) = (crc', byte')"
  shows "byte' = push_bit n byte \<and>
    ucast crc' XOR push_bit 8 (ucast byte') = (reg_step ^^ n) (ucast crc XOR push_bit 8 (ucast byte))"
  using assms
proof (induction n arbitrary: crc' byte')
  case (Suc n)
  obtain c b where cb: "(crc16_bit ^^ n) (crc, byte) = (c, b)" by fastforce
  with Suc.prems have step: "crc16_bit (c, b) = (crc', byte')" by simp
  then have "byte' = push_bit 1 b" by (auto simp: crc16_bit_def)
  moreover have "b = push_bit n byte" and
    r: "ucast c XOR push_bit 8 (ucast b) = (reg_step ^^ n) (ucast crc XOR push_bit 8 (ucast byte))"
    using Suc.IH [OF cb] by blast+
  ultimately show ?case
    using crc16_bit_step [OF step] by (simp add: r del: push_bit_Suc)
qed simp

lemma crc16_reg: "ucast (crc16 crc byte) = reg_byte (ucast crc) byte"
proof -
  obtain c b where cb: "(crc16_bit ^^ 8) (crc, byte) = (c, b)" by fastforce
  have "push_bit 8 byte = 0"
    by (rule bit_word_eqI) (simp add: bit_push_bit_iff)
  with crc16_bit_iterate [OF cb] have "ucast c = reg_byte (ucast crc) byte"
    by (auto simp: reg_byte_def)
  with cb show ?thesis by (simp add: crc16_def)
qed

lemma crc16_loop_reg: "ucast (crc16_loop crc buf) = fold (\<lambda>b c. reg_byte c b) buf (ucast crc)"
  by (induction buf arbitrary: crc) (simp_all add: crc16_reg)

lemma crc16_ccitt_reg: "crc16_ccitt buf = fold (\<lambda>b c. reg_byte c b) buf 0"
  by (simp add: crc16_ccitt_def crc16_loop_reg)

section \<open>The table\<close>

definition tab_index :: "u16 list" where
  "tab_index =
     [0, 1, 2, 3, 4, 5, 6, 7, 8, 9, 10, 11, 12, 13, 14, 15,
      16, 17, 18, 19, 20, 21, 22, 23, 24, 25, 26, 27, 28, 29, 30, 31,
      32, 33, 34, 35, 36, 37, 38, 39, 40, 41, 42, 43, 44, 45, 46, 47,
      48, 49, 50, 51, 52, 53, 54, 55, 56, 57, 58, 59, 60, 61, 62, 63,
      64, 65, 66, 67, 68, 69, 70, 71, 72, 73, 74, 75, 76, 77, 78, 79,
      80, 81, 82, 83, 84, 85, 86, 87, 88, 89, 90, 91, 92, 93, 94, 95,
      96, 97, 98, 99, 100, 101, 102, 103, 104, 105, 106, 107, 108, 109, 110, 111,
      112, 113, 114, 115, 116, 117, 118, 119, 120, 121, 122, 123, 124, 125, 126, 127,
      128, 129, 130, 131, 132, 133, 134, 135, 136, 137, 138, 139, 140, 141, 142, 143,
      144, 145, 146, 147, 148, 149, 150, 151, 152, 153, 154, 155, 156, 157, 158, 159,
      160, 161, 162, 163, 164, 165, 166, 167, 168, 169, 170, 171, 172, 173, 174, 175,
      176, 177, 178, 179, 180, 181, 182, 183, 184, 185, 186, 187, 188, 189, 190, 191,
      192, 193, 194, 195, 196, 197, 198, 199, 200, 201, 202, 203, 204, 205, 206, 207,
      208, 209, 210, 211, 212, 213, 214, 215, 216, 217, 218, 219, 220, 221, 222, 223,
      224, 225, 226, 227, 228, 229, 230, 231, 232, 233, 234, 235, 236, 237, 238, 239,
      240, 241, 242, 243, 244, 245, 246, 247, 248, 249, 250, 251, 252, 253, 254, 255]"

lemma funpow_8: "(f ^^ 8) x = f (f (f (f (f (f (f (f x)))))))"
  by (simp add: numeral_eq_Suc)

lemma crc16_tab_reg: "crc16_tab = map (\<lambda>i. (reg_step ^^ 8) (push_bit 8 i)) tab_index"
  unfolding crc16_tab_def tab_index_def list.map funpow_8 by (simp add: reg_step_def)

lemma upt_256: "[0 ..< 256] = 0 # 1 # [2 ..< 256]"
  by (simp add: upt_rec [of 0] upt_rec [of "Suc 0"] numeral_2_eq_2 del: upt_Suc)

lemma tab_index_eq: "tab_index = map word_of_nat [0 ..< 256]"
  unfolding upt_256 by (simp add: tab_index_def upt_rec_numeral)

lemma crc16_tab_nth:
  assumes "unat w < 256"
  shows "crc16_tab ! unat w = (reg_step ^^ 8) (push_bit 8 w)"
  using assms by (simp add: crc16_tab_reg tab_index_eq)

lemma reg_steps_low:
  "(\<And>n. 16 - k \<le> n \<Longrightarrow> \<not> bit c n) \<Longrightarrow> (reg_step ^^ k) c = push_bit k c"
proof (induction k arbitrary: c)
  case (Suc k)
  have "\<not> bit c 15" using Suc.prems [of 15] by simp
  then have step: "reg_step c = push_bit 1 c" by (simp add: reg_step_def)
  have "(reg_step ^^ k) (push_bit 1 c) = push_bit k (push_bit 1 c)"
  proof (rule Suc.IH)
    fix n assume "16 - k \<le> n"
    then have "16 - Suc k \<le> n - 1" by linarith
    then have "\<not> bit c (n - 1)" by (rule Suc.prems)
    then show "\<not> bit (push_bit 1 c) n" unfolding bit_push_bit_iff by blast
  qed
  then show ?case by (simp add: funpow_swap1 step funpow_Suc_right del: funpow.simps)
qed simp

lemma tab_step:
  "crc16_tab ! unat ((drop_bit 8 c XOR ucast b) AND 0xff) XOR push_bit 8 c = reg_byte c b"
proof -
  define w :: u16 where "w = (drop_bit 8 c XOR ucast b) AND 0xff"
  have ff: "(0xff :: u16) = mask 8" by (simp add: mask_eq_exp_minus_1)
  have "w = take_bit 8 (drop_bit 8 c XOR ucast b)"
    unfolding w_def ff by (simp add: take_bit_eq_mask)
  moreover have "unat (take_bit 8 v) < 256" for v :: u16
    using take_bit_nat_less_exp [of 8 "unat v"] by (simp add: unsigned_take_bit_eq)
  ultimately have small: "unat w < 256" by presburger
  have split: "c XOR push_bit 8 (ucast b) = push_bit 8 w XOR (c AND 0xff)"
    unfolding w_def ff
    by (rule bit_word_eqI, unfold bit_xor_iff bit_push_bit_iff bit_and_iff bit_mask_iff bit_drop_bit_eq
        bit_ucast_iff) auto
  have "(reg_step ^^ 8) (c AND 0xff) = push_bit 8 (c AND 0xff)"
    unfolding ff by (rule reg_steps_low) (simp add: bit_and_iff bit_mask_iff)
  also have "\<dots> = push_bit 8 c"
    unfolding ff by (rule bit_word_eqI, unfold bit_push_bit_iff bit_and_iff bit_mask_iff) auto
  finally show ?thesis
    using crc16_tab_nth [OF small] unfolding reg_byte_def split reg_steps_xor w_def by simp
qed

lemma crc16_old_reg: "crc16_ccitt_old c buf = fold (\<lambda>b c. reg_byte c b) buf c"
  by (induction buf arbitrary: c) (simp_all only: crc16_ccitt_old.simps tab_step fold_simps)

section \<open>Detection of a damaged byte\<close>

lemma xor_cancel: "(a :: 'a :: len word) XOR c = b XOR c \<longleftrightarrow> a = b"
proof
  assume "a XOR c = b XOR c"
  then have "(a XOR c) XOR c = (b XOR c) XOR c" by simp
  then show "a = b" by (simp add: xor.assoc)
qed simp

lemma reg_byte_inj: "reg_byte c b = reg_byte d b \<longleftrightarrow> c = d"
  by (simp add: reg_byte_def reg_steps_inj xor_cancel)

lemma reg_byte_neq:
  assumes "a \<noteq> b"
  shows "reg_byte c a \<noteq> reg_byte c b"
proof
  assume "reg_byte c a = reg_byte c b"
  then have "push_bit 8 (ucast a) = (push_bit 8 (ucast b) :: u16)"
    unfolding reg_byte_def reg_steps_inj xor.commute [of c] xor_cancel by simp
  then have e: "bit (push_bit 8 (ucast a) :: u16) (n + 8) = bit (push_bit 8 (ucast b) :: u16) (n + 8)"
    for n by simp
  have "a = b"
  proof (rule bit_word_eqI)
    fix n assume "n < LENGTH(8)"
    with e [of n] show "bit a n = bit b n" by (simp add: bit_push_bit_iff bit_ucast_iff)
  qed
  with assms show False by simp
qed

lemma fold_reg_inj:
  "fold (\<lambda>b c. reg_byte c b) bs c = fold (\<lambda>b c. reg_byte c b) bs d \<longleftrightarrow> c = d"
  by (induction bs arbitrary: c d) (simp_all add: reg_byte_inj)

lemma crc_one_byte:
  assumes "a \<noteq> b"
  shows "crc16_ccitt (xs @ a # ys) \<noteq> crc16_ccitt (xs @ b # ys)"
  using reg_byte_neq [OF assms] by (simp add: crc16_ccitt_reg fold_reg_inj)

section \<open>Properties\<close>

text \<open>
  C26: the compiled checksum, bit by bit in a 32-bit accumulator that is never masked and with
  a signed byte, is the CRC of the table: for every buffer it agrees with the table-driven
  function, and with the sixteen-bit shift register of the polynomial
  $x^{16} + x^{12} + x^5 + 1$.
\<close>

theorem crc16_bitwise_table:
  "crc16_ccitt buf = crc16_ccitt_old 0 buf \<and>
   crc16_ccitt buf = fold (\<lambda>b c. (reg_step ^^ 8) (c XOR push_bit 8 (ucast b))) buf 0"
proof -
  have "(\<lambda>b c. (reg_step ^^ 8) (c XOR push_bit 8 (ucast b))) = (\<lambda>b c. reg_byte c b)"
    by (simp add: reg_byte_def)
  then show ?thesis by (simp add: crc16_ccitt_reg crc16_old_reg)
qed

end
