(* ===== verification/Xyz_Modem.thy ===== *)
theory Xyz_Modem
  imports Crc16
begin

text \<open>
  The receiver of the X- and Y-modem protocols, \<^verbatim>\<open>lib/serial/xyzModem.c\<close>, in the configuration of
  the boot loader.  The console line is part of the state: \<open>rx\<close> is what the successive
  calls of \<^verbatim>\<open>getchar_timeout\<close> deliver, a byte or a time-out, and every call after its end times
  out; \<open>tx\<close> is what was sent.  Delays are not observable.  Counters are unbounded integers
  where the source counts characters and retries.
\<close>

section \<open>State\<close>

abbreviation (input) SOH :: u8 where "SOH \<equiv> 0x01"
abbreviation (input) STX :: u8 where "STX \<equiv> 0x02"
abbreviation (input) EOT :: u8 where "EOT \<equiv> 0x04"
abbreviation (input) ACK :: u8 where "ACK \<equiv> 0x06"
abbreviation (input) BSP :: u8 where "BSP \<equiv> 0x08"
abbreviation (input) NAK :: u8 where "NAK \<equiv> 0x15"
abbreviation (input) CAN :: u8 where "CAN \<equiv> 0x18"
abbreviation (input) EOF :: u8 where "EOF \<equiv> 0x1A"
abbreviation (input) chC :: u8 where "chC \<equiv> 0x43"

abbreviation (input) xyzModem_xmodem :: int where "xyzModem_xmodem \<equiv> 1"
abbreviation (input) xyzModem_ymodem :: int where "xyzModem_ymodem \<equiv> 2"
abbreviation (input) xyzModem_timeout :: int where "xyzModem_timeout \<equiv> - 3"
abbreviation (input) xyzModem_eof :: int where "xyzModem_eof \<equiv> - 4"
abbreviation (input) xyzModem_cancel :: int where "xyzModem_cancel \<equiv> - 5"
abbreviation (input) xyzModem_frame :: int where "xyzModem_frame \<equiv> - 6"
abbreviation (input) xyzModem_cksum :: int where "xyzModem_cksum \<equiv> - 7"
abbreviation (input) xyzModem_sequence :: int where "xyzModem_sequence \<equiv> - 8"

abbreviation (input) xyzModem_MAX_RETRIES :: nat where "xyzModem_MAX_RETRIES \<equiv> 20"
abbreviation (input) xyzModem_MAX_RETRIES_WITH_CRC :: int where "xyzModem_MAX_RETRIES_WITH_CRC \<equiv> 10"
abbreviation (input) xyzModem_CAN_COUNT :: int where "xyzModem_CAN_COUNT \<equiv> 3"

text \<open>\<open>bufp\<close> is the index into \<open>pkt\<close> that the pointer of the source points at.\<close>

record xyz =
  pkt :: "u8 list"
  bufp :: nat
  blk :: u8
  cblk :: u8
  crc1 :: u8
  crc2 :: u8
  next_blk :: u8
  xlen :: int
  xmode :: int
  total_retries :: int
  total_SOH :: int
  total_STX :: int
  total_CAN :: int
  crc_mode :: bool
  at_eof :: bool
  tx_ack :: bool
  file_length :: u32
  read_length :: u32
  rx :: "u8 option list"
  tx :: "u8 list"

section \<open>The line\<close>

definition CYGACC_COMM_IF_GETC_TIMEOUT :: "xyz \<Rightarrow> u8 option \<times> xyz" where
  "CYGACC_COMM_IF_GETC_TIMEOUT s =
     (case rx s of [] \<Rightarrow> (None, s) | x # xs \<Rightarrow> (x, s\<lparr>rx := xs\<rparr>))"

definition CYGACC_COMM_IF_PUTC :: "u8 \<Rightarrow> xyz \<Rightarrow> xyz" where
  "CYGACC_COMM_IF_PUTC y s = s\<lparr>tx := tx s @ [y]\<rparr>"

definition xyzModem_flush :: "xyz \<Rightarrow> xyz" where
  "xyzModem_flush s = s\<lparr>rx := drop 1 (dropWhile (\<lambda>x. x \<noteq> None) (rx s))\<rparr>"

definition put_ready :: "xyz \<Rightarrow> xyz" where
  "put_ready s = CYGACC_COMM_IF_PUTC (if crc_mode s then chC else NAK) s"

section \<open>Numbers in the file header\<close>

definition is_hex :: "u8 \<Rightarrow> bool" where
  "is_hex c \<longleftrightarrow> (c \<ge> 0x30 \<and> c \<le> 0x39) \<or> (c \<ge> 0x41 \<and> c \<le> 0x46) \<or> (c \<ge> 0x61 \<and> c \<le> 0x66)"

definition from_hex :: "u8 \<Rightarrow> int" where
  "from_hex c =
     (if c \<ge> 0x30 \<and> c \<le> 0x39 then uint c - 0x30
      else if c \<ge> 0x61 \<and> c \<le> 0x66 then uint c - 0x61 + 0x0a
      else if c \<ge> 0x41 \<and> c \<le> 0x46 then uint c - 0x41 + 0x0A
      else 0)"

definition to_lower :: "u8 \<Rightarrow> u8" where
  "to_lower c = (if c \<ge> 0x41 \<and> c \<le> 0x5A then c - 0x41 + 0x61 else c)"

text \<open>
  The loop of \<^verbatim>\<open>parse_num\<close> on the bytes from the pointer to the end of the packet buffer; running
  past the buffer is a bad access.  The delimiters are given without their final zero.
\<close>

function parse_loop :: "u8 list option \<Rightarrow> bool \<Rightarrow> int \<Rightarrow> u32 \<Rightarrow> u8 list \<Rightarrow> u32 option res" where
  "parse_loop delim first radix result s =
     (case s of
        [] \<Rightarrow> Inl BadAccess
      | c0 # s1 \<Rightarrow>
          if c0 = 0 then Inr (Some result)
          else if first \<and> c0 = 0x30 \<and> s1 = [] then Inl BadAccess
          else
            (let hex = first \<and> c0 = 0x30 \<and> to_lower (hd s1) = 0x78;
                 radix' = (if hex then 16 else radix); s' = (if hex then drop 1 s1 else s)
             in case s' of
                  [] \<Rightarrow> Inl BadAccess
                | c # s2 \<Rightarrow>
                    if is_hex c \<and> from_hex c < radix'
                    then parse_loop delim False radix'
                           (result * word_of_int radix' + word_of_int (from_hex c)) s2
                    else (case delim of
                            None \<Rightarrow> Inr None
                          | Some ds \<Rightarrow> if c \<in> set ds then Inr (Some result) else Inr None)))"
  by pat_completeness auto

termination
proof (relation "measure (\<lambda>(d, f, r, v, s). length s)", goal_cases)
  case (2 delim first radix result s c0 s1 hex radix' s' c s2)
  then have "s' = c # s2" "s = c0 # s1" "length s' \<le> length s" by auto
  then have "length s2 < length s" by simp
  then show ?case by simp
qed simp

definition parse_num :: "u8 list \<Rightarrow> u8 list option \<Rightarrow> u32 option res" where
  "parse_num s delim = parse_loop delim True 10 0 (dropWhile (\<lambda>c. c = 0x20) s)"

section \<open>Receiving one packet\<close>

text \<open>The search for the start of a packet: a status, or the byte that starts it.\<close>

function find_hdr :: "int \<Rightarrow> int \<Rightarrow> xyz \<Rightarrow> (int + u8) \<times> xyz" where
  "find_hdr can_total hdr_chars s =
     (case rx s of
        [] \<Rightarrow> (Inl xyzModem_timeout, xyzModem_flush s)
      | None # xs \<Rightarrow> (Inl xyzModem_timeout, xyzModem_flush (s\<lparr>rx := xs\<rparr>))
      | Some c # xs \<Rightarrow>
          (let s1 = s\<lparr>rx := xs\<rparr>; n = hdr_chars + 1
           in if c = SOH then (Inr c, s1\<lparr>total_SOH := total_SOH s1 + 1\<rparr>)
              else if c = STX then (Inr c, s1\<lparr>total_STX := total_STX s1 + 1\<rparr>)
              else if c = CAN then
                (let s2 = s1\<lparr>total_CAN := total_CAN s1 + 1\<rparr>
                 in if can_total + 1 = xyzModem_CAN_COUNT then (Inl xyzModem_cancel, s2)
                    else find_hdr (can_total + 1) n s2)
              else if c = EOT \<and> n = 1 then (Inl xyzModem_eof, CYGACC_COMM_IF_PUTC ACK s1)
              else find_hdr can_total n s1))"
  by pat_completeness auto

termination
  by (relation "measure (\<lambda>(k, n, s). length (rx s))") auto

primrec read_pkt :: "nat \<Rightarrow> nat \<Rightarrow> xyz \<Rightarrow> bool \<times> xyz" where
  "read_pkt 0 i s = (True, s)"
| "read_pkt (Suc n) i s =
     (case CYGACC_COMM_IF_GETC_TIMEOUT s of
        (None, s1) \<Rightarrow> (False, s1)
      | (Some c, s1) \<Rightarrow> read_pkt n (Suc i) (s1\<lparr>pkt := (pkt s1)[i := c]\<rparr>))"

fun sum_bytes :: "u16 \<Rightarrow> u8 list \<Rightarrow> u16" where
  "sum_bytes cksum [] = cksum"
| "sum_bytes cksum (b # bs) = sum_bytes (cksum + ucast b) bs"

definition validate :: "xyz \<Rightarrow> int \<times> xyz" where
  "validate s =
     (let data = take (nat (xlen s)) (pkt s)
      in if blk s XOR cblk s \<noteq> 0xFF then (xyzModem_frame, xyzModem_flush s)
         else if crc_mode s then
           (if crc16_ccitt data \<noteq> push_bit 8 (ucast (crc1 s)) OR ucast (crc2 s)
            then (xyzModem_cksum, s) else (0, s))
         else if ucast (crc1 s) \<noteq> sum_bytes 0 data AND 0xFF then (xyzModem_cksum, s)
         else (0, s))"

text \<open>The bytes after the start of the packet: block number, complement, data, check bytes.\<close>

definition read_body :: "u8 \<Rightarrow> xyz \<Rightarrow> int \<times> xyz" where
  "read_body c s =
     (case CYGACC_COMM_IF_GETC_TIMEOUT s of
        (None, s1) \<Rightarrow> (xyzModem_timeout, s1)
      | (Some b, s1) \<Rightarrow>
     (case CYGACC_COMM_IF_GETC_TIMEOUT (s1\<lparr>blk := b\<rparr>) of
        (None, s2) \<Rightarrow> (xyzModem_timeout, s2)
      | (Some cb, s2) \<Rightarrow>
     (case read_pkt (if c = SOH then 128 else 1024) 0
             (s2\<lparr>cblk := cb, xlen := (if c = SOH then 128 else 1024), bufp := 0\<rparr>) of
        (False, s3) \<Rightarrow> (xyzModem_timeout, s3)
      | (True, s3) \<Rightarrow>
     (case CYGACC_COMM_IF_GETC_TIMEOUT s3 of
        (None, s4) \<Rightarrow> (xyzModem_timeout, s4)
      | (Some k1, s4) \<Rightarrow>
          (let s5 = s4\<lparr>crc1 := k1\<rparr>
           in if crc_mode s5
              then (case CYGACC_COMM_IF_GETC_TIMEOUT s5 of
                      (None, s6) \<Rightarrow> (xyzModem_timeout, s6)
                    | (Some k2, s6) \<Rightarrow> validate (s6\<lparr>crc2 := k2\<rparr>))
              else validate s5)))))"

definition xyzModem_get_hdr :: "xyz \<Rightarrow> int \<times> xyz" where
  "xyzModem_get_hdr s0 =
     (let s = (if tx_ack s0 then (CYGACC_COMM_IF_PUTC ACK s0)\<lparr>tx_ack := False\<rparr> else s0)
      in case find_hdr 0 0 s of
           (Inl stat, s1) \<Rightarrow> (stat, s1)
         | (Inr c, s1) \<Rightarrow> read_body c s1)"

section \<open>Opening\<close>

text \<open>\<^verbatim>\<open>while (*xyz->bufp++)\<close>: how far the pointer moves.\<close>

fun skip_name :: "u8 list \<Rightarrow> nat res" where
  "skip_name [] = Inl BadAccess"
| "skip_name (c # cs) = (if c = 0 then Inr 1 else res_bind (skip_name cs) (\<lambda>n. Inr (Suc n)))"

definition file_header :: "xyz \<Rightarrow> xyz res" where
  "file_header s =
     (if blk s = 0 then
        res_bind (skip_name (drop (bufp s) (pkt s))) (\<lambda>n.
        (let s1 = s\<lparr>bufp := bufp s + n\<rparr>
         in res_bind (parse_num (drop (bufp s1) (pkt s1)) (Some [0x20])) (\<lambda>r.
            Inr (s1\<lparr>file_length := (case r of None \<Rightarrow> file_length s1 | Some v \<Rightarrow> v),
                    tx_ack := True\<rparr>))))
      else Inr s)"

text \<open>The loop of \<^verbatim>\<open>xyzModem_stream_open\<close>; the result is the error status, \<^const>\<open>None\<close> for success.\<close>

primrec open_loop :: "nat \<Rightarrow> int \<Rightarrow> int \<Rightarrow> xyz \<Rightarrow> (int option \<times> xyz) res" where
  "open_loop 0 crc_retries stat s = Inr (Some stat, s)"
| "open_loop (Suc n) crc_retries stat s =
     (let (st, s1) = xyzModem_get_hdr s
      in if st = 0 then
           res_bind (file_header s1) (\<lambda>s2. Inr (None, s2\<lparr>next_blk := 1, xlen := 0\<rparr>))
         else if st = xyzModem_timeout then
           (let k = crc_retries - 1; s2 = (if k \<le> 0 then s1\<lparr>crc_mode := False\<rparr> else s1);
                s3 = put_ready s2
            in open_loop n k st (s3\<lparr>total_retries := total_retries s3 + 1\<rparr>))
         else if st = xyzModem_cancel then Inr (Some st, s1)
         else open_loop n crc_retries st s1)"

definition zero_xyz :: "u8 option list \<Rightarrow> xyz" where
  "zero_xyz line =
     \<lparr>pkt = replicate 1024 0, bufp = 0, blk = 0, cblk = 0, crc1 = 0, crc2 = 0, next_blk = 0,
      xlen = 0, xmode = 0, total_retries = 0, total_SOH = 0, total_STX = 0, total_CAN = 0,
      crc_mode = False, at_eof = False, tx_ack = False, file_length = 0, read_length = 0,
      rx = line, tx = []\<rparr>"

text \<open>
  \<open>mem_ok\<close> is whether \<^verbatim>\<open>malloc\<close> succeeds, which the code does not check.  The pointer \<^verbatim>\<open>__chan\<close>, which stays null, is left out: the
  calls of the input and output functions read through it for an argument that these functions do not use.
\<close>

definition xyzModem_stream_open ::
  "bool \<Rightarrow> int \<Rightarrow> u8 option list \<Rightarrow> (int option \<times> xyz) res" where
  "xyzModem_stream_open mem_ok mode line =
     (if \<not> mem_ok then Inl NullDeref
      else (let s = put_ready ((zero_xyz line)\<lparr>crc_mode := True, xmode := mode\<rparr>)
            in if mode = xyzModem_xmodem then Inr (None, s\<lparr>next_blk := 1\<rparr>)
               else open_loop xyzModem_MAX_RETRIES xyzModem_MAX_RETRIES_WITH_CRC 0 s))"

section \<open>Reading\<close>

text \<open>The loop that drops trailing \<^verbatim>\<open>^Z\<close> bytes: the length that is left.\<close>

primrec strip_len :: "u8 list \<Rightarrow> nat \<Rightarrow> nat" where
  "strip_len p 0 = 0"
| "strip_len p (Suc n) = (if p ! n = EOF then strip_len p n else Suc n)"

definition strip_pad :: "xyz \<Rightarrow> xyz" where
  "strip_pad s =
     (let p = drop (bufp s) (pkt s); n = nat (xlen s)
      in if p ! (n - 1) = EOF \<and> p ! (n - 2) = EOF \<and> p ! (n - 3) = EOF
         then s\<lparr>xlen := int (strip_len p n)\<rparr> else s)"

text \<open>The packet with the expected number; its length as a \<^verbatim>\<open>size\<close> in 32-bit arithmetic.\<close>

definition accept_block :: "xyz \<Rightarrow> xyz" where
  "accept_block s =
     (let s1 = s\<lparr>tx_ack := True, next_blk := next_blk s + 1\<rparr>;
          s2 = (if xmode s1 = xyzModem_xmodem \<or> file_length s1 = 0 then strip_pad s1 else s1)
      in if xmode s2 \<noteq> xyzModem_xmodem \<and> file_length s2 \<noteq> 0 then
           (let s3 = s2\<lparr>read_length := read_length s2 + word_of_int (xlen s2)\<rparr>
            in if read_length s3 > file_length s3
               then s3\<lparr>xlen := sint (word_of_int (xlen s3) - (read_length s3 - file_length s3))\<rparr>
               else s3)
         else s2)"

text \<open>The end of the file: \<^verbatim>\<open>EOT\<close> arrived.\<close>

definition finish :: "xyz \<Rightarrow> int \<times> xyz" where
  "finish s =
     (let s1 = CYGACC_COMM_IF_PUTC ACK s;
          (stat, s2) =
            (if xmode s1 = xyzModem_ymodem then
               (let s' = put_ready s1;
                    (st, t) = xyzModem_get_hdr (s'\<lparr>total_retries := total_retries s' + 1\<rparr>)
                in (st, CYGACC_COMM_IF_PUTC ACK t))
             else (xyzModem_eof, s1))
      in (stat, s2\<lparr>at_eof := True\<rparr>))"

primrec read_block :: "nat \<Rightarrow> int \<Rightarrow> xyz \<Rightarrow> int \<times> xyz" where
  "read_block 0 stat s = (stat, s)"
| "read_block (Suc n) stat s =
     (let (st, s1) = xyzModem_get_hdr s
      in if st = 0 \<and> blk s1 = next_blk s1 then (0, accept_block s1)
         else if st = 0 \<and> blk s1 = next_blk s1 - 1 then read_block n 0 (CYGACC_COMM_IF_PUTC ACK s1)
         else (let st' = (if st = 0 then xyzModem_sequence else st)
               in if st' = xyzModem_cancel then (st', s1)
                  else if st' = xyzModem_eof then finish s1
                  else (let s2 = put_ready s1
                        in read_block n st' (s2\<lparr>total_retries := total_retries s2 + 1\<rparr>))))"

text \<open>Every packet that is accepted takes bytes from the line, so that reading ends.\<close>

lemma xyzModem_flush_rx: "length (rx (xyzModem_flush s)) \<le> length (rx s)"
  by (simp add: xyzModem_flush_def) (meson diff_le_self le_trans length_dropWhile_le)

lemma PUTC_rx [simp]: "rx (CYGACC_COMM_IF_PUTC y s) = rx s"
  by (simp add: CYGACC_COMM_IF_PUTC_def)

lemma put_ready_rx [simp]: "rx (put_ready s) = rx s"
  by (simp add: put_ready_def)

declare find_hdr.simps [simp del] parse_loop.simps [simp del]

lemma find_hdr_rx:
  "find_hdr k n s = (r, s') \<Longrightarrow> length (rx s') \<le> length (rx s) \<and>
     (r = Inl xyzModem_timeout \<or> length (rx s') < length (rx s)) \<and> (\<forall>st. r = Inl st \<longrightarrow> st < 0)"
proof (induction k n s rule: find_hdr.induct)
  case (1 k n s)
  consider "rx s = []" | xs where "rx s = None # xs" | c xs where "rx s = Some c # xs"
    by (metis list.exhaust option.exhaust)
  then show ?case
  proof cases
    case (2 xs)
    then show ?thesis
      using 1(3) xyzModem_flush_rx [of "s\<lparr>rx := xs\<rparr>"] by (auto simp: find_hdr.simps [of k n s])
  next
    case (3 c xs)
    show ?thesis
      using 1(3) 1(1) [OF 3 refl refl refl] 1(2) [OF 3 refl refl refl]
      by (auto simp: find_hdr.simps [of k n s] 3 Let_def split: if_splits dest!: 1(1,2))
  qed (use 1(3) xyzModem_flush_rx [of s] in \<open>auto simp: find_hdr.simps [of k n s]\<close>)
qed

lemma GETC_rx: "CYGACC_COMM_IF_GETC_TIMEOUT s = (r, s') \<Longrightarrow> length (rx s') \<le> length (rx s)"
  by (auto simp: CYGACC_COMM_IF_GETC_TIMEOUT_def split: list.splits)

lemma read_pkt_rx: "read_pkt n i s = (r, s') \<Longrightarrow> length (rx s') \<le> length (rx s)"
proof (induction n arbitrary: i s)
  case (Suc n)
  obtain o1 s1 where g: "CYGACC_COMM_IF_GETC_TIMEOUT s = (o1, s1)" by fastforce
  show ?case
  proof (cases o1)
    case (Some c)
    with Suc.prems g have "read_pkt n (Suc i) (s1\<lparr>pkt := (pkt s1)[i := c]\<rparr>) = (r, s')" by simp
    from Suc.IH [OF this] GETC_rx [OF g] show ?thesis by simp
  qed (use Suc.prems g GETC_rx [OF g] in auto)
qed simp

lemma validate_rx: "validate s = (st, s') \<Longrightarrow> length (rx s') \<le> length (rx s) \<and> st \<le> 0"
  using xyzModem_flush_rx [of s] by (auto simp: validate_def Let_def split: if_splits)

lemma read_body_rx:
  "read_body c s = (st, s') \<Longrightarrow> length (rx s') \<le> length (rx s) \<and> st \<le> 0"
  unfolding read_body_def Let_def
  by (auto split: prod.splits option.splits bool.splits if_splits
      dest!: GETC_rx read_pkt_rx validate_rx)

lemma get_hdr_rx:
  assumes "xyzModem_get_hdr s = (st, s')"
  shows "length (rx s') \<le> length (rx s) \<and> st \<le> 0 \<and> (st = 0 \<longrightarrow> length (rx s') < length (rx s))"
proof -
  define t where "t = (if tx_ack s then (CYGACC_COMM_IF_PUTC ACK s)\<lparr>tx_ack := False\<rparr> else s)"
  have t: "rx t = rx s" by (simp add: t_def)
  obtain r s1 where f: "find_hdr 0 0 t = (r, s1)" by fastforce
  have res: "(st, s') = (case r of Inl stat \<Rightarrow> (stat, s1) | Inr c \<Rightarrow> read_body c s1)"
    using assms by (simp add: xyzModem_get_hdr_def t_def [symmetric] f)
  note fr = find_hdr_rx [OF f]
  show ?thesis
  proof (cases r)
    case (Inl stat)
    with res fr t show ?thesis by auto
  next
    case (Inr c)
    with res have "read_body c s1 = (st, s')" by simp
    from read_body_rx [OF this] fr Inr t show ?thesis by auto
  qed
qed

lemma strip_pad_rx [simp]: "rx (strip_pad s) = rx s" "at_eof (strip_pad s) = at_eof s"
  by (simp_all add: strip_pad_def Let_def)

lemma accept_block_rx [simp]: "rx (accept_block s) = rx s"
  by (simp add: accept_block_def Let_def)

lemma finish_rx:
  assumes "finish s = (st, s')"
  shows "st \<le> 0 \<and> length (rx s') \<le> length (rx s)"
  using assms
  by (auto simp: finish_def Let_def split: if_splits prod.splits dest!: get_hdr_rx)

lemma read_block_rx:
  "read_block n st0 s = (st, s') \<Longrightarrow> st0 \<le> 0 \<Longrightarrow> length (rx s') \<le> length (rx s) \<and> st \<le> 0 \<and>
     (st = 0 \<longrightarrow> st0 = 0 \<or> length (rx s') < length (rx s) \<or> at_eof s')"
proof (induction n arbitrary: st0 s)
  case (Suc n)
  obtain st1 s1 where g: "xyzModem_get_hdr s = (st1, s1)" by fastforce
  note r = get_hdr_rx [OF g]
  define st2 where "st2 = (if st1 = 0 then xyzModem_sequence else st1)"
  define s2 where "s2 = (put_ready s1)\<lparr>total_retries := total_retries (put_ready s1) + 1\<rparr>"
  have eq: "read_block (Suc n) st0 s =
      (if st1 = 0 \<and> blk s1 = next_blk s1 then (0, accept_block s1)
       else if st1 = 0 \<and> blk s1 = next_blk s1 - 1 then read_block n 0 (CYGACC_COMM_IF_PUTC ACK s1)
       else if st2 = xyzModem_cancel then (st2, s1)
       else if st2 = xyzModem_eof then finish s1 else read_block n st2 s2)"
    by (simp add: g st2_def s2_def Let_def)
  have eof: "at_eof (snd (finish s1))" by (simp add: finish_def Let_def split: prod.splits)
  have s2: "rx s2 = rx s1" by (simp add: s2_def)
  have neg: "st2 < 0" using r by (auto simp: st2_def)
  show ?case
    using Suc.prems r s2 neg Suc.IH [of 0 "CYGACC_COMM_IF_PUTC ACK s1"] Suc.IH [of st2 s2]
      finish_rx [of s1 st s'] eof
    unfolding eq by (auto split: if_splits)
qed simp

text \<open>
  \<^verbatim>\<open>xyzModem_stream_read\<close>: the bytes copied, the error status if it was set, the state.  A copy
  of a negative length, which \<^verbatim>\<open>memcpy\<close> takes as a huge one, or from outside the packet is a
  bad access.
\<close>

function stream_read_loop :: "int \<Rightarrow> u8 list \<Rightarrow> xyz \<Rightarrow> (u8 list \<times> int option \<times> xyz) res" where
  "stream_read_loop sz acc s =
     (if at_eof s \<or> sz \<le> 0 then Inr (acc, None, s)
      else
        (let (stat, s1) = (if xlen s = 0 then read_block xyzModem_MAX_RETRIES xyzModem_cancel s
                           else (0, s))
         in if stat < 0 then Inr (acc, Some stat, s1\<lparr>xlen := - 1\<rparr>)
            else if at_eof s1 then stream_read_loop sz acc s1
            else
              (let len = (if sz < xlen s1 then sz else xlen s1)
               in if len < 0 \<or> bufp s1 + nat len > 1024 then Inl BadAccess
                  else stream_read_loop (sz - len)
                         (acc @ take (nat len) (drop (bufp s1) (pkt s1)))
                         (s1\<lparr>xlen := xlen s1 - len, bufp := bufp s1 + nat len\<rparr>))))"
  by pat_completeness auto

termination
proof (relation "measure (\<lambda>(n, a, s). if at_eof s then 0 else Suc (nat n + length (rx s)))", goal_cases)
  case 1
  then show ?case by simp
next
  case (2 sz acc s p stat s1)
  then show ?case by simp
next
  case (3 sz acc s p stat s1 len)
  show ?case
  proof (cases "xlen s = 0")
    case True
    with 3 have "read_block 20 (- 5) s = (stat, s1)" by simp
    from read_block_rx [OF this] 3 show ?thesis by auto
  next
    case False
    with 3 have "s1 = s" "len \<noteq> 0" by (auto split: if_splits)
    with 3 show ?thesis by auto
  qed
qed

definition xyzModem_stream_read :: "int \<Rightarrow> xyz \<Rightarrow> (u8 list \<times> int option \<times> xyz) res" where
  "xyzModem_stream_read sz s = stream_read_loop sz [] s"

section \<open>Closing\<close>

text \<open>
  Without \<open>abort\<close> the function only drains the caller's \<^verbatim>\<open>getc\<close>, which is not the console line of
  the state.
\<close>

definition xyzModem_stream_terminate :: "bool \<Rightarrow> xyz \<Rightarrow> xyz" where
  "xyzModem_stream_terminate abort s =
     (if abort \<and> (xmode s = xyzModem_xmodem \<or> xmode s = xyzModem_ymodem) then
        (xyzModem_flush
          (foldl (\<lambda>t y. CYGACC_COMM_IF_PUTC y t) s [CAN, CAN, CAN, CAN, BSP, BSP, BSP, BSP]))
          \<lparr>at_eof := True\<rparr>
      else s)"

end
