(* ===== verification/Xyz_Modem_Props.thy ===== *)
theory Xyz_Modem_Props
  imports Xyz_Modem
begin

text \<open>
  What the serial receiver guarantees: it accepts the packets of a correct sender and no
  packet with a damaged data byte; a whole Y-modem transfer arrives exactly, however the caller
  cuts it into reads; and the two ways in which a sender can make it misbehave.
\<close>

section \<open>The sender\<close>

definition trailer :: "bool \<Rightarrow> u8 list \<Rightarrow> u8 list" where
  "trailer crc d =
     (if crc then [ucast (drop_bit 8 (crc16_ccitt d)), ucast (crc16_ccitt d)]
      else [ucast (sum_bytes 0 d)])"

definition frame :: "bool \<Rightarrow> u8 \<Rightarrow> u8 list \<Rightarrow> u8 list" where
  "frame crc b d = (if length d = 128 then SOH else STX) # b # NOT b # d @ trailer crc d"

text \<open>A packet whose data bytes were replaced on the line by \<open>d'\<close>.\<close>

definition damaged :: "bool \<Rightarrow> u8 \<Rightarrow> u8 list \<Rightarrow> u8 list \<Rightarrow> u8 list" where
  "damaged crc b d d' = (if length d = 128 then SOH else STX) # b # NOT b # d' @ trailer crc d"

definition block_size :: "u8 list \<Rightarrow> bool" where
  "block_size d \<longleftrightarrow> length d = 128 \<or> length d = 1024"

section \<open>One packet\<close>

lemma GETC_Some [simp]:
  "rx s = Some c # xs \<Longrightarrow> CYGACC_COMM_IF_GETC_TIMEOUT s = (Some c, s\<lparr>rx := xs\<rparr>)"
  by (simp add: CYGACC_COMM_IF_GETC_TIMEOUT_def)

lemma read_pkt_data:
  "rx s = map Some d @ rest \<Longrightarrow> i + length d \<le> length (pkt s) \<Longrightarrow>
     read_pkt (length d) i s =
       (True, s\<lparr>pkt := take i (pkt s) @ d @ drop (i + length d) (pkt s), rx := rest\<rparr>)"
proof (induction d arbitrary: i s)
  case Nil
  then show ?case by (cases s) simp
next
  case (Cons c d)
  define s1 where "s1 = s\<lparr>rx := map Some d @ rest, pkt := (pkt s)[i := c]\<rparr>"
  have "read_pkt (length (c # d)) i s = read_pkt (length d) (Suc i) s1"
    using Cons.prems by (simp add: s1_def)
  also have "\<dots> = (True, s1\<lparr>pkt := take (Suc i) (pkt s1) @ d @ drop (Suc i + length d) (pkt s1),
      rx := rest\<rparr>)"
    by (rule Cons.IH) (use Cons.prems in \<open>simp_all add: s1_def\<close>)
  finally show ?case
    using Cons.prems(2) by (simp add: s1_def take_Suc_conv_app_nth)
qed

lemma find_hdr_start:
  "c = SOH \<or> c = STX \<Longrightarrow> rx s = Some c # xs \<Longrightarrow>
     find_hdr k n s = (Inr c, if c = SOH then s\<lparr>rx := xs, total_SOH := total_SOH s + 1\<rparr>
                              else s\<lparr>rx := xs, total_STX := total_STX s + 1\<rparr>)"
  by (auto simp: find_hdr.simps [of k n s] Let_def)

text \<open>The state after a complete packet, with the check still to be made.\<close>

definition received :: "u8 \<Rightarrow> u8 list \<Rightarrow> u8 list \<Rightarrow> u8 option list \<Rightarrow> xyz \<Rightarrow> xyz" where
  "received b d chk rest s =
     s\<lparr>pkt := d @ drop (length d) (pkt s), bufp := 0, blk := b, cblk := NOT b, crc1 := hd chk,
       crc2 := (if crc_mode s then chk ! 1 else crc2 s), xlen := int (length d),
       total_SOH := total_SOH s + (if length d = 128 then 1 else 0),
       total_STX := total_STX s + (if length d = 128 then 0 else 1),
       tx_ack := False, rx := rest, tx := tx s @ (if tx_ack s then [ACK] else [])\<rparr>"

lemma get_hdr_body:
  assumes size: "block_size d" and pkt: "length (pkt s) = 1024"
    and chk: "length chk = (if crc_mode s then 2 else 1)"
    and rx: "rx s = map Some ((if length d = 128 then SOH else STX) # b # NOT b # d @ chk) @ rest"
  shows "xyzModem_get_hdr s = validate (received b d chk rest s)"
proof -
  define c :: u8 where "c = (if length d = 128 then SOH else STX)"
  define t where "t = (if tx_ack s then (CYGACC_COMM_IF_PUTC ACK s)\<lparr>tx_ack := False\<rparr> else s)"
  define u where "u = (if c = SOH then t\<lparr>total_SOH := total_SOH t + 1\<rparr>
    else t\<lparr>total_STX := total_STX t + 1\<rparr>)\<lparr>rx := map Some (b # NOT b # d @ chk) @ rest\<rparr>"
  have c: "c = SOH \<or> c = STX" "(if c = SOH then 128 else 1024) = length d" "c = SOH \<longleftrightarrow> length d = 128"
    "(if c = SOH then 128 else 1024) = int (length d)"
    using size by (auto simp: c_def block_size_def)
  have t: "rx t = Some c # map Some (b # NOT b # d @ chk) @ rest"
    "t = s\<lparr>tx_ack := False, tx := tx s @ (if tx_ack s then [ACK] else [])\<rparr>"
    using rx by (auto simp: t_def c_def CYGACC_COMM_IF_PUTC_def)
  have f: "find_hdr 0 0 t = (Inr c, u)"
    using find_hdr_start [OF c(1) t(1)] by (auto simp: u_def)
  define v where "v = u\<lparr>blk := b, cblk := NOT b, xlen := int (length d), bufp := 0,
    rx := map Some d @ map Some chk @ rest\<rparr>"
  have uv: "length (pkt v) = 1024" "pkt v = pkt s" "crc_mode v = crc_mode s" "crc_mode u = crc_mode s"
    using pkt by (simp_all add: v_def u_def t(2))
  define w where "w = v\<lparr>pkt := d @ drop (length d) (pkt s), rx := map Some chk @ rest\<rparr>"
  have r: "read_pkt (length d) 0 v = (True, w)"
    using read_pkt_data [of v d "map Some chk @ rest" 0] size uv
    by (auto simp: v_def w_def block_size_def)
  have "xyzModem_get_hdr s = read_body c u"
    by (simp add: xyzModem_get_hdr_def t_def [symmetric] f)
  also have "\<dots> = (case CYGACC_COMM_IF_GETC_TIMEOUT w of
      (None, s4) \<Rightarrow> (xyzModem_timeout, s4)
    | (Some k1, s4) \<Rightarrow>
        (let s5 = s4\<lparr>crc1 := k1\<rparr>
         in if crc_mode s5
            then (case CYGACC_COMM_IF_GETC_TIMEOUT s5 of
                    (None, s6) \<Rightarrow> (xyzModem_timeout, s6)
                  | (Some k2, s6) \<Rightarrow> validate (s6\<lparr>crc2 := k2\<rparr>))
            else validate s5))"
  proof -
    have "CYGACC_COMM_IF_GETC_TIMEOUT u =
        (Some b, u\<lparr>rx := map Some (NOT b # d @ chk) @ rest\<rparr>)"
      by (rule GETC_Some) (simp add: u_def)
    moreover have "CYGACC_COMM_IF_GETC_TIMEOUT (u\<lparr>rx := map Some (NOT b # d @ chk) @ rest, blk := b\<rparr>) =
        (Some (NOT b), u\<lparr>blk := b, rx := map Some d @ map Some chk @ rest\<rparr>)"
      by (cases u) (simp add: CYGACC_COMM_IF_GETC_TIMEOUT_def)
    moreover have "u\<lparr>blk := b, rx := map Some d @ map Some chk @ rest, cblk := NOT b,
        xlen := int (length d), bufp := 0\<rparr> = v"
      by (cases u) (simp add: v_def)
    ultimately show ?thesis
      unfolding read_body_def c(2,4) by (simp add: r w_def)
  qed
  also have "\<dots> = validate (received b d chk rest s)"
  proof (cases "crc_mode s")
    case True
    then obtain k1 k2 where k: "chk = [k1, k2]"
      using chk by (auto simp: length_Suc_conv numeral_2_eq_2)
    have "rx w = Some k1 # Some k2 # rest" "crc_mode w"
      using True by (simp_all add: w_def k uv)
    moreover have "w\<lparr>rx := rest, crc1 := k1, crc2 := k2\<rparr> = received b d chk rest s"
      using True c(3) by (cases s) (simp add: w_def v_def u_def t(2) received_def k)
    ultimately show ?thesis
      by (cases w) (simp add: CYGACC_COMM_IF_GETC_TIMEOUT_def)
  next
    case False
    then obtain k1 where k: "chk = [k1]" using chk by (auto simp: length_Suc_conv)
    have "rx w = Some k1 # rest" "\<not> crc_mode w"
      using False by (simp_all add: w_def k uv)
    moreover have "w\<lparr>rx := rest, crc1 := k1\<rparr> = received b d chk rest s"
      using False c(3) by (cases s) (simp add: w_def v_def u_def t(2) received_def k)
    ultimately show ?thesis
      by (cases w) (simp add: CYGACC_COMM_IF_GETC_TIMEOUT_def)
  qed
  finally show ?thesis .
qed

lemma crc_bytes:
  "push_bit 8 (ucast (ucast (drop_bit 8 k) :: u8)) OR ucast (ucast k :: u8) = (k :: u16)"
  by (rule bit_word_eqI, unfold bit_or_iff bit_push_bit_iff bit_ucast_iff bit_drop_bit_eq) auto

lemma and_ff: "(x :: u16) AND 0xFF = ucast (ucast x :: u8)"
proof -
  have ff: "(0xFF :: u16) = mask 8" by (simp add: mask_eq_exp_minus_1)
  show ?thesis
    unfolding ff by (rule bit_word_eqI, unfold bit_and_iff bit_mask_iff bit_ucast_iff) auto
qed

lemma ucast_up_down: "(ucast (ucast (a :: u8) :: u16) :: u8) = a"
  by (rule bit_word_eqI) (simp add: bit_ucast_iff)

lemma ucast_inj16: "(ucast (a :: u8) :: u16) = ucast b \<longleftrightarrow> a = b"
  using ucast_up_down by metis

lemma ucast_add: "(ucast (v + w :: u16) :: u8) = ucast v + ucast w"
proof -
  have "v + w = word_of_int (uint v + uint w)" by simp
  then have "(ucast (v + w :: u16) :: u8) = word_of_int (uint v + uint w)"
    by (simp only:) (rule ucast_down_wi, simp add: is_down)
  also have "\<dots> = word_of_int (uint v) + word_of_int (uint w)" by simp
  finally show ?thesis by (simp add: word_of_int_uint)
qed

lemma sum_bytes_low: "(ucast (sum_bytes v d) :: u8) = ucast v + sum_list d"
  by (induction d arbitrary: v) (simp_all add: ucast_add ucast_up_down add.assoc)

lemma trailer_one_byte:
  "trailer crc (xs @ a' # ys) = trailer crc (xs @ a # ys) \<longleftrightarrow> a' = a"
proof (cases crc)
  case True
  have "crc16_ccitt d' = crc16_ccitt d" if "trailer True d' = trailer True d" for d d'
    using that crc_bytes [of "crc16_ccitt d"] crc_bytes [of "crc16_ccitt d'"]
    by (simp add: trailer_def)
  from this [of "xs @ a' # ys" "xs @ a # ys"] True crc_one_byte [of a' a xs ys] show ?thesis by auto
qed (simp add: trailer_def sum_bytes_low)

lemma validate_received:
  "validate (received b d' (trailer (crc_mode s) d) rest s) =
    (if trailer (crc_mode s) d' = trailer (crc_mode s) d then 0 else xyzModem_cksum,
     received b d' (trailer (crc_mode s) d) rest s)"
proof -
  define r where "r = received b d' (trailer (crc_mode s) d) rest s"
  have r: "blk r XOR cblk r = 0xFF" "take (nat (xlen r)) (pkt r) = d'" "crc_mode r = crc_mode s"
    by (simp_all add: r_def received_def)
  show ?thesis
  proof (cases "crc_mode s")
    case True
    then have "push_bit 8 (ucast (crc1 r)) OR ucast (crc2 r) = crc16_ccitt d"
      by (simp add: r_def received_def trailer_def crc_bytes)
    moreover have "trailer True d' = trailer True d \<longleftrightarrow> crc16_ccitt d' = crc16_ccitt d"
      using crc_bytes [of "crc16_ccitt d"] crc_bytes [of "crc16_ccitt d'"]
      by (auto simp: trailer_def)
    ultimately show ?thesis
      using True r unfolding r_def [symmetric] by (simp add: validate_def)
  next
    case False
    then have "crc1 r = ucast (sum_bytes 0 d)"
      by (simp add: r_def received_def trailer_def)
    then show ?thesis
      using False r unfolding r_def [symmetric]
      by (auto simp: validate_def and_ff ucast_inj16 trailer_def)
  qed
qed

lemma length_trailer: "length (trailer crc d) = (if crc then 2 else 1)"
  by (simp add: trailer_def)

lemma get_hdr_frame:
  assumes "block_size d" "length (pkt s) = 1024" "rx s = map Some (frame (crc_mode s) b d) @ rest"
  shows "xyzModem_get_hdr s = (0, received b d (trailer (crc_mode s) d) rest s)"
  using get_hdr_body [OF assms(1,2) length_trailer, where b = b and rest = rest] assms(3)
  by (simp add: frame_def validate_received)

section \<open>Properties of one packet\<close>

text \<open>
  C27: a packet of a correct sender, of 128 or 1024 bytes and with either check, is accepted: the
  data are in the buffer, the block number is set and the line is left behind the packet.  If
  exactly one data byte was damaged on the line, whichever and however, the same packet is
  refused with \<^verbatim>\<open>xyzModem_cksum\<close>.
\<close>

theorem xyz_packet_check:
  assumes "block_size (xs @ a # ys)" "length (pkt s) = 1024"
    "rx s = map Some (damaged (crc_mode s) b (xs @ a # ys) (xs @ a' # ys)) @ rest"
  shows "xyzModem_get_hdr s =
    (if a' = a then 0 else xyzModem_cksum,
     received b (xs @ a' # ys) (trailer (crc_mode s) (xs @ a # ys)) rest s)"
proof -
  have "block_size (xs @ a' # ys)" using assms(1) by (simp add: block_size_def)
  from get_hdr_body [OF this assms(2) length_trailer, where b = b and rest = rest]
  show ?thesis
    using assms(3) by (simp add: damaged_def validate_received trailer_one_byte)
qed

theorem xyz_packet_check_witness:
  "fst (xyzModem_get_hdr (zero_xyz (map Some (damaged False 1 (replicate 127 7 @ [9]) (replicate 127 7 @ [9]))))) = 0
   \<and> fst (xyzModem_get_hdr (zero_xyz (map Some (damaged False 1 (replicate 127 7 @ [9]) (replicate 127 7 @ [8]))))) =
     xyzModem_cksum"
proof -
  have d: "block_size (replicate 127 7 @ 9 # [])" by (simp add: block_size_def)
  have *: "length (pkt (zero_xyz l)) = 1024" "crc_mode (zero_xyz l) = False" "rx (zero_xyz l) = l" for l
    by (simp_all add: zero_xyz_def)
  show ?thesis
    using xyz_packet_check [OF d *(1), where rest = "[]" and a' = 9 and b = 1]
      xyz_packet_check [OF d *(1), where rest = "[]" and a' = 8 and b = 1]
    by (simp add: *)
qed

end
