(* ===== verification/Xyz_Transfer.thy ===== *)
theory Xyz_Transfer
  imports Xyz_Modem_Props
begin

text \<open>
  A whole Y-modem transfer: the sender's line, the file that the receiver still has to
  deliver in a given state, and the proof that reading delivers it.
\<close>

section \<open>The sender's line\<close>

fun frames :: "bool \<Rightarrow> u8 \<Rightarrow> u8 list list \<Rightarrow> u8 list" where
  "frames crc k [] = []"
| "frames crc k (d # ds) = frame crc k d @ frames crc (k + 1) ds"

definition ending :: "bool \<Rightarrow> u8 list" where
  "ending crc = EOT # frame crc 0 (replicate 128 0)"

text \<open>Blocks of the two sizes that only start while the file of length \<open>F\<close> is not complete.\<close>

fun fits :: "nat \<Rightarrow> nat \<Rightarrow> u8 list list \<Rightarrow> bool" where
  "fits F R [] = True"
| "fits F R (d # ds) = (block_size d \<and> R \<le> F \<and> fits F (R + length d) ds)"

definition ysending :: "nat \<Rightarrow> u8 list list \<Rightarrow> xyz \<Rightarrow> bool" where
  "ysending F ds s \<longleftrightarrow>
     xmode s = xyzModem_ymodem \<and> \<not> at_eof s \<and> length (pkt s) = 1024 \<and>
     0 \<le> xlen s \<and> bufp s + nat (xlen s) \<le> 1024 \<and>
     F = unat (file_length s) \<and> 0 < F \<and> F < 4294966272 \<and> fits F (unat (read_length s)) ds \<and>
     rx s = map Some (frames (crc_mode s) (next_blk s) ds @ ending (crc_mode s))"

text \<open>What is still to be delivered: the rest of the packet and the rest of the file.\<close>

definition content :: "nat \<Rightarrow> u8 list list \<Rightarrow> xyz \<Rightarrow> u8 list" where
  "content F ds s =
     take (nat (xlen s)) (drop (bufp s) (pkt s)) @ take (F - unat (read_length s)) (concat ds)"

section \<open>Steps of the receiver\<close>

lemma accept_block_len:
  assumes md: "xmode r = xyzModem_ymodem" and F: "F = unat (file_length r)" "0 < F" "F < 4294966272"
    and R: "unat (read_length r) \<le> F" and L: "xlen r = int L" "L \<le> 1024"
  shows "\<exists>rl. unat rl = unat (read_length r) + L \<and>
    accept_block r = r\<lparr>tx_ack := True, next_blk := next_blk r + 1, read_length := rl,
      xlen := int (if unat rl > F then F - unat (read_length r) else L)\<rparr>"
proof -
  define rl where "rl = read_length r + word_of_nat L"
  have uL: "unat (word_of_nat L :: u32) = L" using L(2) by (simp add: unat_of_nat32)
  have rl: "unat rl = unat (read_length r) + L"
    using R F(3) L(2) by (simp add: rl_def unat_plus32 uL)
  have fl: "file_length r \<noteq> 0" using F by auto
  have gt: "rl > file_length r \<longleftrightarrow> unat rl > F" by (simp add: F(1) less_iff32)
  have cut: "sint (word_of_nat L - (rl - file_length r)) = int (F - unat (read_length r))"
    if g: "unat rl > F"
  proof -
    have "unat (rl - file_length r) = unat rl - F" using g F(1) by (simp add: unat_minus32)
    then have "unat (word_of_nat L - (rl - file_length r)) = L - (unat rl - F)"
      using uL rl R by (simp add: unat_minus32)
    also have "\<dots> = F - unat (read_length r)" using rl R g by simp
    finally show ?thesis using g rl L(2) by (simp only: sint32) simp
  qed
  have "accept_block r = r\<lparr>tx_ack := True, next_blk := next_blk r + 1, read_length := rl,
      xlen := int (if unat rl > F then F - unat (read_length r) else L)\<rparr>"
    using md fl gt cut L(1) unfolding rl_def by (cases r) (simp add: accept_block_def)
  with rl show ?thesis by blast
qed

lemma read_block_data:
  assumes y: "ysending F (d # ds) s" and x0: "xlen s = 0"
  shows "\<exists>s1. read_block (Suc n) st s = (0, s1) \<and> ysending F ds s1 \<and>
    content F ds s1 = content F (d # ds) s"
proof -
  define rest where "rest = map Some (frames (crc_mode s) (next_blk s + 1) ds @ ending (crc_mode s))"
  define L where "L = length d"
  have bs: "block_size d" and R: "unat (read_length s) \<le> F"
    and fit: "fits F (unat (read_length s) + L) ds" and pkt: "length (pkt s) = 1024"
    and F: "F = unat (file_length s)" "0 < F" "F < 4294966272"
    and rx: "rx s = map Some (frame (crc_mode s) (next_blk s) d) @ rest"
    and md: "xmode s = xyzModem_ymodem" "\<not> at_eof s"
    using y by (auto simp: ysending_def rest_def L_def)
  define r where "r = received (next_blk s) d (trailer (crc_mode s) d) rest s"
  have g: "xyzModem_get_hdr s = (0, r)"
    using get_hdr_frame [OF bs pkt rx] by (simp add: r_def)
  have L: "L \<le> 1024" using bs by (auto simp: L_def block_size_def)
  have rf: "xlen r = int L" "pkt r = d @ drop L (pkt s)" "bufp r = 0" "read_length r = read_length s"
    "file_length r = file_length s" "xmode r = xyzModem_ymodem" "blk r = next_blk r"
    "next_blk r = next_blk s" "crc_mode r = crc_mode s" "rx r = rest" "at_eof r = at_eof s"
    by (simp_all add: r_def received_def L_def md)
  obtain rl where rl: "unat rl = unat (read_length s) + L" and
    acc: "accept_block r = r\<lparr>tx_ack := True, next_blk := next_blk s + 1, read_length := rl,
      xlen := int (if unat rl > F then F - unat (read_length s) else L)\<rparr>"
    using accept_block_len [of r F L] rf F R L by auto
  define s1 where "s1 = accept_block r"
  have "read_block (Suc n) st s = (0, s1)" using g rf by (simp add: s1_def)
  moreover have "ysending F ds s1"
    using rf md F fit rl L pkt unfolding ysending_def s1_def acc by (auto simp: rest_def L_def)
  moreover have "content F ds s1 = content F (d # ds) s"
    using rf rl L x0 R unfolding content_def s1_def acc by (auto simp: L_def)
  ultimately show ?thesis by blast
qed

lemma find_hdr_eot:
  "rx s = Some EOT # xs \<Longrightarrow> find_hdr 0 0 s = (Inl xyzModem_eof, CYGACC_COMM_IF_PUTC ACK (s\<lparr>rx := xs\<rparr>))"
  by (simp add: find_hdr.simps [of 0 0 s] Let_def)

lemma read_block_eof:
  assumes y: "ysending F [] s"
  shows "\<exists>s1. read_block (Suc n) st s = (0, s1) \<and> at_eof s1"
proof -
  define xs where "xs = map Some (frame (crc_mode s) 0 (replicate 128 0))"
  have s: "rx s = Some EOT # xs" "xmode s = xyzModem_ymodem" "length (pkt s) = 1024"
    using y by (simp_all add: ysending_def ending_def xs_def)
  define t where "t = CYGACC_COMM_IF_PUTC ACK
    ((if tx_ack s then (CYGACC_COMM_IF_PUTC ACK s)\<lparr>tx_ack := False\<rparr> else s)\<lparr>rx := xs\<rparr>)"
  have g: "xyzModem_get_hdr s = (xyzModem_eof, t)"
    using find_hdr_eot [of "if tx_ack s then (CYGACC_COMM_IF_PUTC ACK s)\<lparr>tx_ack := False\<rparr> else s" xs] s(1)
    by (simp add: xyzModem_get_hdr_def t_def)
  define u where "u = (put_ready (CYGACC_COMM_IF_PUTC ACK t))
    \<lparr>total_retries := total_retries (put_ready (CYGACC_COMM_IF_PUTC ACK t)) + 1\<rparr>"
  have u: "rx u = map Some (frame (crc_mode u) 0 (replicate 128 0)) @ []" "length (pkt u) = 1024"
    "xmode t = xyzModem_ymodem" "xmode (CYGACC_COMM_IF_PUTC ACK t) = xyzModem_ymodem"
    using s by (simp_all add: u_def t_def xs_def put_ready_def CYGACC_COMM_IF_PUTC_def)
  obtain v where v: "xyzModem_get_hdr u = (0, v)"
    using get_hdr_frame [OF _ u(2,1)] by (auto simp: block_size_def)
  then have "finish t = (0, (CYGACC_COMM_IF_PUTC ACK v)\<lparr>at_eof := True\<rparr>)"
    using u(4) by (simp add: finish_def u_def Let_def)
  with g show ?thesis by simp
qed

section \<open>Reading\<close>

text \<open>Delivering \<open>c\<close> from state \<open>s\<close> in reads of any size.\<close>

definition delivers :: "nat \<Rightarrow> u8 list \<Rightarrow> int \<Rightarrow> u8 list \<Rightarrow> (u8 list \<times> int option \<times> xyz) res \<Rightarrow> bool" where
  "delivers F acc n c res \<longleftrightarrow>
     (\<exists>s'. res = Inr (acc @ take (nat n) c, None, s') \<and>
        (if n \<le> int (length c) then \<exists>ds'. ysending F ds' s' \<and> content F ds' s' = drop (nat n) c
         else at_eof s'))"

declare stream_read_loop.simps [simp del]

lemma delivers_append:
  assumes "delivers F (acc @ p) (n - int (length p)) c res" "int (length p) \<le> n"
  shows "delivers F acc n (p @ c) res"
proof -
  have "nat (n - int (length p)) = nat n - length p" "take (nat n) (p @ c) = p @ take (nat n - length p) c"
    "drop (nat n) (p @ c) = drop (nat n - length p) c"
    using assms(2) by auto
  with assms show ?thesis by (auto simp: delivers_def split: if_splits)
qed

lemma copy_step:
  assumes y: "ysending F ds s" and len: "0 \<le> len" "len \<le> xlen s"
    and p: "p = take (nat len) (drop (bufp s) (pkt s))"
    and s2: "s2 = s\<lparr>xlen := xlen s - len, bufp := bufp s + nat len\<rparr>"
  shows "ysending F ds s2 \<and> content F ds s = p @ content F ds s2 \<and> length p = nat len"
proof -
  have "nat (xlen s) = nat len + nat (xlen s - len)" using len by simp
  then have "take (nat (xlen s)) (drop (bufp s) (pkt s)) =
      p @ take (nat (xlen s - len)) (drop (bufp s + nat len) (pkt s))"
    by (simp add: p take_add add.commute)
  moreover have "nat len \<le> nat (xlen s)" using len by simp
  moreover from this have "length p = nat len"
    using y by (auto simp: p ysending_def)
  ultimately show ?thesis
    using y len by (auto simp: s2 content_def ysending_def)
qed

lemma next_packet:
  assumes y: "ysending F ds s"
  obtains s1 ds1 where
    "(if xlen s = 0 then read_block xyzModem_MAX_RETRIES xyzModem_cancel s else (0, s)) = (0, s1)"
    "ysending F ds1 s1" "content F ds1 s1 = content F ds s" |
    s1 where "(if xlen s = 0 then read_block xyzModem_MAX_RETRIES xyzModem_cancel s else (0, s)) = (0, s1)"
    "at_eof s1" "content F ds s = []"
proof (cases "xlen s = 0")
  case True
  have n: "(20 :: nat) = Suc 19" by simp
  show thesis
  proof (cases ds)
    case Nil
    with y True read_block_eof [of F s 19 "- 5"] that(2) show thesis
      unfolding n by (auto simp: content_def)
  next
    case (Cons d ds')
    with y True read_block_data [of F d ds' s 19 "- 5"] that(1) show thesis
      unfolding n by metis
  qed
next
  case False
  with y that(1) show thesis by simp
qed

lemma stream_read_content:
  "ysending F ds s \<Longrightarrow> 0 \<le> n \<Longrightarrow> delivers F acc n (content F ds s) (stream_read_loop n acc s)"
proof (induction n acc s arbitrary: ds rule: stream_read_loop.induct)
  case (1 n acc s)
  have e: "\<not> at_eof s" using 1(3) by (simp add: ysending_def)
  show ?case
  proof (cases "n = 0")
    case True
    with 1(3) show ?thesis by (auto simp: stream_read_loop.simps [of 0 acc s] delivers_def)
  next
    case False
    with 1(4) have n: "n > 0" by simp
    then have c: "\<not> (at_eof s \<or> n \<le> 0)" using e by simp
    show ?thesis
    proof (rule next_packet [OF 1(3)])
      fix s1
      assume r: "(if xlen s = 0 then read_block 20 (- 5) s else (0, s)) = (0, s1)"
        and eof: "at_eof s1" and nil: "content F ds s = []"
      have "stream_read_loop n acc s = stream_read_loop n acc s1"
        using c r eof by (simp add: stream_read_loop.simps [of n acc s])
      also have "\<dots> = Inr (acc, None, s1)" using eof by (simp add: stream_read_loop.simps [of n acc s1])
      finally show ?thesis using n eof nil by (simp add: delivers_def)
    next
      fix s1 ds1
      assume r: "(if xlen s = 0 then read_block 20 (- 5) s else (0, s)) = (0, s1)"
        and y1: "ysending F ds1 s1" and ct: "content F ds1 s1 = content F ds s"
      define len where "len = (if n < xlen s1 then n else xlen s1)"
      define p where "p = take (nat len) (drop (bufp s1) (pkt s1))"
      define s2 where "s2 = s1\<lparr>xlen := xlen s1 - len, bufp := bufp s1 + nat len\<rparr>"
      have ok: "\<not> at_eof s1" "0 \<le> len" "len \<le> xlen s1" "len \<le> n" "\<not> (len < 0 \<or> bufp s1 + nat len > 1024)"
        using y1 n by (auto simp: len_def ysending_def)
      note cp = copy_step [OF y1 ok(2,3) p_def s2_def]
      have "stream_read_loop n acc s = stream_read_loop (n - len) (acc @ p) s2"
        using c r ok by (simp add: stream_read_loop.simps [of n acc s] len_def [symmetric]
            p_def s2_def)
      moreover have "delivers F (acc @ p) (n - len) (content F ds1 s2)
          (stream_read_loop (n - len) (acc @ p) s2)"
        unfolding p_def s2_def
        by (rule 1(2) [OF c r [symmetric] refl _ _ len_def])
          (use ok cp in \<open>simp_all add: p_def s2_def\<close>)
      ultimately show ?thesis
        using delivers_append [of F acc p n "content F ds1 s2"] cp ct ok by simp
    qed
  qed
qed

text \<open>Successive reads, up to an error.\<close>

fun read_chunks :: "int list \<Rightarrow> xyz \<Rightarrow> (u8 list \<times> int option) res" where
  "read_chunks [] s = Inr ([], None)"
| "read_chunks (n # ns) s =
     res_bind (xyzModem_stream_read n s) (\<lambda>(bs, err, s1).
       if err \<noteq> None then Inr (bs, err)
       else res_bind (read_chunks ns s1) (\<lambda>(bs', err'). Inr (bs @ bs', err')))"

lemma read_chunks_eof: "at_eof s \<Longrightarrow> read_chunks ns s = Inr ([], None)"
  by (induction ns) (simp_all add: xyzModem_stream_read_def stream_read_loop.simps [of _ "[]" s])

lemma read_chunks_content:
  "ysending F ds s \<Longrightarrow> \<forall>n \<in> set ns. 0 \<le> n \<Longrightarrow>
     read_chunks ns s = Inr (take (nat (sum_list ns)) (content F ds s), None)"
proof (induction ns arbitrary: ds s)
  case (Cons n ns)
  then have n: "0 \<le> n" "\<forall>n \<in> set ns. 0 \<le> n" "0 \<le> sum_list ns" by (auto intro: sum_list_nonneg)
  define c where "c = content F ds s"
  obtain s' where r: "xyzModem_stream_read n s = Inr (take (nat n) c, None, s')"
    and s': "if n \<le> int (length c) then \<exists>ds'. ysending F ds' s' \<and> content F ds' s' = drop (nat n) c
      else at_eof s'"
    using stream_read_content [OF Cons.prems(1) n(1), of "[]"]
    by (auto simp: delivers_def xyzModem_stream_read_def c_def)
  have sum: "nat (sum_list (n # ns)) = nat n + nat (sum_list ns)" using n by simp
  show ?case
  proof (cases "n \<le> int (length c)")
    case True
    then obtain ds' where "ysending F ds' s'" "content F ds' s' = drop (nat n) c" using s' by auto
    with Cons.IH [of ds' s'] n(2) r show ?thesis
      unfolding sum c_def [symmetric] by (simp add: take_add)
  next
    case False
    then have "at_eof s'" "length c \<le> nat n" using s' by auto
    with r show ?thesis
      unfolding sum c_def [symmetric] by (simp add: read_chunks_eof)
  qed
qed simp

section \<open>The file header\<close>

text \<open>Decimal digits, as a sender writes the length.\<close>

fun dec :: "nat \<Rightarrow> u8 list" where
  "dec n = (if n < 10 then [word_of_nat (48 + n)] else dec (n div 10) @ [word_of_nat (48 + n mod 10)])"

declare dec.simps [simp del]

lemma digit_facts:
  assumes d: "d < 10" and c: "c = (word_of_nat (48 + d) :: u8)"
  shows "is_hex c \<and> from_hex c = int d \<and> c \<noteq> 0 \<and> c \<noteq> 0x20 \<and> to_lower c \<noteq> 0x78"
proof -
  have "d = 0 \<or> d = 1 \<or> d = 2 \<or> d = 3 \<or> d = 4 \<or> d = 5 \<or> d = 6 \<or> d = 7 \<or> d = 8 \<or> d = 9"
    using d by auto
  then show ?thesis
    unfolding c by (elim disjE) (simp_all add: is_hex_def from_hex_def to_lower_def)
qed

lemma parse_digit:
  assumes "d < 10"
  shows "parse_loop dl False 10 v (word_of_nat (48 + d) # s) =
    parse_loop dl False 10 (v * 10 + word_of_nat d) s"
  using digit_facts [OF assms refl] assms
  by (simp add: parse_loop.simps [of dl False 10 v "word_of_nat (48 + d) # s"] del: of_nat_add)

lemma parse_dec:
  "parse_loop dl False 10 v (dec n @ s) =
     parse_loop dl False 10 (v * 10 ^ length (dec n) + word_of_nat n) s"
proof (induction n arbitrary: v s rule: dec.induct)
  case (1 n)
  show ?case
  proof (cases "n < 10")
    case True
    then show ?thesis by (simp add: dec.simps [of n] parse_digit del: of_nat_add)
  next
    case False
    have n: "(word_of_nat n :: u32) = word_of_nat (n div 10) * 10 + word_of_nat (n mod 10)"
      by (metis div_mult_mod_eq of_nat_add of_nat_mult of_nat_numeral)
    show ?thesis
      using False 1 [OF False] n
      by (simp add: dec.simps [of n] parse_digit algebra_simps del: of_nat_add)
  qed
qed

lemma dec_first:
  obtains d t where "d < 10" "dec n = word_of_nat (48 + d) # t"
    "t = [] \<or> (\<exists>e t'. e < 10 \<and> t = word_of_nat (48 + e) # t')"
proof (induction n arbitrary: thesis rule: dec.induct)
  case (1 n)
  show ?case
  proof (cases "n < 10")
    case True
    then show ?thesis using 1(2) [of n "[]"] by (simp add: dec.simps [of n])
  next
    case False
    obtain d t where dt: "d < 10" "dec (n div 10) = word_of_nat (48 + d) # t"
      "t = [] \<or> (\<exists>e t'. e < 10 \<and> t = word_of_nat (48 + e) # t')"
      using 1(1) [OF False] by blast
    have e: "dec n = word_of_nat (48 + d) # t @ [word_of_nat (48 + n mod 10)]"
      using False dt(2) by (simp add: dec.simps [of n] del: of_nat_add)
    have m: "n mod 10 < 10" by simp
    show ?thesis
    proof (rule 1(2) [OF dt(1) e])
      show "t @ [word_of_nat (48 + n mod 10)] = [] \<or>
          (\<exists>e t'. e < 10 \<and> t @ [word_of_nat (48 + n mod 10)] = word_of_nat (48 + e) # t')"
        using dt(3) m by (metis append_Cons append_Nil)
    qed
  qed
qed

lemma parse_num_dec: "parse_num (dec n @ 0 # s) (Some [0x20]) = Inr (Some (word_of_nat n))"
proof -
  obtain d t where d: "d < 10" "dec n = word_of_nat (48 + d) # t"
    and t: "t = [] \<or> (\<exists>e t'. e < 10 \<and> t = word_of_nat (48 + e) # t')"
    by (rule dec_first)
  define c :: u8 where "c = word_of_nat (48 + d)"
  note dc = digit_facts [OF d(1) c_def]
  obtain c1 r where r: "t @ 0 # s = c1 # r" "to_lower c1 \<noteq> 0x78"
  proof (cases "t = []")
    case True
    then show thesis using that [of 0 s] by (simp add: to_lower_def)
  next
    case False
    with t obtain e t' where e: "e < 10" "t = word_of_nat (48 + e) # t'" by blast
    then show thesis using that [of _ "t' @ 0 # s"] digit_facts [OF e(1) refl] by simp
  qed
  have "parse_num (dec n @ 0 # s) (Some [0x20]) = parse_loop (Some [0x20]) True 10 0 (c # c1 # r)"
    using d(2) dc r by (simp add: parse_num_def c_def)
  also have "\<dots> = parse_loop (Some [0x20]) False 10 0 (c # c1 # r)"
    using dc r by (simp add: parse_loop.simps [of "Some [0x20]" True 10 0 "c # c1 # r"]
        parse_loop.simps [of "Some [0x20]" False 10 0 "c # c1 # r"])
  also have "c # c1 # r = dec n @ 0 # s" using d(2) r by (simp add: c_def)
  also have "parse_loop (Some [0x20]) False 10 0 (dec n @ 0 # s) = Inr (Some (word_of_nat n))"
    by (simp add: parse_dec parse_loop.simps [of "Some [0x20]" False 10 _ "0 # s"])
  finally show ?thesis .
qed

lemma skip_name_zero: "0 \<notin> set name \<Longrightarrow> skip_name (name @ 0 # s) = Inr (Suc (length name))"
  by (induction name) auto

text \<open>Opening on a correct header leads to the state in which the whole file is to be delivered.\<close>

definition header :: "u8 list \<Rightarrow> nat \<Rightarrow> u8 list \<Rightarrow> u8 list" where
  "header name F pad = name @ 0 # dec F @ 0 # pad"

definition yline :: "u8 list \<Rightarrow> nat \<Rightarrow> u8 list \<Rightarrow> u8 list list \<Rightarrow> u8 option list" where
  "yline name F pad ds =
     map Some (frame True 0 (header name F pad) @ frames True 1 ds @ ending True)"

lemma open_header:
  assumes name: "0 \<notin> set name" and hs: "block_size (header name F pad)"
    and F: "0 < F" "F < 4294966272" and fit: "fits F 0 ds"
  shows "\<exists>s. xyzModem_stream_open True xyzModem_ymodem (yline name F pad ds) = Inr (None, s) \<and>
    ysending F ds s \<and> content F ds s = take F (concat ds)"
proof -
  define hdr where "hdr = header name F pad"
  define rest where "rest = map Some (frames True 1 ds @ ending True)"
  define s0 where "s0 = put_ready ((zero_xyz (yline name F pad ds))\<lparr>crc_mode := True, xmode := 2\<rparr>)"
  have s0: "rx s0 = map Some (frame (crc_mode s0) 0 hdr) @ rest" "length (pkt s0) = 1024"
    "crc_mode s0" "xmode s0 = 2" "\<not> at_eof s0" "read_length s0 = 0"
    by (simp_all add: s0_def put_ready_def CYGACC_COMM_IF_PUTC_def zero_xyz_def yline_def hdr_def
        rest_def)
  define r where "r = received 0 hdr (trailer True hdr) rest s0"
  have g: "xyzModem_get_hdr s0 = (0, r)"
    using get_hdr_frame [OF hs [folded hdr_def] s0(2,1)] s0(3) by (simp add: r_def)
  define n where "n = Suc (length name)"
  have pk: "pkt r = name @ 0 # dec F @ 0 # pad @ drop (length hdr) (pkt s0)"
    by (simp add: r_def received_def hdr_def header_def)
  have rf: "blk r = 0" "bufp r = 0" "xmode r = 2" "crc_mode r" "rx r = rest" "\<not> at_eof r"
    "read_length r = 0"
    using s0 by (simp_all add: r_def received_def)
  have nb: "n \<le> 1024" "length (pkt r) = 1024"
    using hs s0(2) unfolding pk by (auto simp: hdr_def header_def block_size_def n_def)
  define s1 where "s1 = r\<lparr>bufp := n, file_length := word_of_nat F, tx_ack := True\<rparr>"
  have "file_header r = Inr s1"
    using skip_name_zero [OF name] parse_num_dec rf
    by (simp add: file_header_def pk n_def s1_def Let_def)
  then have op: "xyzModem_stream_open True 2 (yline name F pad ds) =
      Inr (None, s1\<lparr>next_blk := 1, xlen := 0\<rparr>)"
    using g by (simp add: xyzModem_stream_open_def s0_def [symmetric] numeral_eq_Suc)
  have "unat (word_of_nat F :: u32) = F" using F by (simp add: unat_of_nat32)
  then have "ysending F ds (s1\<lparr>next_blk := 1, xlen := 0\<rparr>)"
    using rf nb F fit by (simp add: ysending_def s1_def rest_def)
  moreover have "content F ds (s1\<lparr>next_blk := 1, xlen := 0\<rparr>) = take F (concat ds)"
    using rf by (simp add: content_def s1_def)
  ultimately show ?thesis using op by blast
qed

section \<open>Misbehaving senders\<close>

lemma negative_length:
  assumes "0 < unat f" "unat f < unat r" "unat r - unat f \<le> 1024"
  shows "sint (word_of_nat L - (r + word_of_nat L - f) :: u32) = - int (unat r - unat f)"
proof -
  have e: "word_of_nat L - (r + word_of_nat L - f) = - (r - f)" by simp
  have u: "unat (r - f) = unat r - unat f" using assms by (simp add: unat_minus32)
  define m :: u32 where "m = word_of_nat (4294967296 - (unat r - unat f))"
  have m: "unat m = 4294967296 - (unat r - unat f)"
    unfolding m_def by (rule unat_of_nat32) (use assms in linarith)
  have "unat ((r - f) + m) = 0"
    using m u assms unfolding unat_word_ariths by simp
  then have "m = - (r - f)" by (metis add.commute eq_neg_iff_add_eq_0 unat_eq_zero)
  with m have n: "unat (- (r - f)) = 4294967296 - (unat r - unat f)" by simp
  define k where "k = unat r - unat f"
  have "0 < k" "k \<le> 1024" using assms by (simp_all add: k_def)
  then show ?thesis
    unfolding e sint32 n k_def [symmetric] by (simp add: of_nat_diff)
qed

lemma read_block_dups:
  "block_size d \<Longrightarrow> length (pkt s) = 1024 \<Longrightarrow> 0 < k \<Longrightarrow> \<not> at_eof s \<Longrightarrow>
   rx s = map Some (concat (replicate k (frame (crc_mode s) (next_blk s - 1) d))) @ rest \<Longrightarrow>
   \<exists>s1. read_block k st s = (0, s1) \<and> xlen s1 = int (length d) \<and> bufp s1 = 0 \<and>
     take (length d) (pkt s1) = d \<and> \<not> at_eof s1 \<and> next_blk s1 = next_blk s"
proof (induction k arbitrary: s st)
  case (Suc k)
  define rest' where "rest' = map Some (concat (replicate k (frame (crc_mode s) (next_blk s - 1) d))) @ rest"
  define r where "r = received (next_blk s - 1) d (trailer (crc_mode s) d) rest' s"
  define s1 where "s1 = CYGACC_COMM_IF_PUTC ACK r"
  have rx: "rx s = map Some (frame (crc_mode s) (next_blk s - 1) d) @ rest'"
    using Suc.prems(5) by (simp add: rest'_def)
  have g: "xyzModem_get_hdr s = (0, r)"
    using get_hdr_frame [OF Suc.prems(1,2) rx] by (simp add: r_def)
  have f: "blk r = next_blk s - 1" "next_blk r = next_blk s" "next_blk s - 1 \<noteq> next_blk s"
    by (simp_all add: r_def received_def)
  have step: "read_block (Suc k) st s = read_block k 0 s1"
    using g f by (simp add: s1_def)
  have s1: "length (pkt s1) = 1024" "\<not> at_eof s1" "crc_mode s1 = crc_mode s" "next_blk s1 = next_blk s"
    "xlen s1 = int (length d)" "bufp s1 = 0" "take (length d) (pkt s1) = d" "rx s1 = rest'"
    using Suc.prems(1,2,4) by (auto simp: s1_def r_def received_def CYGACC_COMM_IF_PUTC_def block_size_def)
  show ?case
  proof (cases "k = 0")
    case True
    with step s1 show ?thesis by simp
  next
    case False
    with Suc.IH [of s1 0] Suc.prems(1) s1 step show ?thesis by (simp add: rest'_def)
  qed
qed simp

section \<open>Properties\<close>

text \<open>
  C28: a Y-modem transfer is exact.  When a sender puts the file name and the decimal length
  into the header, cuts the padded file into blocks of 128 and 1024 bytes in any mixture and
  ends it properly, opening succeeds, and a caller that reads in pieces of any sizes gets the
  file, its first bytes up to the sum of the sizes, without an error.
\<close>

theorem ymodem_transfer:
  assumes "0 \<notin> set name" "block_size (header name (length f) pad)" "f \<noteq> []"
    "length f < 4294966272" "fits (length f) 0 ds" "take (length f) (concat ds) = f"
    "\<forall>n \<in> set ns. 0 \<le> n"
  shows "\<exists>s. xyzModem_stream_open True xyzModem_ymodem (yline name (length f) pad ds) = Inr (None, s) \<and>
    read_chunks ns s = Inr (take (nat (sum_list ns)) f, None)"
proof -
  have "0 < length f" using assms(3) by simp
  from open_header [OF assms(1,2) this assms(4,5)] obtain s where
    s: "xyzModem_stream_open True 2 (yline name (length f) pad ds) = Inr (None, s)"
      "ysending (length f) ds s" "content (length f) ds s = take (length f) (concat ds)" by blast
  with read_chunks_content [OF s(2) assms(7)] assms(6) show ?thesis by auto
qed

theorem ymodem_transfer_witness:
  "\<exists>s. xyzModem_stream_open True xyzModem_ymodem
        (yline [0x61] 3 (replicate 124 0) [[1, 2, 3] @ replicate 125 EOF]) = Inr (None, s) \<and>
      read_chunks [2, 5] s = Inr ([1, 2, 3], None)"
proof -
  have three: "length [1 :: u8, 2, 3] = 3" by simp
  have "block_size (header [0x61] 3 (replicate 124 0))"
    by (simp add: block_size_def header_def dec.simps)
  moreover have "fits 3 0 [[1, 2, 3] @ replicate 125 EOF]"
    by (simp add: block_size_def)
  ultimately show ?thesis
    using ymodem_transfer [of "[0x61]" "[1, 2, 3]" "replicate 124 0" "[[1, 2, 3] @ replicate 125 EOF]"
        "[2, 5]", unfolded three] by (simp del: read_chunks.simps)
qed

text \<open>
  A sender that goes on after the end of the file takes the receiver out of its buffer.
  Once the last block has run over the announced length, the next block in sequence makes the
  length of the packet negative, and the copy to the caller gets that length.
\<close>

theorem ymodem_overrun:
  assumes "xmode s = xyzModem_ymodem" "\<not> at_eof s" "length (pkt s) = 1024" "xlen s = 0"
    "block_size d" "rx s = map Some (frame (crc_mode s) (next_blk s) d) @ rest"
    "0 < unat (file_length s)" "unat (file_length s) < unat (read_length s)"
    "unat (read_length s) - unat (file_length s) \<le> 1024" "unat (read_length s) < 4294966272" "0 < n"
  shows "xyzModem_stream_read n s = Inl BadAccess"
proof -
  define r where "r = received (next_blk s) d (trailer (crc_mode s) d) rest s"
  have g: "xyzModem_get_hdr s = (0, r)" using get_hdr_frame [OF assms(5,3,6)] by (simp add: r_def)
  have rf: "xlen r = int (length d)" "read_length r = read_length s" "file_length r = file_length s"
    "xmode r = 2" "blk r = next_blk r" "at_eof r = at_eof s"
    using assms(1) by (simp_all add: r_def received_def)
  define s1 where "s1 = accept_block r"
  have fl: "file_length s \<noteq> 0" using assms(7) by auto
  have "unat (read_length s + word_of_nat (length d)) = unat (read_length s) + length d"
    using assms(5,10) by (auto simp: block_size_def unat_plus32)
  then have gt: "read_length s + word_of_nat (length d) > file_length s"
    using assms(8) by (simp add: less_iff32)
  have "xlen s1 = sint (word_of_nat (length d) -
      (read_length s + word_of_nat (length d) - file_length s))"
    using rf fl gt by (simp add: s1_def accept_block_def)
  then have "xlen s1 = - int (unat (read_length s) - unat (file_length s))"
    unfolding negative_length [OF assms(7,8,9)] .
  moreover have "0 < unat (read_length s) - unat (file_length s)" using assms(8) by simp
  ultimately have neg: "xlen s1 < 0" by linarith
  have "at_eof s1 = at_eof r" by (simp add: s1_def accept_block_def Let_def)
  moreover have "read_block 20 (- 5) s = (0, s1)"
    using g rf by (simp add: s1_def numeral_eq_Suc)
  ultimately show ?thesis
    using assms(2,4,11) neg rf by (simp add: xyzModem_stream_read_def stream_read_loop.simps [of n "[]" s])
qed

theorem ymodem_overrun_witness:
  "xyzModem_stream_read 10 ((zero_xyz (map Some (frame False 0 (replicate 128 0))))
     \<lparr>xmode := xyzModem_ymodem, file_length := 100, read_length := 128\<rparr>) = Inl BadAccess"
  by (rule ymodem_overrun [where d = "replicate 128 0" and rest = "[]"])
    (simp_all add: zero_xyz_def block_size_def)

text \<open>
  A block is delivered twice.  When a sender repeats the block before the expected one
  as often as the receiver retries, each repetition is acknowledged without an error status, and
  the copy that follows hands the repeated block to the caller as new data.
\<close>

theorem xyz_duplicate_delivered:
  assumes "block_size d" "length (pkt s) = 1024" "\<not> at_eof s" "xlen s = 0"
    "rx s = map Some (concat (replicate 20 (frame (crc_mode s) (next_blk s - 1) d))) @ rest"
    "0 < n" "n \<le> int (length d)"
  shows "\<exists>s'. xyzModem_stream_read n s = Inr (take (nat n) d, None, s') \<and> next_blk s' = next_blk s"
proof -
  obtain s1 where s1: "read_block 20 (- 5) s = (0, s1)" "xlen s1 = int (length d)" "bufp s1 = 0"
    "take (length d) (pkt s1) = d" "\<not> at_eof s1" "next_blk s1 = next_blk s"
    using read_block_dups [OF assms(1,2) _ assms(3,5)] by fastforce
  have len: "(if n < xlen s1 then n else xlen s1) = n" "nat n \<le> 1024"
    using assms(1,7) s1(2) by (auto simp: block_size_def)
  have "take (nat n) (pkt s1) = take (nat n) d"
    using s1(4) assms(7) by (metis min.absorb1 nat_le_iff take_take)
  then show ?thesis
    using assms(3,4,6) s1 len
    by (simp add: xyzModem_stream_read_def stream_read_loop.simps [of n "[]" s]
        stream_read_loop.simps [of 0])
qed

theorem xyz_duplicate_delivered_witness:
  "\<exists>s'. xyzModem_stream_read 3 ((zero_xyz (map Some (concat (replicate 20
       (frame False 0 ([1, 2, 3] @ replicate 125 0))))))\<lparr>xmode := xyzModem_xmodem, next_blk := 1\<rparr>) =
     Inr ([1, 2, 3], None, s') \<and> next_blk s' = 1"
  using xyz_duplicate_delivered [where n = 3 and d = "[1, 2, 3] @ replicate 125 0" and rest = "[]" and
      s = "(zero_xyz (map Some (concat (replicate 20
       (frame False 0 ([1, 2, 3] @ replicate 125 0))))))\<lparr>xmode := xyzModem_xmodem, next_blk := 1\<rparr>"]
  by (simp add: zero_xyz_def block_size_def)

end
