(* ===== verification/Cli.thy ===== *)
theory Cli
  imports Wise_Prelude "HOL-Library.Sublist"
begin

text \<open>
  The command line, \<^verbatim>\<open>lib/cli/cli.c\<close>: breaking a line into arguments in place, finding and running
  commands, and the command history.  A line is the byte array it is stored in; arguments are
  indices into it.  Handlers are a parameter: they turn a world into a return code and a world.
  Printing is not modelled here.
\<close>

section \<open>Strings in memory\<close>

abbreviation (input) CMD_MAX_ARGV :: nat where "CMD_MAX_ARGV \<equiv> 32"
abbreviation (input) CMD_MAX_CMDLINE_SIZE :: nat where "CMD_MAX_CMDLINE_SIZE \<equiv> 512"
abbreviation (input) CMD_RET_SUCCESS :: int where "CMD_RET_SUCCESS \<equiv> 0"
abbreviation (input) CMD_RET_FAILURE :: int where "CMD_RET_FAILURE \<equiv> 1"
abbreviation (input) CMD_RET_USAGE :: int where "CMD_RET_USAGE \<equiv> - 1"

abbreviation (input) ch_quote :: u8 where "ch_quote \<equiv> 0x22"
abbreviation (input) ch_bslash :: u8 where "ch_bslash \<equiv> 0x5C"
abbreviation (input) ch_semi :: u8 where "ch_semi \<equiv> 0x3B"

definition cstr :: "u8 list \<Rightarrow> nat \<Rightarrow> u8 list" where
  "cstr buf i = takeWhile (\<lambda>c. c \<noteq> 0) (drop i buf)"

definition is_blank :: "u8 \<Rightarrow> bool" where
  "is_blank c \<longleftrightarrow> c > 0 \<and> c < 0x21"

text \<open>\<^verbatim>\<open>memmove(s, s + 1, strlen(s + 1))\<close>: the final zero is not moved.\<close>

definition shift_left :: "u8 list \<Rightarrow> nat \<Rightarrow> u8 list res" where
  "shift_left buf s =
     (if 0 \<notin> set (drop (s + 1) buf) then Inl BadAccess
      else (let k = length (cstr buf (s + 1))
            in Inr (take s buf @ take k (drop (s + 1) buf) @ drop (s + k) buf)))"

section \<open>Breaking a line into arguments\<close>

function skip_blanks :: "u8 list \<Rightarrow> nat \<Rightarrow> nat res" where
  "skip_blanks buf s =
     (if s \<ge> length buf then Inl BadAccess
      else if is_blank (buf ! s) then skip_blanks buf (s + 1) else Inr s)"
  by pat_completeness auto

termination by (relation "measure (\<lambda>(buf, s). length buf - s)") auto

datatype arg_end = AtChar | AtSemi

lemma shift_left_length: "shift_left buf s = Inr buf' \<Longrightarrow> s < length buf \<Longrightarrow> length buf' = length buf"
proof -
  assume "shift_left buf s = Inr buf'" and s: "s < length buf"
  then have b: "buf' = take s buf @ take k (drop (s + 1) buf) @ drop (s + k) buf"
    and k: "k = length (cstr buf (s + 1))" if "k = length (cstr buf (s + 1))" for k
    using that by (auto simp: shift_left_def Let_def split: if_splits)
  have "length (cstr buf (s + 1)) \<le> length buf - (s + 1)"
    by (metis cstr_def length_drop length_takeWhile_le)
  with b s show "length buf' = length buf" by simp
qed

text \<open>The loop over one argument; \<open>q\<close> is \<^verbatim>\<open>inquote\<close>.\<close>

function arg_loop :: "bool \<Rightarrow> u8 list \<Rightarrow> nat \<Rightarrow> (arg_end \<times> u8 list \<times> nat) res" where
  "arg_loop q buf s =
     (if s \<ge> length buf then Inl BadAccess
      else if buf ! s = 0 \<or> is_blank (buf ! s) then Inr (AtChar, buf, s)
      else if q \<and> buf ! s = ch_bslash \<and> s + 1 \<ge> length buf then Inl BadAccess
      else if q \<and> buf ! s = ch_quote then Inr (AtChar, buf, s)
      else if buf ! s = ch_bslash \<and> (q \<longrightarrow> buf ! (s + 1) = ch_bslash \<or> buf ! (s + 1) = ch_quote) then
        (case shift_left buf s of Inl e \<Rightarrow> Inl e | Inr buf' \<Rightarrow> arg_loop q buf' (s + 1))
      else if \<not> q \<and> buf ! s = ch_semi then Inr (AtSemi, buf[s := 0], s + 1)
      else arg_loop q buf (s + 1))"
  by pat_completeness auto

termination
  by (relation "measure (\<lambda>(q, buf, s). length buf - s)") (auto dest: shift_left_length)

primrec parse_args :: "nat \<Rightarrow> nat list \<Rightarrow> u8 list \<Rightarrow> nat \<Rightarrow> (nat list \<times> u8 list \<times> nat) res" where
  "parse_args 0 argv buf s = Inr (argv, buf, s)"
| "parse_args (Suc n) argv buf s =
     res_bind (skip_blanks buf s) (\<lambda>s1.
       if buf ! s1 = 0 then Inr (argv, buf, s1)
       else
         (let q = (buf ! s1 = ch_quote); s2 = (if q then s1 + 1 else s1); argv' = argv @ [s2]
          in res_bind (arg_loop q buf s2) (\<lambda>(k, buf1, s3).
               if k = AtSemi then Inr (argv', buf1, s3)
               else if buf1 ! s3 = 0 then Inr (argv', buf1, s3)
               else parse_args n argv' (buf1[s3 := 0]) (s3 + 1))))"

text \<open>
  \<open>size\<close> is the number of elements of the caller's \<^verbatim>\<open>argv\<close>; the null that ends the arguments
  must fit as well.
\<close>

definition cli_parse_line :: "nat \<Rightarrow> u8 list \<Rightarrow> nat \<Rightarrow> (nat list \<times> u8 list \<times> nat) res" where
  "cli_parse_line argv_size buf s =
     res_bind (parse_args CMD_MAX_ARGV [] buf s) (\<lambda>(argv, buf', s').
       if length argv \<ge> argv_size then Inl BadAccess else Inr (argv, buf', s'))"

section \<open>Commands\<close>

record cli_cmd =
  cname :: "u8 list"
  chandler :: nat
  cusage :: "u8 list option"

definition cli_find_cmd :: "u8 list \<Rightarrow> cli_cmd list \<Rightarrow> cli_cmd option" where
  "cli_find_cmd cmd table =
     find (\<lambda>t. cmd = cname t \<and> length (cname t) = length cmd) table"

text \<open>The table that is searched: the linked-in commands, or the locked one.\<close>

definition cmd_table :: "cli_cmd option \<Rightarrow> cli_cmd list \<Rightarrow> cli_cmd list" where
  "cmd_table locked all_cmds = (case locked of Some c \<Rightarrow> [c] | None \<Rightarrow> all_cmds)"

definition help_arg :: "u8 list" where
  "help_arg = [0x68, 0x65, 0x6C, 0x70]"

definition cli_process_cmd ::
  "(nat \<Rightarrow> u8 list list \<Rightarrow> 'w \<Rightarrow> int \<times> 'w) \<Rightarrow> cli_cmd list \<Rightarrow> u8 list list \<Rightarrow> 'w \<Rightarrow> int \<times> 'w" where
  "cli_process_cmd run table argv w =
     (case cli_find_cmd (hd argv) table of
        None \<Rightarrow> (- 1, w)
      | Some cmd \<Rightarrow>
          (let (rc, w1) = run (chandler cmd) argv w
           in if rc = CMD_RET_USAGE \<and> cusage cmd = None
              then (let (_, w2) = run (chandler cmd) [cname cmd, help_arg] w1 in (0, w2))
              else (rc, w1)))"

section \<open>History\<close>

abbreviation (input) CONFIG_CLI_MAX_HISTORY :: int where "CONFIG_CLI_MAX_HISTORY \<equiv> 8"

record cli_hist =
  cmd_history :: "u8 list option list"
  cmd_hindex :: int
  cmd_cursor :: int

definition hindex :: "int \<Rightarrow> nat" where
  "hindex i = nat (i AND (CONFIG_CLI_MAX_HISTORY - 1))"

definition cmd_oldest_index :: "cli_hist \<Rightarrow> int" where
  "cmd_oldest_index h = max 0 (cmd_hindex h - (CONFIG_CLI_MAX_HISTORY - 1))"

text \<open>\<open>mem_ok\<close> is whether \<^verbatim>\<open>strdup\<close> succeeds.\<close>

definition cmd_history_add :: "bool \<Rightarrow> u8 list \<Rightarrow> cli_hist \<Rightarrow> cli_hist" where
  "cmd_history_add mem_ok cmd h =
     (if cmd_history h ! hindex (cmd_hindex h - 1) = Some cmd then h\<lparr>cmd_cursor := cmd_hindex h\<rparr>
      else if \<not> mem_ok then h
      else
        (let tab = (cmd_history h)[hindex (cmd_hindex h) := Some cmd]; i = cmd_hindex h + 1
         in h\<lparr>cmd_history := tab[hindex i := None], cmd_hindex := i, cmd_cursor := i\<rparr>))"

definition cmd_history_search_backward :: "cli_hist \<Rightarrow> u8 list option \<times> cli_hist" where
  "cmd_history_search_backward h =
     (let c = cmd_cursor h - 1
      in (cmd_history h ! hindex c, h\<lparr>cmd_cursor := max c (cmd_oldest_index h)\<rparr>))"

definition cmd_history_search_forward :: "cli_hist \<Rightarrow> u8 list option \<times> cli_hist" where
  "cmd_history_search_forward h =
     (if cmd_cursor h = cmd_hindex h then (None, h)
      else (let c = cmd_cursor h + 1 in (cmd_history h ! hindex c, h\<lparr>cmd_cursor := c\<rparr>)))"

text \<open>The lines \<^verbatim>\<open>show_cmd_history\<close> prints, with their numbers.\<close>

definition show_history :: "cli_hist \<Rightarrow> (int \<times> u8 list option) list" where
  "show_history h =
     (let i0 = (if cmd_hindex h - (CONFIG_CLI_MAX_HISTORY - 1) < 0 then 0
                else cmd_hindex h - (CONFIG_CLI_MAX_HISTORY - 1))
      in map (\<lambda>i. (i, cmd_history h ! hindex i)) [i0 .. cmd_hindex h - 1])"

section \<open>Running a line\<close>

lemma skip_blanks_ge: "skip_blanks buf s = Inr s' \<Longrightarrow> s \<le> s' \<and> s' < length buf"
  by (induction buf s rule: skip_blanks.induct) (auto simp: skip_blanks.simps split: if_splits)

declare skip_blanks.simps [simp del] arg_loop.simps [simp del]

lemma arg_loop_cases:
  assumes "arg_loop q buf s = Inr (k, buf', s')"
  obtains (stop) "s < length buf" "buf' = buf" "s' = s" "k = AtChar"
      "buf ! s = 0 \<or> is_blank (buf ! s) \<or> q \<and> buf ! s = ch_quote"
  | (semi) "s < length buf" "\<not> q" "buf' = buf[s := 0]" "s' = s + 1" "k = AtSemi"
  | (more) buf1 where "s < length buf" "length buf1 = length buf"
      "arg_loop q buf1 (s + 1) = Inr (k, buf', s')"
proof -
  have s: "s < length buf"
    using assms unfolding arg_loop.simps [of q buf s] by (rule_tac ccontr) simp
  note eq = assms [unfolded arg_loop.simps [of q buf s]]
  consider "buf ! s = 0 \<or> is_blank (buf ! s)" | "q" "buf ! s = ch_quote"
    | "\<not> (buf ! s = 0 \<or> is_blank (buf ! s))" "\<not> (q \<and> buf ! s = ch_quote)" by blast
  then show thesis
  proof cases
    case 1
    with eq s show thesis by (intro stop) (auto simp del: arg_loop.simps)
  next
    case 2
    then have "\<not> (buf ! s = 0 \<or> is_blank (buf ! s))" by (simp add: is_blank_def)
    with 2 eq s show thesis by (intro stop) simp_all
  next
    case 3
    show thesis
    proof (cases "\<not> q \<and> buf ! s = ch_semi")
      case True
      with 3 eq s show thesis by (intro semi) simp_all
    next
      case False
      have "\<exists>buf1. length buf1 = length buf \<and> arg_loop q buf1 (s + 1) = Inr (k, buf', s')"
        using 3 False eq s shift_left_length [of buf s]
        by (cases "shift_left buf s") (auto split: if_splits)
      with s show thesis using more by blast
    qed
  qed
qed

lemma arg_loop_ge:
  "arg_loop q buf s = Inr (k, buf', s') \<Longrightarrow> length buf' = length buf \<and> s \<le> s' \<and> s' \<le> length buf"
proof (induction "length buf - s" arbitrary: buf s rule: less_induct)
  case less
  from less.prems show ?case
  proof (cases rule: arg_loop_cases)
    case (more buf1)
    have "length buf1 - (s + 1) < length buf - s" using more by simp
    from less.hyps [OF this more(3)] more(1,2) show ?thesis by simp
  qed simp_all
qed

lemma arg_loop_gt:
  assumes "arg_loop False buf s = Inr (k, buf', s')" "buf ! s \<noteq> 0" "\<not> is_blank (buf ! s)"
  shows "s < s'"
  using assms(1)
proof (cases rule: arg_loop_cases)
  case (more buf1)
  from arg_loop_ge [OF more(3)] show ?thesis by simp
qed (use assms in simp_all)

lemma parse_args_ge:
  "parse_args n argv buf s = Inr (argv', buf', s') \<Longrightarrow>
     length buf' = length buf \<and> s \<le> s' \<and> (length argv < length argv' \<longrightarrow> s < s' \<and> s < length buf)"
proof (induction n arbitrary: argv buf s)
  case (Suc n)
  then obtain s1 where s1: "skip_blanks buf s = Inr s1"
    by (auto simp: res_bind_Inr_iff)
  note g = skip_blanks_ge [OF s1]
  show ?case
  proof (cases "buf ! s1 = 0")
    case True
    with Suc.prems s1 g show ?thesis by simp
  next
    case False
    define q where "q = (buf ! s1 = ch_quote)"
    define s2 where "s2 = (if q then s1 + 1 else s1)"
    have pr: "res_bind (arg_loop q buf s2) (\<lambda>(k, buf1, s3).
        if k = AtSemi then Inr (argv @ [s2], buf1, s3)
        else if buf1 ! s3 = 0 then Inr (argv @ [s2], buf1, s3)
        else parse_args n (argv @ [s2]) (buf1[s3 := 0]) (s3 + 1)) = Inr (argv', buf', s')"
      using Suc.prems by (simp only: parse_args.simps s1 res_bind_simps False if_False Let_def
          q_def [symmetric] s2_def [symmetric])
    then obtain k buf1 s3 where a: "arg_loop q buf s2 = Inr (k, buf1, s3)"
      by (cases "arg_loop q buf s2") auto
    have nb: "\<not> is_blank (buf ! s1)"
      using s1 by (induction buf s rule: skip_blanks.induct)
        (auto simp: skip_blanks.simps split: if_splits)
    have lt: "length buf1 = length buf" "s < s3"
      using arg_loop_ge [OF a] arg_loop_gt [of buf s2 k buf1 s3] a g False nb
      by (auto simp: s2_def split: if_splits)
    have "(argv', buf', s') = (argv @ [s2], buf1, s3) \<or>
        parse_args n (argv @ [s2]) (buf1[s3 := 0]) (s3 + 1) = Inr (argv', buf', s')"
      using pr a by (simp split: if_splits)
    then show ?thesis
      using Suc.IH [of "argv @ [s2]" "buf1[s3 := 0]" "s3 + 1"] lt g by auto
  qed
qed simp

text \<open>
  The loop of \<^verbatim>\<open>cli_run_command\<close>.  The world of the handlers holds the history and the locked
  command; \<open>tbl\<close> reads the table of commands from it.
\<close>

function run_loop ::
  "(nat \<Rightarrow> u8 list list \<Rightarrow> 'w \<Rightarrow> int \<times> 'w) \<Rightarrow> ('w \<Rightarrow> cli_cmd list) \<Rightarrow> u8 list \<Rightarrow> nat \<Rightarrow> int \<Rightarrow> 'w \<Rightarrow>
   (int \<times> 'w) res" where
  "run_loop run tbl buf s ret w =
     (case cli_parse_line CMD_MAX_ARGV buf s of
        Inl e \<Rightarrow> Inl e
      | Inr (argv, buf', s') \<Rightarrow>
          if argv = [] then Inr (ret, w)
          else (let (rc, w1) = cli_process_cmd run (tbl w) (map (cstr buf') argv) w
                in if rc = CMD_RET_SUCCESS then run_loop run tbl buf' s' rc w1 else Inr (rc, w1)))"
  by pat_completeness auto

termination
proof (relation "measure (\<lambda>(run, tbl, buf, s, ret, w). length buf - s)", goal_cases)
  case 1
  then show ?case by simp
next
  case (2 run tbl buf s ret w b argv y buf' s' p rc w1)
  then have "parse_args CMD_MAX_ARGV [] buf s = Inr (argv, buf', s')"
    by (auto simp: cli_parse_line_def res_bind_Inr_iff split: if_splits)
  from parse_args_ge [OF this] 2(4) show ?case by auto
qed

definition cli_run_command ::
  "(nat \<Rightarrow> u8 list list \<Rightarrow> cli_hist \<times> 'w \<Rightarrow> int \<times> (cli_hist \<times> 'w)) \<Rightarrow> (cli_hist \<times> 'w \<Rightarrow> cli_cmd list) \<Rightarrow>
   bool \<Rightarrow> u8 list option \<Rightarrow> cli_hist \<times> 'w \<Rightarrow> (int \<times> (cli_hist \<times> 'w)) res" where
  "cli_run_command run tbl mem_ok line hw =
     (case line of
        None \<Rightarrow> Inr (- 1, hw)
      | Some buf \<Rightarrow>
          if 0 \<notin> set buf then Inl BadAccess
          else if buf ! 0 = 0 then Inr (- 1, hw)
          else if length (cstr buf 0) \<ge> CMD_MAX_CMDLINE_SIZE then Inr (- 1, hw)
          else run_loop run tbl buf 0 CMD_RET_SUCCESS
                 (cmd_history_add mem_ok (cstr buf 0) (fst hw), snd hw))"

definition os_system ::
  "(nat \<Rightarrow> u8 list list \<Rightarrow> cli_hist \<times> 'w \<Rightarrow> int \<times> (cli_hist \<times> 'w)) \<Rightarrow> (cli_hist \<times> 'w \<Rightarrow> cli_cmd list) \<Rightarrow>
   bool \<Rightarrow> bool \<Rightarrow> u8 list \<Rightarrow> cli_hist \<times> 'w \<Rightarrow> (int \<times> (cli_hist \<times> 'w)) res" where
  "os_system run tbl malloc_ok mem_ok command hw =
     (if \<not> malloc_ok then Inr (- 1, hw)
      else cli_run_command run tbl mem_ok (Some (command @ [0])) hw)"

end
