(* ===== verification/Cli_Props.thy ===== *)
theory Cli_Props
  imports Cli
begin

text \<open>
  What the command line guarantees: breaking a line into arguments in place agrees with a
  tokenizer on lists, a line of commands runs them in order up to the first failure, and the history
  is the list of the last seven commands.
\<close>

section \<open>A tokenizer on lists\<close>

text \<open>The characters of a word, in quotes and outside.\<close>

definition plain :: "bool \<Rightarrow> u8 \<Rightarrow> bool" where
  "plain q c \<longleftrightarrow> \<not> is_blank c \<and> c \<noteq> (if q then ch_quote else ch_semi)"

definition simple_line :: "u8 list \<Rightarrow> bool" where
  "simple_line cs \<longleftrightarrow> (\<forall>c \<in> set cs. c \<noteq> 0 \<and> c \<noteq> ch_bslash)"

text \<open>
  The words up to the first semicolon outside quotes, and what follows it.  A word that starts with a quote goes up to the
  next quote or blank and may hold semicolons; any other word goes up to the next blank or semicolon and may hold quotes.
\<close>

function tokens :: "u8 list \<Rightarrow> u8 list list \<times> u8 list" where
  "tokens cs =
     (let r = dropWhile is_blank cs
      in if r = [] then ([], [])
         else (let q = (hd r = ch_quote); b = (if q then tl r else r)
               in case dropWhile (plain q) b of
                    [] \<Rightarrow> ([takeWhile (plain q) b], [])
                  | c # t \<Rightarrow>
                      if \<not> q \<and> c = ch_semi then ([takeWhile (plain q) b], t)
                      else (let (ws, u) = tokens t in (takeWhile (plain q) b # ws, u))))"
  by pat_completeness auto

termination
proof (relation "measure length", goal_cases)
  case (2 cs r q b c t)
  then have "length (c # t) \<le> length b" by (metis length_dropWhile_le)
  moreover have "length b \<le> length r" using 2 by simp
  moreover have "length r \<le> length cs" using 2(1) by (simp add: length_dropWhile_le)
  ultimately show ?case by simp
qed simp

declare tokens.simps [simp del]

section \<open>The loops\<close>

lemma not_blank_0 [simp]: "\<not> is_blank 0"
  by (simp add: is_blank_def)

lemma skip_blanks_word:
  "(\<forall>b \<in> set bl. is_blank b) \<Longrightarrow> \<not> is_blank c \<Longrightarrow>
     skip_blanks (pre @ bl @ c # post) (length pre) = Inr (length pre + length bl)"
proof (induction bl arbitrary: pre)
  case Nil
  then show ?case by (simp add: skip_blanks.simps)
next
  case (Cons b bl)
  have "skip_blanks (pre @ (b # bl) @ c # post) (length pre) =
      skip_blanks ((pre @ [b]) @ bl @ c # post) (length (pre @ [b]))"
    using Cons.prems by (subst skip_blanks.simps) simp
  also have "\<dots> = Inr (length (pre @ [b]) + length bl)"
    by (rule Cons.IH) (use Cons.prems in auto)
  finally show ?case by simp
qed

lemma arg_loop_word:
  assumes "\<forall>x \<in> set w. plain q x \<and> x \<noteq> 0 \<and> x \<noteq> ch_bslash" "\<not> plain q c \<or> c = 0"
  shows "arg_loop q (pre @ w @ c # post) (length pre) =
    (if \<not> q \<and> c = ch_semi
     then Inr (AtSemi, pre @ w @ 0 # post, length pre + length w + 1)
     else Inr (AtChar, pre @ w @ c # post, length pre + length w))"
  using assms
proof (induction w arbitrary: pre)
  case Nil
  have ends: "\<not> is_blank ch_semi" "\<not> is_blank ch_quote" by (simp_all add: is_blank_def)
  from Nil ends show ?case
    by (auto simp: arg_loop.simps [of q _ "length pre"] plain_def split: if_splits)
next
  case (Cons x w)
  have "arg_loop q (pre @ (x # w) @ c # post) (length pre) =
      arg_loop q ((pre @ [x]) @ w @ c # post) (length (pre @ [x]))"
    using Cons.prems(1) by (subst arg_loop.simps) (cases q; simp add: plain_def)
  also have "\<dots> = (if \<not> q \<and> c = ch_semi
     then Inr (AtSemi, (pre @ [x]) @ w @ 0 # post, length (pre @ [x]) + length w + 1)
     else Inr (AtChar, (pre @ [x]) @ w @ c # post, length (pre @ [x]) + length w))"
    by (rule Cons.IH) (use Cons.prems in auto)
  finally show ?case by simp
qed

lemma cstr_word:
  assumes "0 \<notin> set w"
  shows "cstr (pre @ w @ 0 # post) (length pre) = w"
proof -
  have "takeWhile (\<lambda>c. c \<noteq> 0) (w @ 0 # post) = w" using assms by (induction w) auto
  then show ?thesis by (simp add: cstr_def)
qed

text \<open>What a call has done: the new arguments, the text behind them, the unchanged start.\<close>

definition parsed ::
  "u8 list \<Rightarrow> u8 list \<Rightarrow> nat list \<Rightarrow> u8 list list \<Rightarrow> u8 list \<Rightarrow> (nat list \<times> u8 list \<times> nat) res \<Rightarrow> bool" where
  "parsed pre post argv ws u res \<longleftrightarrow>
     (\<exists>ixs pre'. res = Inr (argv @ ixs, pre' @ u @ 0 # post, length pre') \<and> prefix pre pre' \<and>
        map (cstr (pre' @ u @ 0 # post)) ixs = ws)"

lemma parsed_cons:
  assumes p: "parsed (pre @ bl @ w @ [0]) post (argv @ [length pre + length bl]) ws u res"
    and w: "0 \<notin> set w"
  shows "parsed pre post argv (w # ws) u res"
proof -
  obtain ixs pre' where r: "res = Inr ((argv @ [length pre + length bl]) @ ixs, pre' @ u @ 0 # post, length pre')"
    and pf: "prefix (pre @ bl @ w @ [0]) pre'" and m: "map (cstr (pre' @ u @ 0 # post)) ixs = ws"
    using p unfolding parsed_def by blast
  obtain z where z: "pre' = (pre @ bl @ w @ [0]) @ z" using pf by (rule prefixE)
  have "cstr (pre' @ u @ 0 # post) (length pre + length bl) = w"
    using cstr_word [OF w, of "pre @ bl" "z @ u @ 0 # post"] by (simp add: z)
  moreover have "prefix pre pre'" by (simp add: z)
  ultimately show ?thesis
    unfolding parsed_def using r m by (intro exI [of _ "(length pre + length bl) # ixs"] exI [of _ pre']) simp
qed

text \<open>One word: \<open>bl\<close> are the blanks and \<open>ld\<close> the quote before it, if any; \<open>c\<close> ends it.\<close>

lemma parse_args_word:
  assumes bl: "\<forall>b \<in> set bl. is_blank b" and w: "\<forall>x \<in> set w. plain q x \<and> x \<noteq> 0 \<and> x \<noteq> ch_bslash"
    and c: "\<not> plain q c \<or> c = 0" and ld: "ld = (if q then [ch_quote] else [])"
    and x: "ld @ w @ c # rest = x # r'" "\<not> is_blank x" "x \<noteq> 0" "q \<longleftrightarrow> x = ch_quote"
  shows "parse_args (Suc m) argv (pre @ bl @ ld @ w @ c # rest) (length pre) =
    (if \<not> q \<and> c = ch_semi
     then Inr (argv @ [length (pre @ bl @ ld)], (pre @ bl @ ld @ w @ [0]) @ rest, length (pre @ bl @ ld @ w @ [0]))
     else if c = 0
     then Inr (argv @ [length (pre @ bl @ ld)], (pre @ bl @ ld @ w) @ 0 # rest, length (pre @ bl @ ld @ w))
     else parse_args m (argv @ [length (pre @ bl @ ld)]) ((pre @ bl @ ld @ w @ [0]) @ rest)
            (length (pre @ bl @ ld @ w @ [0])))"
proof -
  define B where "B = pre @ bl @ ld @ w @ c # rest"
  define i where "i = length pre + length bl"
  define k where "k = length (pre @ bl @ ld)"
  define e where "e = k + length w"
  have sk: "skip_blanks B (length pre) = Inr i"
    using skip_blanks_word [OF bl x(2), of pre r'] unfolding x(1) [symmetric] B_def i_def .
  have at: "B ! i = x"
    unfolding B_def i_def x(1) by (simp add: nth_append)
  have ki: "k = (if q then i + 1 else i)" by (simp add: k_def i_def ld)
  have ends: "B ! e = c" "B[e := 0] = (pre @ bl @ ld @ w @ [0]) @ rest" "e + 1 = length (pre @ bl @ ld @ w @ [0])"
    "e = length (pre @ bl @ ld @ w)"
    using nth_append_length [of "pre @ bl @ ld @ w" c rest]
      list_update_length [of "pre @ bl @ ld @ w" c rest 0]
    by (simp_all add: B_def k_def e_def add.assoc)
  have ar: "arg_loop q B k = (if \<not> q \<and> c = ch_semi then Inr (AtSemi, B[e := 0], e + 1) else Inr (AtChar, B, e))"
    unfolding ends(2) using arg_loop_word [OF w c, of "pre @ bl @ ld" rest]
    by (simp add: B_def k_def e_def add.assoc)
  have "parse_args (Suc m) argv B (length pre) =
    (if \<not> q \<and> c = ch_semi then Inr (argv @ [k], B[e := 0], e + 1)
     else if c = 0 then Inr (argv @ [k], B, e)
     else parse_args m (argv @ [k]) (B[e := 0]) (e + 1))"
    using x(3) ends(1) ar ki by (simp add: sk at x(4) [symmetric] Let_def)
  then show ?thesis
    using ends(4) unfolding ends(2) ends(3) k_def [symmetric]
    by (simp add: B_def del: parse_args.simps)
qed

text \<open>A line that is not blank, taken apart at its first word.\<close>

lemma first_word:
  assumes "simple_line cs" "dropWhile is_blank cs \<noteq> []"
  obtains q bl ld w t where "cs = bl @ ld @ w @ t" "\<forall>b \<in> set bl. is_blank b" "ld = (if q then [ch_quote] else [])"
    "\<forall>x \<in> set w. plain q x \<and> x \<noteq> 0 \<and> x \<noteq> ch_bslash"
    "\<forall>c t'. t = c # t' \<longrightarrow> \<not> plain q c \<and> c \<noteq> 0"
    "\<forall>z. \<exists>x r'. ld @ w @ t @ z = x # r' \<and> \<not> is_blank x \<and> x \<noteq> 0 \<and> (q \<longleftrightarrow> x = ch_quote)"
    "tokens cs = (case t of [] \<Rightarrow> ([w], []) | c # t' \<Rightarrow> if \<not> q \<and> c = ch_semi then ([w], t')
        else (let (ws, u) = tokens t' in (w # ws, u)))"
proof -
  define bl where "bl = takeWhile is_blank cs"
  define r where "r = dropWhile is_blank cs"
  define q where "q = (hd r = ch_quote)"
  define ld where "ld = (if q then [ch_quote] else [])"
  define b where "b = (if q then tl r else r)"
  define w where "w = takeWhile (plain q) b"
  define t where "t = dropWhile (plain q) b"
  obtain x r' where x: "r = x # r'" using assms(2) by (cases r) (auto simp: r_def)
  have r: "r = ld @ b" using x by (simp add: ld_def b_def q_def)
  have wt: "w @ t = b" by (simp add: w_def t_def)
  have cs: "cs = bl @ ld @ w @ t" unfolding wt r [symmetric] by (simp add: bl_def r_def)
  have sr: "\<forall>c \<in> set cs. c \<noteq> 0 \<and> c \<noteq> ch_bslash" using assms(1) by (simp add: simple_line_def)
  have nb: "\<not> is_blank x" using hd_dropWhile [of is_blank cs] x by (simp add: r_def [symmetric])
  have x0: "x \<noteq> 0" using sr cs wt r x by (metis list.set_intros(1) Un_iff set_append)
  have w: "\<forall>x \<in> set w. plain q x \<and> x \<noteq> 0 \<and> x \<noteq> ch_bslash"
    unfolding w_def using sr cs by (metis Un_iff set_append set_takeWhileD w_def)
  have c: "\<not> plain q c \<and> c \<noteq> 0" if t': "t = c # t'" for c t'
  proof -
    have "\<not> plain q (hd t)" unfolding t_def by (rule hd_dropWhile) (use t' t_def in simp)
    then show ?thesis using t' sr cs by (metis Un_iff list.sel(1) list.set_intros(1) set_append)
  qed
  have tk: "tokens cs = (case t of [] \<Rightarrow> ([w], []) | c # t' \<Rightarrow> if \<not> q \<and> c = ch_semi then ([w], t')
        else (let (ws, u) = tokens t' in (w # ws, u)))"
    unfolding tokens.simps [of cs] Let_def r_def [symmetric] q_def [symmetric] b_def [symmetric] w_def [symmetric] t_def [symmetric]
    using x by simp
  have hd: "\<exists>x r'. ld @ w @ t @ z = x # r' \<and> \<not> is_blank x \<and> x \<noteq> 0 \<and> (q \<longleftrightarrow> x = ch_quote)" for z
  proof -
    have "ld @ w @ t = x # r'" using r wt x by simp
    then have "ld @ w @ t @ z = x # r' @ z" by (metis append_Cons append_assoc)
    moreover have "q \<longleftrightarrow> x = ch_quote" by (simp add: q_def x)
    ultimately show ?thesis using nb x0 by blast
  qed
  have bl: "\<forall>b \<in> set bl. is_blank b" unfolding bl_def by (meson set_takeWhileD)
  show thesis by (rule that [OF cs bl ld_def w _ _ tk]) (use c hd in blast)+
qed

lemma parse_args_blank:
  assumes "dropWhile is_blank cs = []"
  shows "parsed pre post argv [] [] (parse_args (Suc m) argv (pre @ cs @ 0 # post) (length pre))"
proof -
  have "\<forall>b \<in> set cs. is_blank b" using assms by simp
  then have "skip_blanks (pre @ cs @ 0 # post) (length pre) = Inr (length pre + length cs)"
    by (rule skip_blanks_word) simp
  then have "parse_args (Suc m) argv (pre @ cs @ 0 # post) (length pre) = Inr (argv, (pre @ cs) @ 0 # post, length (pre @ cs))"
    by (simp add: nth_append)
  then show ?thesis unfolding parsed_def by (intro exI [of _ "[]"] exI [of _ "pre @ cs"]) simp
qed

lemma parse_args_first:
  assumes sl: "simple_line cs" and ne: "dropWhile is_blank cs \<noteq> []" and tk: "tokens cs = (ws, u)"
    and IH: "\<And>cs' n argv pre ws u. length cs' < length cs \<Longrightarrow> simple_line cs' \<Longrightarrow> tokens cs' = (ws, u) \<Longrightarrow>
      \<exists>u'. parsed pre post argv (take n ws) u' (parse_args n argv (pre @ cs' @ 0 # post) (length pre)) \<and>
        (length ws < n \<longrightarrow> u' = u)"
  shows "\<exists>u'. parsed pre post argv (take (Suc m) ws) u' (parse_args (Suc m) argv (pre @ cs @ 0 # post) (length pre)) \<and>
    (length ws < Suc m \<longrightarrow> u' = u)"
proof -
  obtain q bl ld w t where d: "cs = bl @ ld @ w @ t" "\<forall>b \<in> set bl. is_blank b" "ld = (if q then [ch_quote] else [])"
    "\<forall>x \<in> set w. plain q x \<and> x \<noteq> 0 \<and> x \<noteq> ch_bslash" "\<forall>c t'. t = c # t' \<longrightarrow> \<not> plain q c \<and> c \<noteq> 0"
    "\<forall>z. \<exists>x r'. ld @ w @ t @ z = x # r' \<and> \<not> is_blank x \<and> x \<noteq> 0 \<and> (q \<longleftrightarrow> x = ch_quote)"
    "tokens cs = (case t of [] \<Rightarrow> ([w], []) | c # t' \<Rightarrow> if \<not> q \<and> c = ch_semi then ([w], t')
        else (let (ws, u) = tokens t' in (w # ws, u)))"
    by (rule first_word [OF sl ne]) (rule that)
  obtain x r' where x: "ld @ w @ t @ 0 # post = x # r'" "\<not> is_blank x" "x \<noteq> 0" "q \<longleftrightarrow> x = ch_quote"
    using d(6) by blast
  have w0: "0 \<notin> set w" using d(4) by blast
  define i where "i = length (pre @ bl @ ld)"
  have i: "i = length pre + length (bl @ ld)" by (simp add: i_def)
  have word: "cstr ((pre @ bl @ ld @ w) @ 0 # z) i = w" for z
    using cstr_word [OF w0, of "pre @ bl @ ld" z] by (simp add: i_def)
  show ?thesis
  proof (cases t)
    case Nil
    have "parse_args (Suc m) argv (pre @ cs @ 0 # post) (length pre) =
        Inr (argv @ [i], (pre @ bl @ ld @ w) @ 0 # post, length (pre @ bl @ ld @ w))"
      using parse_args_word [OF d(2,4) _ d(3) x(1) [unfolded Nil append_Nil] x(2-4), of m argv pre] Nil
      by (simp add: d(1) i_def del: parse_args.simps)
    moreover have "ws = [w]" "u = []" using tk d(7) Nil by simp_all
    ultimately show ?thesis
      unfolding parsed_def using word [of post] by (intro exI [of _ "[]"] conjI exI [of _ "[i]"] exI [of _ "pre @ bl @ ld @ w"]) auto
  next
    case (Cons c t')
    have c: "\<not> plain q c" "c \<noteq> 0" using d(5) Cons by blast+
    have x': "ld @ w @ c # t' @ 0 # post = x # r'" using x(1) Cons by simp
    have buf: "pre @ cs @ 0 # post = pre @ bl @ ld @ w @ c # t' @ 0 # post" using Cons by (simp add: d(1))
    note pw = parse_args_word [OF d(2,4) disjI1 [OF c(1)] d(3) x' x(2-4), of m argv pre, folded i_def]
    show ?thesis
    proof (cases "\<not> q \<and> c = ch_semi")
      case True
      then have "ws = [w]" "u = t'" using tk d(7) Cons by simp_all
      with True pw word [of "t' @ 0 # post"] show ?thesis
        unfolding parsed_def buf
        by (intro exI [of _ t'] conjI exI [of _ "[i]"] exI [of _ "pre @ bl @ ld @ w @ [0]"]) auto
    next
      case False
      obtain ws' where ws': "tokens t' = (ws', u)" "ws = w # ws'"
        using tk d(7) Cons False by (auto split: prod.splits if_splits)
      have t': "length t' < length cs" "simple_line t'" using sl Cons by (auto simp: d(1) simple_line_def)
      obtain u' where p: "parsed (pre @ (bl @ ld) @ w @ [0]) post (argv @ [i]) (take m ws') u'
          (parse_args m (argv @ [i]) ((pre @ (bl @ ld) @ w @ [0]) @ t' @ 0 # post) (length (pre @ (bl @ ld) @ w @ [0])))"
        and u': "length ws' < m \<longrightarrow> u' = u"
        using IH [OF t' ws'(1)] by blast
      have "parse_args (Suc m) argv (pre @ cs @ 0 # post) (length pre) =
          parse_args m (argv @ [i]) ((pre @ (bl @ ld) @ w @ [0]) @ t' @ 0 # post) (length (pre @ (bl @ ld) @ w @ [0]))"
        using pw False c(2) unfolding buf by (simp del: parse_args.simps)
      then show ?thesis
        using parsed_cons [OF p [unfolded i] w0] u' ws'(2) by (auto simp: i del: parse_args.simps)
    qed
  qed
qed

lemma parse_args_tokens:
  "simple_line cs \<Longrightarrow> tokens cs = (ws, u) \<Longrightarrow>
     \<exists>u'. parsed pre post argv (take n ws) u' (parse_args n argv (pre @ cs @ 0 # post) (length pre)) \<and>
       (length ws < n \<longrightarrow> u' = u)"
proof (induction "length cs" arbitrary: cs n argv pre ws u rule: less_induct)
  case less
  show ?case
  proof (cases n)
    case 0
    have "parsed pre post argv [] cs (Inr (argv, pre @ cs @ 0 # post, length pre))"
      unfolding parsed_def by (intro exI [of _ "[]"] exI [of _ pre]) simp
    with 0 show ?thesis by auto
  next
    case n: (Suc m)
    show ?thesis
    proof (cases "dropWhile is_blank cs = []")
      case True
      then have "ws = []" "u = []" using less(3) by (simp_all add: tokens.simps [of cs])
      with parse_args_blank [OF True] show ?thesis unfolding n by (metis take_Nil)
    next
      case False
      show ?thesis unfolding n by (rule parse_args_first [OF less(2) False less(3)]) (rule less(1))
    qed
  qed
qed

section \<open>Whole lines\<close>

lemma tokens_rest: "tokens cs = (ws, u) \<Longrightarrow> \<exists>p. cs = p @ u \<and> (ws \<noteq> [] \<longrightarrow> p \<noteq> [])"
proof (induction "length cs" arbitrary: cs ws u rule: less_induct)
  case less
  define r where "r = dropWhile is_blank cs"
  define bl where "bl = takeWhile is_blank cs"
  define q where "q = (hd r = ch_quote)"
  define b where "b = (if q then tl r else r)"
  define w where "w = takeWhile (plain q) b"
  note tk = less(2) [unfolded tokens.simps [of cs], folded r_def, unfolded Let_def, folded q_def, folded b_def, folded w_def]
  have cs: "cs = bl @ r" by (simp add: bl_def r_def)
  show ?case
  proof (cases "r = []")
    case False
    then obtain ld where ld: "r = ld @ b" "q \<longrightarrow> ld \<noteq> []"
      by (metis append_Cons append_Nil b_def list.collapse list.distinct(1))
    show ?thesis
    proof (cases "dropWhile (plain q) b")
      case Nil
      with tk False cs show ?thesis by auto
    next
      case (Cons c t)
      have b: "b = w @ c # t" unfolding w_def using takeWhile_dropWhile_id [of "plain q" b] Cons by simp
      obtain ws' u' where t: "tokens t = (ws', u')" by fastforce
      show ?thesis
      proof (cases "\<not> q \<and> c = ch_semi")
        case True
        with tk False Cons have "u = t" by simp
        with cs ld b show ?thesis by (intro exI [of _ "bl @ ld @ w @ [c]"]) simp
      next
        case semi: False
        with tk False Cons t have u: "u = u'" by (auto split: if_splits)
        have "length t < length cs" using cs ld b by simp
        from less(1) [OF this t] obtain p where "t = p @ u'" by blast
        with cs ld b u show ?thesis by (intro exI [of _ "bl @ ld @ w @ c # p"]) simp
      qed
    qed
  qed (use tk in simp)
qed

lemma tokens_shorter:
  assumes "tokens cs = (ws, u)" "ws \<noteq> []"
  shows "length u < length cs"
proof -
  obtain p where "cs = p @ u" "p \<noteq> []" using tokens_rest [OF assms(1)] assms(2) by blast
  then show ?thesis by simp
qed

lemma simple_tokens: "simple_line cs \<Longrightarrow> tokens cs = (ws, u) \<Longrightarrow> simple_line u"
  by (metis UnCI set_append simple_line_def tokens_rest)

text \<open>The commands of a line, and running them up to the first that fails.\<close>

function commands :: "u8 list \<Rightarrow> u8 list list list" where
  "commands cs = (let (ws, u) = tokens cs in if ws = [] then [] else ws # commands u)"
  by pat_completeness auto

termination
  by (relation "measure length") (auto dest: tokens_shorter [OF sym])

declare commands.simps [simp del] run_loop.simps [simp del]

primrec run_all ::
  "(nat \<Rightarrow> u8 list list \<Rightarrow> 'w \<Rightarrow> int \<times> 'w) \<Rightarrow> ('w \<Rightarrow> cli_cmd list) \<Rightarrow> u8 list list list \<Rightarrow> int \<Rightarrow> 'w \<Rightarrow>
   int \<times> 'w" where
  "run_all run tbl [] ret w = (ret, w)"
| "run_all run tbl (ws # cmds) ret w =
     (let (rc, w1) = cli_process_cmd run (tbl w) ws w
      in if rc = CMD_RET_SUCCESS then run_all run tbl cmds rc w1 else (rc, w1))"

lemma parse_line_tokens:
  assumes "simple_line cs" "tokens cs = (ws, u)" "length ws < CMD_MAX_ARGV"
  shows "parsed pre post [] ws u (cli_parse_line CMD_MAX_ARGV (pre @ cs @ 0 # post) (length pre))"
proof -
  obtain u' where p: "parsed pre post [] (take 32 ws) u' (parse_args 32 [] (pre @ cs @ 0 # post) (length pre))"
    "length ws < 32 \<longrightarrow> u' = u"
    using parse_args_tokens [OF assms(1,2), of pre post "[]" 32] by blast
  then obtain ixs pre' where r: "parse_args 32 [] (pre @ cs @ 0 # post) (length pre) =
      Inr (ixs, pre' @ u @ 0 # post, length pre')" "prefix pre pre'" "map (cstr (pre' @ u @ 0 # post)) ixs = ws"
    using assms(3) by (auto simp: parsed_def)
  have "length ixs < 32" using r(3) assms(3) by (metis length_map)
  with r show ?thesis by (auto simp: parsed_def cli_parse_line_def)
qed

lemma run_loop_commands:
  "simple_line cs \<Longrightarrow> \<forall>ws \<in> set (commands cs). length ws < CMD_MAX_ARGV \<Longrightarrow>
     run_loop run tbl (pre @ cs @ 0 # post) (length pre) ret w = Inr (run_all run tbl (commands cs) ret w)"
proof (induction cs arbitrary: pre ret w rule: commands.induct)
  case (1 cs)
  obtain ws u where t: "tokens cs = (ws, u)" by fastforce
  have few: "length ws < 32" using 1(3) t by (cases "ws = []") (auto simp: commands.simps [of cs])
  obtain ixs pre' where p: "cli_parse_line 32 (pre @ cs @ 0 # post) (length pre) =
      Inr (ixs, pre' @ u @ 0 # post, length pre')" "map (cstr (pre' @ u @ 0 # post)) ixs = ws"
    using parse_line_tokens [OF 1(2) t few, of pre post] by (auto simp: parsed_def)
  show ?case
  proof (cases "ws = []")
    case True
    with p t show ?thesis by (simp add: run_loop.simps [of _ _ "pre @ cs @ 0 # post"] commands.simps [of cs])
  next
    case False
    obtain rc w1 where c: "cli_process_cmd run (tbl w) ws w = (rc, w1)" by fastforce
    have cm: "commands cs = ws # commands u" using False t by (simp add: commands.simps [of cs])
    have "ixs \<noteq> []" using p(2) False by auto
    then have step: "run_loop run tbl (pre @ cs @ 0 # post) (length pre) ret w =
        (if rc = 0 then run_loop run tbl (pre' @ u @ 0 # post) (length pre') rc w1 else Inr (rc, w1))"
      using p c by (simp add: run_loop.simps [of _ _ "pre @ cs @ 0 # post"])
    have "run_loop run tbl (pre' @ u @ 0 # post) (length pre') rc w1 =
        Inr (run_all run tbl (commands u) rc w1)"
      by (rule 1(1) [OF t [symmetric] refl False simple_tokens [OF 1(2) t]]) (use 1(3) cm in simp)
    then show ?thesis using c by (cases "rc = 0") (simp_all add: step cm)
  qed
qed

section \<open>Escapes\<close>

lemma arg_loop_skip:
  "\<forall>x \<in> set w. plain False x \<and> x \<noteq> 0 \<and> x \<noteq> ch_bslash \<Longrightarrow>
     arg_loop False (pre @ w @ rest) (length pre) = arg_loop False ((pre @ w) @ rest) (length (pre @ w))"
proof (induction w arbitrary: pre)
  case (Cons x w)
  have "arg_loop False (pre @ (x # w) @ rest) (length pre) =
      arg_loop False ((pre @ [x]) @ w @ rest) (length (pre @ [x]))"
    using Cons.prems by (subst arg_loop.simps) (simp add: plain_def)
  also have "\<dots> = arg_loop False (((pre @ [x]) @ w) @ rest) (length ((pre @ [x]) @ w))"
    by (rule Cons.IH) (use Cons.prems in auto)
  finally show ?case by simp
qed simp

lemma shift_left_escape:
  assumes "0 \<notin> set (c # ys)"
  shows "shift_left (pre @ ch_bslash # c # ys @ 0 # post) (length pre) =
    Inr (pre @ c # ys @ last (c # ys) # 0 # post)"
proof -
  define B where "B = pre @ ch_bslash # c # ys @ 0 # post"
  define k where "k = Suc (length ys)"
  have "cstr B (length pre + 1) = c # ys"
    using cstr_word [OF assms, of "pre @ [ch_bslash]" post] by (simp add: B_def)
  moreover have "drop (length pre + k) B = last (c # ys) # 0 # post"
  proof -
    have "c # ys = butlast (c # ys) @ [last (c # ys)]" by simp
    then have "B = (pre @ ch_bslash # butlast (c # ys)) @ last (c # ys) # 0 # post"
      unfolding B_def by (metis append_Cons append_Nil append_assoc)
    then show ?thesis by (simp add: k_def)
  qed
  moreover have "take k (drop (length pre + 1) B) = c # ys" "take (length pre) B = pre"
    "0 \<in> set (drop (length pre + 1) B)"
    by (simp_all add: B_def k_def)
  ultimately show ?thesis
    by (simp add: shift_left_def B_def [symmetric] k_def)
qed

lemma line_start:
  assumes "simple_line cs" "cs \<noteq> []"
  shows "cstr (cs @ 0 # post) 0 = cs" "(cs @ 0 # post) ! 0 \<noteq> 0"
proof -
  have z: "0 \<notin> set cs" using assms(1) by (auto simp: simple_line_def)
  show "cstr (cs @ 0 # post) 0 = cs" using cstr_word [OF z, of "[]" post] by simp
  show "(cs @ 0 # post) ! 0 \<noteq> 0" using assms(2) z by (cases cs) auto
qed

section \<open>Properties\<close>

text \<open>
  C29: running a line.  For a line of fewer than 512 characters without backslashes and zero bytes whose commands have
  fewer than 32 words each, the code that cuts the line in place runs exactly the commands
  that a tokenizer on lists finds, in order, each with its words as arguments, up to
  the first that does not succeed; the line joins the history first.  A word that starts with a quote ends at the next quote or
  blank, and the semicolons in it do not end the command; in other words a quote is a character like any other.
\<close>

theorem cli_run_refines:
  assumes "simple_line cs" "cs \<noteq> []" "length cs < CMD_MAX_CMDLINE_SIZE"
    "\<forall>ws \<in> set (commands cs). length ws < CMD_MAX_ARGV"
  shows "cli_run_command run tbl mem_ok (Some (cs @ 0 # post)) (h, w) =
    Inr (run_all run tbl (commands cs) CMD_RET_SUCCESS (cmd_history_add mem_ok cs h, w))"
  using run_loop_commands [OF assms(1,4), of run tbl "[]" post 0] assms(3)
    line_start [OF assms(1,2), of post]
  by (simp add: cli_run_command_def)

text \<open>The line \<^verbatim>\<open>a "b;";c\<close>: the quoted semicolon is part of the argument, but the word behind the quote is empty.\<close>

definition demo_line :: "u8 list" where
  "demo_line = [0x61, 0x20, ch_quote, 0x62, ch_semi, ch_quote, ch_semi, 0x63]"

lemma demo_commands: "commands demo_line = [[[0x61], [0x62, ch_semi], []], [[0x63]]]"
  by (simp add: commands.simps tokens.simps demo_line_def is_blank_def plain_def)

theorem cli_run_refines_witness:
  "cli_run_command (\<lambda>k argv hw. (0, (fst hw, snd hw @ [(k, argv)])))
     (\<lambda>_. [\<lparr>cname = [0x61], chandler = 1, cusage = None\<rparr>, \<lparr>cname = [0x63], chandler = 2, cusage = None\<rparr>])
     False (Some (demo_line @ 0 # [])) (\<lparr>cmd_history = replicate 8 None, cmd_hindex = 0, cmd_cursor = 0\<rparr>, []) =
   Inr (0, (\<lparr>cmd_history = replicate 8 None, cmd_hindex = 0, cmd_cursor = 0\<rparr>,
            [(1, [[0x61], [0x62, ch_semi], []]), (2, [[0x63]])]))"
proof -
  have d: "simple_line demo_line" "demo_line \<noteq> []" "length demo_line < 512"
    by (simp_all add: demo_line_def simple_line_def)
  have few: "\<forall>ws \<in> set (commands demo_line). length ws < 32" by (simp add: demo_commands)
  show ?thesis
    unfolding cli_run_refines [OF d few]
    by (simp add: demo_commands cli_process_cmd_def cli_find_cmd_def cmd_history_add_def hindex_def
        numeral_eq_Suc)
qed

text \<open>
  A line with 32 words or more in one command writes the null that ends the arguments one
  element behind the array.
\<close>

theorem cli_argv_overflow:
  assumes "simple_line cs" "cs \<noteq> []" "length cs < CMD_MAX_CMDLINE_SIZE"
    "CMD_MAX_ARGV \<le> length (fst (tokens cs))"
  shows "cli_run_command run tbl mem_ok (Some (cs @ 0 # post)) (h, w) = Inl BadAccess"
proof -
  note line = line_start [OF assms(1,2), of post]
  obtain ws u where t: "tokens cs = (ws, u)" by fastforce
  obtain u' where "parsed [] post [] (take 32 ws) u' (parse_args 32 [] (cs @ 0 # post) 0)"
    using parse_args_tokens [OF assms(1) t, of "[]" post "[]" 32] by auto
  then obtain ixs pre' where p: "parse_args 32 [] (cs @ 0 # post) 0 =
      Inr (ixs, pre' @ u' @ 0 # post, length pre')" "map (cstr (pre' @ u' @ 0 # post)) ixs = take 32 ws"
    by (auto simp: parsed_def)
  have "length ixs = 32" using p(2) assms(4) t by (metis fst_conv length_map length_take min.absorb2)
  then have "cli_parse_line 32 (cs @ 0 # post) 0 = Inl BadAccess"
    using p(1) by (simp add: cli_parse_line_def)
  then show ?thesis
    using line assms(3) by (simp add: cli_run_command_def run_loop.simps [of _ _ "cs @ 0 # post"])
qed

lemma tokens_a: "tokens (concat (replicate n [0x61, 0x20])) = (replicate n [0x61], [])"
  by (induction n) (simp_all add: tokens.simps is_blank_def plain_def)

theorem cli_argv_overflow_witness:
  "cli_run_command (\<lambda>k argv hw. (0, hw)) (\<lambda>_. []) False
     (Some (concat (replicate 32 [0x61, 0x20]) @ 0 # []))
     (\<lparr>cmd_history = replicate 8 None, cmd_hindex = 0, cmd_cursor = 0\<rparr>, ()) = Inl BadAccess"
proof (rule cli_argv_overflow)
  show "simple_line (concat (replicate 32 [0x61, 0x20]))" by (simp add: simple_line_def)
  show "concat (replicate 32 [0x61 :: u8, 0x20]) \<noteq> []" by simp
  show "length (concat (replicate 32 [0x61 :: u8, 0x20])) < 512" by (simp add: length_concat sum_list_replicate)
  show "32 \<le> length (fst (tokens (concat (replicate 32 [0x61, 0x20]))))" by (simp add: tokens_a)
qed

text \<open>
  A backslash does not disappear.  The text behind it is moved one place down without its
  final zero, so that the last character of the line appears twice.
\<close>

theorem cli_escape_duplicates:
  assumes "\<forall>x \<in> set xs. plain False x \<and> x \<noteq> 0 \<and> x \<noteq> ch_bslash \<and> x \<noteq> ch_quote" "xs \<noteq> []" "c \<noteq> 0"
    "\<forall>x \<in> set (ys @ [last (c # ys)]). plain False x \<and> x \<noteq> 0 \<and> x \<noteq> ch_bslash"
  shows "\<exists>buf s. cli_parse_line CMD_MAX_ARGV (xs @ ch_bslash # c # ys @ 0 # post) 0 = Inr ([0], buf, s) \<and>
    cstr buf 0 = xs @ c # ys @ [last (c # ys)]"
proof -
  define l where "l = last (c # ys)"
  define B where "B = xs @ ch_bslash # c # ys @ 0 # post"
  define B' where "B' = xs @ c # ys @ l # 0 # post"
  have z: "0 \<notin> set (c # ys)" using assms(3,4) by auto
  have xs: "\<forall>x \<in> set xs. plain False x \<and> x \<noteq> 0 \<and> x \<noteq> ch_bslash" using assms(1) by blast
  obtain x xs' where x: "xs = x # xs'" using assms(2) by (cases xs) auto
  have x0: "B ! 0 = x" "\<not> is_blank x" "x \<noteq> 0" "x \<noteq> ch_quote"
    using assms(1) x by (auto simp: B_def plain_def)
  have sk: "skip_blanks B 0 = Inr 0" using x0 by (simp add: skip_blanks.simps [of B 0]) (simp add: B_def)
  have "arg_loop False B 0 = arg_loop False B (length xs)"
    using arg_loop_skip [OF xs, of "[]" "ch_bslash # c # ys @ 0 # post"] by (simp add: B_def)
  also have "\<dots> = arg_loop False B' (length xs + 1)"
    using shift_left_escape [OF z, of xs post]
    by (simp add: arg_loop.simps [of False B "length xs"] is_blank_def) (simp add: B_def B'_def l_def)
  also have "\<dots> = Inr (AtChar, B', length xs + 1 + length (ys @ [l]))"
    using arg_loop_word [of "ys @ [l]" False 0 "xs @ [c]" post] assms(4) by (simp add: B'_def l_def)
  finally have "arg_loop False B 0 = Inr (AtChar, B', length xs + 1 + length (ys @ [l]))" .
  moreover have "B' ! (length xs + 1 + length (ys @ [l])) = 0"
    using nth_append_length [of "xs @ c # ys @ [l]" 0 post] by (simp add: B'_def)
  ultimately have "parse_args 32 [] B 0 = Inr ([0], B', length xs + 1 + length (ys @ [l]))"
    using sk x0 by (simp add: numeral_eq_Suc)
  moreover have "cstr B' 0 = xs @ c # ys @ [l]"
  proof -
    have "0 \<notin> set (xs @ c # ys @ [l])" using assms(3,4) xs unfolding l_def by auto
    from cstr_word [OF this, of "[]" post] show ?thesis by (simp add: B'_def)
  qed
  ultimately show ?thesis
    unfolding B_def [symmetric] l_def [symmetric] by (simp add: cli_parse_line_def)
qed

text \<open>The line \<^verbatim>\<open>a\bc\<close> gives the argument \<^verbatim>\<open>abcc\<close>.\<close>

theorem cli_escape_duplicates_witness:
  "\<exists>buf s. cli_parse_line CMD_MAX_ARGV ([0x61] @ ch_bslash # 0x62 # [0x63] @ 0 # []) 0 = Inr ([0], buf, s) \<and>
    cstr buf 0 = [0x61, 0x62, 0x63, 0x63]"
  using cli_escape_duplicates [of "[0x61]" "0x62" "[0x63]" "[]"] by (simp add: plain_def is_blank_def)

end
