(* ===== verification/Cli_Readline.thy ===== *)
theory Cli_Readline
  imports Cli
begin

text \<open>
  The line editor of \<^verbatim>\<open>lib/cli/cli.c\<close>, with history and completion: \<^verbatim>\<open>cli_readline\<close> and its
  helpers.  \<open>rin\<close> is what the successive calls of \<^verbatim>\<open>getchar\<close> return, negative for no
  character; a loop that waits for a character when the list is empty does not return.  \<open>rout\<close>
  is what was written to the console.
\<close>

section \<open>State\<close>

record rl =
  rbuf :: "u8 list"
  rp :: nat
  rn :: int
  rcol :: int
  rin :: "int list"
  rout :: "u8 list"
  rhist :: cli_hist

definition erase_seq :: "u8 list" where
  "erase_seq = [0x08, 0x20, 0x08]"

definition puts :: "u8 list \<Rightarrow> rl \<Rightarrow> rl" where
  "puts cs s = s\<lparr>rout := rout s @ cs\<rparr>"

text \<open>\<^verbatim>\<open>do { c = getchar(); } while (c < 0)\<close>.\<close>

fun wait_char :: "int list \<Rightarrow> (int \<times> int list) option" where
  "wait_char [] = None"
| "wait_char (c # cs) = (if c < 0 then wait_char cs else Some (c, cs))"

definition getchar :: "rl \<Rightarrow> int \<times> rl" where
  "getchar s = (case rin s of [] \<Rightarrow> (- 1, s) | c # cs \<Rightarrow> (c, s\<lparr>rin := cs\<rparr>))"

text \<open>The loop that moves the cursor back to the prompt.\<close>

definition erase_line :: "int \<Rightarrow> rl \<Rightarrow> rl" where
  "erase_line plen s =
     s\<lparr>rout := rout s @ concat (replicate (nat (rcol s - plen)) erase_seq),
       rcol := min (rcol s) plen\<rparr>"

section \<open>Deleting\<close>

fun retype :: "u8 list \<Rightarrow> rl \<Rightarrow> rl" where
  "retype [] s = s"
| "retype (c # cs) s =
     retype cs
       (if c = 0x09 then (puts (replicate (nat (8 - (rcol s AND 7))) 0x20) s)\<lparr>rcol := rcol s + 8 - (rcol s AND 7)\<rparr>
        else puts [c] (s\<lparr>rcol := rcol s + 1\<rparr>))"

definition delete_char :: "int \<Rightarrow> rl \<Rightarrow> rl res" where
  "delete_char plen s =
     (if rn s = 0 then Inr s
      else if rp s = 0 \<or> rp s > length (rbuf s) then Inl BadAccess
      else
        (let p = rp s - 1;
             s1 = (if rbuf s ! p = 0x09 then retype (take p (rbuf s)) (erase_line plen s)
                   else puts erase_seq (s\<lparr>rcol := rcol s - 1\<rparr>))
         in Inr (s1\<lparr>rp := p, rn := rn s1 - 1\<rparr>)))"

lemma retype_fields [simp]:
  "rbuf (retype cs s) = rbuf s" "rp (retype cs s) = rp s" "rn (retype cs s) = rn s"
  "rin (retype cs s) = rin s" "rhist (retype cs s) = rhist s"
  by (induction cs s rule: retype.induct) (simp_all add: puts_def)

lemma erase_line_fields [simp]:
  "rbuf (erase_line plen s) = rbuf s" "rp (erase_line plen s) = rp s" "rn (erase_line plen s) = rn s"
  "rin (erase_line plen s) = rin s" "rhist (erase_line plen s) = rhist s"
  by (simp_all add: erase_line_def)

lemma delete_char_fields:
  "delete_char plen s = Inr s1 \<Longrightarrow> rbuf s1 = rbuf s \<and> rin s1 = rin s \<and> rhist s1 = rhist s \<and>
     (if rn s = 0 then s1 = s else rp s1 = rp s - 1 \<and> rn s1 = rn s - 1)"
  by (auto simp: delete_char_def Let_def puts_def split: if_splits)

text \<open>The loop of \<^verbatim>\<open>^W\<close>: it stops when the character just deleted was a blank.\<close>

function delete_word :: "int \<Rightarrow> rl \<Rightarrow> rl res" where
  "delete_word plen s =
     (if \<not> rn s > 0 then Inr s
      else if rp s \<ge> length (rbuf s) then Inl BadAccess
      else if rbuf s ! rp s = 0x20 then Inr s
      else (case delete_char plen s of Inl e \<Rightarrow> Inl e | Inr s1 \<Rightarrow> delete_word plen s1))"
  by pat_completeness auto

termination
  by (relation "measure (\<lambda>(plen, s). nat (rn s))") (auto dest: delete_char_fields)

declare delete_word.simps [simp del]

section \<open>Escape sequences\<close>

text \<open>
  The states of the parser are numbered as in the source, \<^verbatim>\<open>CSI_START\<close> 1 to \<^verbatim>\<open>CSI_FINAL\<close> 4.  The result
  is the final byte, or nothing when the sequence is malformed.
\<close>

fun csi_loop :: "nat \<Rightarrow> nat \<Rightarrow> int list \<Rightarrow> (int option \<times> int list) option" where
  "csi_loop st esclen [] = None"
| "csi_loop st esclen (c # cs) =
     (if c < 0 then csi_loop st esclen cs
      else if esclen = 8 then Some (None, cs)
      else if c \<ge> 0x20 \<and> c < 0x30 then
        (if st > 2 then Some (None, cs) else csi_loop 2 (esclen + 1) cs)
      else if c \<ge> 0x30 \<and> c < 0x40 then
        (if st > 3 then Some (None, cs) else csi_loop 3 (esclen + 1) cs)
      else if c \<ge> 0x40 \<and> c < 0x7f then Some (Some c, cs)
      else Some (None, cs))"

definition escape_key :: "int list \<Rightarrow> (int option \<times> int list) option" where
  "escape_key cs =
     (case wait_char cs of
        None \<Rightarrow> None
      | Some (c, cs1) \<Rightarrow> if c \<noteq> 0x5B then Some (None, cs1) else csi_loop 1 2 cs1)"

definition recall :: "int \<Rightarrow> u8 list option \<Rightarrow> rl \<Rightarrow> rl res" where
  "recall plen hist s =
     (case hist of
        Some str \<Rightarrow>
          if length str + 1 > length (rbuf s) then Inl BadAccess
          else Inr ((puts str s)\<lparr>rbuf := str @ [0] @ drop (length str + 1) (rbuf s),
                                rn := int (length str), rcol := int (length str) + plen,
                                rp := length str\<rparr>)
      | None \<Rightarrow> Inr (s\<lparr>rn := 0, rcol := plen, rp := 0\<rparr>))"

definition handle_escape_sequence :: "int \<Rightarrow> rl \<Rightarrow> rl res" where
  "handle_escape_sequence plen s =
     (case escape_key (rin s) of
        None \<Rightarrow> Inl NoReturn
      | Some (k, cs) \<Rightarrow>
          (let s1 = s\<lparr>rin := cs\<rparr>
           in if k = Some 0x41 \<or> k = Some 0x42 then
                (let s2 = erase_line plen s1;
                     (hist, h) = (if k = Some 0x41 then cmd_history_search_backward (rhist s2)
                                  else cmd_history_search_forward (rhist s2))
                 in recall plen hist (s2\<lparr>rhist := h\<rparr>))
              else Inr s1))"

section \<open>Completion\<close>

text \<open>The search for the first and the end of the commands that start with the word.\<close>

fun scan_cmds :: "u8 list \<Rightarrow> nat \<Rightarrow> nat option \<Rightarrow> u8 list list \<Rightarrow> nat option \<times> nat option" where
  "scan_cmds a i start [] = (start, None)"
| "scan_cmds a i start (nm # ns) =
     (if take (length a) nm = a then scan_cmds a (i + 1) (if start = None then Some i else start) ns
      else if start \<noteq> None then (start, Some i)
      else scan_cmds a (i + 1) start ns)"

definition ungetc :: "int \<Rightarrow> rl \<Rightarrow> rl" where
  "ungetc c s = (if c < 0 then s else s\<lparr>rin := c # rin s\<rparr>)"

function ac_cycle :: "int \<Rightarrow> u8 list list \<Rightarrow> nat \<Rightarrow> nat option \<Rightarrow> nat \<Rightarrow> rl \<Rightarrow> rl res" where
  "ac_cycle plen names start stop t s =
     (if t \<ge> length names then Inl BadAccess
      else if length (names ! t) + 1 > length (rbuf s) then Inl BadAccess
      else
        (let nm = names ! t; s1 = puts nm (erase_line plen s);
             s2 = s1\<lparr>rbuf := nm @ [0] @ drop (length nm + 1) (rbuf s1), rn := int (length nm),
                     rcol := int (length nm) + plen, rp := length nm\<rparr>;
             (c, s3) = getchar s2;
             t' = (if Some (t + 1) = stop then start else t + 1)
         in if c = 0x09 then ac_cycle plen names start stop t' s3 else Inr (ungetc c s3)))"
  by pat_completeness auto

termination
  by (relation "measure (\<lambda>(plen, names, start, stop, t, s). length (rin s))")
    (auto simp: getchar_def puts_def split: list.splits)

declare ac_cycle.simps [simp del]

definition cmd_autocomplete :: "int \<Rightarrow> u8 list list \<Rightarrow> rl \<Rightarrow> rl res" where
  "cmd_autocomplete plen names s =
     (if rp s \<ge> length (rbuf s) then Inl BadAccess
      else
        (let buf0 = (rbuf s)[rp s := 0]; line = cstr buf0 0;
             bl = takeWhile is_blank line; a = takeWhile (\<lambda>c. \<not> is_blank c) (dropWhile is_blank line)
         in if dropWhile is_blank line = [] then Inr (s\<lparr>rbuf := buf0\<rparr>)
            else
              (let s1 = s\<lparr>rbuf := buf0[length bl + length a := 0]\<rparr>
               in case scan_cmds a 0 None names of
                    (None, stop) \<Rightarrow> Inr s1
                  | (Some start, stop) \<Rightarrow> ac_cycle plen names start stop start s1)))"

section \<open>Reading a line\<close>

lemma wait_char_length: "wait_char cs = Some (c, cs') \<Longrightarrow> length cs' < length cs"
  by (induction cs) (auto split: if_splits)

lemma csi_loop_length: "csi_loop st n cs = Some (k, cs') \<Longrightarrow> length cs' < length cs"
  by (induction st n cs rule: csi_loop.induct) (auto split: if_splits)

lemma escape_key_length: "escape_key cs = Some (k, cs') \<Longrightarrow> length cs' < length cs"
  unfolding escape_key_def
  by (auto split: option.splits if_splits dest!: wait_char_length csi_loop_length)

lemma recall_rin: "recall plen h s = Inr s' \<Longrightarrow> rin s' = rin s"
  by (auto simp: recall_def puts_def split: option.splits if_splits)

lemma handle_escape_length:
  "handle_escape_sequence plen s = Inr s' \<Longrightarrow> length (rin s') < length (rin s)"
  unfolding handle_escape_sequence_def Let_def
  by (auto split: option.splits if_splits prod.splits dest!: escape_key_length recall_rin)

lemma ac_cycle_length: "ac_cycle plen names start stop t s = Inr s' \<Longrightarrow> length (rin s') \<le> length (rin s)"
proof (induction plen names start stop t s rule: ac_cycle.induct)
  case (1 plen names start stop t s)
  show ?case
    using 1(2) 1(1) unfolding ac_cycle.simps [of plen names start stop t s]
    by (fastforce simp: Let_def getchar_def ungetc_def puts_def split: if_splits list.splits)
qed

lemma autocomplete_length: "cmd_autocomplete plen names s = Inr s' \<Longrightarrow> length (rin s') \<le> length (rin s)"
  by (auto simp: cmd_autocomplete_def Let_def split: if_splits option.splits prod.splits dest!: ac_cycle_length)

lemma delete_word_rin: "delete_word plen s = Inr s' \<Longrightarrow> rin s' = rin s"
proof (induction plen s rule: delete_word.induct)
  case (1 plen s)
  show ?case
  proof (cases "delete_char plen s")
    case (Inr s1)
    with delete_char_fields [OF Inr] 1 show ?thesis
      unfolding delete_word.simps [of plen s] by (simp split: if_splits)
  qed (use 1(2) in \<open>simp add: delete_word.simps [of plen s] split: if_splits\<close>)
qed

function readline_loop :: "int \<Rightarrow> u8 list list \<Rightarrow> rl \<Rightarrow> (int \<times> rl) res" where
  "readline_loop plen names s =
     (if rp s \<ge> length (rbuf s) then Inr (rn s, s)
      else case wait_char (rin s) of
        None \<Rightarrow> Inl NoReturn
      | Some (c, cs) \<Rightarrow>
          (let s1 = s\<lparr>rin := cs\<rparr>
           in if c = 0x0D \<or> c = 0x0A then
                Inr (int (rp s1), puts [0x0D, 0x0A] (s1\<lparr>rbuf := (rbuf s1)[rp s1 := 0]\<rparr>))
              else if c = 0 then readline_loop plen names s1
              else if c = 0x03 then Inr (- 1, s1\<lparr>rbuf := (rbuf s1)[0 := 0]\<rparr>)
              else if c = 0x15 then readline_loop plen names ((erase_line plen s1)\<lparr>rp := 0, rn := 0\<rparr>)
              else if c = 0x17 then
                (case delete_char plen s1 of
                   Inl e \<Rightarrow> Inl e
                 | Inr s2 \<Rightarrow> (case delete_word plen s2 of
                                Inl e \<Rightarrow> Inl e
                              | Inr s3 \<Rightarrow> readline_loop plen names s3))
              else if c = 0x08 \<or> c = 0x7F then
                (case delete_char plen s1 of Inl e \<Rightarrow> Inl e | Inr s2 \<Rightarrow> readline_loop plen names s2)
              else if c = 0x1B then
                (case handle_escape_sequence plen s1 of
                   Inl e \<Rightarrow> Inl e | Inr s2 \<Rightarrow> readline_loop plen names s2)
              else if c = 0x09 then
                (case cmd_autocomplete plen names s1 of
                   Inl e \<Rightarrow> Inl e | Inr s2 \<Rightarrow> readline_loop plen names s2)
              else if rn s1 < int (length (rbuf s1)) - 2 then
                readline_loop plen names
                  ((puts [word_of_int c] s1)\<lparr>rcol := rcol s1 + 1, rbuf := (rbuf s1)[rp s1 := word_of_int c],
                      rp := rp s1 + 1, rn := rn s1 + 1\<rparr>)
              else readline_loop plen names (puts [0x07] s1)))"
  by pat_completeness auto

termination
  by (relation "measure (\<lambda>(plen, names, s). length (rin s))")
    (auto simp: puts_def dest!: wait_char_length delete_char_fields delete_word_rin
      handle_escape_length autocomplete_length)

declare readline_loop.simps [simp del]

definition cli_readline :: "u8 list option \<Rightarrow> u8 list list \<Rightarrow> rl \<Rightarrow> (int \<times> rl) res" where
  "cli_readline prompt names s =
     (let plen = (case prompt of None \<Rightarrow> 0 | Some p \<Rightarrow> int (length p));
          s1 = (case prompt of None \<Rightarrow> s | Some p \<Rightarrow> puts p s)
      in if rbuf s = [] then Inl BadAccess
         else readline_loop plen names
                (s1\<lparr>rbuf := (rbuf s1)[0 := 0], rp := 0, rn := 0, rcol := plen\<rparr>))"

end
