(* ===== verification/Cli_History.thy ===== *)
theory Cli_History
  imports Cli
begin

text \<open>
  The command history as a list: the ring of eight slots, one of them kept free, holds the last seven
  commands.
\<close>

section \<open>Slots\<close>

lemma hindex_mod: "hindex i = nat (i mod 8)"
proof -
  have "i AND 7 = take_bit 3 i" by (simp add: take_bit_eq_mask mask_eq_exp_minus_1)
  then show ?thesis by (simp add: hindex_def take_bit_eq_mod)
qed

lemma hindex_less [simp]: "hindex i < 8"
  by (simp add: hindex_mod nat_less_iff)

lemma hindex_inj: "hindex i = hindex j \<Longrightarrow> \<bar>i - j\<bar> < 8 \<Longrightarrow> i = j"
proof -
  assume "hindex i = hindex j" and d: "\<bar>i - j\<bar> < 8"
  then have "i mod 8 = j mod 8" by (simp add: hindex_mod)
  then have "8 dvd (i - j)" by (rule mod_eq_dvd_iff [THEN iffD1])
  with d show "i = j" by (simp add: dvd_imp_le_int [of "i - j" 8] zdvd_not_zless dvd_def) presburger
qed

lemma hindex_8: "hindex (i - 8) = hindex i"
  by (simp add: hindex_mod)

section \<open>The history as a list\<close>

definition hist_list :: "cli_hist \<Rightarrow> u8 list list" where
  "hist_list h = map (\<lambda>i. the (cmd_history h ! hindex i)) [cmd_oldest_index h .. cmd_hindex h - 1]"

definition hist_inv :: "cli_hist \<Rightarrow> bool" where
  "hist_inv h \<longleftrightarrow> length (cmd_history h) = 8 \<and> 0 \<le> cmd_hindex h \<and>
     cmd_oldest_index h \<le> cmd_cursor h \<and> cmd_cursor h \<le> cmd_hindex h \<and>
     (\<forall>j < 8. cmd_history h ! j \<noteq> None \<longleftrightarrow>
        (\<exists>i. cmd_oldest_index h \<le> i \<and> i < cmd_hindex h \<and> hindex i = j))"

text \<open>The specification of adding: repeated commands are not stored, the oldest goes.\<close>

definition add_spec :: "bool \<Rightarrow> u8 list \<Rightarrow> u8 list list \<Rightarrow> u8 list list" where
  "add_spec mem_ok cmd ys =
     (if ys \<noteq> [] \<and> last ys = cmd \<or> \<not> mem_ok then ys
      else drop (length ys - 6) (ys @ [cmd]))"

lemma hist_length: "hist_inv h \<Longrightarrow> length (hist_list h) = nat (cmd_hindex h - cmd_oldest_index h)"
  by (simp add: hist_list_def)

lemma hist_nth:
  assumes "hist_inv h" "cmd_oldest_index h \<le> i" "i < cmd_hindex h"
  shows "cmd_history h ! hindex i = Some (hist_list h ! nat (i - cmd_oldest_index h))"
proof -
  have "cmd_history h ! hindex i \<noteq> None" using assms hindex_less [of i] by (auto simp: hist_inv_def)
  moreover have "hist_list h ! nat (i - cmd_oldest_index h) = the (cmd_history h ! hindex i)"
    using assms by (simp add: hist_list_def)
  ultimately show ?thesis by simp
qed

lemma hist_free:
  assumes "hist_inv h" "i = cmd_hindex h \<or> i = cmd_oldest_index h - 1"
  shows "cmd_history h ! hindex i = None"
proof (rule ccontr)
  assume "cmd_history h ! hindex i \<noteq> None"
  then obtain k where k: "cmd_oldest_index h \<le> k" "k < cmd_hindex h" "hindex k = hindex i"
    using assms(1) hindex_less [of i] by (auto simp: hist_inv_def)
  have "\<bar>k - i\<bar> < 8" using assms k by (auto simp: cmd_oldest_index_def hist_inv_def)
  from hindex_inj [OF k(3) this] k assms(2) show False by auto
qed

lemma hist_last:
  assumes inv: "hist_inv h"
  shows "cmd_history h ! hindex (cmd_hindex h - 1) = (if hist_list h = [] then None else Some (last (hist_list h)))"
proof (cases "cmd_hindex h = 0")
  case True
  then have "cmd_history h ! hindex (cmd_hindex h - 1) = None"
    using hist_free [OF inv, of "cmd_oldest_index h - 1"] by (simp add: cmd_oldest_index_def)
  with True show ?thesis by (simp add: hist_list_def cmd_oldest_index_def)
next
  case False
  have le: "cmd_oldest_index h \<le> cmd_hindex h - 1" and ne: "hist_list h \<noteq> []"
    using inv False by (auto simp: hist_inv_def cmd_oldest_index_def hist_list_def)
  have "nat (cmd_hindex h - 1 - cmd_oldest_index h) = length (hist_list h) - 1"
    using hist_length [OF inv] le by simp
  with hist_nth [OF inv le] ne show ?thesis by (simp add: last_conv_nth)
qed

section \<open>Adding\<close>

lemma add_step:
  assumes inv: "hist_inv h" and h': "h' = h\<lparr>cmd_history :=
      (cmd_history h)[hindex (cmd_hindex h) := Some cmd, hindex (cmd_hindex h + 1) := None],
    cmd_hindex := cmd_hindex h + 1, cmd_cursor := cmd_hindex h + 1\<rparr>"
  shows "hist_inv h' \<and> hist_list h' = drop (length (hist_list h) - 6) (hist_list h @ [cmd])"
proof -
  define H where "H = cmd_hindex h"
  define lo where "lo = cmd_oldest_index h"
  define lo' where "lo' = cmd_oldest_index h'"
  have lo: "lo = max 0 (H - 7)" and lo': "lo' = max 0 (H - 6)" and H: "0 \<le> H"
    and len: "length (cmd_history h) = 8"
    using inv by (simp_all add: lo_def lo'_def H_def cmd_oldest_index_def h' hist_inv_def)
  have ne: "hindex (H + 1) \<noteq> hindex H" using hindex_inj [of "H + 1" H] by auto
  have at_H: "cmd_history h' ! hindex H = Some cmd" using len ne by (simp add: h' H_def)
  have at_old: "cmd_history h' ! hindex i = cmd_history h ! hindex i" if "lo' \<le> i" "i < H" for i
  proof -
    have "hindex i \<noteq> hindex H" "hindex i \<noteq> hindex (H + 1)"
      using hindex_inj [of i H] hindex_inj [of i "H + 1"] that lo' by auto
    then show ?thesis by (simp add: h' H_def)
  qed
  have slots: "cmd_history h' ! j \<noteq> None \<longleftrightarrow> (\<exists>i. lo' \<le> i \<and> i < H + 1 \<and> hindex i = j)" if j8: "j < 8" for j
  proof
    assume nn: "cmd_history h' ! j \<noteq> None"
    show "\<exists>i. lo' \<le> i \<and> i < H + 1 \<and> hindex i = j"
    proof (cases "j = hindex H")
      case True
      then show ?thesis using lo' H by (intro exI [of _ H]) auto
    next
      case False
      have j1: "j \<noteq> hindex (H + 1)" using nn len by (auto simp: h' H_def)
      then have "cmd_history h ! j \<noteq> None" using nn False by (simp add: h' H_def)
      then obtain i where i: "lo \<le> i" "i < H" "hindex i = j"
        using inv j8 by (auto simp: hist_inv_def lo_def H_def)
      have "lo' \<le> i"
      proof (rule ccontr)
        assume "\<not> lo' \<le> i"
        then have "i = H + 1 - 8" using i lo lo' by auto
        with i(3) j1 hindex_8 [of "H + 1"] show False by simp
      qed
      with i show ?thesis by auto
    qed
  next
    assume "\<exists>i. lo' \<le> i \<and> i < H + 1 \<and> hindex i = j"
    then obtain i where i: "lo' \<le> i" "i < H + 1" "hindex i = j" by blast
    show "cmd_history h' ! j \<noteq> None"
    proof (cases "i = H")
      case True
      with i at_H show ?thesis by auto
    next
      case False
      have "lo \<le> i" using i lo lo' by auto
      with hist_nth [OF inv, of i] at_old [of i] i False show ?thesis by (auto simp: lo_def H_def)
    qed
  qed
  have "hist_inv h'"
    using slots len H lo' unfolding hist_inv_def lo'_def [symmetric] by (simp add: h' H_def [symmetric])
  moreover have "hist_list h' = drop (length (hist_list h) - 6) (hist_list h @ [cmd])"
  proof -
    define f where "f i = the (cmd_history h ! hindex i)" for i
    have k: "length (hist_list h) - 6 = nat (lo' - lo)" "nat (lo' - lo) \<le> length (hist_list h)"
      using hist_length [OF inv] lo lo' H
      unfolding lo_def [symmetric] H_def [symmetric] max_def by (auto split: if_splits)
    have "[lo .. H - 1] = [lo .. lo' - 1] @ [lo' .. H - 1]"
      using lo lo' H upto_split1 [of lo lo' "H - 1"] by (cases "lo' \<le> H - 1") auto
    then have "drop (nat (lo' - lo)) (map f [lo .. H - 1]) = map f [lo' .. H - 1]"
      using lo lo' by simp
    moreover have "hist_list h = map f [lo .. H - 1]"
      by (simp add: hist_list_def f_def lo_def H_def)
    moreover have "hist_list h' = map f [lo' .. H - 1] @ [cmd]"
    proof -
      have "hist_list h' = map (\<lambda>i. the (cmd_history h' ! hindex i)) [lo' .. H]"
        by (simp add: hist_list_def lo'_def h' H_def)
      also have "[lo' .. H] = [lo' .. H - 1] @ [H]" using lo' H by (intro upto_rec2) auto
      finally show ?thesis using at_H at_old by (simp add: f_def)
    qed
    ultimately show ?thesis using k by simp
  qed
  ultimately show ?thesis by blast
qed

lemma history_add:
  assumes inv: "hist_inv h"
  shows "hist_inv (cmd_history_add mem_ok cmd h) \<and>
    hist_list (cmd_history_add mem_ok cmd h) = add_spec mem_ok cmd (hist_list h)"
proof -
  consider "hist_list h \<noteq> []" "last (hist_list h) = cmd" |
    "\<not> (hist_list h \<noteq> [] \<and> last (hist_list h) = cmd)" by blast
  then show ?thesis
  proof cases
    case 1
    then have "cmd_history_add mem_ok cmd h = h\<lparr>cmd_cursor := cmd_hindex h\<rparr>"
      using hist_last [OF inv] by (simp add: cmd_history_add_def)
    with 1 inv show ?thesis
      by (auto simp: add_spec_def hist_inv_def hist_list_def cmd_oldest_index_def)
  next
    case 2
    then have ne: "cmd_history h ! hindex (cmd_hindex h - 1) \<noteq> Some cmd"
      using hist_last [OF inv] by auto
    show ?thesis
    proof (cases mem_ok)
      case True
      with add_step [OF inv refl, of cmd] ne 2 show ?thesis
        by (auto simp: cmd_history_add_def add_spec_def Let_def)
    next
      case False
      with ne inv show ?thesis by (simp add: cmd_history_add_def add_spec_def)
    qed
  qed
qed

lemma hist_range:
  assumes "hist_inv h"
  shows "cmd_oldest_index h \<le> cmd_cursor h" "cmd_cursor h \<le> cmd_hindex h" "0 \<le> cmd_hindex h"
  using assms by (simp_all add: hist_inv_def)

lemma history_move:
  assumes "hist_inv h" "cmd_oldest_index h \<le> k" "k \<le> cmd_hindex h"
  shows "hist_inv (h\<lparr>cmd_cursor := k\<rparr>) \<and> hist_list (h\<lparr>cmd_cursor := k\<rparr>) = hist_list h"
  using assms by (simp add: hist_inv_def hist_list_def cmd_oldest_index_def)

lemma history_backward:
  assumes inv: "hist_inv h"
  shows "let c = nat (cmd_cursor h - cmd_oldest_index h); (r, h') = cmd_history_search_backward h
       in hist_inv h' \<and> hist_list h' = hist_list h \<and>
          (if c = 0 then r = None \<and> cmd_cursor h' = cmd_cursor h
           else r = Some (hist_list h ! (c - 1)) \<and> cmd_cursor h' = cmd_cursor h - 1)"
proof -
  note f = hist_range [OF inv]
  show ?thesis
  proof (cases "cmd_cursor h = cmd_oldest_index h")
    case True
    with history_move [OF inv, of "cmd_oldest_index h"] hist_free [OF inv, of "cmd_oldest_index h - 1"] f show ?thesis
      by (simp add: cmd_history_search_backward_def Let_def max_def)
  next
    case False
    have e: "nat (cmd_cursor h - 1 - cmd_oldest_index h) = nat (cmd_cursor h - cmd_oldest_index h) - 1"
      using f False by simp
    have "max (cmd_cursor h - 1) (cmd_oldest_index h) = cmd_cursor h - 1" using f False by simp
    with e False history_move [OF inv, of "cmd_cursor h - 1"] hist_nth [OF inv, of "cmd_cursor h - 1"] f show ?thesis
      by (simp add: cmd_history_search_backward_def Let_def)
  qed
qed

lemma history_forward:
  assumes inv: "hist_inv h"
  shows "let c = nat (cmd_cursor h - cmd_oldest_index h); (r, h') = cmd_history_search_forward h
       in hist_inv h' \<and> hist_list h' = hist_list h \<and>
          (if c + 1 < length (hist_list h) then r = Some (hist_list h ! (c + 1)) else r = None) \<and>
          cmd_cursor h' = min (cmd_cursor h + 1) (cmd_hindex h)"
proof -
  note f = hist_range [OF inv]
  note len = hist_length [OF inv]
  show ?thesis
  proof (cases "cmd_cursor h = cmd_hindex h")
    case True
    then show ?thesis using inv len f by (simp add: cmd_history_search_forward_def Let_def)
  next
    case False
    have e: "nat (cmd_cursor h + 1 - cmd_oldest_index h) = nat (cmd_cursor h - cmd_oldest_index h) + 1"
      using f by simp
    show ?thesis
    proof (cases "cmd_cursor h + 1 = cmd_hindex h")
      case True
      with False history_move [OF inv, of "cmd_cursor h + 1"] hist_free [OF inv, of "cmd_cursor h + 1"] f len e show ?thesis
        by (simp add: cmd_history_search_forward_def Let_def)
    next
      case lt: False
      then have "nat (cmd_cursor h - cmd_oldest_index h) + 1 < length (hist_list h)"
        using False f len by simp
      with False lt history_move [OF inv, of "cmd_cursor h + 1"] hist_nth [OF inv, of "cmd_cursor h + 1"] f e show ?thesis
        by (simp add: cmd_history_search_forward_def Let_def)
    qed
  qed
qed

section \<open>Properties\<close>

text \<open>
  C30: the ring of the history is a list of at most seven commands.  Adding a command
  appends it, drops the oldest when there are eight, and leaves the list alone when it repeats the newest or no
  memory is left; the cursor walks the list: backward gives the entry before it and stops with
  nothing at the oldest, forward the entry behind it and nothing behind the newest.
\<close>

theorem cli_history_refines:
  assumes "hist_inv h"
  shows "hist_inv (cmd_history_add mem_ok cmd h)
    \<and> hist_list (cmd_history_add mem_ok cmd h) = add_spec mem_ok cmd (hist_list h)
    \<and> (let c = nat (cmd_cursor h - cmd_oldest_index h); (r, h') = cmd_history_search_backward h
       in hist_inv h' \<and> hist_list h' = hist_list h \<and>
          (if c = 0 then r = None \<and> cmd_cursor h' = cmd_cursor h
           else r = Some (hist_list h ! (c - 1)) \<and> cmd_cursor h' = cmd_cursor h - 1))
    \<and> (let c = nat (cmd_cursor h - cmd_oldest_index h); (r, h') = cmd_history_search_forward h
       in hist_inv h' \<and> hist_list h' = hist_list h \<and>
          (if c + 1 < length (hist_list h) then r = Some (hist_list h ! (c + 1)) else r = None) \<and>
          cmd_cursor h' = min (cmd_cursor h + 1) (cmd_hindex h))
    \<and> length (hist_list h) \<le> 7"
proof -
  have "length (hist_list h) \<le> 7" unfolding hist_length [OF assms] cmd_oldest_index_def by simp
  with history_add [OF assms, of mem_ok cmd] history_backward [OF assms] history_forward [OF assms]
  show ?thesis by blast
qed

definition hist0 :: cli_hist where
  "hist0 = \<lparr>cmd_history = replicate 8 None, cmd_hindex = 0, cmd_cursor = 0\<rparr>"

theorem cli_history_refines_witness:
  "hist_list (cmd_history_add True [0x61] hist0) = [[0x61]]"
proof -
  have "hist_inv hist0" by (simp add: hist_inv_def hist0_def cmd_oldest_index_def)
  from cli_history_refines [OF this, of True "[0x61]"] show ?thesis
    by (simp add: add_spec_def hist_list_def hist0_def cmd_oldest_index_def)
qed

end
