(* ===== verification/Cli_Readline_Props.thy ===== *)
theory Cli_Readline_Props
  imports Cli_Readline Cli_History
begin

text \<open>
  The line editor against a specification on lists of characters, and the completion that
  leaves the table of commands.
\<close>

section \<open>An editor on lists\<close>

datatype edit_result = Waiting | Broken cli_hist "int list" | Entered "u8 list" cli_hist "int list"

fun erase_word_rev :: "u8 list \<Rightarrow> u8 list" where
  "erase_word_rev [] = []"
| "erase_word_rev (x # xs) = (if x = 0x20 then xs else erase_word_rev xs)"

definition erase_word :: "u8 list \<Rightarrow> u8 list" where
  "erase_word line = rev (erase_word_rev (rev line))"

function edit :: "nat \<Rightarrow> u8 list \<Rightarrow> cli_hist \<Rightarrow> int list \<Rightarrow> edit_result" where
  "edit blen line h ins =
     (case wait_char ins of
        None \<Rightarrow> Waiting
      | Some (c, cs) \<Rightarrow>
          if c = 0x0D \<or> c = 0x0A then Entered line h cs
          else if c = 0 then edit blen line h cs
          else if c = 0x03 then Broken h cs
          else if c = 0x15 then edit blen [] h cs
          else if c = 0x17 then edit blen (erase_word line) h cs
          else if c = 0x08 \<or> c = 0x7F then edit blen (butlast line) h cs
          else if c = 0x1B then
            (case escape_key cs of
               None \<Rightarrow> Waiting
             | Some (k, cs') \<Rightarrow>
                 if k = Some 0x41 \<or> k = Some 0x42 then
                   (let (r, h') = (if k = Some 0x41 then cmd_history_search_backward h
                                   else cmd_history_search_forward h)
                    in edit blen (case r of None \<Rightarrow> [] | Some str \<Rightarrow> str) h' cs')
                 else edit blen line h cs')
          else if int (length line) < int blen - 2 then edit blen (line @ [word_of_int c]) h cs
          else edit blen line h cs)"
  by pat_completeness auto

termination
  by (relation "measure (\<lambda>(blen, line, h, ins). length ins)")
    (auto dest!: wait_char_length escape_key_length)

declare edit.simps [simp del]

section \<open>The buffer holds the line\<close>

definition holds :: "rl \<Rightarrow> u8 list \<Rightarrow> bool" where
  "holds s line \<longleftrightarrow> rp s = length line \<and> rn s = int (length line) \<and> take (length line) (rbuf s) = line \<and>
     length line < length (rbuf s)"

definition hist_fits :: "nat \<Rightarrow> cli_hist \<Rightarrow> bool" where
  "hist_fits blen h \<longleftrightarrow> length (cmd_history h) = 8 \<and>
     (\<forall>str. Some str \<in> set (cmd_history h) \<longrightarrow> length str < blen)"

lemma delete_char_holds:
  assumes h: "holds s line"
  obtains s1 where "delete_char plen s = Inr s1" "holds s1 (butlast line)" "rbuf s1 = rbuf s"
    "rin s1 = rin s" "rhist s1 = rhist s" "line \<noteq> [] \<longrightarrow> rbuf s1 ! rp s1 = last line"
proof (cases "line = []")
  case True
  with h have "delete_char plen s = Inr s" by (simp add: delete_char_def holds_def)
  with True h that [of s] show thesis by simp
next
  case False
  with h have ok: "\<exists>s1. delete_char plen s = Inr s1"
    by (auto simp: delete_char_def holds_def Let_def)
  then obtain s1 where s1: "delete_char plen s = Inr s1" by blast
  note f = delete_char_fields [OF s1]
  have n: "rn s \<noteq> 0" using h False by (simp add: holds_def)
  have p1: "rp s1 = length line - 1" using f n h by (simp add: holds_def)
  have tk: "take (length line - 1) (rbuf s) = butlast line"
    using h butlast_take [of "length line" "rbuf s"] by (simp add: holds_def)
  have "take (length line) (rbuf s) ! (length line - 1) = rbuf s ! (length line - 1)"
    by (rule nth_take) (use False in simp)
  moreover have "take (length line) (rbuf s) = line" using h by (simp add: holds_def)
  ultimately have "rbuf s ! (length line - 1) = last line" using False by (simp add: last_conv_nth)
  moreover have f': "rbuf s1 = rbuf s" "rin s1 = rin s" "rhist s1 = rhist s" "rn s1 = rn s - 1"
    using f n by simp_all
  moreover have "holds s1 (butlast line)"
  proof -
    have "int (length (butlast line)) = int (length line) - 1" using False by (cases line) simp_all
    moreover have "rn s = int (length line)" "length line < length (rbuf s)"
      using h unfolding holds_def by blast+
    ultimately show ?thesis
      unfolding holds_def f' p1 using tk by simp
  qed
  ultimately show thesis using s1 p1 by (intro that [of s1]) simp_all
qed

lemma delete_word_holds:
  "holds s line \<Longrightarrow> rbuf s ! rp s = x \<Longrightarrow>
     \<exists>s1. delete_word plen s = Inr s1 \<and> holds s1 (if x = 0x20 then line else erase_word line) \<and>
       rbuf s1 = rbuf s \<and> rin s1 = rin s \<and> rhist s1 = rhist s"
proof (induction line arbitrary: s x rule: rev_induct)
  case Nil
  then show ?case
    by (simp add: delete_word.simps [of plen s] holds_def erase_word_def)
next
  case (snoc y line)
  have p: "rp s < length (rbuf s)" "rn s > 0" using snoc.prems(1) by (simp_all add: holds_def)
  show ?case
  proof (cases "x = 0x20")
    case True
    with p snoc.prems show ?thesis by (simp add: delete_word.simps [of plen s])
  next
    case False
    obtain s1 where s1: "delete_char plen s = Inr s1" "holds s1 line" "rbuf s1 = rbuf s"
      "rin s1 = rin s" "rhist s1 = rhist s" "rbuf s1 ! rp s1 = y"
      by (rule delete_char_holds [OF snoc.prems(1), of plen]) simp
    have "delete_word plen s = delete_word plen s1"
      using False p snoc.prems(2) s1(1) by (simp add: delete_word.simps [of plen s])
    with snoc.IH [OF s1(2,6)] s1 False show ?thesis by (auto simp: erase_word_def)
  qed
qed

lemma search_fits:
  assumes "hist_fits blen h"
    "(r, h') = (if b then cmd_history_search_backward h else cmd_history_search_forward h)"
  shows "hist_fits blen h' \<and> (\<forall>str. r = Some str \<longrightarrow> length str < blen)"
proof -
  have "cmd_history h ! hindex i \<in> set (cmd_history h)" for i
    using assms(1) by (simp add: hist_fits_def)
  then have "cmd_history h ! hindex i = Some str \<Longrightarrow> length str < blen" for i str
    using assms(1) by (metis hist_fits_def)
  with assms show ?thesis
    by (auto simp: hist_fits_def cmd_history_search_backward_def cmd_history_search_forward_def Let_def
        split: if_splits)
qed

lemma recall_holds:
  assumes "\<forall>str. r = Some str \<longrightarrow> length str < length (rbuf s)" "0 < length (rbuf s)"
  shows "\<exists>s1. recall plen r s = Inr s1 \<and> holds s1 (case r of None \<Rightarrow> [] | Some str \<Rightarrow> str) \<and>
    length (rbuf s1) = length (rbuf s) \<and> rin s1 = rin s \<and> rhist s1 = rhist s"
  using assms by (auto simp: recall_def holds_def puts_def split: option.splits)

section \<open>Refinement\<close>

definition edit_ok :: "edit_result \<Rightarrow> (int \<times> rl) res \<Rightarrow> bool" where
  "edit_ok e res =
     (case e of
        Waiting \<Rightarrow> res = Inl NoReturn
      | Broken h cs \<Rightarrow> (\<exists>s. res = Inr (- 1, s) \<and> rhist s = h \<and> rin s = cs \<and> cstr (rbuf s) 0 = [])
      | Entered line h cs \<Rightarrow>
          (\<exists>s. res = Inr (int (length line), s) \<and> rhist s = h \<and> rin s = cs \<and>
               take (length line) (rbuf s) = line \<and> rbuf s ! length line = 0))"

lemma set_wait_char: "wait_char cs = Some (c, cs') \<Longrightarrow> c \<in> set cs \<and> set cs' \<subseteq> set cs"
  by (induction cs) (auto split: if_splits)

lemma set_csi_loop: "csi_loop st n cs = Some (k, cs') \<Longrightarrow> set cs' \<subseteq> set cs"
  by (induction st n cs rule: csi_loop.induct) (auto split: if_splits)

lemma set_escape_key:
  assumes "escape_key cs = Some (k, cs')"
  shows "set cs' \<subseteq> set cs"
proof -
  obtain c cs1 where w: "wait_char cs = Some (c, cs1)"
    using assms by (auto simp: escape_key_def split: option.splits)
  have "cs' = cs1 \<or> csi_loop 1 2 cs1 = Some (k, cs')"
    using assms by (auto simp: escape_key_def w split: if_splits)
  with set_wait_char [OF w] set_csi_loop [of 1 2 cs1 k cs'] show ?thesis by blast
qed

text \<open>A key after which the loop goes on, with the state and line it goes on with.\<close>

definition goes_on :: "int \<Rightarrow> u8 list list \<Rightarrow> rl \<Rightarrow> u8 list \<Rightarrow> rl \<Rightarrow> u8 list \<Rightarrow> bool" where
  "goes_on plen names s line s' line' \<longleftrightarrow>
     readline_loop plen names s = readline_loop plen names s' \<and>
     edit (length (rbuf s)) line (rhist s) (rin s) = edit (length (rbuf s)) line' (rhist s') (rin s') \<and>
     holds s' line' \<and> length (rbuf s') = length (rbuf s) \<and> hist_fits (length (rbuf s)) (rhist s') \<and>
     length (rin s') < length (rin s) \<and> set (rin s') \<subseteq> set (rin s)"

lemma key_delete:
  assumes h: "holds s line" and f: "hist_fits (length (rbuf s)) (rhist s)"
    and w: "wait_char (rin s) = Some (c, cs)" and c: "c = 0x17 \<or> c = 0x08 \<or> c = 0x7F"
  shows "\<exists>s' line'. goes_on plen names s line s' line'"
proof -
  define s0 where "s0 = s\<lparr>rin := cs\<rparr>"
  have p: "rp s < length (rbuf s)" using h by (simp add: holds_def)
  have h0: "holds s0 line" using h by (simp add: s0_def holds_def)
  obtain s1 where s1: "delete_char plen s0 = Inr s1" "holds s1 (butlast line)" "rbuf s1 = rbuf s"
    "rin s1 = cs" "rhist s1 = rhist s" "line \<noteq> [] \<longrightarrow> rbuf s1 ! rp s1 = last line"
    by (rule delete_char_holds [OF h0, of plen]) (simp add: s0_def)
  note l = wait_char_length [OF w] set_wait_char [OF w]
  show ?thesis
  proof (cases "c = 0x17")
    case True
    obtain s2 where s2: "delete_word plen s1 = Inr s2" "holds s2 (erase_word line)" "rbuf s2 = rbuf s"
      "rin s2 = cs" "rhist s2 = rhist s"
    proof (cases "line = []")
      case True
      with s1 that [of s1] show thesis
        by (simp add: delete_word.simps [of plen s1] holds_def erase_word_def)
    next
      case False
      have "erase_word line = (if last line = 0x20 then butlast line else erase_word (butlast line))"
        using False by (cases line rule: rev_cases) (simp_all add: erase_word_def)
      with delete_word_holds [OF s1(2), of "last line" plen] s1 False that show thesis by auto
    qed
    have "readline_loop plen names s = readline_loop plen names s2"
      using p w True s1(1) s2(1) by (simp add: readline_loop.simps [of plen names s] s0_def)
    moreover have "edit (length (rbuf s)) line (rhist s) (rin s) =
        edit (length (rbuf s)) (erase_word line) (rhist s2) (rin s2)"
      using w True s2 by (simp add: edit.simps [of _ line "rhist s" "rin s"])
    ultimately show ?thesis
      using s2 f l unfolding goes_on_def by (intro exI [of _ s2] exI [of _ "erase_word line"]) auto
  next
    case False
    have "readline_loop plen names s = readline_loop plen names s1"
      using p w False c s1(1) by (auto simp: readline_loop.simps [of plen names s] s0_def)
    moreover have "edit (length (rbuf s)) line (rhist s) (rin s) =
        edit (length (rbuf s)) (butlast line) (rhist s1) (rin s1)"
      using w False c s1 by (auto simp: edit.simps [of _ line "rhist s" "rin s"])
    ultimately show ?thesis
      using s1 f l unfolding goes_on_def by (intro exI [of _ s1] exI [of _ "butlast line"]) auto
  qed
qed

lemma key_escape:
  assumes h: "holds s line" and f: "hist_fits (length (rbuf s)) (rhist s)"
    and w: "wait_char (rin s) = Some (0x1B, cs)" and e: "escape_key cs = Some (k, cs')"
  shows "\<exists>s' line'. goes_on plen names s line s' line'"
proof -
  have p: "rp s < length (rbuf s)" using h by (simp add: holds_def)
  note l = wait_char_length [OF w] set_wait_char [OF w] escape_key_length [OF e] set_escape_key [OF e]
  show ?thesis
  proof (cases "k = Some 0x41 \<or> k = Some 0x42")
    case True
    obtain r h' where r: "(r, h') = (if k = Some 0x41 then cmd_history_search_backward (rhist s)
        else cmd_history_search_forward (rhist s))" by (metis surj_pair)
    then have rb: "k = Some 0x41 \<Longrightarrow> cmd_history_search_backward (rhist s) = (r, h')"
      "k \<noteq> Some 0x41 \<Longrightarrow> cmd_history_search_forward (rhist s) = (r, h')" by simp_all
    note sf = search_fits [OF f r]
    define s2 where "s2 = (erase_line plen (s\<lparr>rin := cs'\<rparr>))\<lparr>rhist := h'\<rparr>"
    have "\<forall>str. r = Some str \<longrightarrow> length str < length (rbuf s2)" "0 < length (rbuf s2)"
      using sf p by (auto simp: s2_def)
    from recall_holds [OF this, of plen] obtain s3 where s3: "recall plen r s2 = Inr s3"
      "holds s3 (case r of None \<Rightarrow> [] | Some str \<Rightarrow> str)" "length (rbuf s3) = length (rbuf s2)"
      "rin s3 = rin s2" "rhist s3 = rhist s2" by blast
    have "handle_escape_sequence plen (s\<lparr>rin := cs\<rparr>) = Inr s3"
      using True e s3(1) by (simp add: handle_escape_sequence_def Let_def s2_def rb)
    then have "readline_loop plen names s = readline_loop plen names s3"
      using p w by (simp add: readline_loop.simps [of plen names s])
    moreover have "edit (length (rbuf s)) line (rhist s) (rin s) =
        edit (length (rbuf s)) (case r of None \<Rightarrow> [] | Some str \<Rightarrow> str) (rhist s3) (rin s3)"
      using w e True s3(4,5)
      by (simp add: edit.simps [of _ line "rhist s" "rin s"] s2_def rb)
    ultimately show ?thesis
      using s3 sf l unfolding goes_on_def
      by (intro exI [of _ s3] exI [of _ "case r of None \<Rightarrow> [] | Some str \<Rightarrow> str"]) (auto simp: s2_def)
  next
    case False
    then have "handle_escape_sequence plen (s\<lparr>rin := cs\<rparr>) = Inr (s\<lparr>rin := cs'\<rparr>)"
      using e by (auto simp: handle_escape_sequence_def Let_def)
    then have "readline_loop plen names s = readline_loop plen names (s\<lparr>rin := cs'\<rparr>)"
      using p w by (simp add: readline_loop.simps [of plen names s])
    moreover have "edit (length (rbuf s)) line (rhist s) (rin s) = edit (length (rbuf s)) line (rhist s) cs'"
      using w e False by (auto simp: edit.simps [of _ line "rhist s" "rin s"])
    moreover have "holds (s\<lparr>rin := cs'\<rparr>) line" using h by (simp add: holds_def)
    ultimately show ?thesis
      using f l unfolding goes_on_def by (intro exI [of _ "s\<lparr>rin := cs'\<rparr>"] exI [of _ line]) auto
  qed
qed

lemma key_simple:
  assumes h: "holds s line" and f: "hist_fits (length (rbuf s)) (rhist s)"
    and w: "wait_char (rin s) = Some (c, cs)"
    and c: "c \<notin> {0x0D, 0x0A, 0x03, 0x17, 0x08, 0x7F, 0x1B, 0x09}"
  shows "\<exists>s' line'. goes_on plen names s line s' line'"
proof -
  define s1 where "s1 = s\<lparr>rin := cs\<rparr>"
  define b where "b = length (rbuf s)"
  have p: "rp s < length (rbuf s)" "rn s = int (length line)" "rp s = length line"
    "take (length line) (rbuf s) = line" using h by (simp_all add: holds_def)
  note l = wait_char_length [OF w] set_wait_char [OF w]
  define s' where "s' = (if c = 0 then s1
    else if c = 0x15 then (erase_line plen s1)\<lparr>rp := 0, rn := 0\<rparr>
    else if rn s < int b - 2 then
      (puts [word_of_int c] s1)\<lparr>rcol := rcol s1 + 1, rbuf := (rbuf s1)[rp s1 := word_of_int c],
          rp := rp s1 + 1, rn := rn s1 + 1\<rparr>
    else puts [0x07] s1)"
  define line' where "line' = (if c = 0 then line else if c = 0x15 then []
    else if int (length line) < int b - 2 then line @ [word_of_int c] else line)"
  have "readline_loop plen names s = readline_loop plen names s'"
    using p(1) w c by (simp add: readline_loop.simps [of plen names s] s'_def s1_def b_def)
  moreover have "edit b line (rhist s) (rin s) = edit b line' (rhist s') (rin s')"
    using w c p(2) by (simp add: edit.simps [of _ line "rhist s" "rin s"] line'_def s'_def s1_def puts_def)
  moreover have "holds s' line'"
    using h p by (auto simp: holds_def s'_def line'_def s1_def puts_def b_def take_Suc_conv_app_nth)
  moreover have "length (rbuf s') = b" "rin s' = cs" "rhist s' = rhist s"
    by (simp_all add: s'_def s1_def puts_def b_def)
  ultimately show ?thesis
    using f l unfolding goes_on_def b_def by (intro exI [of _ s'] exI [of _ line']) auto
qed

lemma readline_edit:
  "holds s line \<Longrightarrow> hist_fits (length (rbuf s)) (rhist s) \<Longrightarrow> 0x09 \<notin> set (rin s) \<Longrightarrow>
     edit_ok (edit (length (rbuf s)) line (rhist s) (rin s)) (readline_loop plen names s)"
proof (induction "length (rin s)" arbitrary: s line rule: less_induct)
  case less
  note h = less.prems(1) and f = less.prems(2) and t = less.prems(3)
  have p: "rp s < length (rbuf s)" using h by (simp add: holds_def)
  have go: ?case if "\<exists>s' line'. goes_on plen names s line s' line'"
    using that less.hyps less.prems unfolding goes_on_def by (metis subsetD)
  show ?case
  proof (cases "wait_char (rin s)")
    case None
    with p show ?thesis
      by (simp add: readline_loop.simps [of plen names s] edit.simps [of _ line] edit_ok_def)
  next
    case (Some ccs)
    then obtain c cs where w: "wait_char (rin s) = Some (c, cs)" by (cases ccs) auto
    have c9: "c \<noteq> 0x09" using set_wait_char [OF w] t by auto
    consider "c = 0x0D \<or> c = 0x0A" | "c = 0x03" | "c = 0x17 \<or> c = 0x08 \<or> c = 0x7F" | "c = 0x1B"
      | "c \<notin> {0x0D, 0x0A, 0x03, 0x17, 0x08, 0x7F, 0x1B, 0x09}" using c9 by blast
    then show ?thesis
    proof cases
      case 1
      with w p h show ?thesis
        by (auto simp: readline_loop.simps [of plen names s] edit.simps [of _ line] edit_ok_def puts_def
            holds_def)
    next
      case 2
      have "cstr ((rbuf s)[0 := 0]) 0 = []" using p by (cases "rbuf s") (simp_all add: cstr_def)
      with 2 w p show ?thesis
        by (simp add: readline_loop.simps [of plen names s] edit.simps [of _ line] edit_ok_def)
    next
      case 3
      then show ?thesis by (intro go key_delete [OF h f w])
    next
      case 4
      show ?thesis
      proof (cases "escape_key cs")
        case None
        with 4 w p show ?thesis
          by (simp add: readline_loop.simps [of plen names s] edit.simps [of _ line] edit_ok_def
              handle_escape_sequence_def)
      next
        case (Some k)
        then obtain k' cs' where "escape_key cs = Some (k', cs')" by (cases k) auto
        with 4 w show ?thesis by (intro go key_escape [OF h f]) auto
      qed
    next
      case 5
      then show ?thesis by (intro go key_simple [OF h f w])
    qed
  qed
qed

section \<open>Completion\<close>

lemma scan_some: "\<forall>nm \<in> set ms. take (length a) nm = a \<Longrightarrow> scan_cmds a i (Some k) ms = (Some k, None)"
  by (induction ms arbitrary: i) auto

lemma scan_to_end:
  "\<forall>nm \<in> set pre. take (length a) nm \<noteq> a \<Longrightarrow> \<forall>nm \<in> set ms. take (length a) nm = a \<Longrightarrow> ms \<noteq> [] \<Longrightarrow>
     scan_cmds a i None (pre @ ms) = (Some (i + length pre), None)"
proof (induction pre arbitrary: i)
  case Nil
  then show ?case by (cases ms) (auto simp: scan_some)
qed auto

lemma ac_cycle_end:
  "\<forall>nm \<in> set names. length nm < length (rbuf s) \<Longrightarrow> t + k = length names \<Longrightarrow>
     rin s = replicate k 0x09 @ rest \<Longrightarrow> ac_cycle plen names start None t s = Inl BadAccess"
proof (induction k arbitrary: t s)
  case 0
  then show ?case by (simp add: ac_cycle.simps [of plen names start None "length names" s])
next
  case (Suc k)
  define nm where "nm = names ! t"
  have t: "t < length names" using Suc.prems(2) by simp
  then have nm: "length nm < length (rbuf s)" using Suc.prems(1) by (simp add: nm_def)
  define s1 where "s1 = puts nm (erase_line plen s)"
  define s3 where "s3 = s1\<lparr>rbuf := nm @ [0] @ drop (length nm + 1) (rbuf s1), rn := int (length nm),
    rcol := int (length nm) + plen, rp := length nm, rin := replicate k 0x09 @ rest\<rparr>"
  have "ac_cycle plen names start None t s = ac_cycle plen names start None (t + 1) s3"
    using t nm Suc.prems(3)
    by (simp add: ac_cycle.simps [of plen names start None t s] nm_def [symmetric] getchar_def puts_def
        s3_def s1_def Let_def)
  also have "\<dots> = Inl BadAccess"
  proof (rule Suc.IH)
    have "length (rbuf s3) = length (rbuf s)" using nm by (simp add: s3_def s1_def puts_def)
    then show "\<forall>nm \<in> set names. length nm < length (rbuf s3)" using Suc.prems(1) by simp
  qed (use Suc.prems(2) in \<open>simp_all add: s3_def\<close>)
  finally show ?case .
qed

section \<open>Properties\<close>

text \<open>
  C31: the line editor.  For every input without a tab, every buffer and every history whose
  entries fit into it, the buffer code does what the editor on lists does: it waits, is
  interrupted, or returns the line, terminated, with its length; typing, deleting
  characters and words, erasing the line and recalling the history have the same
  effect, and nothing is accessed outside the buffer.  The condition on the history holds for the buffer of 512 bytes of the command
  line itself; two callers pass shorter buffers, for which \<open>cli_recall_overrun\<close> shows what happens without it.
\<close>

theorem cli_readline_edits:
  assumes "rbuf s \<noteq> []" "hist_fits (length (rbuf s)) (rhist s)" "0x09 \<notin> set (rin s)"
  shows "edit_ok (edit (length (rbuf s)) [] (rhist s) (rin s)) (cli_readline prompt names s)"
proof -
  define plen where "plen = (case prompt of None \<Rightarrow> 0 | Some p \<Rightarrow> int (length p))"
  define s1 where "s1 = (case prompt of None \<Rightarrow> s | Some p \<Rightarrow> puts p s)
    \<lparr>rbuf := (rbuf (case prompt of None \<Rightarrow> s | Some p \<Rightarrow> puts p s))[0 := 0], rp := 0, rn := 0, rcol := plen\<rparr>"
  have s1: "length (rbuf s1) = length (rbuf s)" "rin s1 = rin s" "rhist s1 = rhist s"
    by (simp_all add: s1_def puts_def split: option.splits)
  have "holds s1 []" using assms(1) s1(1) by (simp add: holds_def) (simp add: s1_def)
  from readline_edit [OF this, of plen names] assms(2,3) s1
  have "edit_ok (edit (length (rbuf s)) [] (rhist s) (rin s)) (readline_loop plen names s1)" by simp
  moreover have "cli_readline prompt names s = readline_loop plen names s1"
    using assms(1) by (simp add: cli_readline_def s1_def plen_def Let_def)
  ultimately show ?thesis by simp
qed

text \<open>Typing \<^verbatim>\<open>ab\<close>, backspace, \<^verbatim>\<open>c\<close> and return.\<close>

definition demo_rl :: rl where
  "demo_rl = \<lparr>rbuf = replicate 8 0, rp = 0, rn = 0, rcol = 0, rin = [0x61, - 1, 0x62, 0x08, 0x63, 0x0D],
    rout = [], rhist = hist0\<rparr>"

theorem cli_readline_edits_witness:
  "edit_ok (Entered [0x61, 0x63] hist0 []) (cli_readline None [] demo_rl)"
proof -
  have "edit (length (rbuf demo_rl)) [] (rhist demo_rl) (rin demo_rl) = Entered [0x61, 0x63] hist0 []"
    by (simp add: demo_rl_def edit.simps)
  moreover have "edit_ok (edit (length (rbuf demo_rl)) [] (rhist demo_rl) (rin demo_rl)) (cli_readline None [] demo_rl)"
    by (rule cli_readline_edits) (auto simp: demo_rl_def hist_fits_def hist0_def)
  ultimately show ?thesis by simp
qed

text \<open>
  Recalling a command that does not fit.  The history is shared by all callers, and \<^verbatim>\<open>strcpy\<close> copies the recalled command whatever
  the size of the buffer: with a buffer of 10 bytes, as the download command passes it, one key is enough.
\<close>

lemma cli_recall_overrun:
  assumes "rbuf s \<noteq> []" "fst (cmd_history_search_backward (rhist s)) = Some str" "length (rbuf s) \<le> length str"
    and "rin s = 0x1B # 0x5B # 0x41 # rest"
  shows "cli_readline prompt names s = Inl BadAccess"
proof -
  define plen where "plen = (case prompt of None \<Rightarrow> 0 | Some p \<Rightarrow> int (length p))"
  define s1 where "s1 = (case prompt of None \<Rightarrow> s | Some p \<Rightarrow> puts p s)
    \<lparr>rbuf := (rbuf (case prompt of None \<Rightarrow> s | Some p \<Rightarrow> puts p s))[0 := 0], rp := 0, rn := 0, rcol := plen\<rparr>"
  have s1: "length (rbuf s1) = length (rbuf s)" "rin s1 = rin s" "rhist s1 = rhist s" "rp s1 = 0"
    by (simp_all add: s1_def puts_def split: option.splits)
  have k: "escape_key (0x5B # 0x41 # rest) = Some (Some 0x41, rest)" by (simp add: escape_key_def)
  obtain h where h: "cmd_history_search_backward (rhist s) = (Some str, h)" using assms(2) by (metis prod.collapse)
  have "handle_escape_sequence plen (s1\<lparr>rin := 0x5B # 0x41 # rest\<rparr>) = Inl BadAccess"
    using assms(3) s1 h by (simp add: handle_escape_sequence_def k recall_def Let_def)
  moreover have "wait_char (rin s1) = Some (0x1B, 0x5B # 0x41 # rest)" using assms(4) s1(2) by simp
  ultimately have "readline_loop plen names s1 = Inl BadAccess"
    using assms(1) s1(1,4) by (simp add: readline_loop.simps [of plen names s1])
  moreover have "cli_readline prompt names s = readline_loop plen names s1"
    using assms(1) by (simp add: cli_readline_def s1_def plen_def Let_def)
  ultimately show ?thesis by simp
qed

text \<open>
  Completion runs off the table.  When the commands that match the typed word reach the end
  of the table, the search leaves the end of the cycle null, and as many further tabs as there
  are matches make the code read the entry behind the table.
\<close>

theorem cli_complete_overrun:
  assumes "rp s < length (rbuf s)" "cstr ((rbuf s)[rp s := 0]) 0 = a" "a \<noteq> []"
    "\<forall>c \<in> set a. \<not> is_blank c" "ms \<noteq> []" "\<forall>nm \<in> set pre. take (length a) nm \<noteq> a"
    "\<forall>nm \<in> set ms. take (length a) nm = a" "\<forall>nm \<in> set (pre @ ms). length nm < length (rbuf s)"
    "rin s = replicate (length ms) 0x09 @ rest"
  shows "cmd_autocomplete plen (pre @ ms) s = Inl BadAccess"
proof -
  have a: "dropWhile is_blank a = a" "takeWhile is_blank a = []" "takeWhile (\<lambda>c. \<not> is_blank c) a = a"
    using assms(3,4) by (auto simp: dropWhile_eq_self_iff takeWhile_eq_Nil_iff takeWhile_eq_all_conv)
  have ex: "\<exists>c \<in> set a. \<not> is_blank c" using assms(3,4) by (cases a) auto
  define s1 where "s1 = s\<lparr>rbuf := (rbuf s)[rp s := 0, length a := 0]\<rparr>"
  have "ac_cycle plen (pre @ ms) (length pre) None (length pre) s1 = Inl BadAccess"
    by (rule ac_cycle_end [of _ _ _ "length ms" rest]) (use assms(8,9) in \<open>simp_all add: s1_def\<close>)
  then show ?thesis
    using assms(1,3) ex scan_to_end [OF assms(6,7,5), of 0]
    by (simp add: cmd_autocomplete_def assms(2) a Let_def s1_def)
qed

text \<open>A table with the single command \<^verbatim>\<open>ab\<close>: the word \<^verbatim>\<open>a\<close> and one further tab.\<close>

theorem cli_complete_overrun_witness:
  "cmd_autocomplete 0 ([] @ [[0x61, 0x62]]) (demo_rl\<lparr>rbuf := [0x61, 0, 0, 0], rp := 1, rn := 1, rin := [0x09]\<rparr>) =
     Inl BadAccess"
  by (rule cli_complete_overrun [where a = "[0x61]" and rest = "[]"])
    (simp_all add: cstr_def is_blank_def)

end
