(* ===== verification/Device.thy ===== *)
theory Device
  imports Wise_Prelude
begin

text \<open>
  The device and driver tables, \<^verbatim>\<open>hal/drivers/core/device.c\<close>: binding drivers to devices by name,
  shutting them down, and suspending and resuming the devices for power management.  Both tables are lists;
  the functions of a driver are parameters that turn a world into a world, given the indices of
  driver and device; the suspend time that \<^verbatim>\<open>suspend\<close> may shorten is part of that world.  A driver
  function does not bind other devices.
\<close>

section \<open>Tables\<close>

record device =
  dev_name :: "u8 list"
  dev_driver :: "nat option"

record driver =
  drv_name :: "u8 list"
  has_probe :: bool
  has_shutdown :: bool
  has_suspend :: bool
  has_resume :: bool

record 'w drv_ops =
  op_probe :: "nat \<Rightarrow> nat \<Rightarrow> 'w \<Rightarrow> int \<times> 'w"
  op_shutdown :: "nat \<Rightarrow> nat \<Rightarrow> 'w \<Rightarrow> int \<times> 'w"
  op_suspend :: "nat \<Rightarrow> nat \<Rightarrow> 'w \<Rightarrow> int \<times> 'w"
  op_resume :: "nat \<Rightarrow> nat \<Rightarrow> 'w \<Rightarrow> 'w"

fun index_of :: "('a \<Rightarrow> bool) \<Rightarrow> 'a list \<Rightarrow> nat option" where
  "index_of P [] = None"
| "index_of P (x # xs) = (if P x then Some 0 else map_option Suc (index_of P xs))"

definition device_get_by_name :: "device list \<Rightarrow> u8 list \<Rightarrow> nat option" where
  "device_get_by_name devs name = index_of (\<lambda>d. name = dev_name d) devs"

text \<open>The name is copied into a buffer of 32 bytes and cut at its first dot.\<close>

definition driver_get_by_name :: "driver list \<Rightarrow> u8 list option \<Rightarrow> nat option res" where
  "driver_get_by_name drvs name =
     (case name of
        None \<Rightarrow> Inr None
      | Some nm \<Rightarrow>
          if length nm \<ge> 32 then Inl BadAccess
          else Inr (index_of (\<lambda>d. drv_name d = takeWhile (\<lambda>c. c \<noteq> 0x2E) nm) drvs))"

section \<open>Binding\<close>

definition device_bind_driver ::
  "'w drv_ops \<Rightarrow> driver list \<Rightarrow> nat \<Rightarrow> nat option \<Rightarrow> device list \<Rightarrow> 'w \<Rightarrow> (int \<times> device list \<times> 'w) res" where
  "device_bind_driver ops drvs i drv devs w =
     (if dev_driver (devs ! i) \<noteq> None then Inr (0, devs, w)
      else
        res_bind (case drv of Some k \<Rightarrow> Inr (Some k)
                  | None \<Rightarrow> driver_get_by_name drvs (Some (dev_name (devs ! i)))) (\<lambda>d.
          (let devs' = devs[i := (devs ! i)\<lparr>dev_driver := d\<rparr>]
           in case d of
                None \<Rightarrow> Inl NullDeref
              | Some k \<Rightarrow>
                  if has_probe (drvs ! k)
                  then (let (ret, w') = op_probe ops k i w in Inr (ret, devs', w'))
                  else Inr (0, devs', w))))"

text \<open>The loop of \<^verbatim>\<open>driver_init\<close> over the last \<open>n\<close> devices.\<close>

primrec init_loop ::
  "nat \<Rightarrow> 'w drv_ops \<Rightarrow> driver list \<Rightarrow> int \<Rightarrow> device list \<Rightarrow> 'w \<Rightarrow> (int \<times> device list \<times> 'w) res" where
  "init_loop 0 ops drvs result devs w = Inr (result, devs, w)"
| "init_loop (Suc n) ops drvs result devs w =
     (let i = length devs - Suc n
      in if dev_driver (devs ! i) \<noteq> None then init_loop n ops drvs result devs w
         else
           res_bind (driver_get_by_name drvs (Some (dev_name (devs ! i)))) (\<lambda>d.
             if d = None then init_loop n ops drvs result devs w
             else res_bind (device_bind_driver ops drvs i d devs w) (\<lambda>(ret, devs', w').
                    init_loop n ops drvs (if ret \<noteq> 0 \<and> result = 0 then ret else result) devs' w')))"

definition driver_init ::
  "'w drv_ops \<Rightarrow> driver list \<Rightarrow> device list \<Rightarrow> 'w \<Rightarrow> (int \<times> device list \<times> 'w) res" where
  "driver_init ops drvs devs w = init_loop (length devs) ops drvs 0 devs w"

primrec shutdown_loop ::
  "nat \<Rightarrow> 'w drv_ops \<Rightarrow> driver list \<Rightarrow> int \<Rightarrow> device list \<Rightarrow> 'w \<Rightarrow> (int \<times> 'w) res" where
  "shutdown_loop 0 ops drvs ret devs w = Inr (ret, w)"
| "shutdown_loop (Suc n) ops drvs ret devs w =
     (let i = length devs - Suc n
      in res_bind (driver_get_by_name drvs (Some (dev_name (devs ! i)))) (\<lambda>d.
           case d of
             None \<Rightarrow> shutdown_loop n ops drvs ret devs w
           | Some k \<Rightarrow>
               if has_shutdown (drvs ! k)
               then (let (ret', w') = op_shutdown ops k i w in shutdown_loop n ops drvs ret' devs w')
               else shutdown_loop n ops drvs ret devs w))"

definition driver_deinit ::
  "'w drv_ops \<Rightarrow> driver list \<Rightarrow> device list \<Rightarrow> 'w \<Rightarrow> (int \<times> device list \<times> 'w) res" where
  "driver_deinit ops drvs devs w =
     res_bind (shutdown_loop (length devs) ops drvs 0 devs w) (\<lambda>(ret, w').
       Inr (ret, map (\<lambda>d. d\<lparr>dev_driver := None\<rparr>) devs, w'))"

section \<open>Power management\<close>

text \<open>The loop backward over the devices \<open>i - 1\<close> to 0.\<close>

primrec resume_back :: "nat \<Rightarrow> 'w drv_ops \<Rightarrow> driver list \<Rightarrow> device list \<Rightarrow> 'w \<Rightarrow> 'w" where
  "resume_back 0 ops drvs devs w = w"
| "resume_back (Suc i) ops drvs devs w =
     (case dev_driver (devs ! i) of
        None \<Rightarrow> resume_back i ops drvs devs w
      | Some k \<Rightarrow>
          resume_back i ops drvs devs (if has_resume (drvs ! k) then op_resume ops k i w else w))"

primrec suspend_loop ::
  "nat \<Rightarrow> 'w drv_ops \<Rightarrow> driver list \<Rightarrow> device list \<Rightarrow> 'w \<Rightarrow> int \<times> 'w" where
  "suspend_loop 0 ops drvs devs w = (0, w)"
| "suspend_loop (Suc n) ops drvs devs w =
     (let i = length devs - Suc n
      in case dev_driver (devs ! i) of
           None \<Rightarrow> suspend_loop n ops drvs devs w
         | Some k \<Rightarrow>
             if \<not> has_suspend (drvs ! k) then suspend_loop n ops drvs devs w
             else (let (ret, w') = op_suspend ops k i w
                   in if ret < 0 then (ret, resume_back (Suc i) ops drvs devs w')
                      else suspend_loop n ops drvs devs w'))"

definition pm_suspend_device :: "'w drv_ops \<Rightarrow> driver list \<Rightarrow> device list \<Rightarrow> 'w \<Rightarrow> int \<times> 'w" where
  "pm_suspend_device ops drvs devs w = suspend_loop (length devs) ops drvs devs w"

primrec resume_loop :: "nat \<Rightarrow> 'w drv_ops \<Rightarrow> driver list \<Rightarrow> device list \<Rightarrow> 'w \<Rightarrow> 'w" where
  "resume_loop 0 ops drvs devs w = w"
| "resume_loop (Suc n) ops drvs devs w =
     (let i = length devs - Suc n
      in case dev_driver (devs ! i) of
           None \<Rightarrow> resume_loop n ops drvs devs w
         | Some k \<Rightarrow>
             resume_loop n ops drvs devs (if has_resume (drvs ! k) then op_resume ops k i w else w))"

definition pm_resume_device :: "'w drv_ops \<Rightarrow> driver list \<Rightarrow> device list \<Rightarrow> 'w \<Rightarrow> 'w" where
  "pm_resume_device ops drvs devs w = resume_loop (length devs) ops drvs devs w"

section \<open>Binding in one pass\<close>

text \<open>The driver a device gets, and the calls of \<^verbatim>\<open>probe\<close> in their order.\<close>

definition match :: "driver list \<Rightarrow> device \<Rightarrow> nat option" where
  "match drvs d = index_of (\<lambda>x. drv_name x = takeWhile (\<lambda>c. c \<noteq> 0x2E) (dev_name d)) drvs"

definition bound :: "driver list \<Rightarrow> device \<Rightarrow> device" where
  "bound drvs d = (if dev_driver d = None then d\<lparr>dev_driver := match drvs d\<rparr> else d)"

definition probe_one ::
  "'w drv_ops \<Rightarrow> driver list \<Rightarrow> nat \<times> device \<Rightarrow> int \<times> 'w \<Rightarrow> int \<times> 'w" where
  "probe_one ops drvs idev rw =
     (case (idev, rw) of ((i, d), (result, w)) \<Rightarrow>
        (case (dev_driver d, match drvs d) of
           (None, Some k) \<Rightarrow>
             if has_probe (drvs ! k)
             then (let (ret, w') = op_probe ops k i w in (if result = 0 then ret else result, w'))
             else (result, w)
         | _ \<Rightarrow> (result, w)))"

text \<open>A device whose name does not fit the buffer when its driver is looked up.\<close>

definition too_long :: "device \<Rightarrow> bool" where
  "too_long d = (dev_driver d = None \<and> 32 \<le> length (dev_name d))"

lemma init_loop_too_long:
  assumes "too_long d"
  shows "init_loop (length (d # ds)) ops drvs result (pre @ d # ds) w = Inl BadAccess"
  using assms by (simp add: too_long_def driver_get_by_name_def Let_def)

lemma init_loop_step:
  assumes fits: "\<not> too_long d"
    and rw_def: "rw = probe_one ops drvs (length pre, d) (result, w)"
  shows "init_loop (length (d # ds)) ops drvs result (pre @ d # ds) w =
      init_loop (length ds) ops drvs (fst rw) ((pre @ [bound drvs d]) @ ds) (snd rw)"
proof (cases "dev_driver d")
  case None
  have find: "driver_get_by_name drvs (Some (dev_name d)) = Inr (match drvs d)"
    using None fits by (simp add: too_long_def driver_get_by_name_def match_def)
  show ?thesis
  proof (cases "match drvs d")
    case None
    then have "bound drvs d = d" using \<open>dev_driver d = None\<close> by (cases d) (simp add: bound_def)
    then show ?thesis
      using None \<open>dev_driver d = None\<close> find by (simp add: rw_def probe_one_def Let_def)
  next
    case (Some k)
    have "(pre @ d # ds)[length pre := d\<lparr>dev_driver := Some k\<rparr>] = (pre @ [bound drvs d]) @ ds"
      using Some None by (simp add: bound_def)
    then show ?thesis
      using Some None find
      by (auto simp: rw_def probe_one_def Let_def device_bind_driver_def split: prod.splits)
  qed
next
  case (Some k)
  then show ?thesis by (simp add: rw_def probe_one_def bound_def Let_def)
qed

lemma init_loop_spec:
  "init_loop (length ds) ops drvs result (pre @ ds) w =
    (if list_ex too_long ds then Inl BadAccess
     else let (r, w') =
         fold (probe_one ops drvs) (zip [length pre ..< length pre + length ds] ds) (result, w)
       in Inr (r, pre @ map (bound drvs) ds, w'))"
proof (induction ds arbitrary: pre result w)
  case (Cons d ds)
  have upt: "[length pre ..< length pre + length (d # ds)] =
      length pre # [length (pre @ [d']) ..< length (pre @ [d']) + length ds]" for d'
    using upt_conv_Cons [of "length pre" "length pre + length (d # ds)"] by (simp del: upt_Suc)
  show ?case
  proof (cases "too_long d")
    case True
    then show ?thesis unfolding init_loop_too_long [OF True] by simp
  next
    case False
    show ?thesis
      unfolding init_loop_step [OF False refl] Cons.IH upt [of "bound drvs d"] using False by simp
  qed
qed simp

section \<open>Traces of suspend and resume\<close>

datatype pm_event = Suspend nat | Resume nat

definition log_ops :: "(nat \<Rightarrow> int) \<Rightarrow> pm_event list drv_ops" where
  "log_ops reply =
     \<lparr>op_probe = (\<lambda>k i w. (0, w)), op_shutdown = (\<lambda>k i w. (0, w)),
      op_suspend = (\<lambda>k i w. (reply i, w @ [Suspend i])), op_resume = (\<lambda>k i w. w @ [Resume i])\<rparr>"

definition can_suspend :: "driver list \<Rightarrow> device list \<Rightarrow> nat \<Rightarrow> bool" where
  "can_suspend drvs devs i = (case dev_driver (devs ! i) of None \<Rightarrow> False | Some k \<Rightarrow> has_suspend (drvs ! k))"

definition can_resume :: "driver list \<Rightarrow> device list \<Rightarrow> nat \<Rightarrow> bool" where
  "can_resume drvs devs i = (case dev_driver (devs ! i) of None \<Rightarrow> False | Some k \<Rightarrow> has_resume (drvs ! k))"

lemma resume_back_log:
  "resume_back n (log_ops reply) drvs devs w = w @ map Resume (filter (can_resume drvs devs) (rev [0 ..< n]))"
  by (induction n arbitrary: w) (auto simp: can_resume_def log_ops_def split: option.splits)

lemma resume_loop_log:
  "n \<le> length devs \<Longrightarrow> resume_loop n (log_ops reply) drvs devs w =
     w @ map Resume (filter (can_resume drvs devs) [length devs - n ..< length devs])"
proof (induction n arbitrary: w)
  case (Suc n)
  have "[length devs - Suc n ..< length devs] = (length devs - Suc n) # [length devs - n ..< length devs]"
    using Suc.prems by (simp add: upt_conv_Cons Suc_diff_Suc)
  with Suc show ?case
    by (auto simp: can_resume_def log_ops_def Let_def split: option.splits)
qed simp

text \<open>The first device that rejects, if any.\<close>

definition rejects :: "(nat \<Rightarrow> int) \<Rightarrow> driver list \<Rightarrow> device list \<Rightarrow> nat \<Rightarrow> bool" where
  "rejects reply drvs devs i \<longleftrightarrow> can_suspend drvs devs i \<and> reply i < 0"

definition suspend_spec ::
  "(nat \<Rightarrow> int) \<Rightarrow> driver list \<Rightarrow> device list \<Rightarrow> nat \<Rightarrow> nat \<Rightarrow> pm_event list \<Rightarrow> int \<times> pm_event list" where
  "suspend_spec reply drvs devs a b w =
     (case filter (rejects reply drvs devs) [a ..< b] of
        [] \<Rightarrow> (0, w @ map Suspend (filter (can_suspend drvs devs) [a ..< b]))
      | k # _ \<Rightarrow> (reply k, w @ map Suspend (filter (can_suspend drvs devs) [a ..< Suc k]) @
                           map Resume (filter (can_resume drvs devs) (rev [0 ..< Suc k]))))"

lemma suspend_spec_step:
  assumes "a < b" "\<not> rejects reply drvs devs a"
  shows "suspend_spec reply drvs devs a b w =
    suspend_spec reply drvs devs (Suc a) b (if can_suspend drvs devs a then w @ [Suspend a] else w)"
proof -
  have upt: "[a ..< b] = a # [Suc a ..< b]" using assms(1) by (rule upt_conv_Cons)
  show ?thesis
  proof (cases "filter (rejects reply drvs devs) [Suc a ..< b]")
    case Nil
    with assms(2) show ?thesis by (simp add: suspend_spec_def upt)
  next
    case (Cons k ks)
    then have "k \<in> set (filter (rejects reply drvs devs) [Suc a ..< b])" by simp
    then have "[a ..< Suc k] = a # [Suc a ..< Suc k]" by (intro upt_conv_Cons) auto
    with Cons assms(2) show ?thesis by (simp add: suspend_spec_def upt del: upt_Suc)
  qed
qed

lemma suspend_loop_log:
  "n \<le> length devs \<Longrightarrow> suspend_loop n (log_ops reply) drvs devs w =
     suspend_spec reply drvs devs (length devs - n) (length devs) w"
proof (induction n arbitrary: w)
  case 0
  then show ?case by (simp add: suspend_spec_def)
next
  case (Suc n)
  define i where "i = length devs - Suc n"
  have i: "Suc i = length devs - n" "i < length devs" using Suc.prems by (auto simp: i_def)
  have upt: "[i ..< length devs] = i # [Suc i ..< length devs]" using i(2) by (rule upt_conv_Cons)
  note IH = Suc.IH [unfolded i(1) [symmetric], OF Suc_leD [OF Suc.prems]]
  show ?case
  proof (cases "rejects reply drvs devs i")
    case True
    then obtain k where k: "dev_driver (devs ! i) = Some k" "has_suspend (drvs ! k)" "reply i < 0"
      "can_suspend drvs devs i"
      by (auto simp: rejects_def can_suspend_def split: option.splits)
    have op: "op_suspend (log_ops reply) k i w = (reply i, w @ [Suspend i])" by (simp add: log_ops_def)
    show ?thesis
      using k True unfolding suspend_spec_def i_def [symmetric] upt
      by (simp add: i_def [symmetric] op resume_back_log del: resume_back.simps upt_Suc)
        (simp add: upt_conv_Cons)
  next
    case False
    show ?thesis
      using False IH unfolding i_def [symmetric] suspend_spec_step [OF i(2) False]
      by (auto simp: i_def [symmetric] can_suspend_def rejects_def log_ops_def Let_def split: option.splits)
  qed
qed

section \<open>Properties\<close>

text \<open>
  C32: \<^verbatim>\<open>driver_init\<close> is exactly one pass over the table.  If a device without a driver has a
  name of 32 bytes or more, the copy of the name overruns its buffer.  Otherwise every device
  without a driver gets the first driver whose name is the device's name up to the first dot (none if there
  is no such driver), the others are unchanged, the newly bound devices are probed once each in the
  order of the table, a failing probe does not stop the scan, and the result is the first
  non-zero code.
\<close>

theorem driver_init_exact:
  "driver_init ops drvs devs w =
    (if list_ex too_long devs then Inl BadAccess
     else let (r, w') = fold (probe_one ops drvs) (zip [0 ..< length devs] devs) (0, w)
       in Inr (r, map (bound drvs) devs, w'))"
  using init_loop_spec [of devs ops drvs 0 "[]" w] by (simp add: driver_init_def)

text \<open>
  C33: \<^verbatim>\<open>pm_suspend_device\<close> calls \<^verbatim>\<open>suspend\<close> in the order of the table up to the first device that
  rejects with a negative code, then \<^verbatim>\<open>resume\<close> in the reverse order from that device on, the
  rejecting device included, and returns its code; with no rejection every device is suspended
  once and the result is 0.
\<close>

theorem pm_suspend_trace:
  "pm_suspend_device (log_ops reply) drvs devs w =
     suspend_spec reply drvs devs 0 (length devs) w"
  using suspend_loop_log [of "length devs" devs reply drvs w] by (simp add: pm_suspend_device_def)

end
