(* ===== verification/Event_Loop.thy ===== *)
theory Event_Loop
  imports Wise_Prelude
begin

text \<open>
  The system event loop, \<^verbatim>\<open>api/wise/event_loop.c\<close>, with the default handlers of
  \<^verbatim>\<open>api/wise/event_default_handlers.c\<close>: one message queue of 16 events, one task that takes the
  events off it, hands each to its default handler and then to the callback of the user.  The message
  queue and the threads of the operating system are the parameter \<open>os\<close> on a state \<open>'q\<close>; the user's callback acts on
  a state \<open>'u\<close> of its own and does not call back into the loop.  Log output is left out.
\<close>

section \<open>Types and parameters\<close>

abbreviation (input) WISE_OK :: int where "WISE_OK \<equiv> 0"
abbreviation (input) WISE_FAIL :: int where "WISE_FAIL \<equiv> -1"
abbreviation (input) WISE_ERR_NO_MEM :: int where "WISE_ERR_NO_MEM \<equiv> 0x101"
abbreviation (input) WISE_ERR_INVALID_STATE :: int where "WISE_ERR_INVALID_STATE \<equiv> 0x103"

definition SYSTEM_EVENT_MAX :: u32 where "SYSTEM_EVENT_MAX = 31"

record system_event =
  event_id :: u32
  event_info :: "u8 list"

text \<open>
  \<open>mq_new\<close> takes the number of messages; their size is that of an event, the type of the messages here.  A call of the operating
  system that does not return \<^verbatim>\<open>osOK\<close> yields no event.
\<close>

record 'q ev_os =
  mq_new :: "nat \<Rightarrow> 'q \<Rightarrow> u32 \<times> 'q"
  mq_delete :: "u32 \<Rightarrow> 'q \<Rightarrow> 'q"
  mq_put :: "u32 \<Rightarrow> system_event option \<Rightarrow> 'q \<Rightarrow> bool \<times> 'q"
  mq_get :: "u32 \<Rightarrow> 'q \<Rightarrow> system_event option \<times> 'q"
  thread_new :: "'q \<Rightarrow> u32 \<times> 'q"
  thread_terminate :: "u32 \<Rightarrow> 'q \<Rightarrow> 'q"

type_synonym 'u event_cb = "u32 \<Rightarrow> system_event \<Rightarrow> 'u \<Rightarrow> int \<times> 'u"

record 'u event_loop =
  s_event_init_flag :: bool
  s_event_queue :: u32
  s_event_handler_cb :: "'u event_cb option"
  s_event_ctx :: u32
  s_event_thread :: u32

section \<open>Default handlers\<close>

text \<open>
  The handlers of the table; without \<^verbatim>\<open>CONFIG_ATCMD_AT_APDHCP_AUTO\<close>, which is off by default and in the modelled configurations, each of them only
  returns \<^verbatim>\<open>WISE_OK\<close>.  The caller discards the result.
\<close>

datatype default_handler =
    sta_start | sta_stop | sta_connected | sta_disconnected | sta_got_ip | sta_lost_ip
  | ap_start | ap_stop | scan_done

fun run_default :: "default_handler \<Rightarrow> system_event \<Rightarrow> int" where
  "run_default _ _ = WISE_OK"

definition wise_event_process_default ::
  "(u32 \<rightharpoonup> default_handler) \<Rightarrow> system_event option \<Rightarrow> int" where
  "wise_event_process_default tab event =
     (case event of
        None \<Rightarrow> WISE_FAIL
      | Some e \<Rightarrow>
          if event_id e < SYSTEM_EVENT_MAX
          then (case tab (event_id e) of
                  None \<Rightarrow> WISE_OK
                | Some h \<Rightarrow> (let _ = run_default h e in WISE_OK))
          else WISE_FAIL)"

definition wise_event_set_default_wifi_handlers ::
  "(u32 \<rightharpoonup> default_handler) \<Rightarrow> (u32 \<rightharpoonup> default_handler)" where
  "wise_event_set_default_wifi_handlers tab =
     tab(2 \<mapsto> sta_start, 3 \<mapsto> sta_stop, 4 \<mapsto> sta_connected, 5 \<mapsto> sta_disconnected,
         7 \<mapsto> sta_got_ip, 8 \<mapsto> sta_lost_ip, 15 \<mapsto> ap_start, 16 \<mapsto> ap_stop, 1 \<mapsto> scan_done)"

section \<open>The loop\<close>

definition wise_event_post_to_user :: "'u event_loop \<Rightarrow> system_event \<Rightarrow> 'u \<Rightarrow> int \<times> 'u" where
  "wise_event_post_to_user s event u =
     (case s_event_handler_cb s of
        Some f \<Rightarrow> f (s_event_ctx s) event u
      | None \<Rightarrow> (WISE_OK, u))"

text \<open>One turn of the loop of the task; it ends when the flag is off.\<close>

definition wise_event_loop_task ::
  "'q ev_os \<Rightarrow> (u32 \<rightharpoonup> default_handler) \<Rightarrow> 'u event_loop \<Rightarrow> 'q \<Rightarrow> 'u \<Rightarrow> 'q \<times> 'u" where
  "wise_event_loop_task os tab s q u =
     (if s_event_init_flag s
      then (case mq_get os (s_event_queue s) q of
              (None, q') \<Rightarrow> (q', u)
            | (Some evt, q') \<Rightarrow>
                (let ret = wise_event_process_default tab (Some evt);
                     (ret', u') = wise_event_post_to_user s evt u
                 in (q', u')))
      else (q, u))"

definition wise_event_loop_set_cb ::
  "'u event_cb option \<Rightarrow> u32 \<Rightarrow> 'u event_loop \<Rightarrow> 'u event_cb option \<times> 'u event_loop" where
  "wise_event_loop_set_cb cb ctx s =
     (s_event_handler_cb s, s\<lparr>s_event_handler_cb := cb, s_event_ctx := ctx\<rparr>)"

definition wise_event_send ::
  "'q ev_os \<Rightarrow> system_event option \<Rightarrow> 'u event_loop \<Rightarrow> 'q \<Rightarrow> int \<times> 'q" where
  "wise_event_send os event s q =
     (if s_event_queue s = NULL then (WISE_ERR_INVALID_STATE, q)
      else (let (ok, q') = mq_put os (s_event_queue s) event q
            in if \<not> ok then (WISE_FAIL, q') else (WISE_OK, q')))"

definition wise_event_loop_get_queue :: "'u event_loop \<Rightarrow> u32" where
  "wise_event_loop_get_queue s = s_event_queue s"

definition wise_event_get_init_flag :: "'u event_loop \<Rightarrow> bool" where
  "wise_event_get_init_flag s = s_event_init_flag s"

definition wise_event_loop_init ::
  "'q ev_os \<Rightarrow> 'u event_cb option \<Rightarrow> u32 \<Rightarrow> 'u event_loop \<Rightarrow> 'q \<Rightarrow> int \<times> 'u event_loop \<times> 'q" where
  "wise_event_loop_init os cb ctx s q =
     (if s_event_init_flag s then (WISE_FAIL, s, q)
      else
        (let s1 = s\<lparr>s_event_init_flag := True\<rparr>;
             (mq, q1) = mq_new os 16 q;
             s2 = s1\<lparr>s_event_queue := mq\<rparr>
         in if mq = NULL then (WISE_ERR_NO_MEM, s2, q1)
            else
              (let (th, q2) = thread_new os q1;
                   s3 = s2\<lparr>s_event_thread := th\<rparr>
               in if th = NULL then (WISE_ERR_NO_MEM, s3, q2)
                  else (WISE_OK, s3\<lparr>s_event_handler_cb := cb, s_event_ctx := ctx\<rparr>, q2))))"

definition wise_event_loop_deinit ::
  "'q ev_os \<Rightarrow> 'u event_loop \<Rightarrow> 'q \<Rightarrow> int \<times> 'u event_loop \<times> 'q" where
  "wise_event_loop_deinit os s q =
     (if \<not> s_event_init_flag s then (WISE_FAIL, s, q)
      else
        (let q1 = (if s_event_thread s \<noteq> NULL then thread_terminate os (s_event_thread s) q else q);
             q2 = (if s_event_queue s \<noteq> NULL then mq_delete os (s_event_queue s) q1 else q1)
         in (WISE_OK, s\<lparr>s_event_queue := NULL, s_event_handler_cb := None, s_event_ctx := 0,
                        s_event_init_flag := False\<rparr>, q2)))"

section \<open>Specification: a bounded list of pending events\<close>

datatype ev_op = Send system_event | Turn

text \<open>
  What the loop relies on: the queue \<open>mq\<close> keeps at most 16 events in the order of the calls.
  \<open>pend\<close> reads the events off the state of the operating system.
\<close>

definition queue_laws :: "'q ev_os \<Rightarrow> ('q \<Rightarrow> system_event list) \<Rightarrow> u32 \<Rightarrow> bool" where
  "queue_laws os pend mq =
     ((\<forall>q e. length (pend q) < 16 \<longrightarrow>
         fst (mq_put os mq (Some e) q) \<and> pend (snd (mq_put os mq (Some e) q)) = pend q @ [e]) \<and>
      (\<forall>q e. 16 \<le> length (pend q) \<longrightarrow>
         \<not> fst (mq_put os mq (Some e) q) \<and> pend (snd (mq_put os mq (Some e) q)) = pend q) \<and>
      (\<forall>q e es. pend q = e # es \<longrightarrow>
         fst (mq_get os mq q) = Some e \<and> pend (snd (mq_get os mq q)) = es))"

text \<open>
  A sequence of calls: senders, and turns of the task.  A turn with an empty queue waits.
  The results of the sends are collected.
\<close>

fun ev_run ::
  "'q ev_os \<Rightarrow> (u32 \<rightharpoonup> default_handler) \<Rightarrow> ('q \<Rightarrow> system_event list) \<Rightarrow> 'u event_loop \<Rightarrow>
   ev_op list \<Rightarrow> 'q \<Rightarrow> 'u \<Rightarrow> int list \<times> 'q \<times> 'u" where
  "ev_run os tab pend s [] q u = ([], q, u)"
| "ev_run os tab pend s (Send e # ops) q u =
     (let (r, q') = wise_event_send os (Some e) s q;
          (rs, q'', u'') = ev_run os tab pend s ops q' u
      in (r # rs, q'', u''))"
| "ev_run os tab pend s (Turn # ops) q u =
     (if pend q = [] then ev_run os tab pend s ops q u
      else (let (q', u') = wise_event_loop_task os tab s q u in ev_run os tab pend s ops q' u'))"

fun spec_run ::
  "(system_event \<Rightarrow> 'u \<Rightarrow> 'u) \<Rightarrow> ev_op list \<Rightarrow> system_event list \<Rightarrow> 'u \<Rightarrow>
   int list \<times> system_event list \<times> 'u" where
  "spec_run handle [] p u = ([], p, u)"
| "spec_run handle (Send e # ops) p u =
     (let (rs, p', u') = spec_run handle ops (if length p < 16 then p @ [e] else p) u
      in ((if length p < 16 then WISE_OK else WISE_FAIL) # rs, p', u'))"
| "spec_run handle (Turn # ops) [] u = spec_run handle ops [] u"
| "spec_run handle (Turn # ops) (e # p) u = spec_run handle ops p (handle e u)"

lemma ev_run_spec:
  assumes laws: "queue_laws os pend (s_event_queue s)"
    and up: "s_event_init_flag s" "s_event_queue s \<noteq> NULL" "s_event_handler_cb s = Some cb"
  shows "(case ev_run os tab pend s ops q u of (rs, q', u') \<Rightarrow> (rs, pend q', u')) =
    spec_run (\<lambda>e u. snd (cb (s_event_ctx s) e u)) ops (pend q) u"
proof (induction ops arbitrary: q u)
  case (Cons a ops)
  show ?case
  proof (cases a)
    case (Send e)
    obtain ok q' where put: "mq_put os (s_event_queue s) (Some e) q = (ok, q')" by fastforce
    have "ok = (length (pend q) < 16)" "pend q' = (if length (pend q) < 16 then pend q @ [e] else pend q)"
      using laws put unfolding queue_laws_def by (metis fst_conv snd_conv not_less)+
    then show ?thesis
      using Cons.IH [of q' u] up
      by (auto simp: Send wise_event_send_def put Let_def split: prod.splits)
  next
    case Turn
    show ?thesis
    proof (cases "pend q")
      case Nil
      then show ?thesis using Cons.IH [of q u] by (simp add: Turn)
    next
      case (Cons e es)
      obtain g q' where get: "mq_get os (s_event_queue s) q = (g, q')" by fastforce
      have "g = Some e" "pend q' = es" using laws get Cons unfolding queue_laws_def by fastforce+
      then show ?thesis
        using Cons.IH [of q' "snd (cb (s_event_ctx s) e u)"] up Cons
        by (simp add: Turn wise_event_loop_task_def get wise_event_post_to_user_def Let_def case_prod_beta)
    qed
  qed
qed simp

section \<open>A concrete operating system\<close>

text \<open>One queue can be created; the terminated threads are recorded.\<close>

definition ex_os :: "(system_event list \<times> bool \<times> u32 list) ev_os" where
  "ex_os =
     \<lparr>mq_new = (\<lambda>n (es, full, t). (if full then NULL else 1, ([], True, t))),
      mq_delete = (\<lambda>_ q. q),
      mq_put = (\<lambda>_ e (es, full, t).
        if length es < 16 then (True, (es @ (case e of None \<Rightarrow> [] | Some x \<Rightarrow> [x]), full, t))
        else (False, (es, full, t))),
      mq_get = (\<lambda>_ (es, full, t). case es of [] \<Rightarrow> (None, ([], full, t)) | x # xs \<Rightarrow> (Some x, (xs, full, t))),
      thread_new = (\<lambda>q. (7, q)),
      thread_terminate = (\<lambda>i (es, full, t). (es, full, t @ [i]))\<rparr>"

definition ex_loop :: "system_event list event_loop" where
  "ex_loop = \<lparr>s_event_init_flag = False, s_event_queue = NULL, s_event_handler_cb = None,
              s_event_ctx = 0, s_event_thread = NULL\<rparr>"

text \<open>A callback that records the events and reports a failure each time.\<close>

definition ex_cb :: "system_event list event_cb" where
  "ex_cb ctx e u = (WISE_FAIL, u @ [e])"

lemma ex_queue_laws: "queue_laws ex_os fst mq"
  by (auto simp: queue_laws_def ex_os_def)

section \<open>Properties\<close>



text \<open>
  A start that fails leaves the loop marked as started, and stopping forgets to clear the thread.  If
  the loop was started and stopped and a new start finds no memory for its queue, that start returns \<^verbatim>\<open>WISE_ERR_NO_MEM\<close>, and every
  later start returns \<^verbatim>\<open>WISE_FAIL\<close> without trying, even when memory is available again; only stopping the loop
  that never ran helps, and that terminates the thread of the first start a second time.
\<close>

theorem event_loop_failed_start:
  assumes "wise_event_loop_init os cb ctx s0 q0 = (WISE_OK, s1, q1)"
    and "wise_event_loop_deinit os s1 q1 = (WISE_OK, s2, q2)"
    and "mq_new os 16 q2 = (NULL, q3)"
  shows "s_event_thread s1 \<noteq> NULL \<and>
    (\<exists>s3. wise_event_loop_init os cb' ctx' s2 q2 = (WISE_ERR_NO_MEM, s3, q3) \<and>
      (\<forall>cb'' ctx'' q. wise_event_loop_init os cb'' ctx'' s3 q = (WISE_FAIL, s3, q)) \<and>
      (\<exists>s4. wise_event_loop_deinit os s3 q3 =
         (WISE_OK, s4, thread_terminate os (s_event_thread s1) q3)))"
proof -
  have th: "s_event_thread s1 \<noteq> NULL"
    using assms(1) by (auto simp: wise_event_loop_init_def Let_def split: if_splits prod.splits)
  have s2: "\<not> s_event_init_flag s2" "s_event_thread s2 = s_event_thread s1"
    using assms(2) by (auto simp: wise_event_loop_deinit_def Let_def split: if_splits)
  show ?thesis
    using th s2 assms(3) by (simp add: wise_event_loop_init_def wise_event_loop_deinit_def)
qed

theorem event_loop_failed_start_witness:
  "\<exists>s1 q1 s2 q2 s3 q3 s4.
     wise_event_loop_init ex_os None 0 ex_loop ([], False, []) = (WISE_OK, s1, q1) \<and>
     wise_event_loop_deinit ex_os s1 q1 = (WISE_OK, s2, q2) \<and>
     wise_event_loop_init ex_os None 0 s2 q2 = (WISE_ERR_NO_MEM, s3, q3) \<and>
     wise_event_loop_deinit ex_os s3 q3 = (WISE_OK, s4, ([], True, [7, 7]))"
proof -
  define s1 where "s1 = ex_loop\<lparr>s_event_init_flag := True, s_event_queue := 1, s_event_thread := 7\<rparr>"
  define s2 where "s2 = ex_loop\<lparr>s_event_thread := 7\<rparr>"
  have 1: "wise_event_loop_init ex_os None 0 ex_loop ([], False, []) = (WISE_OK, s1, ([], True, []))"
    by (simp add: wise_event_loop_init_def ex_os_def ex_loop_def s1_def)
  have 2: "wise_event_loop_deinit ex_os s1 ([], True, []) = (WISE_OK, s2, ([], True, [7]))"
    by (simp add: wise_event_loop_deinit_def ex_os_def ex_loop_def s1_def s2_def)
  have 3: "mq_new ex_os 16 ([], True, [7]) = (NULL, ([], True, [7]))" by (simp add: ex_os_def)
  have "thread_terminate ex_os (s_event_thread s1) ([], True, [7]) = ([], True, [7, 7])"
    by (simp add: ex_os_def s1_def)
  then show ?thesis using 1 2 event_loop_failed_start [OF 1 2 3, of None 0] by metis
qed

end
