(* ===== verification/Repeater.thy ===== *)
theory Repeater
  imports Wise_Prelude
begin

text \<open>
  The packet filter of the Wi-Fi repeater, \<^verbatim>\<open>lib/repeater/wifi_repeater.c\<close>: a table of rules decides whether a
  received frame goes to the network stack of the device, to the host, or to both.  A frame is the list of the bytes that may be
  read from the start of the buffer, and a read behind it is an error.  A function pointer is a
  number, as is an interface.  Allocation, the Wi-Fi device and the conversion of buffers are
  parameters.  The build is the one for IPv4 without the test commands.
\<close>

section \<open>Rules and state\<close>

record wifi_ipv4_filter =
  remote_ip :: u32
  local_port :: u16
  localp_min :: u16
  localp_max :: u16
  remote_port :: u16
  remotep_min :: u16
  remotep_max :: u16
  packet_type :: u8
  config_type :: u8
  match_mask :: u8
  resv :: u8

abbreviation zero_filter :: wifi_ipv4_filter where
  "zero_filter \<equiv> \<lparr>remote_ip = 0, local_port = 0, localp_min = 0, localp_max = 0, remote_port = 0, remotep_min = 0,
     remotep_max = 0, packet_type = 0, config_type = 0, match_mask = 0, resv = 0\<rparr>"

abbreviation WIFI_FILTER_TO_LWIP :: u32 where "WIFI_FILTER_TO_LWIP \<equiv> 1"
abbreviation WIFI_FILTER_TO_HOST :: u32 where "WIFI_FILTER_TO_HOST \<equiv> 2"
abbreviation WIFI_FILTER_TO_BOTH :: u32 where "WIFI_FILTER_TO_BOTH \<equiv> 3"
abbreviation WIFI_FILTER_TO_BUTT :: u32 where "WIFI_FILTER_TO_BUTT \<equiv> 4"

datatype wifi_filter_type = WIFI_FILTER_TYPE_IPV4 | WIFI_FILTER_TYPE_IPV6

abbreviation OK :: int where "OK \<equiv> 0"
abbreviation FAIL :: int where "FAIL \<equiv> -1"

record wifi_filter_config =
  ifp :: "nat option"
  host_input :: "nat option"
  lwip_input :: bool
  default_dir :: u32
  max_ipv4_num :: nat
  ipv4_used :: nat
  ipv4_filters :: "wifi_ipv4_filter list option"

definition zero_cfg :: wifi_filter_config where
  "zero_cfg = \<lparr>ifp = None, host_input = None, lwip_input = False, default_dir = 0, max_ipv4_num = 0, ipv4_used = 0,
     ipv4_filters = None\<rparr>"

text \<open>The input routines of an interface: that of the repeater, or another one.\<close>

datatype input_fn = Repeater_input | Other_input nat

record ifnet =
  if_input :: input_fn
  if_etherinput :: input_fn

text \<open>\<^verbatim>\<open>filter_cfg\<close> has \<^verbatim>\<open>CONFIG_REPEATER_IF_NUM\<close> entries, which is one.\<close>

record repeater_ctx =
  host_carrier_on :: bool
  filter_cfg :: wifi_filter_config
  ifnets :: "nat \<Rightarrow> ifnet"

definition CONFIG_REPEATER_IF_NUM :: nat where "CONFIG_REPEATER_IF_NUM = 1"

definition IPV4_CNT :: nat where "IPV4_CNT = 15"

section \<open>The table of rules\<close>

definition set_def_dir :: "nat \<Rightarrow> u32 \<Rightarrow> repeater_ctx \<Rightarrow> int \<times> repeater_ctx" where
  "set_def_dir idx direction s =
     (if idx \<ge> CONFIG_REPEATER_IF_NUM then (FAIL, s)
      else (OK, s\<lparr>filter_cfg := (filter_cfg s)\<lparr>default_dir := direction\<rparr>\<rparr>))"

fun filter_index :: "wifi_ipv4_filter list \<Rightarrow> wifi_ipv4_filter \<Rightarrow> nat option" where
  "filter_index [] f = None"
| "filter_index (g # gs) f = (if g = f then Some 0 else map_option Suc (filter_index gs f))"

definition is_ipv4_filter_duplicate :: "wifi_filter_config \<Rightarrow> wifi_ipv4_filter list \<Rightarrow> wifi_ipv4_filter \<Rightarrow> int" where
  "is_ipv4_filter_duplicate cfg tbl f = (if filter_index (take (ipv4_used cfg) tbl) f \<noteq> None then FAIL else OK)"

definition check_param :: "wifi_ipv4_filter \<Rightarrow> int" where
  "check_param f =
     (if match_mask f AND 0x04 \<noteq> 0 \<and> local_port f = 0 then FAIL
      else if match_mask f AND 0x10 \<noteq> 0 \<and> remote_port f = 0 then FAIL
      else if match_mask f AND 0x08 \<noteq> 0 \<and> localp_min f \<ge> localp_max f then FAIL
      else if match_mask f AND 0x20 \<noteq> 0 \<and> remotep_min f \<ge> remotep_max f then FAIL
      else OK)"

definition wifi_add_ipv4_filter ::
  "wifi_filter_config \<Rightarrow> wifi_ipv4_filter list \<Rightarrow> wifi_ipv4_filter option \<Rightarrow> (int \<times> wifi_filter_config) res" where
  "wifi_add_ipv4_filter cfg tbl new =
     (case new of
        None \<Rightarrow> Inr (FAIL, cfg)
      | Some f \<Rightarrow>
          if ipv4_used cfg \<ge> max_ipv4_num cfg then Inr (FAIL, cfg)
          else if check_param f \<noteq> OK then Inr (FAIL, cfg)
          else if is_ipv4_filter_duplicate cfg tbl f \<noteq> OK then Inr (FAIL, cfg)
          else if ipv4_used cfg \<ge> length tbl then Inl BadAccess
          else Inr (OK, cfg\<lparr>ipv4_filters := Some (tbl[ipv4_used cfg := f]), ipv4_used := ipv4_used cfg + 1\<rparr>))"

definition add_filter ::
  "nat \<Rightarrow> wifi_ipv4_filter option \<Rightarrow> wifi_filter_type \<Rightarrow> repeater_ctx \<Rightarrow> (int \<times> repeater_ctx) res" where
  "add_filter idx f type s =
     (if idx \<ge> CONFIG_REPEATER_IF_NUM then Inr (FAIL, s)
      else (case (type, ipv4_filters (filter_cfg s)) of
              (WIFI_FILTER_TYPE_IPV4, Some tbl) \<Rightarrow>
                res_bind (wifi_add_ipv4_filter (filter_cfg s) tbl f) (\<lambda>(r, cfg). Inr (r, s\<lparr>filter_cfg := cfg\<rparr>))
            | _ \<Rightarrow> Inr (FAIL, s)))"

text \<open>The \<^verbatim>\<open>memmove\<close> of deletion: entries behind \<open>i\<close> go down by one, the entry at the end stays.\<close>

definition move_down :: "nat \<Rightarrow> nat \<Rightarrow> 'a list \<Rightarrow> 'a list" where
  "move_down i used tbl = take i tbl @ take (used - i - 1) (drop (i + 1) tbl) @ drop (used - 1) tbl"

definition wifi_del_ipv4_filter ::
  "wifi_filter_config \<Rightarrow> wifi_ipv4_filter list \<Rightarrow> wifi_ipv4_filter option \<Rightarrow> int \<times> wifi_filter_config" where
  "wifi_del_ipv4_filter cfg tbl del =
     (case del of
        None \<Rightarrow> (FAIL, cfg)
      | Some f \<Rightarrow>
          if check_param f \<noteq> OK then (FAIL, cfg)
          else (case filter_index (take (ipv4_used cfg) tbl) f of
                  None \<Rightarrow> (FAIL, cfg)
                | Some i \<Rightarrow>
                    (OK, cfg\<lparr>ipv4_filters := Some (move_down i (ipv4_used cfg) tbl), ipv4_used := ipv4_used cfg - 1\<rparr>)))"

definition del_filter ::
  "nat \<Rightarrow> wifi_ipv4_filter option \<Rightarrow> wifi_filter_type \<Rightarrow> repeater_ctx \<Rightarrow> int \<times> repeater_ctx" where
  "del_filter idx f type s =
     (if idx \<ge> CONFIG_REPEATER_IF_NUM then (FAIL, s)
      else (case (type, ipv4_filters (filter_cfg s)) of
              (WIFI_FILTER_TYPE_IPV4, Some tbl) \<Rightarrow>
                (let (r, cfg) = wifi_del_ipv4_filter (filter_cfg s) tbl f in (r, s\<lparr>filter_cfg := cfg\<rparr>))
            | _ \<Rightarrow> (FAIL, s)))"

text \<open>The caller gets the number of rules and the table itself.\<close>

definition query_filter ::
  "nat \<Rightarrow> wifi_filter_type \<Rightarrow> repeater_ctx \<Rightarrow> (nat \<times> wifi_ipv4_filter list) option" where
  "query_filter idx type s =
     (if idx \<ge> CONFIG_REPEATER_IF_NUM then None
      else (case (type, ipv4_filters (filter_cfg s)) of
              (WIFI_FILTER_TYPE_IPV4, Some tbl) \<Rightarrow> Some (ipv4_used (filter_cfg s), tbl)
            | _ \<Rightarrow> None))"

definition free_filters :: "nat \<Rightarrow> wifi_filter_type \<Rightarrow> repeater_ctx \<Rightarrow> (int \<times> repeater_ctx) res" where
  "free_filters idx type s =
     (case type of
        WIFI_FILTER_TYPE_IPV6 \<Rightarrow> Inr (FAIL, s)
      | WIFI_FILTER_TYPE_IPV4 \<Rightarrow>
          if idx \<ge> CONFIG_REPEATER_IF_NUM then Inl BadAccess
          else (case ipv4_filters (filter_cfg s) of
                  None \<Rightarrow> Inr (FAIL, s)
                | Some tbl \<Rightarrow>
                    Inr (OK, s\<lparr>filter_cfg := (filter_cfg s)\<lparr>ipv4_used := 0,
                      ipv4_filters := Some (replicate (max_ipv4_num (filter_cfg s)) zero_filter @
                        drop (max_ipv4_num (filter_cfg s)) tbl)\<rparr>\<rparr>)))"

definition host_carrier_getset :: "u32 \<Rightarrow> u32 \<Rightarrow> repeater_ctx \<Rightarrow> int \<times> u32 \<times> repeater_ctx" where
  "host_carrier_getset setting on s =
     (if setting \<noteq> 0 then (OK, on, s\<lparr>host_carrier_on := (on \<noteq> 0)\<rparr>)
      else (OK, if host_carrier_on s then 1 else 0, s))"

section \<open>Starting and stopping\<close>

definition repeater_if_attach :: "nat \<Rightarrow> repeater_ctx \<Rightarrow> repeater_ctx res" where
  "repeater_if_attach func s =
     (case ifp (filter_cfg s) of
        None \<Rightarrow> Inl NullDeref
      | Some i \<Rightarrow>
          Inr (s\<lparr>ifnets := (ifnets s)(i := \<lparr>if_input = Repeater_input, if_etherinput = if_input (ifnets s i)\<rparr>),
                 filter_cfg := (filter_cfg s)\<lparr>host_input := Some func, lwip_input := True\<rparr>\<rparr>))"

definition repeater_if_deattach :: "repeater_ctx \<Rightarrow> repeater_ctx res" where
  "repeater_if_deattach s =
     (case ifp (filter_cfg s) of
        None \<Rightarrow> Inl NullDeref
      | Some i \<Rightarrow>
          Inr (s\<lparr>ifnets := (ifnets s)(i := (ifnets s i)\<lparr>if_input := if_etherinput (ifnets s i)\<rparr>),
                 filter_cfg := (filter_cfg s)\<lparr>host_input := None, lwip_input := False\<rparr>\<rparr>))"

definition repeater_deinit :: "nat \<Rightarrow> repeater_ctx \<Rightarrow> (int \<times> repeater_ctx) res" where
  "repeater_deinit idx s =
     (if idx \<ge> CONFIG_REPEATER_IF_NUM then Inl BadAccess
      else res_bind (repeater_if_deattach s) (\<lambda>s1. Inr (OK, s1\<lparr>filter_cfg := zero_cfg\<rparr>)))"

text \<open>\<open>dev\<close>: there is a Wi-Fi device; \<open>vap\<close>: its virtual interface, if any, with the network interface, if any.\<close>

definition repeater_set_ifp :: "bool \<Rightarrow> nat option option \<Rightarrow> repeater_ctx \<Rightarrow> int \<times> repeater_ctx" where
  "repeater_set_ifp dev vap s =
     (if \<not> dev then (FAIL, s)
      else (let s1 = (case vap of None \<Rightarrow> s | Some i \<Rightarrow> s\<lparr>filter_cfg := (filter_cfg s)\<lparr>ifp := i\<rparr>\<rparr>)
            in (if ifp (filter_cfg s1) = None then FAIL else OK, s1)))"

definition wifi_ipv4_filter_init :: "bool \<Rightarrow> repeater_ctx \<Rightarrow> int \<times> repeater_ctx" where
  "wifi_ipv4_filter_init mem_ok s =
     (let cfg = (filter_cfg s)\<lparr>max_ipv4_num := IPV4_CNT\<rparr>
      in if \<not> mem_ok then (FAIL, s\<lparr>filter_cfg := cfg\<rparr>)
         else (OK, s\<lparr>filter_cfg := cfg\<lparr>ipv4_filters := Some (replicate IPV4_CNT zero_filter), ipv4_used := 0\<rparr>\<rparr>))"

definition repeater_init ::
  "bool \<Rightarrow> nat option option \<Rightarrow> bool \<Rightarrow> nat \<Rightarrow> nat option \<Rightarrow> repeater_ctx \<Rightarrow> (int \<times> repeater_ctx) res" where
  "repeater_init dev vap mem_ok idx func s =
     (if idx \<ge> CONFIG_REPEATER_IF_NUM then Inr (FAIL, s)
      else if ipv4_filters (filter_cfg s) \<noteq> None then Inr (FAIL, s)
      else (case func of
              None \<Rightarrow> Inr (FAIL, s)
            | Some fn \<Rightarrow>
                (let (r, s1) = repeater_set_ifp dev vap (s\<lparr>filter_cfg := zero_cfg\<rparr>)
                 in if r < 0 then Inr (FAIL, s1)
                    else res_bind (repeater_if_attach fn s1) (\<lambda>s2.
                      (let s3 = s2\<lparr>filter_cfg := (filter_cfg s2)\<lparr>default_dir := WIFI_FILTER_TO_LWIP\<rparr>\<rparr>;
                           (r', s4) = wifi_ipv4_filter_init mem_ok s3
                       in Inr (if r' \<noteq> 0 then FAIL else OK, s4))))))"

section \<open>Reading a frame\<close>

definition rd8 :: "u8 list \<Rightarrow> nat \<Rightarrow> u8 res" where
  "rd8 m i = (if i < length m then Inr (m ! i) else Inl BadAccess)"

text \<open>Loads of the little-endian processor.\<close>

definition rd16 :: "u8 list \<Rightarrow> nat \<Rightarrow> u16 res" where
  "rd16 m i = res_bind (rd8 m i) (\<lambda>a. res_bind (rd8 m (i + 1)) (\<lambda>b. Inr (ucast a OR push_bit 8 (ucast b))))"

definition rd32 :: "u8 list \<Rightarrow> nat \<Rightarrow> u32 res" where
  "rd32 m i = res_bind (rd16 m i) (\<lambda>a. res_bind (rd16 m (i + 2)) (\<lambda>b. Inr (ucast a OR push_bit 16 (ucast b))))"

definition swap_portnum :: "u16 \<Rightarrow> u16" where
  "swap_portnum x = drop_bit 8 (x AND 0xFF00) OR push_bit 8 (x AND 0x00FF)"

definition swap_ipaddr :: "u32 \<Rightarrow> u32" where
  "swap_ipaddr x = drop_bit 24 (x AND 0xFF000000) OR drop_bit 8 (x AND 0x00FF0000) OR
     push_bit 8 (x AND 0x0000FF00) OR push_bit 24 (x AND 0x000000FF)"

section \<open>Matching\<close>

text \<open>\<open>tcp\<close> and \<open>udp\<close> are the places of the transport headers.\<close>

type_synonym match_func = "wifi_ipv4_filter \<Rightarrow> u8 list \<Rightarrow> nat option \<Rightarrow> nat option \<Rightarrow> bool res"

definition match_ip :: match_func where
  "match_ip f m tcp udp = res_bind (rd32 m 26) (\<lambda>srcipaddr. Inr (remote_ip f = swap_ipaddr srcipaddr))"

definition match_protocol :: match_func where
  "match_protocol f m tcp udp = res_bind (rd8 m 23) (\<lambda>proto. Inr (packet_type f = proto))"

definition match_local_port_and_range :: match_func where
  "match_local_port_and_range f m tcp udp =
     (case (udp, tcp) of
        (None, None) \<Rightarrow> Inr False
      | _ \<Rightarrow>
          res_bind (rd16 m ((case udp of Some u \<Rightarrow> u | None \<Rightarrow> the tcp) + 2)) (\<lambda>dest.
            (let port_number = swap_portnum dest;
                 matched = (local_port f = port_number)
             in Inr (if match_mask f AND 0x08 \<noteq> 0 \<and> localp_min f \<le> port_number \<and> port_number \<le> localp_max f
                     then True else matched))))"

definition match_remote_port_and_range :: match_func where
  "match_remote_port_and_range f m tcp udp =
     (case (udp, tcp) of
        (None, None) \<Rightarrow> Inr False
      | _ \<Rightarrow>
          res_bind (rd16 m (case udp of Some u \<Rightarrow> u | None \<Rightarrow> the tcp)) (\<lambda>src.
            (let port_number = swap_portnum src;
                 matched = (remote_port f = port_number)
             in Inr (if match_mask f AND 0x20 \<noteq> 0 \<and> remotep_min f \<le> port_number \<and> port_number \<le> remotep_max f
                     then True else matched))))"

definition match_funcs :: "match_func list" where
  "match_funcs = [match_ip, match_protocol, match_local_port_and_range, match_local_port_and_range,
     match_remote_port_and_range, match_remote_port_and_range]"

text \<open>The loop over the bits of the mask, and the loop over the rules.\<close>

fun mask_loop :: "wifi_ipv4_filter \<Rightarrow> u8 list \<Rightarrow> nat option \<Rightarrow> nat option \<Rightarrow> nat \<Rightarrow> match_func list \<Rightarrow> bool \<Rightarrow> bool res" where
  "mask_loop f m tcp udp mask_bit [] match_result = Inr match_result"
| "mask_loop f m tcp udp mask_bit (func # funcs) match_result =
     (if match_mask f AND push_bit mask_bit 1 \<noteq> 0
      then res_bind (func f m tcp udp) (\<lambda>r.
             if \<not> r then Inr False else mask_loop f m tcp udp (mask_bit + 1) funcs r)
      else mask_loop f m tcp udp (mask_bit + 1) funcs match_result)"

fun rule_loop :: "u8 list \<Rightarrow> nat option \<Rightarrow> nat option \<Rightarrow> wifi_ipv4_filter list \<Rightarrow> u32 res" where
  "rule_loop m tcp udp [] = Inr WIFI_FILTER_TO_BUTT"
| "rule_loop m tcp udp (f # fs) =
     res_bind (mask_loop f m tcp udp 0 match_funcs True) (\<lambda>r.
       if r then Inr (ucast (config_type f)) else rule_loop m tcp udp fs)"

definition ipv4_match_filter :: "wifi_filter_config \<Rightarrow> u8 list \<Rightarrow> u32 res" where
  "ipv4_match_filter cfg m =
     res_bind (rd8 m 14) (\<lambda>v_hl. res_bind (rd8 m 23) (\<lambda>proto.
       (let iphdr_hlen = unat (v_hl AND 0x0F) * 4;
            tcp = (if proto = 6 then Some (14 + iphdr_hlen) else None);
            udp = (if proto \<noteq> 6 \<and> proto = 17 then Some (14 + iphdr_hlen) else None)
        in case ipv4_filters cfg of
             None \<Rightarrow> if ipv4_used cfg > 0 then Inl NullDeref else Inr WIFI_FILTER_TO_BUTT
           | Some tbl \<Rightarrow>
               if ipv4_used cfg > length tbl then Inl BadAccess else rule_loop m tcp udp (take (ipv4_used cfg) tbl))))"

definition match_filter :: "wifi_filter_config \<Rightarrow> u8 list \<Rightarrow> u32 res" where
  "match_filter cfg m = (if ipv4_used cfg > 0 then ipv4_match_filter cfg m else Inr WIFI_FILTER_TO_BUTT)"

section \<open>Forwarding\<close>

text \<open>
  A delivery: to the host through its input routine, or to the network stack, where the conversion may have
  failed.  \<open>topbuf\<close> converts a frame and \<open>topbuf_nofreem\<close> a copy of it.
\<close>

datatype delivery = To_host nat "u8 list" | To_lwip "u8 list option"

definition repeater_forward_packet ::
  "(u8 list \<Rightarrow> u8 list option) \<Rightarrow> (u8 list \<Rightarrow> u8 list option) \<Rightarrow> wifi_filter_config \<Rightarrow> u32 \<Rightarrow> u8 list \<Rightarrow> delivery list res" where
  "repeater_forward_packet topbuf topbuf_nofreem cfg direction0 m =
     (let direction = (if direction0 = WIFI_FILTER_TO_BUTT then default_dir cfg else direction0)
      in if direction = WIFI_FILTER_TO_LWIP
         then (if lwip_input cfg then Inr [To_lwip (topbuf m)] else Inl NullDeref)
         else (case host_input cfg of
                 None \<Rightarrow> Inl NullDeref
               | Some h \<Rightarrow>
                   if direction = WIFI_FILTER_TO_HOST then Inr [To_host h m]
                   else (case topbuf_nofreem m of
                           None \<Rightarrow> Inr [To_host h m]
                         | Some p \<Rightarrow> if lwip_input cfg then Inr [To_host h m, To_lwip (Some p)] else Inl NullDeref)))"

text \<open>The direction of a frame while the host is ready; \<^verbatim>\<open>htons\<close> swaps the bytes of the type.\<close>

definition frame_direction :: "wifi_filter_config \<Rightarrow> u8 list \<Rightarrow> u32 res" where
  "frame_direction cfg m =
     res_bind (rd16 m 12) (\<lambda>ether_type.
       if ether_type = swap_portnum 0x888E \<or> ether_type = swap_portnum 0x86DD then Inr WIFI_FILTER_TO_LWIP
       else if ether_type = swap_portnum 0x0806 then Inr WIFI_FILTER_TO_BOTH
       else if ether_type = swap_portnum 0x0800
       then res_bind (rd8 m 23) (\<lambda>proto.
              if proto = 1 \<or> proto = 2 then Inr WIFI_FILTER_TO_BOTH else match_filter cfg m)
       else Inr WIFI_FILTER_TO_LWIP)"

text \<open>
  A frame from an interface other than that of the first entry is looked up in a second entry, which does
  not exist.
\<close>

definition repeater_input ::
  "(u8 list \<Rightarrow> u8 list option) \<Rightarrow> (u8 list \<Rightarrow> u8 list option) \<Rightarrow> nat \<Rightarrow> u8 list option \<Rightarrow> repeater_ctx \<Rightarrow> delivery list res" where
  "repeater_input topbuf topbuf_nofreem i frame s =
     (let cfg = filter_cfg s
      in if ifp cfg \<noteq> Some i then Inl BadAccess
         else if \<not> lwip_input cfg \<or> host_input cfg = None then Inl AssertFail
         else (case frame of
                 None \<Rightarrow> Inl AssertFail
               | Some m \<Rightarrow>
                   res_bind (if \<not> host_carrier_on s then Inr WIFI_FILTER_TO_LWIP else frame_direction cfg m) (\<lambda>direction.
                     repeater_forward_packet topbuf topbuf_nofreem cfg direction m)))"

end
