(* ===== verification/Repeater_Props.thy ===== *)
theory Repeater_Props
  imports Repeater
begin

text \<open>
  The filter of the repeater against a first-match semantics of its rules on decoded packets, the table of rules against a
  list without repetitions, and what a failed start leaves behind.
\<close>

section \<open>Loads and byte order\<close>

definition be16 :: "u8 \<Rightarrow> u8 \<Rightarrow> u16" where
  "be16 a b = push_bit 8 (ucast a) OR ucast b"

definition be32 :: "u8 \<Rightarrow> u8 \<Rightarrow> u8 \<Rightarrow> u8 \<Rightarrow> u32" where
  "be32 a b c d = push_bit 24 (ucast a) OR push_bit 16 (ucast b) OR push_bit 8 (ucast c) OR ucast d"

lemma byte_masks:
  "(0xFF00 :: u16) = push_bit 8 (mask 8)" "(0x00FF :: u16) = mask 8"
  "(0xFF000000 :: u32) = push_bit 24 (mask 8)" "(0x00FF0000 :: u32) = push_bit 16 (mask 8)"
  "(0x0000FF00 :: u32) = push_bit 8 (mask 8)" "(0x000000FF :: u32) = mask 8"
  by (simp_all add: mask_numeral)

lemma swap_port: "swap_portnum (ucast (a :: u8) OR push_bit 8 (ucast (b :: u8))) = be16 a b"
  unfolding swap_portnum_def be16_def byte_masks by (rule bit_word_eqI) (auto simp: bit_simps dest: bit_imp_le_length)

lemma le32_bytes:
  fixes a b c d :: u8
  defines "x \<equiv> (ucast a OR push_bit 8 (ucast b) OR push_bit 16 (ucast c) OR push_bit 24 (ucast d)) :: u32"
  shows "drop_bit 24 (x AND push_bit 24 (mask 8)) = ucast d"
    "drop_bit 8 (x AND push_bit 16 (mask 8)) = push_bit 8 (ucast c)"
    "push_bit 8 (x AND push_bit 8 (mask 8)) = push_bit 16 (ucast b)"
    "push_bit 24 (x AND mask 8) = push_bit 24 (ucast a)"
  unfolding x_def by (rule bit_word_eqI, auto simp: bit_simps dest: bit_imp_le_length)+

lemma swap_addr:
  "swap_ipaddr (ucast (ucast (a :: u8) OR push_bit 8 (ucast (b :: u8)) :: u16) OR
     push_bit 16 (ucast (ucast (c :: u8) OR push_bit 8 (ucast (d :: u8)) :: u16))) = be32 a b c d"
proof -
  have widen: "(ucast (ucast x OR push_bit 8 (ucast y) :: u16) :: u32) = ucast x OR push_bit 8 (ucast y)" for x y :: u8
    by (rule bit_word_eqI) (auto simp: bit_simps dest: bit_imp_le_length)
  have e: "(ucast (ucast a OR push_bit 8 (ucast b) :: u16) :: u32) OR
      push_bit 16 (ucast (ucast c OR push_bit 8 (ucast d) :: u16)) =
      ucast a OR push_bit 8 (ucast b) OR push_bit 16 (ucast c) OR push_bit 24 (ucast d)"
    by (simp add: widen push_bit_or or.assoc)
  show ?thesis
    unfolding e swap_ipaddr_def byte_masks le32_bytes be32_def by (simp only: ac_simps)
qed

lemma rd8_ok: "i < length m \<Longrightarrow> rd8 m i = Inr (m ! i)"
  by (simp add: rd8_def)

lemma rd16_ok: "i + 1 < length m \<Longrightarrow> rd16 m i = Inr (ucast (m ! i) OR push_bit 8 (ucast (m ! (i + 1))))"
  by (simp add: rd16_def rd8_ok)

lemma rd32_ok:
  "i + 3 < length m \<Longrightarrow> rd32 m i = Inr (ucast (ucast (m ! i) OR push_bit 8 (ucast (m ! (i + 1))) :: u16) OR
     push_bit 16 (ucast (ucast (m ! (i + 2)) OR push_bit 8 (ucast (m ! (i + 3))) :: u16)))"
  by (simp add: rd32_def rd16_ok numeral_3_eq_3)

section \<open>First match on decoded packets\<close>

record packet =
  p_type :: u16
  p_proto :: u8
  p_src :: u32
  p_sport :: u16
  p_dport :: u16

definition l4_offset :: "u8 list \<Rightarrow> nat" where
  "l4_offset m = 14 + 4 * unat (m ! 14 AND 0x0F)"

definition decode :: "u8 list \<Rightarrow> packet" where
  "decode m = \<lparr>p_type = be16 (m ! 12) (m ! 13), p_proto = m ! 23, p_src = be32 (m ! 26) (m ! 27) (m ! 28) (m ! 29),
     p_sport = be16 (m ! l4_offset m) (m ! (l4_offset m + 1)),
     p_dport = be16 (m ! (l4_offset m + 2)) (m ! (l4_offset m + 3))\<rparr>"

definition has_ports :: "packet \<Rightarrow> bool" where
  "has_ports p = (p_proto p = 6 \<or> p_proto p = 17)"

text \<open>A frame with the headers it announces.\<close>

definition wf_frame :: "u8 list \<Rightarrow> bool" where
  "wf_frame m = (14 \<le> length m \<and>
     (p_type (decode m) = 0x0800 \<longrightarrow> 34 \<le> length m \<and> (has_ports (decode m) \<longrightarrow> l4_offset m + 4 \<le> length m)))"

definition port_matches :: "bool \<Rightarrow> u16 \<Rightarrow> u16 \<Rightarrow> u16 \<Rightarrow> u16 \<Rightarrow> bool" where
  "port_matches rng pt lo hi x = (x = pt \<or> rng \<and> lo \<le> x \<and> x \<le> hi)"

definition rule_matches :: "packet \<Rightarrow> wifi_ipv4_filter \<Rightarrow> bool" where
  "rule_matches p f =
     ((bit (match_mask f) 0 \<longrightarrow> remote_ip f = p_src p) \<and>
      (bit (match_mask f) 1 \<longrightarrow> packet_type f = p_proto p) \<and>
      (bit (match_mask f) 2 \<or> bit (match_mask f) 3 \<longrightarrow>
         has_ports p \<and> port_matches (bit (match_mask f) 3) (local_port f) (localp_min f) (localp_max f) (p_dport p)) \<and>
      (bit (match_mask f) 4 \<or> bit (match_mask f) 5 \<longrightarrow>
         has_ports p \<and> port_matches (bit (match_mask f) 5) (remote_port f) (remotep_min f) (remotep_max f) (p_sport p)))"

lemma mask_bits:
  "x AND push_bit n 1 \<noteq> 0 \<longleftrightarrow> bit (x :: u8) n"
  "x AND 0x04 \<noteq> 0 \<longleftrightarrow> bit x 2" "x AND 0x08 \<noteq> 0 \<longleftrightarrow> bit x 3" "x AND 0x10 \<noteq> 0 \<longleftrightarrow> bit x 4" "x AND 0x20 \<noteq> 0 \<longleftrightarrow> bit x 5"
  using bit_iff_and_push_bit_not_eq_0 [of x n] bit_iff_and_push_bit_not_eq_0 [of x 2]
    bit_iff_and_push_bit_not_eq_0 [of x 3] bit_iff_and_push_bit_not_eq_0 [of x 4] bit_iff_and_push_bit_not_eq_0 [of x 5]
  by simp_all

text \<open>The transport headers as the code finds them.\<close>

definition tcp_at :: "u8 list \<Rightarrow> nat option" where
  "tcp_at m = (if m ! 23 = 6 then Some (l4_offset m) else None)"

definition udp_at :: "u8 list \<Rightarrow> nat option" where
  "udp_at m = (if m ! 23 \<noteq> 6 \<and> m ! 23 = 17 then Some (l4_offset m) else None)"

lemma match_ip_spec:
  assumes "34 \<le> length m"
  shows "match_ip f m tcp udp = Inr (remote_ip f = p_src (decode m))"
  using assms by (simp add: match_ip_def rd32_ok swap_addr decode_def)

lemma match_protocol_spec:
  assumes "34 \<le> length m"
  shows "match_protocol f m tcp udp = Inr (packet_type f = p_proto (decode m))"
  using assms by (simp add: match_protocol_def rd8_ok decode_def)

lemma match_ports_spec:
  assumes "has_ports (decode m) \<longrightarrow> l4_offset m + 4 \<le> length m"
  shows "match_local_port_and_range f m (tcp_at m) (udp_at m) = Inr (has_ports (decode m) \<and>
      port_matches (bit (match_mask f) 3) (local_port f) (localp_min f) (localp_max f) (p_dport (decode m)))"
    "match_remote_port_and_range f m (tcp_at m) (udp_at m) = Inr (has_ports (decode m) \<and>
      port_matches (bit (match_mask f) 5) (remote_port f) (remotep_min f) (remotep_max f) (p_sport (decode m)))"
  using assms
  by (auto simp: match_local_port_and_range_def match_remote_port_and_range_def tcp_at_def udp_at_def has_ports_def
      decode_def rd16_ok swap_port Let_def port_matches_def mask_bits numeral_3_eq_3)

lemma mask_step:
  assumes "func f m tcp udp = Inr b" "mask_loop f m tcp udp (k + 1) funcs True = Inr r"
  shows "mask_loop f m tcp udp k (func # funcs) True = Inr ((bit (match_mask f) k \<longrightarrow> b) \<and> r)"
  unfolding mask_loop.simps(2) mask_bits(1) using assms by simp

lemma mask_loop_spec:
  assumes "34 \<le> length m" "has_ports (decode m) \<longrightarrow> l4_offset m + 4 \<le> length m"
  shows "mask_loop f m (tcp_at m) (udp_at m) 0 match_funcs True = Inr (rule_matches (decode m) f)"
proof -
  note fs = match_ip_spec [OF assms(1)] match_protocol_spec [OF assms(1)] match_ports_spec(1) [OF assms(2)]
    match_ports_spec(1) [OF assms(2)] match_ports_spec(2) [OF assms(2)] match_ports_spec(2) [OF assms(2)]
  show ?thesis
    unfolding match_funcs_def
    by (rule trans, (rule mask_step, rule fs)+, rule mask_loop.simps(1)) (auto simp: rule_matches_def eval_nat_numeral)
qed

lemma rule_loop_spec:
  assumes "34 \<le> length m" "has_ports (decode m) \<longrightarrow> l4_offset m + 4 \<le> length m"
  shows "rule_loop m (tcp_at m) (udp_at m) fs =
    Inr (case find (rule_matches (decode m)) fs of None \<Rightarrow> WIFI_FILTER_TO_BUTT | Some f \<Rightarrow> ucast (config_type f))"
  by (induction fs) (simp_all add: mask_loop_spec [OF assms])

text \<open>The rules in the order of the table, and the direction of a packet.\<close>

definition rules :: "repeater_ctx \<Rightarrow> wifi_ipv4_filter list" where
  "rules s = (case ipv4_filters (filter_cfg s) of None \<Rightarrow> [] | Some tbl \<Rightarrow> take (ipv4_used (filter_cfg s)) tbl)"

definition route :: "repeater_ctx \<Rightarrow> packet \<Rightarrow> u32" where
  "route s p =
     (if \<not> host_carrier_on s \<or> p_type p \<in> {0x888E, 0x86DD} then WIFI_FILTER_TO_LWIP
      else if p_type p = 0x0806 \<or> p_type p = 0x0800 \<and> p_proto p \<in> {1, 2} then WIFI_FILTER_TO_BOTH
      else if p_type p = 0x0800
      then (case find (rule_matches p) (rules s) of
              None \<Rightarrow> default_dir (filter_cfg s)
            | Some f \<Rightarrow> if config_type f = 4 then default_dir (filter_cfg s) else ucast (config_type f))
      else WIFI_FILTER_TO_LWIP)"

definition deliver :: "(u8 list \<Rightarrow> u8 list option) \<Rightarrow> (u8 list \<Rightarrow> u8 list option) \<Rightarrow> nat \<Rightarrow> u32 \<Rightarrow> u8 list \<Rightarrow> delivery list" where
  "deliver topbuf topbuf_nofreem h dir m =
     (if dir = WIFI_FILTER_TO_LWIP then [To_lwip (topbuf m)]
      else if dir = WIFI_FILTER_TO_HOST then [To_host h m]
      else To_host h m # (case topbuf_nofreem m of None \<Rightarrow> [] | Some p \<Rightarrow> [To_lwip (Some p)]))"

text \<open>The table is consistent and the repeater is attached to interface \<open>i\<close> and host routine \<open>h\<close>.\<close>

definition table_inv :: "repeater_ctx \<Rightarrow> bool" where
  "table_inv s =
     (case ipv4_filters (filter_cfg s) of
        None \<Rightarrow> ipv4_used (filter_cfg s) = 0
      | Some tbl \<Rightarrow> length tbl = max_ipv4_num (filter_cfg s) \<and> ipv4_used (filter_cfg s) \<le> length tbl \<and>
          distinct (rules s) \<and> list_all (\<lambda>f. check_param f = OK) (rules s))"

definition attached :: "repeater_ctx \<Rightarrow> nat \<Rightarrow> nat \<Rightarrow> bool" where
  "attached s i h = (ifp (filter_cfg s) = Some i \<and> host_input (filter_cfg s) = Some h \<and> lwip_input (filter_cfg s))"

lemma swap_twice: "swap_portnum (swap_portnum x) = x"
  unfolding swap_portnum_def byte_masks by (rule bit_word_eqI) (auto simp: bit_simps, metis le_add_diff_inverse not_less)

lemma ether_types:
  assumes "14 \<le> length m"
  shows "rd16 m 12 = Inr (swap_portnum (p_type (decode m)))"
    "swap_portnum x = swap_portnum y \<longleftrightarrow> x = y"
proof -
  have "swap_portnum (be16 a b) = ucast a OR push_bit 8 (ucast b)" for a b
    using swap_twice [of "ucast a OR push_bit 8 (ucast b)"] by (simp add: swap_port)
  then show "rd16 m 12 = Inr (swap_portnum (p_type (decode m)))"
    using assms by (simp add: rd16_ok decode_def)
  show "swap_portnum x = swap_portnum y \<longleftrightarrow> x = y"
    by (metis swap_twice)
qed

lemma match_filter_spec:
  assumes "table_inv s" "34 \<le> length m" "has_ports (decode m) \<longrightarrow> l4_offset m + 4 \<le> length m"
  shows "match_filter (filter_cfg s) m =
    Inr (case find (rule_matches (decode m)) (rules s) of None \<Rightarrow> WIFI_FILTER_TO_BUTT | Some f \<Rightarrow> ucast (config_type f))"
proof (cases "ipv4_filters (filter_cfg s)")
  case None
  then show ?thesis using assms(1) by (simp add: match_filter_def table_inv_def rules_def)
next
  case (Some tbl)
  have t: "tcp_at m = (if m ! 23 = 6 then Some (14 + unat (m ! 14 AND 0x0F) * 4) else None)"
    "udp_at m = (if m ! 23 \<noteq> 6 \<and> m ! 23 = 17 then Some (14 + unat (m ! 14 AND 0x0F) * 4) else None)"
    by (simp_all add: tcp_at_def udp_at_def l4_offset_def)
  show ?thesis
    using Some assms(1,2) rule_loop_spec [OF assms(2,3), unfolded t]
    by (simp add: match_filter_def ipv4_match_filter_def table_inv_def rules_def rd8_ok Let_def)
qed

lemma config_butt: "ucast (c :: u8) = WIFI_FILTER_TO_BUTT \<longleftrightarrow> c = 4"
  using unsigned_less [of c, where ?'a = nat] by (simp add: word_unat_eq_iff unsigned_ucast_eq take_bit_nat_eq_self)

lemma frame_direction_spec:
  assumes "table_inv s" "wf_frame m"
  shows "\<exists>d. frame_direction (filter_cfg s) m = Inr d \<and>
    (if d = WIFI_FILTER_TO_BUTT then default_dir (filter_cfg s) else d) = route (s\<lparr>host_carrier_on := True\<rparr>) (decode m)"
proof (cases "p_type (decode m) = 0x0800")
  case True
  then have len: "34 \<le> length m" "has_ports (decode m) \<longrightarrow> l4_offset m + 4 \<le> length m"
    using assms(2) by (simp_all add: wf_frame_def)
  have "rd8 m 23 = Inr (p_proto (decode m))" using len(1) by (simp add: rd8_ok decode_def)
  moreover have "14 \<le> length m" using len(1) by simp
  ultimately show ?thesis
    using True match_filter_spec [OF assms(1) len]
    by (auto simp: frame_direction_def ether_types route_def rules_def config_butt split: option.splits)
next
  case False
  then show ?thesis
    using assms(2) by (auto simp: frame_direction_def ether_types route_def wf_frame_def)
qed

lemma routes_first_match:
  assumes "table_inv s" "attached s i h" "wf_frame m"
  shows "repeater_input topbuf topbuf_nofreem i (Some m) s =
    Inr (deliver topbuf topbuf_nofreem h (route s (decode m)) m)"
proof -
  have fwd: "repeater_forward_packet topbuf topbuf_nofreem (filter_cfg s) d m =
      Inr (deliver topbuf topbuf_nofreem h (if d = WIFI_FILTER_TO_BUTT then default_dir (filter_cfg s) else d) m)" for d
    using assms(2)
    by (simp add: repeater_forward_packet_def deliver_def attached_def Let_def split: option.splits)
  obtain d where d: "frame_direction (filter_cfg s) m = Inr d"
      "(if d = WIFI_FILTER_TO_BUTT then default_dir (filter_cfg s) else d) = route (s\<lparr>host_carrier_on := True\<rparr>) (decode m)"
    using frame_direction_spec [OF assms(1,3)] by blast
  have on: "route (s\<lparr>host_carrier_on := True\<rparr>) p = route s p" if "host_carrier_on s" for p
    using that by (cases s) simp
  have off: "route s p = WIFI_FILTER_TO_LWIP" if "\<not> host_carrier_on s" for p
    using that by (simp add: route_def)
  show ?thesis
    using assms(2) d on off by (simp add: repeater_input_def attached_def Let_def fwd)
qed

section \<open>The table is a list without repetitions\<close>

lemma filter_index_None: "filter_index xs f = None \<longleftrightarrow> f \<notin> set xs"
  by (induction xs) auto

lemma filter_index_Some:
  "filter_index xs f = Some i \<Longrightarrow> i < length xs \<and> remove1 f xs = take i xs @ drop (i + 1) xs"
  by (induction xs arbitrary: i) (auto split: if_splits)

lemma move_down_take:
  assumes "i < used" "used \<le> length tbl"
  shows "take (used - 1) (move_down i used tbl) = take i (take used tbl) @ drop (i + 1) (take used tbl)"
    "length (move_down i used tbl) = length tbl"
proof -
  obtain k where used: "used = i + 1 + k" using assms(1) less_imp_Suc_add by fastforce
  then have "min (length tbl) i = i" "min (length tbl - Suc i) k = k" using assms(2) by simp_all
  then show "take (used - 1) (move_down i used tbl) = take i (take used tbl) @ drop (i + 1) (take used tbl)"
    "length (move_down i used tbl) = length tbl"
    using assms(2) by (simp_all add: used move_down_def drop_take)
qed

text \<open>A started repeater with room for \<open>n\<close> rules.\<close>

definition ready :: "nat \<Rightarrow> repeater_ctx \<Rightarrow> bool" where
  "ready n s = (table_inv s \<and> ipv4_filters (filter_cfg s) \<noteq> None \<and> max_ipv4_num (filter_cfg s) = n)"

lemma readyE:
  assumes "ready n s"
  obtains tbl where "ipv4_filters (filter_cfg s) = Some tbl" "length tbl = n" "max_ipv4_num (filter_cfg s) = n"
    "ipv4_used (filter_cfg s) \<le> n" "rules s = take (ipv4_used (filter_cfg s)) tbl" "distinct (rules s)"
    "list_all (\<lambda>f. check_param f = OK) (rules s)"
  using assms by (auto simp: ready_def table_inv_def rules_def)

lemmas table_defs = add_filter_def wifi_add_ipv4_filter_def del_filter_def wifi_del_ipv4_filter_def
  free_filters_def CONFIG_REPEATER_IF_NUM_def ready_def table_inv_def rules_def

definition can_add :: "nat \<Rightarrow> wifi_ipv4_filter \<Rightarrow> wifi_ipv4_filter list \<Rightarrow> bool" where
  "can_add n f xs = (length xs < n \<and> check_param f = OK \<and> f \<notin> set xs)"

lemma add_filter_spec:
  assumes "ready n s"
  shows "\<exists>s'. add_filter 0 (Some f) WIFI_FILTER_TYPE_IPV4 s = Inr (if can_add n f (rules s) then OK else FAIL, s') \<and>
    ready n s' \<and> rules s' = (if can_add n f (rules s) then rules s @ [f] else rules s)"
proof -
  obtain tbl where tbl: "ipv4_filters (filter_cfg s) = Some tbl" "length tbl = n" "max_ipv4_num (filter_cfg s) = n"
      "ipv4_used (filter_cfg s) \<le> n" "rules s = take (ipv4_used (filter_cfg s)) tbl" "distinct (rules s)"
      "list_all (\<lambda>f. check_param f = OK) (rules s)"
    using assms by (rule readyE)
  define used where "used = ipv4_used (filter_cfg s)"
  have dup: "is_ipv4_filter_duplicate (filter_cfg s) tbl f = (if f \<in> set (rules s) then FAIL else OK)"
    using filter_index_None [of "rules s" f] by (auto simp: is_ipv4_filter_duplicate_def tbl(5))
  have len: "length (rules s) = used" using tbl by (simp add: used_def)
  show ?thesis
  proof (cases "can_add n f (rules s)")
    case True
    then have "used < n" by (simp add: can_add_def len)
    then have "take (Suc used) (tbl[used := f]) = take used tbl @ [f]"
      using tbl(2) by (simp add: take_Suc_conv_app_nth)
    then show ?thesis
      using True assms tbl dup \<open>used < n\<close>
      by (simp add: table_defs can_add_def used_def [symmetric])
  next
    case False
    then have "add_filter 0 (Some f) WIFI_FILTER_TYPE_IPV4 s = Inr (FAIL, s)"
      using tbl dup len by (auto simp: table_defs can_add_def used_def [symmetric])
    then show ?thesis using False assms by auto
  qed
qed

lemma del_filter_spec:
  assumes "ready n s"
  shows "\<exists>s'. del_filter 0 (Some f) WIFI_FILTER_TYPE_IPV4 s = (if f \<in> set (rules s) then OK else FAIL, s') \<and>
    ready n s' \<and> rules s' = remove1 f (rules s)"
proof -
  obtain tbl where tbl: "ipv4_filters (filter_cfg s) = Some tbl" "length tbl = n" "max_ipv4_num (filter_cfg s) = n"
      "ipv4_used (filter_cfg s) \<le> n" "rules s = take (ipv4_used (filter_cfg s)) tbl" "distinct (rules s)"
      "list_all (\<lambda>f. check_param f = OK) (rules s)"
    using assms by (rule readyE)
  define used where "used = ipv4_used (filter_cfg s)"
  show ?thesis
  proof (cases "f \<in> set (rules s)")
    case True
    then obtain i where i: "filter_index (take used tbl) f = Some i"
      using filter_index_None [of "take used tbl" f] tbl(5) by (auto simp: used_def)
    then have r: "i < used" "remove1 f (rules s) = take i (take used tbl) @ drop (i + 1) (take used tbl)"
      using filter_index_Some [OF i] tbl by (simp_all add: used_def)
    have used: "used \<le> length tbl" using tbl by (simp add: used_def)
    have "check_param f = OK" using True tbl(7) by (simp add: list_all_iff)
    moreover have "distinct (remove1 f (rules s))" "list_all (\<lambda>f. check_param f = OK) (remove1 f (rules s))"
      using tbl(6,7) by (auto simp: list_all_iff dest: set_remove1_subset [THEN subsetD])
    ultimately show ?thesis
      using True tbl i r used move_down_take [OF r(1) used]
      by (simp add: table_defs used_def [symmetric])
  next
    case False
    then have "del_filter 0 (Some f) WIFI_FILTER_TYPE_IPV4 s = (FAIL, s)"
      using tbl filter_index_None [of "take used tbl" f] by (simp add: table_defs used_def)
    then show ?thesis using False assms by (simp add: remove1_idem)
  qed
qed

lemma free_filters_spec:
  assumes "ready n s"
  shows "\<exists>s'. free_filters 0 WIFI_FILTER_TYPE_IPV4 s = Inr (OK, s') \<and> ready n s' \<and> rules s' = []"
  using assms by (auto simp: table_defs)

text \<open>Sequences of operations and what they do to a list.\<close>

datatype table_op = Add wifi_ipv4_filter | Del wifi_ipv4_filter | Free

fun table_run :: "table_op list \<Rightarrow> repeater_ctx \<Rightarrow> (int list \<times> repeater_ctx) res" where
  "table_run [] s = Inr ([], s)"
| "table_run (op # ops) s =
     res_bind (case op of
                 Add f \<Rightarrow> add_filter 0 (Some f) WIFI_FILTER_TYPE_IPV4 s
               | Del f \<Rightarrow> Inr (del_filter 0 (Some f) WIFI_FILTER_TYPE_IPV4 s)
               | Free \<Rightarrow> free_filters 0 WIFI_FILTER_TYPE_IPV4 s)
       (\<lambda>(r, s1). res_bind (table_run ops s1) (\<lambda>(rs, s2). Inr (r # rs, s2)))"

fun table_spec :: "nat \<Rightarrow> table_op list \<Rightarrow> wifi_ipv4_filter list \<Rightarrow> int list \<times> wifi_ipv4_filter list" where
  "table_spec n [] xs = ([], xs)"
| "table_spec n (op # ops) xs =
     (let (r, xs') = (case op of
                        Add f \<Rightarrow> if can_add n f xs then (OK, xs @ [f]) else (FAIL, xs)
                      | Del f \<Rightarrow> if f \<in> set xs then (OK, remove1 f xs) else (FAIL, xs)
                      | Free \<Rightarrow> (OK, []));
          (rs, ys) = table_spec n ops xs'
      in (r # rs, ys))"

lemma table_run_spec:
  assumes "ready n s"
  shows "\<exists>s'. table_run ops s = Inr (fst (table_spec n ops (rules s)), s') \<and> ready n s' \<and>
    rules s' = snd (table_spec n ops (rules s))"
  using assms
proof (induction ops arbitrary: s)
  case (Cons op ops)
  obtain r s1 where step: "(case op of
        Add f \<Rightarrow> add_filter 0 (Some f) WIFI_FILTER_TYPE_IPV4 s
      | Del f \<Rightarrow> Inr (del_filter 0 (Some f) WIFI_FILTER_TYPE_IPV4 s)
      | Free \<Rightarrow> free_filters 0 WIFI_FILTER_TYPE_IPV4 s) = Inr (r, s1)" "ready n s1"
    "(case op of
        Add f \<Rightarrow> if can_add n f (rules s) then (OK, rules s @ [f]) else (FAIL, rules s)
      | Del f \<Rightarrow> if f \<in> set (rules s) then (OK, remove1 f (rules s)) else (FAIL, rules s)
      | Free \<Rightarrow> (OK, [])) = (r, rules s1)"
  proof (cases op)
    case (Add f)
    then show thesis using add_filter_spec [OF Cons.prems, of f] that by (auto split: if_splits)
  next
    case (Del f)
    then show thesis using del_filter_spec [OF Cons.prems, of f] that by (auto simp: remove1_idem split: if_splits)
  next
    case Free
    then show thesis using free_filters_spec [OF Cons.prems] that by auto
  qed
  obtain s2 where "table_run ops s1 = Inr (fst (table_spec n ops (rules s1)), s2)" "ready n s2"
      "rules s2 = snd (table_spec n ops (rules s1))"
    using Cons.IH [OF step(2)] by blast
  then show ?case using step by (simp add: case_prod_unfold Let_def)
qed simp

section \<open>Properties\<close>


text \<open>A UDP datagram to port 5353, a rule for that port, and a host that is ready.\<close>

definition ex_frame :: "u8 list" where
  "ex_frame = replicate 12 0 @ [0x08, 0x00, 0x45] @ replicate 8 0 @ [17] @ replicate 10 0 @ [0x00, 0x07, 0x14, 0xE9]"

definition ex_rule :: wifi_ipv4_filter where
  "ex_rule = zero_filter\<lparr>local_port := 5353, match_mask := 4, config_type := 2\<rparr>"

definition ex_ctx :: repeater_ctx where
  "ex_ctx = \<lparr>host_carrier_on = True, filter_cfg = \<lparr>ifp = Some 1, host_input = Some 7, lwip_input = True, default_dir = 1,
     max_ipv4_num = 2, ipv4_used = 1, ipv4_filters = Some [ex_rule, zero_filter]\<rparr>,
     ifnets = (\<lambda>_. \<lparr>if_input = Repeater_input, if_etherinput = Other_input 0\<rparr>)\<rparr>"

lemma ex_ctx_inv: "ready 2 ex_ctx" "rules ex_ctx = [ex_rule]"
  by (simp_all add: ready_def table_inv_def rules_def ex_ctx_def ex_rule_def check_param_def)

lemma ex_frame_decode: "decode ex_frame = \<lparr>p_type = 0x0800, p_proto = 17, p_src = 0, p_sport = 7, p_dport = 5353\<rparr>"
  by (simp add: decode_def ex_frame_def l4_offset_def be16_def be32_def nth_append nth_Cons')


text \<open>
  C36: The table of rules is a list.  For every sequence of additions, deletions and clearings on a started repeater the
  results and the rules are those of a list without repetitions: a rule is added at the end unless the table is full, its
  parameters are inconsistent or it is there already, and a deletion succeeds exactly if the rule is there and keeps the
  order of the others.
\<close>

theorem repeater_table_refines:
  assumes "ready n s"
  shows "\<exists>s'. table_run ops s = Inr (fst (table_spec n ops (rules s)), s') \<and> ready n s' \<and>
    rules s' = snd (table_spec n ops (rules s))"
  by (rule table_run_spec [OF assms])

theorem repeater_table_refines_witness:
  "\<exists>s'. table_run [Add ex_rule, Del ex_rule, Add ex_rule, Del zero_filter] ex_ctx = Inr ([FAIL, OK, OK, FAIL], s') \<and>
     rules s' = [ex_rule]"
proof -
  have "table_spec 2 [Add ex_rule, Del ex_rule, Add ex_rule, Del zero_filter] [ex_rule] = ([FAIL, OK, OK, FAIL], [ex_rule])"
    by (simp add: can_add_def check_param_def) (simp add: ex_rule_def)
  then show ?thesis
    using repeater_table_refines [OF ex_ctx_inv(1), of "[Add ex_rule, Del ex_rule, Add ex_rule, Del zero_filter]"]
    by (auto simp: ex_ctx_inv(2))
qed

text \<open>
  Starting and stopping.  A start that succeeds and a stop restore the input routine of the interface.  But a start for
  which no memory is left stays attached, and a second start then saves the routine of the repeater as the one
  to restore: after the stop the interface still calls the repeater, and the next frame is looked up in a table entry that does not
  exist.
\<close>

theorem repeater_restart:
  assumes "ipv4_filters (filter_cfg s) = None"
  shows "(\<exists>s1 s2. repeater_init True (Some (Some i)) True 0 (Some h) s = Inr (OK, s1) \<and> attached s1 i h \<and> ready 15 s1 \<and>
      repeater_deinit 0 s1 = Inr (OK, s2) \<and> if_input (ifnets s2 i) = if_input (ifnets s i))
    \<and> (\<exists>s1 s2 s3. repeater_init True (Some (Some i)) False 0 (Some h) s = Inr (FAIL, s1) \<and>
      repeater_init True (Some (Some i)) True 0 (Some h) s1 = Inr (OK, s2) \<and> repeater_deinit 0 s2 = Inr (OK, s3) \<and>
      if_input (ifnets s3 i) = Repeater_input \<and>
      repeater_input topbuf topbuf_nofreem i frame s3 = Inl BadAccess)"
  using assms
  by (simp add: repeater_init_def repeater_deinit_def repeater_set_ifp_def repeater_if_attach_def repeater_if_deattach_def
      wifi_ipv4_filter_init_def repeater_input_def attached_def ready_def table_inv_def rules_def zero_cfg_def
      CONFIG_REPEATER_IF_NUM_def IPV4_CNT_def Let_def)

theorem repeater_restart_witness:
  "\<exists>s1 s2 s3. repeater_init True (Some (Some 1)) False 0 (Some 7) (ex_ctx\<lparr>filter_cfg := zero_cfg\<rparr>) = Inr (FAIL, s1) \<and>
     repeater_init True (Some (Some 1)) True 0 (Some 7) s1 = Inr (OK, s2) \<and> repeater_deinit 0 s2 = Inr (OK, s3) \<and>
     repeater_input Some Some 1 (Some ex_frame) s3 = Inl BadAccess"
  using repeater_restart [of "ex_ctx\<lparr>filter_cfg := zero_cfg\<rparr>" 1 7 Some Some "Some ex_frame"]
  by (simp add: zero_cfg_def) blast

text \<open>
  A rule that selects only a range of ports also matches the single port of its unselected field: 53 is outside the
  range here.
\<close>

lemma unselected_port_matches:
  "rule_matches \<lparr>p_type = 0x0800, p_proto = 17, p_src = 0, p_sport = 7, p_dport = 53\<rparr>
     (zero_filter\<lparr>local_port := 53, localp_min := 1000, localp_max := 2000, match_mask := 8\<rparr>)"
  by (simp add: rule_matches_def has_ports_def port_matches_def)

end
