(* ===== verification/Channel.thy ===== *)
theory Channel
  imports Event_Loop Repeater_Props
begin

text \<open>
  The channel to the host, \<^verbatim>\<open>api/wise/wise_channel.c\<close>: the state of the host, and messages that start with a fixed
  word.  A message is the bytes that may be read from its pointer, and a length.  The library for network interfaces is a parameter;
  events go to the event loop, and the state of the host and the packet filters to the repeater.
\<close>

definition SNCM_MAX_MSG_SIZE :: int where "SNCM_MAX_MSG_SIZE = 1500"

text \<open>\<^verbatim>\<open>"sncm_channel_send "\<close>\<close>

definition SNCM_CHANNEL_STR :: "u8 list" where
  "SNCM_CHANNEL_STR = [0x73, 0x6E, 0x63, 0x6D, 0x5F, 0x63, 0x68, 0x61, 0x6E, 0x6E, 0x65, 0x6C, 0x5F,
     0x73, 0x65, 0x6E, 0x64, 0x20]"

lemma length_prefix [simp]: "length SNCM_CHANNEL_STR = 18"
  by (simp add: SNCM_CHANNEL_STR_def)

section \<open>The state of the host\<close>

record 'q channel =
  host_en :: int
  host_net_en :: int
  repeater :: repeater_ctx
  os_state :: 'q

definition is_host_carrier_on :: "'q channel \<Rightarrow> bool" where
  "is_host_carrier_on c = (host_en c \<noteq> 0 \<and> host_net_en c \<noteq> 0)"

text \<open>
  \<open>link\<close> is the result of asking for the state of \<^verbatim>\<open>wlan0\<close>: the library cannot be opened, the question
  fails, or whether the state has \<^verbatim>\<open>LINK_STATE_UP\<close>; \<open>up_evt\<close> is the event
  \<^verbatim>\<open>SYSTEM_EVENT_SCM_LINK_UP\<close>, and \<open>info\<close> the bytes of a cleared information with \<^verbatim>\<open>not_en_dhcp\<close> set.
\<close>

datatype link_result = NoHandle | NoState | LinkState bool

definition up_evt :: "u8 list \<Rightarrow> system_event" where
  "up_evt info = \<lparr>event_id = 28, event_info = info\<rparr>"

definition update_connect_status ::
  "'q ev_os \<Rightarrow> 'u event_loop \<Rightarrow> link_result \<Rightarrow> u8 list \<Rightarrow> 'q channel \<Rightarrow> int \<times> 'q channel" where
  "update_connect_status os s link info c =
     (case link of
        NoHandle \<Rightarrow> (-1, c)
      | NoState \<Rightarrow> (-1, c)
      | LinkState up \<Rightarrow>
          (0, if up then c\<lparr>os_state := snd (wise_event_send os (Some (up_evt info)) s (os_state c))\<rparr> else c))"

definition set_carrier_to_repeater :: "'q channel \<Rightarrow> int \<times> 'q channel" where
  "set_carrier_to_repeater c =
     (let (_, _, rep) = host_carrier_getset 1 (if is_host_carrier_on c then 1 else 0) (repeater c)
      in (WISE_OK, c\<lparr>repeater := rep\<rparr>))"

definition wise_channel_get_host_net_status :: "'q channel \<Rightarrow> int" where
  "wise_channel_get_host_net_status c = host_net_en c"

definition wise_channel_get_host_status :: "'q channel \<Rightarrow> int" where
  "wise_channel_get_host_status c = host_en c"

definition wise_channel_host_en ::
  "'q ev_os \<Rightarrow> 'u event_loop \<Rightarrow> link_result \<Rightarrow> u8 list \<Rightarrow> int \<Rightarrow> 'q channel \<Rightarrow> int \<times> 'q channel" where
  "wise_channel_host_en os s link info on c =
     (let c1 = c\<lparr>host_en := on\<rparr>
      in (WISE_OK, if on \<noteq> 0 then snd (update_connect_status os s link info c1) else c1))"

definition wise_channel_host_carrier_on ::
  "'q ev_os \<Rightarrow> 'u event_loop \<Rightarrow> link_result \<Rightarrow> u8 list \<Rightarrow> int \<Rightarrow> 'q channel \<Rightarrow> int \<times> 'q channel" where
  "wise_channel_host_carrier_on os s link info on c =
     (let c1 = c\<lparr>host_net_en := on\<rparr>;
          c2 = (if is_host_carrier_on c1 then snd (update_connect_status os s link info c1) else c1)
      in (WISE_OK, snd (set_carrier_to_repeater c2)))"

lemma carrier_reported:
  "host_carrier_on (repeater (snd (wise_channel_host_carrier_on os s link info on c))) \<longleftrightarrow> host_en c \<noteq> 0 \<and> on \<noteq> 0"
  "filter_cfg (repeater (snd (wise_channel_host_carrier_on os s link info on c))) = filter_cfg (repeater c)"
  by (cases link;
      simp add: wise_channel_host_carrier_on_def set_carrier_to_repeater_def update_connect_status_def
        is_host_carrier_on_def host_carrier_getset_def Let_def)+

text \<open>
  Once the host reports that its carrier is down, every well-formed frame goes to the device only, whatever the
  rules say.
\<close>

lemma carrier_down_routes:
  assumes "table_inv (repeater c)" "attached (repeater c) i h" "wf_frame m"
  shows "repeater_input topbuf topbuf_nofreem i (Some m) (repeater (snd (wise_channel_host_carrier_on os s link info 0 c))) =
    Inr [To_lwip (topbuf m)]"
proof -
  define r where "r = repeater (snd (wise_channel_host_carrier_on os s link info 0 c))"
  have r: "\<not> host_carrier_on r" "filter_cfg r = filter_cfg (repeater c)"
    unfolding r_def by (simp_all add: carrier_reported)
  then have "table_inv r" "attached r i h"
    using assms by (simp_all add: table_inv_def rules_def attached_def split: option.splits)
  then show ?thesis
    unfolding r_def [symmetric] using r(1) by (simp add: routes_first_match [OF _ _ assms(3)] route_def deliver_def)
qed

section \<open>Packet filters\<close>

definition wise_wifi_set_default_filter :: "u32 \<Rightarrow> repeater_ctx \<Rightarrow> int \<times> repeater_ctx" where
  "wise_wifi_set_default_filter direction = set_def_dir 0 direction"

definition wise_wifi_add_filter ::
  "wifi_ipv4_filter option \<Rightarrow> wifi_filter_type \<Rightarrow> repeater_ctx \<Rightarrow> (int \<times> repeater_ctx) res" where
  "wise_wifi_add_filter f type = add_filter 0 f type"

definition wise_wifi_del_filter ::
  "wifi_ipv4_filter option \<Rightarrow> wifi_filter_type \<Rightarrow> repeater_ctx \<Rightarrow> int \<times> repeater_ctx" where
  "wise_wifi_del_filter f type = del_filter 0 f type"

definition wise_wifi_query_filter ::
  "wifi_filter_type \<Rightarrow> repeater_ctx \<Rightarrow> (nat \<times> wifi_ipv4_filter list) option" where
  "wise_wifi_query_filter type = query_filter 0 type"

text \<open>\<open>scdc_input\<close> is the routine that passes frames to the host.\<close>

definition wise_wifi_init_filter ::
  "bool \<Rightarrow> nat option option \<Rightarrow> bool \<Rightarrow> nat \<Rightarrow> repeater_ctx \<Rightarrow> (int \<times> repeater_ctx) res" where
  "wise_wifi_init_filter dev vap mem_ok scdc_input = repeater_init dev vap mem_ok 0 (Some scdc_input)"

definition wise_wifi_deinit_filter :: "repeater_ctx \<Rightarrow> (int \<times> repeater_ctx) res" where
  "wise_wifi_deinit_filter = repeater_deinit 0"

definition wise_wifi_free_filters :: "wifi_filter_type \<Rightarrow> repeater_ctx \<Rightarrow> (int \<times> repeater_ctx) res" where
  "wise_wifi_free_filters type = free_filters 0 type"

section \<open>Messages\<close>

text \<open>\<^verbatim>\<open>memcmp\<close> reads as many bytes as the word has, whatever the length of the message.\<close>

definition wise_channel_hdr_check :: "u8 list option \<Rightarrow> int \<Rightarrow> bool res" where
  "wise_channel_hdr_check buf len =
     (case buf of
        None \<Rightarrow> Inr False
      | Some m \<Rightarrow>
          if len = 0 \<or> len > SNCM_MAX_MSG_SIZE then Inr False
          else if length m < 18 then Inl BadAccess
          else Inr (take 18 m = SNCM_CHANNEL_STR))"

text \<open>
  The search for the word in the string at \<open>m\<close>: the bytes from its first occurrence on, none if the
  string ends first.
\<close>

fun str_str :: "u8 list \<Rightarrow> u8 list \<Rightarrow> u8 list option res" where
  "str_str pat [] = Inl BadAccess"
| "str_str pat (c # m) =
     (if take (length pat) (c # m) = pat then Inr (Some (c # m))
      else if c = 0 then Inr None
      else str_str pat m)"

text \<open>The result is the payload in the command buffer of 1500 bytes, and its length.\<close>

definition wise_channel_hdr_remove :: "u8 list \<Rightarrow> int \<Rightarrow> (u8 list \<times> int) option res" where
  "wise_channel_hdr_remove m len =
     res_bind (str_str SNCM_CHANNEL_STR m) (\<lambda>start.
       case start of
         None \<Rightarrow> Inr None
       | Some t \<Rightarrow>
           (let payload_len = len - 18
            in if payload_len < 0 \<or> payload_len \<ge> SNCM_MAX_MSG_SIZE \<or> int (length (drop 18 t)) < payload_len
               then Inl BadAccess
               else Inr (Some (take (nat payload_len) (drop 18 t) @ [0], payload_len))))"

text \<open>
  A refused message is printed with \<^verbatim>\<open>%s\<close>, which reads up to a zero byte and is undefined for a null pointer.
\<close>

definition print_msg :: "u8 list option \<Rightarrow> unit res" where
  "print_msg buf =
     (case buf of None \<Rightarrow> Inl Undefined | Some m \<Rightarrow> if 0 \<in> set m then Inr () else Inl BadAccess)"

definition wise_channel_rx_msg ::
  "(u8 list \<Rightarrow> int \<Rightarrow> 'w \<Rightarrow> int \<times> 'w) option \<Rightarrow> u8 list option \<Rightarrow> int \<Rightarrow> 'w \<Rightarrow> (int \<times> 'w) res" where
  "wise_channel_rx_msg scm_channel_cb buf len w =
     (case scm_channel_cb of
        None \<Rightarrow> Inr (WISE_FAIL, w)
      | Some cb \<Rightarrow>
          res_bind (wise_channel_hdr_check buf len) (\<lambda>ok.
            if \<not> ok then res_bind (print_msg buf) (\<lambda>_. Inr (WISE_FAIL, w))
            else (case buf of
                    None \<Rightarrow> Inl NullDeref
                  | Some m \<Rightarrow> res_bind (wise_channel_hdr_remove m len) (\<lambda>r.
                      case r of
                        None \<Rightarrow> Inr (WISE_FAIL, w)
                      | Some (cmd, n) \<Rightarrow> Inr (cb cmd n w)))))"

text \<open>Registering the callback also installs \<^verbatim>\<open>wise_channel_rx_msg\<close> in the command layer, which is the result.\<close>

definition wise_channel_register_rx_cb ::
  "'cb option \<Rightarrow> 'cb option \<times> bool \<Rightarrow> int \<times> 'cb option \<times> bool" where
  "wise_channel_register_rx_cb fn st = (case fn of None \<Rightarrow> (WISE_FAIL, st) | Some f \<Rightarrow> (WISE_OK, Some f, True))"

lemma str_str_start: "str_str SNCM_CHANNEL_STR (SNCM_CHANNEL_STR @ xs) = Inr (Some (SNCM_CHANNEL_STR @ xs))"
  by (simp add: SNCM_CHANNEL_STR_def)

lemmas rx_defs = wise_channel_rx_msg_def wise_channel_hdr_check_def wise_channel_hdr_remove_def print_msg_def
  str_str_start SNCM_MAX_MSG_SIZE_def Let_def

text \<open>
  A message of the right form reaches the callback with its payload and a terminating zero.  One with another first
  word never reaches it: it is refused if a zero byte ends it, and printing it reads past its end if none does.
\<close>

lemma channel_rx_exact:
  assumes "length payload \<le> 1482"
  shows "wise_channel_rx_msg (Some cb) (Some (SNCM_CHANNEL_STR @ payload @ rest)) (18 + int (length payload)) w =
    Inr (cb (payload @ [0]) (int (length payload)) w)"
  using assms by (simp add: rx_defs)

lemma channel_rx_refused:
  assumes "18 \<le> length m" "take 18 m \<noteq> SNCM_CHANNEL_STR"
  shows "wise_channel_rx_msg (Some cb) (Some m) len w = (if 0 \<in> set m then Inr (WISE_FAIL, w) else Inl BadAccess)"
  using assms by (simp add: rx_defs)

text \<open>
  A length below that of the word, negative ones included, over a buffer that still holds the word gives the copy a
  negative length.
\<close>

lemma channel_rx_short:
  assumes "len \<noteq> 0" "len < 18"
  shows "wise_channel_rx_msg (Some cb) (Some (SNCM_CHANNEL_STR @ rest)) len w = Inl BadAccess"
  using assms by (simp add: rx_defs)

end
