(* ===== verification/Sdio_Fifo.thy ===== *)
theory Sdio_Fifo
  imports Wise_Prelude
begin

text \<open>
  The receive FIFO of the SDIO device, \<^verbatim>\<open>lib/sdio/sdio-fifo.c\<close>, and the functions of
  \<^verbatim>\<open>lib/sdio/sdioif.c\<close> through which the network interface uses it.  A packet always lies in one piece: an index beyond
  \<^verbatim>\<open>BOUNDARY_INDX\<close> starts again at 0.  A pointer into the buffer is its offset from the start of
  the buffer, an integer as in the pointer arithmetic; comparisons are those of \<^verbatim>\<open>int\<close> after the promotion
  of \<^verbatim>\<open>uint16_t\<close>, assignments to a field wrap at 16 bits.  The two mutexes only serialise the calls.
\<close>

section \<open>State\<close>

record sdio_fifo =
  depth :: u16
  wr_idx :: u16
  rd_idx :: u16
  len_waste :: u16

definition MIN_LINEAR :: int where "MIN_LINEAR = 1700"

definition sdio_fifo_config :: "u16 \<Rightarrow> sdio_fifo \<Rightarrow> bool \<times> sdio_fifo" where
  "sdio_fifo_config d f =
     (if uint d > 0x8000 then (False, f)
      else (True, f\<lparr>depth := d, rd_idx := 0, wr_idx := 0, len_waste := 0\<rparr>))"

definition sdio_fifo_config_nolock :: "u16 \<Rightarrow> sdio_fifo \<Rightarrow> bool \<times> sdio_fifo" where
  "sdio_fifo_config_nolock d f =
     (if uint d > 0x8000 then (False, f)
      else (True, f\<lparr>depth := d, rd_idx := 0, wr_idx := 0, len_waste := 0\<rparr>))"

definition BOUNDARY_INDX :: "sdio_fifo \<Rightarrow> int" where
  "BOUNDARY_INDX f = uint (depth f) - MIN_LINEAR"

definition space :: "u16 \<Rightarrow> u16 \<Rightarrow> u16 \<Rightarrow> u16 \<Rightarrow> u16" where
  "space s e t h =
     (if uint h < uint t then word_of_int (uint t - uint h)
      else word_of_int ((uint e - uint s) - (uint h - uint t)))"

section \<open>Operations\<close>

definition sdio_fifo_array_get_write_buf :: "sdio_fifo \<Rightarrow> int \<times> sdio_fifo" where
  "sdio_fifo_array_get_write_buf f =
     (let w = sint (wr_idx f); r = sint (rd_idx f);
          f' = (if w \<ge> r \<and> uint (depth f) - w < MIN_LINEAR then f\<lparr>wr_idx := 0\<rparr> else f)
      in (uint (wr_idx f'), f'))"

definition sdio_fifo_array_get_read_buf :: "sdio_fifo \<Rightarrow> int \<times> sdio_fifo" where
  "sdio_fifo_array_get_read_buf f =
     (let r = uint (rd_idx f)
      in if r > BOUNDARY_INDX f
         then (0, if len_waste f = 0 then f\<lparr>len_waste := word_of_int (uint (depth f) - r)\<rparr> else f)
         else (r, f))"

definition sdio_fifo_array_linear_space_available :: "sdio_fifo \<Rightarrow> bool res" where
  "sdio_fifo_array_linear_space_available f =
     (let r = rd_idx f; w = wr_idx f
      in if uint (space 0 (depth f) r w) < MIN_LINEAR then Inr False
         else if uint (depth f) - uint w < MIN_LINEAR
         then (if uint (space 0 (depth f) r 0) < MIN_LINEAR then Inr False
               else if uint (depth f) - uint r < MIN_LINEAR then Inl AssertFail
               else Inr True)
         else Inr True)"

definition sdio_fifo_array_space_available :: "sdio_fifo \<Rightarrow> u16 \<Rightarrow> bool" where
  "sdio_fifo_array_space_available f need =
     (let spaces = space 0 (depth f) (rd_idx f) (wr_idx f)
      in if uint spaces < uint need then False else True)"

definition sdio_fifo_array_linearize :: "sdio_fifo \<Rightarrow> int \<Rightarrow> (int \<times> sdio_fifo) res" where
  "sdio_fifo_array_linearize f ptr_lin =
     (if ptr_lin > BOUNDARY_INDX f
      then (if len_waste f \<noteq> 0
            then (if ptr_lin + uint (len_waste f) \<ge> uint (depth f)
                  then Inr (ptr_lin + uint (len_waste f) - uint (depth f), f)
                  else Inl AssertFail)
            else Inr (0, f\<lparr>len_waste := word_of_int (uint (depth f) - ptr_lin)\<rparr>))
      else Inr (ptr_lin, f))"

definition sdio_fifo_array_get_read_linear_info :: "sdio_fifo \<Rightarrow> int \<times> sdio_fifo" where
  "sdio_fifo_array_get_read_linear_info f =
     (let r = uint (rd_idx f)
      in if r > BOUNDARY_INDX f
         then (0, if len_waste f = 0 then f\<lparr>len_waste := word_of_int (uint (depth f) - r)\<rparr> else f)
         else (r, f))"

definition sdio_fifo_array_advance_write_pointer :: "sdio_fifo \<Rightarrow> u16 \<Rightarrow> sdio_fifo res" where
  "sdio_fifo_array_advance_write_pointer f n =
     (let w = uint (wr_idx f); r = uint (rd_idx f);
          f1 = f\<lparr>wr_idx := wr_idx f + n\<rparr>;
          f2 = (if uint (wr_idx f1) > uint (depth f) - MIN_LINEAR then f1\<lparr>wr_idx := 0\<rparr> else f1)
      in if w \<ge> r then (if w < uint (depth f) then Inr f2 else Inl AssertFail)
         else (if r - w \<ge> MIN_LINEAR then Inr f2 else Inl AssertFail))"

definition sdio_fifo_array_advance_read :: "sdio_fifo \<Rightarrow> u16 \<Rightarrow> sdio_fifo res" where
  "sdio_fifo_array_advance_read f n =
     (let r = uint (rd_idx f + n); w = uint (wr_idx f)
      in if r > BOUNDARY_INDX f
         then
           (if (if len_waste f > 0 then r + uint (len_waste f) \<ge> uint (depth f) else r < uint (depth f))
            then Inr (if r \<ge> w
                 then (let f1 = (if len_waste f \<noteq> 0
                                 then f\<lparr>rd_idx := word_of_int (r + uint (len_waste f) - uint (depth f)),
                                        len_waste := 0\<rparr>
                                 else f\<lparr>rd_idx := 0\<rparr>)
                       in if w > BOUNDARY_INDX f then f1\<lparr>wr_idx := 0\<rparr> else f1)
                 else f\<lparr>rd_idx := word_of_int r\<rparr>)
            else Inl AssertFail)
         else Inr (f\<lparr>rd_idx := word_of_int r\<rparr>))"

definition sdio_fifo_array_get_read_idx :: "sdio_fifo \<Rightarrow> u16" where
  "sdio_fifo_array_get_read_idx f = rd_idx f"

definition sdio_fifo_array_reset :: "sdio_fifo \<Rightarrow> sdio_fifo" where
  "sdio_fifo_array_reset f = f\<lparr>rd_idx := 0, wr_idx := 0, len_waste := 0\<rparr>"

section \<open>The network interface\<close>

text \<open>The FIFO, the bytes of the receive buffer, and the lengths of the received packets in their list.\<close>

record sdio_ctx =
  rx_fifo :: sdio_fifo
  rcv_buffer :: "u8 list"
  rx_pkts :: "nat list"

definition store_at :: "u8 list \<Rightarrow> nat \<Rightarrow> u8 list \<Rightarrow> u8 list" where
  "store_at mem p bs = take p mem @ bs @ drop (p + length bs) mem"

definition sdio_req_getbuf :: "sdio_ctx \<Rightarrow> int \<times> sdio_ctx" where
  "sdio_req_getbuf c =
     (let (p, f) = sdio_fifo_array_get_write_buf (rx_fifo c) in (p, c\<lparr>rx_fifo := f\<rparr>))"

definition sdio_enqueue_recvpkt :: "nat \<Rightarrow> sdio_ctx \<Rightarrow> sdio_ctx" where
  "sdio_enqueue_recvpkt n c = c\<lparr>rx_pkts := rx_pkts c @ [n]\<rparr>"

definition sdio_req_filled :: "nat \<Rightarrow> sdio_ctx \<Rightarrow> sdio_ctx res" where
  "sdio_req_filled n c =
     res_bind (sdio_fifo_array_advance_write_pointer (rx_fifo c) (of_nat n)) (\<lambda>f.
       Inr (sdio_enqueue_recvpkt n (c\<lparr>rx_fifo := f\<rparr>)))"

definition sdio_vendor_get_read_info :: "nat \<Rightarrow> sdio_ctx \<Rightarrow> int option \<times> sdio_ctx" where
  "sdio_vendor_get_read_info n c =
     (if n = 0 then (None, c)
      else (let (p, f) = sdio_fifo_array_get_read_linear_info (rx_fifo c) in (Some p, c\<lparr>rx_fifo := f\<rparr>)))"

definition sdio_vendor_advance_rptr :: "nat \<Rightarrow> sdio_ctx \<Rightarrow> sdio_ctx res" where
  "sdio_vendor_advance_rptr n c =
     res_bind (sdio_fifo_array_advance_read (rx_fifo c) (of_nat n)) (\<lambda>f. Inr (c\<lparr>rx_fifo := f\<rparr>))"

text \<open>
  A packet arrives: the controller asks for a buffer, stores the bytes there, and reports it filled.
  A packet is fetched: the consumer takes the first length off the list, copies the bytes from where the
  read information points, and advances the read index.
\<close>

definition sdio_recv :: "u8 list \<Rightarrow> sdio_ctx \<Rightarrow> sdio_ctx res" where
  "sdio_recv bs c =
     (let (p, c1) = sdio_req_getbuf c
      in sdio_req_filled (length bs) (c1\<lparr>rcv_buffer := store_at (rcv_buffer c1) (nat p) bs\<rparr>))"

definition sdio_fetch :: "sdio_ctx \<Rightarrow> (u8 list option \<times> sdio_ctx) res" where
  "sdio_fetch c =
     (case rx_pkts c of
        [] \<Rightarrow> Inr (None, c)
      | n # ns \<Rightarrow>
          (case sdio_vendor_get_read_info n (c\<lparr>rx_pkts := ns\<rparr>) of
             (None, c1) \<Rightarrow> Inr (None, c1)
           | (Some p, c1) \<Rightarrow>
               res_bind (sdio_vendor_advance_rptr n c1) (\<lambda>c2.
                 Inr (Some (take n (drop (nat p) (rcv_buffer c1))), c2))))"

end
