(* ===== verification/Sdio_Fifo_Props.thy ===== *)
theory Sdio_Fifo_Props
  imports Sdio_Fifo
begin

text \<open>
  Correctness of the SDIO receive FIFO.  While packets are pending they lie either in one run from
  the read to the write index, or in one run from the read index to behind the boundary and a second
  from 0 to the write index.  From this layout follow that packets arrive unchanged and in
  order, and where this breaks.
\<close>

section \<open>The operations on natural numbers\<close>

definition fifo_at :: "nat \<Rightarrow> nat \<Rightarrow> nat \<Rightarrow> sdio_fifo" where
  "fifo_at D w r = \<lparr>depth = of_nat D, wr_idx = of_nat w, rd_idx = of_nat r, len_waste = 0\<rparr>"

lemma uint16: "n < 65536 \<Longrightarrow> uint (of_nat n :: u16) = int n"
  by (simp add: unsigned_of_nat take_bit_nat_eq_self)

lemma sint16: "n < 32768 \<Longrightarrow> sint (of_nat n :: u16) = int n"
  by (simp add: signed_of_nat signed_take_bit_int_eq_self)

lemmas fifo_defs = fifo_at_def BOUNDARY_INDX_def MIN_LINEAR_def

lemma get_write_at:
  assumes "D \<le> 32768" "w + 1700 \<le> D" "r + 1700 \<le> D"
  shows "sdio_fifo_array_get_write_buf (fifo_at D w r) = (int w, fifo_at D w r)"
  using assms by (simp add: sdio_fifo_array_get_write_buf_def fifo_defs uint16 sint16)

lemma read_info_at:
  assumes "D \<le> 32768" "r + 1700 \<le> D"
  shows "sdio_fifo_array_get_read_linear_info (fifo_at D w r) = (int r, fifo_at D w r)"
  using assms by (simp add: sdio_fifo_array_get_read_linear_info_def fifo_defs uint16)

lemma advance_write_at:
  assumes "D \<le> 32768" "w + 1700 \<le> D" "r + 1700 \<le> D" "n < 1700" "r \<le> w \<or> w + 1700 \<le> r"
  shows "sdio_fifo_array_advance_write_pointer (fifo_at D w r) (of_nat n) =
    Inr (fifo_at D (if D < w + n + 1700 then 0 else w + n) r)"
proof -
  have "uint (of_nat w + of_nat n :: u16) = int (w + n)"
    using assms uint16 [of "w + n"] by simp
  then show ?thesis
    using assms by (auto simp: sdio_fifo_array_advance_write_pointer_def fifo_defs uint16 Let_def)
qed

lemma advance_read_at:
  assumes "D \<le> 32768" "w + 1700 \<le> D" "r + n < D" "D < r + n + 1700 \<Longrightarrow> w \<le> r + n"
  shows "sdio_fifo_array_advance_read (fifo_at D w r) (of_nat n) =
    Inr (fifo_at D w (if D < r + n + 1700 then 0 else r + n))"
proof -
  have "uint (of_nat r + of_nat n :: u16) = int (r + n)"
    using assms uint16 [of "r + n"] by simp
  then show ?thesis
    using assms by (auto simp: sdio_fifo_array_advance_read_def fifo_defs uint16 Let_def)
qed

text \<open>
  The bound of 1699 bytes on a packet below is sharp: a packet of the full linear size at the last position the
  write index can take ends exactly at the end of the buffer, and the assertion on the read index fails.
\<close>

lemma advance_read_full_linear:
  assumes "1700 \<le> D" "D \<le> 32768"
  shows "sdio_fifo_array_advance_read (fifo_at D w (D - 1700)) 1700 = Inl AssertFail"
proof -
  have "uint (of_nat (D - 1700) + 1700 :: u16) = int D"
    using assms uint16 [of D] by (simp add: of_nat_diff)
  then show ?thesis
    using assms by (simp add: sdio_fifo_array_advance_read_def fifo_defs uint16)
qed

section \<open>Bytes in the buffer\<close>

definition bytes_at :: "u8 list \<Rightarrow> nat \<Rightarrow> u8 list \<Rightarrow> bool" where
  "bytes_at mem p bs = (p + length bs \<le> length mem \<and> take (length bs) (drop p mem) = bs)"

lemma bytes_at_nth:
  "bytes_at mem p bs \<longleftrightarrow> p + length bs \<le> length mem \<and> (\<forall>i < length bs. mem ! (p + i) = bs ! i)"
  by (auto simp: bytes_at_def list_eq_iff_nth_eq)

lemma bytes_at_append:
  "bytes_at mem p (xs @ ys) \<longleftrightarrow> bytes_at mem p xs \<and> bytes_at mem (p + length xs) ys"
proof (cases "p + length xs + length ys \<le> length mem")
  case True
  then show ?thesis
    by (auto simp: bytes_at_def take_add drop_drop add.commute add.left_commute)
next
  case False
  then show ?thesis by (auto simp: bytes_at_def)
qed

lemma store_at_length:
  "p + length bs \<le> length mem \<Longrightarrow> length (store_at mem p bs) = length mem"
  by (simp add: store_at_def)

lemma store_at_same: "p + length bs \<le> length mem \<Longrightarrow> bytes_at (store_at mem p bs) p bs"
  by (simp add: store_at_def bytes_at_def)

lemma store_at_nth:
  assumes "p + length bs \<le> length mem" "i < p \<or> p + length bs \<le> i"
  shows "store_at mem p bs ! i = mem ! i"
  using assms by (auto simp: store_at_def nth_append)

lemma store_at_other:
  assumes "bytes_at mem q xs" "p + length bs \<le> length mem"
    and "q + length xs \<le> p \<or> p + length bs \<le> q"
  shows "bytes_at (store_at mem p bs) q xs"
  using assms by (auto simp: bytes_at_nth store_at_length store_at_nth)

section \<open>The layout of the pending packets\<close>

text \<open>A run of packets from \<open>r\<close> to \<open>w\<close>.\<close>

definition run_at :: "u8 list \<Rightarrow> nat \<Rightarrow> u8 list list \<Rightarrow> nat \<Rightarrow> bool" where
  "run_at mem r ps w = (bytes_at mem r (concat ps) \<and> w = r + length (concat ps))"

definition layout :: "u8 list \<Rightarrow> nat \<Rightarrow> nat \<Rightarrow> nat \<Rightarrow> u8 list list \<Rightarrow> bool" where
  "layout mem D w r ps =
     (run_at mem r ps w \<or>
      (\<exists>as a bs e. ps = as @ a # bs \<and> run_at mem r (as @ [a]) e \<and>
         r + length (concat as) + 1700 \<le> D \<and> D < e + 1700 \<and> e < D \<and> run_at mem 0 bs w \<and> w \<le> r))"

definition packet_ok :: "u8 list \<Rightarrow> bool" where
  "packet_ok bs = (0 < length bs \<and> length bs < 1700)"

definition fifo_inv :: "nat \<Rightarrow> u8 list list \<Rightarrow> sdio_ctx \<Rightarrow> bool" where
  "fifo_inv D ps c =
     (\<exists>w r. rx_fifo c = fifo_at D w r \<and> D \<le> 32768 \<and> w + 1700 \<le> D \<and> r + 1700 \<le> D \<and>
        length (rcv_buffer c) = D \<and> rx_pkts c = map length ps \<and> list_all packet_ok ps \<and>
        layout (rcv_buffer c) D w r ps)"

text \<open>
  Room for a packet, as the host must see it: nothing is pending, or the write index is ahead of the read
  index, or it is behind it by at least the linear size.  Equal indices with pending packets are a full
  buffer.
\<close>

definition has_room :: "sdio_ctx \<Rightarrow> bool" where
  "has_room c =
     (let w = uint (wr_idx (rx_fifo c)); r = uint (rd_idx (rx_fifo c))
      in rx_pkts c = [] \<or> w > r \<or> r - w \<ge> MIN_LINEAR)"

lemma run_at_snoc: "run_at mem r (ps @ [p]) e \<longleftrightarrow>
    run_at mem r ps (r + length (concat ps)) \<and> bytes_at mem (r + length (concat ps)) p \<and>
    e = r + length (concat ps) + length p"
  by (auto simp: run_at_def bytes_at_append)

lemma run_at_Cons: "run_at mem r (p # ps) w \<longleftrightarrow> bytes_at mem r p \<and> run_at mem (r + length p) ps w"
  by (auto simp: run_at_def bytes_at_append)

lemma run_at_store:
  assumes "run_at mem r ps e" "p + length bs \<le> length mem" "e \<le> p \<or> p + length bs \<le> r"
  shows "run_at (store_at mem p bs) r ps e"
  using assms by (auto simp: run_at_def intro!: store_at_other)

text \<open>Storing a packet behind a run that is not wrapped.\<close>

lemma layout_append:
  assumes "run_at mem r ps w" "length mem = D" "w + 1700 \<le> D" "packet_ok bs"
  shows "layout (store_at mem w bs) D (if D < w + length bs + 1700 then 0 else w + length bs) r (ps @ [bs])"
proof -
  have fit: "w + length bs \<le> length mem" and w: "w = r + length (concat ps)"
    using assms by (auto simp: packet_ok_def run_at_def)
  have run: "run_at (store_at mem w bs) r (ps @ [bs]) (w + length bs)"
    using run_at_store [OF assms(1) fit] store_at_same [OF fit] w by (simp add: run_at_snoc)
  show ?thesis
  proof (cases "D < w + length bs + 1700")
    case True
    have "run_at (store_at mem w bs) 0 [] 0" by (simp add: run_at_def bytes_at_def)
    then show ?thesis
      using True run w assms(2-4) unfolding layout_def packet_ok_def
      by (intro disjI2 exI [of _ ps] exI [of _ bs] exI [of _ "[]"] exI [of _ "w + length bs"]) auto
  next
    case False
    then show ?thesis using run by (simp add: layout_def)
  qed
qed

lemma recv_at:
  assumes "rx_fifo c = fifo_at D w r" "D \<le> 32768" "w + 1700 \<le> D" "r + 1700 \<le> D"
    "length bs < 1700" "r \<le> w \<or> w + 1700 \<le> r"
  shows "sdio_recv bs c =
    Inr (c\<lparr>rx_fifo := fifo_at D (if D < w + length bs + 1700 then 0 else w + length bs) r,
           rcv_buffer := store_at (rcv_buffer c) w bs, rx_pkts := rx_pkts c @ [length bs]\<rparr>)"
  using assms advance_write_at [OF assms(2-6)] get_write_at [OF assms(2-4)]
  by (simp add: sdio_recv_def sdio_req_getbuf_def sdio_req_filled_def sdio_enqueue_recvpkt_def)

lemma recv_step:
  assumes inv: "fifo_inv D ps c" and ok: "packet_ok bs" and room: "has_room c"
  shows "\<exists>c'. sdio_recv bs c = Inr c' \<and> fifo_inv D (ps @ [bs]) c'"
proof -
  from inv obtain w r where c: "rx_fifo c = fifo_at D w r" "D \<le> 32768" "w + 1700 \<le> D" "r + 1700 \<le> D"
      "length (rcv_buffer c) = D" "rx_pkts c = map length ps" "list_all packet_ok ps"
    and lay: "layout (rcv_buffer c) D w r ps"
    by (auto simp: fifo_inv_def)
  define w' where "w' = (if D < w + length bs + 1700 then 0 else w + length bs)"
  have len: "length bs < 1700" and fit: "w + length bs \<le> length (rcv_buffer c)"
    using ok c by (auto simp: packet_ok_def)
  have room': "ps = [] \<or> r < w \<or> w + 1700 \<le> r"
    using room c by (auto simp: has_room_def fifo_at_def uint16 MIN_LINEAR_def Let_def)
  have both: "(r \<le> w \<or> w + 1700 \<le> r) \<and> layout (store_at (rcv_buffer c) w bs) D w' r (ps @ [bs])"
  proof (cases "run_at (rcv_buffer c) r ps w")
    case True
    then have "r \<le> w" by (simp add: run_at_def)
    then show ?thesis using layout_append [OF True c(5,3) ok] by (simp add: w'_def)
  next
    case False
    with lay obtain as a cs e where l: "ps = as @ a # cs" "run_at (rcv_buffer c) r (as @ [a]) e"
      "r + length (concat as) + 1700 \<le> D" "D < e + 1700" "e < D" "run_at (rcv_buffer c) 0 cs w" "w \<le> r"
      unfolding layout_def by blast
    have gap: "w + 1700 \<le> r" using room' l(1,7) by auto
    have w': "w' = w + length bs" "w' \<le> r" using gap len c(4) by (auto simp: w'_def)
    have "run_at (store_at (rcv_buffer c) w bs) r (as @ [a]) e"
      using run_at_store [OF l(2) fit] gap len by simp
    moreover have "run_at (store_at (rcv_buffer c) w bs) 0 (cs @ [bs]) w'"
      using run_at_store [OF l(6) fit] store_at_same [OF fit] l(6) w'
      by (auto simp: run_at_def bytes_at_append)
    ultimately have "layout (store_at (rcv_buffer c) w bs) D w' r (ps @ [bs])"
      using l w' unfolding layout_def
      by (intro disjI2 exI [of _ as] exI [of _ a] exI [of _ "cs @ [bs]"] exI [of _ e]) auto
    then show ?thesis using gap by simp
  qed
  have w'_ok: "w' + 1700 \<le> D" using c by (auto simp: w'_def)
  show ?thesis
    using both c ok w'_ok recv_at [OF c(1-4) len] fit unfolding w'_def [symmetric]
    by (auto simp: fifo_inv_def store_at_length)
qed

text \<open>Taking the first packet off a layout.\<close>

lemma layout_tail:
  assumes lay: "layout mem D w r (p # ps)" and D: "w + 1700 \<le> D" "r + 1700 \<le> D" "packet_ok p"
  shows "bytes_at mem r p \<and> r + length p < D \<and> (D < r + length p + 1700 \<longrightarrow> w \<le> r + length p) \<and>
    layout mem D w (if D < r + length p + 1700 then 0 else r + length p) ps"
proof (cases "run_at mem r (p # ps) w")
  case True
  then have "r + length p \<le> w" "bytes_at mem r p" "run_at mem (r + length p) ps w"
    by (auto simp: run_at_Cons) (simp add: run_at_def)
  then show ?thesis using D by (auto simp: layout_def)
next
  case False
  with lay obtain as a cs e where l: "p # ps = as @ a # cs" "run_at mem r (as @ [a]) e"
    "r + length (concat as) + 1700 \<le> D" "D < e + 1700" "e < D" "run_at mem 0 cs w" "w \<le> r"
    unfolding layout_def by blast
  show ?thesis
  proof (cases as)
    case Nil
    then have "p = a" "ps = cs" "e = r + length p" "bytes_at mem r p"
      using l(1,2) by (auto simp: run_at_def)
    then show ?thesis using l by (auto simp: layout_def)
  next
    case (Cons q as')
    then have q: "q = p" "ps = as' @ a # cs" using l(1) by auto
    have tail: "bytes_at mem r p" "run_at mem (r + length p) (as' @ [a]) e"
      using l(2) Cons q by (auto simp: run_at_Cons)
    have le: "r + length p + length (concat as') + 1700 \<le> D" using l(3) Cons q by simp
    have "layout mem D w (r + length p) ps"
      using tail le l(4-7) q(2) unfolding layout_def
      by (intro disjI2 exI [of _ as'] exI [of _ a] exI [of _ cs] exI [of _ e]) auto
    then show ?thesis using tail(1) le by auto
  qed
qed

lemma fetch_step:
  assumes inv: "fifo_inv D (p # ps) c"
  shows "\<exists>c'. sdio_fetch c = Inr (Some p, c') \<and> fifo_inv D ps c'"
proof -
  from inv obtain w r where c: "rx_fifo c = fifo_at D w r" "D \<le> 32768" "w + 1700 \<le> D" "r + 1700 \<le> D"
      "length (rcv_buffer c) = D" "rx_pkts c = length p # map length ps"
      "packet_ok p" "list_all packet_ok ps"
    and lay: "layout (rcv_buffer c) D w r (p # ps)"
    by (auto simp: fifo_inv_def)
  define r' where "r' = (if D < r + length p + 1700 then 0 else r + length p)"
  note t = layout_tail [OF lay c(3,4,7)]
  have adv: "sdio_fifo_array_advance_read (fifo_at D w r) (of_nat (length p)) = Inr (fifo_at D w r')"
    unfolding r'_def using t by (intro advance_read_at [OF c(2,3)]) auto
  have "r' + 1700 \<le> D" using c by (auto simp: r'_def)
  then show ?thesis
    using t c adv read_info_at [OF c(2,4)] unfolding r'_def [symmetric]
    by (auto simp: sdio_fetch_def sdio_vendor_get_read_info_def sdio_vendor_advance_rptr_def
        fifo_inv_def packet_ok_def bytes_at_def)
qed

section \<open>Specification: a queue of packets\<close>

datatype sdio_op = Recv "u8 list" | Fetch

text \<open>The code and the specification on a sequence of operations, with the fetched packets.\<close>

fun sdio_run :: "sdio_op list \<Rightarrow> sdio_ctx \<Rightarrow> (u8 list list \<times> sdio_ctx) res" where
  "sdio_run [] c = Inr ([], c)"
| "sdio_run (Recv bs # ops) c = res_bind (sdio_recv bs c) (sdio_run ops)"
| "sdio_run (Fetch # ops) c =
     res_bind (sdio_fetch c) (\<lambda>(got, c'). res_bind (sdio_run ops c') (\<lambda>(outs, c'').
       Inr ((case got of None \<Rightarrow> outs | Some p \<Rightarrow> p # outs), c'')))"

fun queue_run :: "sdio_op list \<Rightarrow> u8 list list \<Rightarrow> u8 list list \<times> u8 list list" where
  "queue_run [] ps = ([], ps)"
| "queue_run (Recv bs # ops) ps = queue_run ops (ps @ [bs])"
| "queue_run (Fetch # ops) [] = queue_run ops []"
| "queue_run (Fetch # ops) (p # ps) = (let (outs, rest) = queue_run ops ps in (p # outs, rest))"

text \<open>What the host must respect: sizes, and room at every packet it sends.\<close>

fun host_ok :: "sdio_op list \<Rightarrow> sdio_ctx \<Rightarrow> bool" where
  "host_ok [] c = True"
| "host_ok (Recv bs # ops) c =
     (packet_ok bs \<and> has_room c \<and> (case sdio_recv bs c of Inl _ \<Rightarrow> True | Inr c' \<Rightarrow> host_ok ops c'))"
| "host_ok (Fetch # ops) c = (case sdio_fetch c of Inl _ \<Rightarrow> True | Inr (_, c') \<Rightarrow> host_ok ops c')"

lemma sdio_run_queue:
  assumes "fifo_inv D ps c" "host_ok ops c"
  shows "\<exists>c'. sdio_run ops c = Inr (fst (queue_run ops ps), c') \<and>
    fifo_inv D (snd (queue_run ops ps)) c'"
  using assms
proof (induction ops ps arbitrary: c rule: queue_run.induct)
  case (2 bs ops ps)
  then obtain c' where "sdio_recv bs c = Inr c'" "fifo_inv D (ps @ [bs]) c'"
    using recv_step [of D ps c bs] by auto
  then show ?case using 2 by simp
next
  case (3 ops)
  then have "rx_pkts c = []" by (auto simp: fifo_inv_def)
  then have "sdio_fetch c = Inr (None, c)" by (simp add: sdio_fetch_def)
  then show ?case using 3 by fastforce
next
  case (4 ops p ps)
  then obtain c1 where c1: "sdio_fetch c = Inr (Some p, c1)" "fifo_inv D ps c1"
    using fetch_step [of D p ps c] by auto
  then obtain c' where "sdio_run ops c1 = Inr (fst (queue_run ops ps), c')"
      "fifo_inv D (snd (queue_run ops ps)) c'"
    using 4 by auto
  then show ?case using c1 by (auto simp: case_prod_beta)
qed simp

lemma fifo_inv_start:
  assumes "sdio_fifo_config d f = (True, f')" "1700 \<le> unat d" "length mem = unat d"
  shows "fifo_inv (unat d) [] \<lparr>rx_fifo = f', rcv_buffer = mem, rx_pkts = []\<rparr>"
proof -
  have "uint d \<le> 32768" using assms(1) by (auto simp: sdio_fifo_config_def split: if_splits)
  moreover have "int (unat d) = uint d" by simp
  ultimately have d: "unat d \<le> 32768" by linarith
  have f': "f' = fifo_at (unat d) 0 0"
    using assms(1) by (cases f) (simp add: sdio_fifo_config_def fifo_at_def split: if_splits)
  have "layout mem (unat d) 0 0 []" by (simp add: layout_def run_at_def bytes_at_def)
  then show ?thesis
    unfolding fifo_inv_def using d assms(2,3) f'
    by (intro exI [of _ "0::nat"]) simp
qed

lemma fill_1600:
  assumes "\<forall>p \<in> set ps. length p = 1600" "rx_fifo c = fifo_at 20480 w 0"
    "w + 1600 * length ps \<le> 18780" "length (rcv_buffer c) = 20480"
  shows "\<exists>c'. sdio_run (map Recv ps @ ops) c = sdio_run ops c' \<and>
    rx_fifo c' = fifo_at 20480 (w + 1600 * length ps) 0 \<and> length (rcv_buffer c') = 20480 \<and>
    rx_pkts c' = rx_pkts c @ map length ps"
  using assms
proof (induction ps arbitrary: c w)
  case (Cons p ps)
  define c1 where "c1 = c\<lparr>rx_fifo := fifo_at 20480 (w + 1600) 0,
    rcv_buffer := store_at (rcv_buffer c) w p, rx_pkts := rx_pkts c @ [1600]\<rparr>"
  have p: "length p = 1600" "w + 1600 \<le> 18780" using Cons.prems by auto
  have "sdio_recv p c = Inr c1"
    using recv_at [OF Cons.prems(2), of p] p by (simp add: c1_def)
  moreover have "length (rcv_buffer c1) = 20480"
    using Cons.prems p by (simp add: c1_def store_at_length)
  ultimately show ?case
    using Cons.IH [of c1 "w + 1600"] Cons.prems p
    by (auto simp: c1_def add.assoc)
qed auto

lemma host_ok_fetches: "host_ok (replicate n Fetch) c"
  by (induction n arbitrary: c) (auto split: sum.splits)

section \<open>Properties\<close>

text \<open>
  C37: The receive FIFO is a queue of packets.  For a buffer of 1700 to 32768 bytes, and every sequence
  of arriving and fetched packets in which each packet has 1 to 1699 bytes and finds room when it
  arrives, no assertion fails and the fetched packets are the received ones, byte for byte and
  in order, across every wrap of the two indices.
\<close>

theorem sdio_fifo_queue:
  assumes "sdio_fifo_config d f = (True, f')" "1700 \<le> unat d" "length mem = unat d"
    and "host_ok ops \<lparr>rx_fifo = f', rcv_buffer = mem, rx_pkts = []\<rparr>"
  shows "\<exists>c. sdio_run ops \<lparr>rx_fifo = f', rcv_buffer = mem, rx_pkts = []\<rparr> =
      Inr (fst (queue_run ops []), c) \<and> rx_pkts c = map length (snd (queue_run ops []))"
  using sdio_run_queue [OF fifo_inv_start [OF assms(1-3)] assms(4)] by (auto simp: fifo_inv_def)

theorem sdio_fifo_queue_witness:
  "\<exists>c. sdio_run [Recv [1, 2], Recv [3], Fetch, Fetch, Fetch]
     \<lparr>rx_fifo = fifo_at 20480 0 0, rcv_buffer = replicate 20480 0, rx_pkts = []\<rparr> =
       Inr ([[1, 2], [3]], c) \<and> rx_pkts c = []"
proof -
  define mem :: "u8 list" where "mem = replicate 20480 0"
  define c0 where "c0 = \<lparr>rx_fifo = fifo_at 20480 0 0, rcv_buffer = mem, rx_pkts = []\<rparr>"
  define c1 where "c1 = \<lparr>rx_fifo = fifo_at 20480 2 0, rcv_buffer = store_at mem 0 [1, 2], rx_pkts = [2]\<rparr>"
  have cfg: "sdio_fifo_config 20480 (fifo_at 0 0 0) = (True, fifo_at 20480 0 0)"
    by (simp add: sdio_fifo_config_def fifo_at_def)
  have r1: "sdio_recv [1, 2] c0 = Inr c1"
    using recv_at [of c0 20480 0 0 "[1, 2]"] by (simp add: c0_def c1_def numeral_2_eq_2)
  obtain c2 where r2: "sdio_recv [3] c1 = Inr c2"
    using recv_at [of c1 20480 2 0 "[3]"] by (simp add: c1_def)
  have ok: "host_ok [Recv [1, 2], Recv [3], Fetch, Fetch, Fetch] c0"
    using host_ok_fetches [of 3 c2] r1 r2
    by (simp add: packet_ok_def has_room_def c0_def [symmetric] numeral_3_eq_3
        del: host_ok.simps(3)) (simp add: c0_def c1_def fifo_at_def)
  have len: "1700 \<le> unat (20480 :: u16)" "length mem = unat (20480 :: u16)" by (simp_all add: mem_def)
  show ?thesis
    using sdio_fifo_queue [OF cfg len ok [unfolded c0_def]] by (simp add: mem_def del: sdio_run.simps)
qed

text \<open>
  A full FIFO looks empty.  With the default sizes, twelve packets of 1600 bytes bring the
  write index back to the read index.  The check for linear space then reports room, the next packet is accepted without
  a failed assertion, and it overwrites the oldest packet: the consumer, who is due the first packet,
  gets the thirteenth.
\<close>

theorem sdio_full_looks_empty:
  assumes "length ps = 12" "\<forall>p \<in> set ps. length p = 1600" "length x = 1600"
    and "sdio_fifo_config 20480 f = (True, f')" "length mem = 20480"
  shows "\<exists>c c'. sdio_run (map Recv ps) \<lparr>rx_fifo = f', rcv_buffer = mem, rx_pkts = []\<rparr> = Inr ([], c) \<and>
    rx_pkts c = map length ps \<and> sdio_fifo_array_linear_space_available (rx_fifo c) = Inr True \<and>
    sdio_run [Recv x, Fetch] c = Inr ([x], c')"
proof -
  let ?c0 = "\<lparr>rx_fifo = f', rcv_buffer = mem, rx_pkts = []\<rparr>"
  obtain qs p where ps: "ps = qs @ [p]" "length qs = 11" "length p = 1600"
    using assms(1,2) by (cases ps rule: rev_cases) auto
  have f': "f' = fifo_at 20480 0 0"
    using assms(4) by (cases f) (auto simp: sdio_fifo_config_def fifo_at_def)
  obtain c1 where c1: "sdio_run (map Recv qs @ [Recv p]) ?c0 = sdio_run [Recv p] c1"
      "rx_fifo c1 = fifo_at 20480 17600 0" "length (rcv_buffer c1) = 20480" "rx_pkts c1 = map length qs"
    using fill_1600 [of qs ?c0 0 "[Recv p]"] assms(2,5) ps f' by auto
  define c where "c = c1\<lparr>rx_fifo := fifo_at 20480 0 0,
    rcv_buffer := store_at (rcv_buffer c1) 17600 p, rx_pkts := map length ps\<rparr>"
  have "sdio_recv p c1 = Inr c" using recv_at [OF c1(2), of p] ps c1 by (simp add: c_def)
  then have run: "sdio_run (map Recv ps) ?c0 = Inr ([], c)" using c1(1) ps by simp
  have space: "sdio_fifo_array_linear_space_available (rx_fifo c) = Inr True"
    by (simp add: c_def sdio_fifo_array_linear_space_available_def space_def fifo_defs)
  have buf: "length (rcv_buffer c) = 20480" using c1 ps by (simp add: c_def store_at_length)
  have pkts: "rx_pkts c = 1600 # tl (map length ps)" using assms(1,2) by (cases ps) (simp_all add: c_def)
  have recv: "sdio_recv x c = Inr (c\<lparr>rx_fifo := fifo_at 20480 1600 0,
      rcv_buffer := store_at (rcv_buffer c) 0 x, rx_pkts := rx_pkts c @ [1600]\<rparr>)"
    using recv_at [of c 20480 0 0 x] assms(3) by (simp add: c_def)
  have "\<exists>c'. sdio_run [Recv x, Fetch] c = Inr ([x], c')"
    using recv pkts buf assms(3) read_info_at [of 20480 0 1600] advance_read_at [of 20480 1600 0 1600]
    by (simp add: sdio_fetch_def sdio_vendor_get_read_info_def sdio_vendor_advance_rptr_def store_at_def)
  with run space show ?thesis by (auto simp: c_def)
qed

theorem sdio_full_looks_empty_witness:
  "\<exists>c c'. sdio_run (map Recv (replicate 12 (replicate 1600 0)))
      \<lparr>rx_fifo = fifo_at 20480 0 0, rcv_buffer = replicate 20480 0, rx_pkts = []\<rparr> = Inr ([], c) \<and>
    sdio_run [Recv (replicate 1600 1), Fetch] c = Inr ([replicate 1600 1], c')"
proof -
  have cfg: "sdio_fifo_config 20480 (fifo_at 0 0 0) = (True, fifo_at 20480 0 0)"
    by (simp add: sdio_fifo_config_def fifo_at_def)
  show ?thesis
    using sdio_full_looks_empty [OF _ _ _ cfg, of "replicate 12 (replicate 1600 0)" "replicate 1600 1"
        "replicate 20480 0"]
    by (auto simp del: sdio_run.simps)
qed

end
