(* ===== verification/Kprintf.thy ===== *)
theory Kprintf
  imports Wise_Prelude
begin

text \<open>
  The formatter of \<^verbatim>\<open>kernel/console.c\<close>: \<^verbatim>\<open>kvprintf\<close> with all its conversions and \<^verbatim>\<open>snprintk\<close>.
  Memory that the formatter reads is the list of the bytes that may be read from the pointer on, so that a
  format is a zero-terminated list and reading past its end is an error.  The function that takes the
  characters is a parameter \<open>func\<close> on a state \<open>'s\<close>.  \<^verbatim>\<open>char\<close> is unsigned, as on the RISC-V target, and \<^verbatim>\<open>long\<close>,
  \<^verbatim>\<open>size_t\<close> and pointers have 32 bits.  Field widths and counts are mathematical integers: C leaves their overflow
  undefined.
\<close>

section \<open>Arguments\<close>

text \<open>
  A variadic argument: a 32-bit integer, a 64-bit integer, a pointer that is only printed, a pointer to
  bytes (none is the null pointer), or the place that \<^verbatim>\<open>%n\<close> stores to.
\<close>

datatype karg = KInt u32 | KLong u64 | KPtr u32 | KMem "u8 list option" | KLoc nat

fun arg_int :: "karg list \<Rightarrow> (u32 \<times> karg list) res" where
  "arg_int (KInt x # args) = Inr (x, args)"
| "arg_int _ = Inl Undefined"

fun arg_long :: "karg list \<Rightarrow> (u64 \<times> karg list) res" where
  "arg_long (KLong x # args) = Inr (x, args)"
| "arg_long _ = Inl Undefined"

fun arg_ptr :: "karg list \<Rightarrow> (u32 \<times> karg list) res" where
  "arg_ptr (KPtr x # args) = Inr (x, args)"
| "arg_ptr _ = Inl Undefined"

fun arg_mem :: "karg list \<Rightarrow> (u8 list option \<times> karg list) res" where
  "arg_mem (KMem m # args) = Inr (m, args)"
| "arg_mem _ = Inl Undefined"

fun arg_loc :: "karg list \<Rightarrow> (nat \<times> karg list) res" where
  "arg_loc (KLoc l # args) = Inr (l, args)"
| "arg_loc _ = Inl Undefined"

section \<open>Digits\<close>

definition hex2ascii :: "nat \<Rightarrow> u8 res" where
  "hex2ascii hex =
     (if hex < 36
      then Inr (if hex < 10 then 0x30 + of_nat hex else 0x61 + of_nat (hex - 10))
      else Inl AssertFail)"

definition to_upper :: "u8 \<Rightarrow> u8" where
  "to_upper c = (if c \<ge> 0x61 \<and> c \<le> 0x7A then c - 0x20 else c)"

text \<open>
  The digits in the order they are stored, the last digit of the number first.  The buffer has \<^verbatim>\<open>MAXNBUF\<close> = 65
  bytes, of which the first holds the zero that ends the string.
\<close>

definition MAXNBUF :: nat where "MAXNBUF = 65"

function ksprintn_loop :: "u8 list \<Rightarrow> u64 \<Rightarrow> u64 \<Rightarrow> bool \<Rightarrow> u8 list res" where
  "ksprintn_loop buf num base upper =
     (if base = 0 then Inl Undefined
      else (case hex2ascii (unat (num mod base)) of
              Inl e \<Rightarrow> Inl e
            | Inr c \<Rightarrow>
                if MAXNBUF \<le> length buf + 1 then Inl BadAccess
                else (let buf' = buf @ [if upper then to_upper c else c]
                      in if num div base \<noteq> 0 then ksprintn_loop buf' (num div base) base upper
                         else Inr buf')))"
  by pat_completeness auto
termination by (relation "measure (\<lambda>(buf, _). MAXNBUF - length buf)") auto

declare ksprintn_loop.simps [simp del]

definition ksprintn :: "u64 \<Rightarrow> u64 \<Rightarrow> bool \<Rightarrow> u8 list res" where
  "ksprintn num base upper = ksprintn_loop [] num base upper"

section \<open>Output\<close>

text \<open>The state of the receiver, the number of characters so far, and the stores of \<^verbatim>\<open>%n\<close> (place, size in bits,
  value).\<close>

record 's kout =
  kstate :: 's
  retval :: nat
  stores :: "(nat \<times> nat \<times> nat) list"

definition PCHAR :: "(int \<Rightarrow> 's \<Rightarrow> 's) \<Rightarrow> int \<Rightarrow> 's kout \<Rightarrow> 's kout" where
  "PCHAR func c k = k\<lparr>kstate := func c (kstate k), retval := retval k + 1\<rparr>"

abbreviation PCHARS :: "(int \<Rightarrow> 's \<Rightarrow> 's) \<Rightarrow> int list \<Rightarrow> 's kout \<Rightarrow> 's kout" where
  "PCHARS func cs k \<equiv> fold (PCHAR func) cs k"

abbreviation chars :: "u8 list \<Rightarrow> int list" where
  "chars \<equiv> map uint"

abbreviation pad :: "int \<Rightarrow> u8 \<Rightarrow> int list" where
  "pad n c \<equiv> replicate (nat n) (uint c)"

section \<open>Flags\<close>

record kflags =
  padc :: u8
  width :: int
  dwidth :: int
  dot :: bool
  sharpflag :: bool
  sign :: bool
  ladjust :: bool
  cflag :: bool
  hflag :: bool
  jflag :: bool
  lflag :: bool
  qflag :: bool
  tflag :: bool
  zflag :: bool

definition kflags0 :: kflags where
  "kflags0 = \<lparr>padc = 0x20, width = 0, dwidth = 0, dot = False, sharpflag = False, sign = False,
     ladjust = False, cflag = False, hflag = False, jflag = False, lflag = False, qflag = False,
     tflag = False, zflag = False\<rparr>"

abbreviation is_digit :: "u8 \<Rightarrow> bool" where
  "is_digit c \<equiv> c \<ge> 0x30 \<and> c \<le> 0x39"

text \<open>The loop that reads a width, with the digit \<open>ch\<close> already taken.\<close>

fun width_loop :: "int \<Rightarrow> u8 \<Rightarrow> u8 list \<Rightarrow> (int \<times> u8 list) res" where
  "width_loop n ch [] = Inl BadAccess"
| "width_loop n ch (c # fmt) =
     (let n' = n * 10 + uint ch - 0x30
      in if is_digit c then width_loop n' c fmt else Inr (n', c # fmt))"

lemma width_loop_length: "width_loop n ch fmt = Inr (m, fmt') \<Longrightarrow> length fmt' \<le> length fmt"
  by (induction n ch fmt rule: width_loop.induct) (auto simp: Let_def split: if_splits)

text \<open>
  The cases of the switch that only collect flags and go around again: the characters that set a flag, the
  star, and the digits of a width.  The result has the format and the arguments behind them; any other character gives no
  result.
\<close>

definition flag_char :: "kflags \<Rightarrow> u8 \<Rightarrow> kflags option" where
  "flag_char fl ch =
     (if ch = 0x2E then Some (fl\<lparr>dot := True\<rparr>)
      else if ch = 0x23 then Some (fl\<lparr>sharpflag := True\<rparr>)
      else if ch = 0x2B then Some (fl\<lparr>sign := True\<rparr>)
      else if ch = 0x2D then Some (fl\<lparr>ladjust := True\<rparr>)
      else if ch = 0x30 \<and> \<not> dot fl then Some (fl\<lparr>padc := 0x30\<rparr>)
      else if ch = 0x68 then
        Some (if hflag fl then fl\<lparr>hflag := False, cflag := True\<rparr> else fl\<lparr>hflag := True\<rparr>)
      else if ch = 0x6A then Some (fl\<lparr>jflag := True\<rparr>)
      else if ch = 0x6C then
        Some (if lflag fl then fl\<lparr>lflag := False, qflag := True\<rparr> else fl\<lparr>lflag := True\<rparr>)
      else if ch = 0x71 then Some (fl\<lparr>qflag := True\<rparr>)
      else if ch = 0x74 then Some (fl\<lparr>tflag := True\<rparr>)
      else if ch = 0x7A then Some (fl\<lparr>zflag := True\<rparr>)
      else None)"

definition star_width :: "kflags \<Rightarrow> int \<Rightarrow> kflags" where
  "star_width fl x =
     (if \<not> dot fl
      then (if x < 0 then fl\<lparr>width := - x, ladjust := \<not> ladjust fl\<rparr> else fl\<lparr>width := x\<rparr>)
      else fl\<lparr>dwidth := x\<rparr>)"

definition flag_case ::
  "kflags \<Rightarrow> u8 \<Rightarrow> u8 list \<Rightarrow> karg list \<Rightarrow> (kflags \<times> u8 list \<times> karg list) option res" where
  "flag_case fl ch fmt args =
     (case flag_char fl ch of
        Some fl' \<Rightarrow> Inr (Some (fl', fmt, args))
      | None \<Rightarrow>
          if ch = 0x2A then
            res_bind (arg_int args) (\<lambda>(x, args'). Inr (Some (star_width fl (sint x), fmt, args')))
          else if is_digit ch then
            res_bind (width_loop 0 ch fmt) (\<lambda>(n, fmt').
              Inr (Some (if dot fl then fl\<lparr>dwidth := n\<rparr> else fl\<lparr>width := n\<rparr>, fmt', args)))
          else Inr None)"

lemma flag_case_length:
  "flag_case fl ch fmt args = Inr (Some (fl', fmt', args')) \<Longrightarrow> length fmt' \<le> length fmt"
  by (auto simp: flag_case_def res_bind_Inr_iff width_loop_length split: if_splits option.splits)

text \<open>The switch up to the conversion character; the result has the format behind that character.\<close>

function reswitch :: "kflags \<Rightarrow> u8 list \<Rightarrow> karg list \<Rightarrow> (u8 \<times> kflags \<times> u8 list \<times> karg list) res" where
  "reswitch fl [] args = Inl BadAccess"
| "reswitch fl (ch # fmt) args =
     (case flag_case fl ch fmt args of
        Inl e \<Rightarrow> Inl e
      | Inr None \<Rightarrow> Inr (ch, fl, fmt, args)
      | Inr (Some (fl', fmt', args')) \<Rightarrow> reswitch fl' fmt' args')"
  by pat_completeness auto
termination
  by (relation "measure (\<lambda>(_, fmt, _). length fmt)") (auto dest!: flag_case_length)

declare reswitch.simps(2) [simp del]

lemma reswitch_length:
  "reswitch fl fmt args = Inr (ch, fl', fmt', args') \<Longrightarrow> length fmt' < length fmt"
proof (induction fl fmt args rule: reswitch.induct)
  case (2 fl ch fmt args)
  then show ?case
    by (fastforce simp: reswitch.simps(2) [of fl ch fmt args] split: sum.splits option.splits
        dest!: flag_case_length)
qed simp

section \<open>Numbers\<close>

text \<open>The argument of an unsigned and of a signed conversion, extended to 64 bits.\<close>

definition handle_nosign :: "kflags \<Rightarrow> karg list \<Rightarrow> (u64 \<times> karg list) res" where
  "handle_nosign fl args =
     (if jflag fl \<or> qflag fl then arg_long args
      else res_bind (arg_int args) (\<lambda>(x, args').
        Inr (if tflag fl then scast x
             else if lflag fl then ucast x
             else if zflag fl then ucast x
             else if hflag fl then ucast (ucast x :: u16)
             else if cflag fl then ucast (ucast x :: u8)
             else ucast x, args')))"

definition handle_sign :: "kflags \<Rightarrow> karg list \<Rightarrow> (u64 \<times> karg list) res" where
  "handle_sign fl args =
     (if jflag fl \<or> qflag fl then arg_long args
      else res_bind (arg_int args) (\<lambda>(x, args').
        Inr (if tflag fl then scast x
             else if lflag fl then scast x
             else if zflag fl then scast x
             else if hflag fl then scast (ucast x :: u16)
             else if cflag fl then ucast (ucast x :: u8)
             else scast x, args')))"

text \<open>The names of the bits of \<^verbatim>\<open>%b\<close>: each starts with the number of its bit and ends before the next
  byte that is at most a blank.\<close>

definition bit_mask :: "u8 \<Rightarrow> u64 res" where
  "bit_mask n = (if unat n - 1 < 32 then Inr (scast (push_bit (unat n - 1) 1 :: u32)) else Inl Undefined)"

function bits_loop :: "(int \<Rightarrow> 's \<Rightarrow> 's) \<Rightarrow> u64 \<Rightarrow> nat \<Rightarrow> u8 list \<Rightarrow> 's kout \<Rightarrow> 's kout res" where
  "bits_loop func num tmp [] k = Inl BadAccess"
| "bits_loop func num tmp (n # q) k =
     (if n = 0 then Inr k
      else (case bit_mask n of
              Inl e \<Rightarrow> Inl e
            | Inr m \<Rightarrow>
                (let name = takeWhile (\<lambda>c. c > 0x20) q; q' = dropWhile (\<lambda>c. c > 0x20) q
                 in bits_loop func num tmp q'
                      (if num AND m \<noteq> 0
                       then PCHARS func ((if retval k \<noteq> tmp then 0x2C else 0x3C) # chars name) k
                       else k))))"
  by pat_completeness auto
termination
  by (relation "measure (\<lambda>(_, _, _, q, _). length q)")
    (auto simp: le_imp_less_Suc length_dropWhile_le)

declare bits_loop.simps(2) [simp del]

text \<open>
  The code behind the label \<^verbatim>\<open>number\<close> up to the last digit, with the width that is left; then the bit names
  of \<^verbatim>\<open>%b\<close>, with the rest of its string in \<open>bconv\<close>; then the whole.
\<close>

definition number_front ::
  "(int \<Rightarrow> 's \<Rightarrow> 's) \<Rightarrow> kflags \<Rightarrow> bool \<Rightarrow> u64 \<Rightarrow> u64 \<Rightarrow> u8 list \<Rightarrow> 's kout \<Rightarrow> 's kout \<times> int" where
  "number_front func fl neg num base ds k =
     (let n = int (length ds);
          prefix = sharpflag fl \<and> num \<noteq> 0;
          tmp = (if prefix then (if base = 8 then 1 else if base = 16 then 2 else 0) else 0) +
                (if neg then 1 else 0 :: int);
          dw = (if \<not> ladjust fl \<and> padc fl = 0x30 then width fl - tmp else dwidth fl);
          w = width fl - (tmp + max dw n);
          k1 = (if \<not> ladjust fl then PCHARS func (pad w 0x20) k else k);
          k2 = (if neg then PCHAR func 0x2D k1 else k1);
          k3 = (if prefix
                then (if base = 8 then PCHAR func 0x30 k2
                      else if base = 16 then PCHARS func [0x30, 0x78] k2 else k2)
                else k2);
          k4 = PCHARS func (pad (dw - n) 0x30) k3
      in (PCHARS func (chars (rev ds)) k4, w))"

definition print_bits ::
  "(int \<Rightarrow> 's \<Rightarrow> 's) \<Rightarrow> u64 \<Rightarrow> u8 list option \<Rightarrow> 's kout \<times> int \<Rightarrow> ('s kout \<times> int) res" where
  "print_bits func num bconv kw =
     (case (bconv, kw) of
        (None, _) \<Rightarrow> Inr kw
      | (Some q, (k, w)) \<Rightarrow>
          if num \<noteq> 0
          then res_bind (bits_loop func num (retval k) q k) (\<lambda>k'.
                 if retval k' \<noteq> retval k
                 then (let k'' = PCHAR func 0x3E k' in Inr (k'', w - int (retval k'' - retval k)))
                 else Inr (k', w))
          else Inr (k, w))"

definition print_number ::
  "(int \<Rightarrow> 's \<Rightarrow> 's) \<Rightarrow> kflags \<Rightarrow> u64 \<Rightarrow> u64 \<Rightarrow> bool \<Rightarrow> u8 list option \<Rightarrow> 's kout \<Rightarrow> 's kout res" where
  "print_number func fl num0 base upper bconv k =
     (let neg = (sign fl \<and> sint num0 < 0);
          num = (if neg then - num0 else num0)
      in res_bind (ksprintn num base upper) (\<lambda>ds.
           res_bind (print_bits func num bconv (number_front func fl neg num base ds k)) (\<lambda>(k', w).
             Inr (if ladjust fl then PCHARS func (pad w 0x20) k' else k'))))"

section \<open>Conversions\<close>

text \<open>\<^verbatim>\<open>strlen\<close>, and the loop that stops after \<open>dw\<close> characters.\<close>

fun mem_strlen :: "u8 list \<Rightarrow> nat res" where
  "mem_strlen [] = Inl BadAccess"
| "mem_strlen (c # m) = (if c = 0 then Inr 0 else res_bind (mem_strlen m) (\<lambda>n. Inr (Suc n)))"

fun mem_strnlen :: "nat \<Rightarrow> u8 list \<Rightarrow> nat res" where
  "mem_strnlen 0 m = Inr 0"
| "mem_strnlen (Suc dw) [] = Inl BadAccess"
| "mem_strnlen (Suc dw) (c # m) =
     (if c = 0 then Inr 0 else res_bind (mem_strnlen dw m) (\<lambda>n. Inr (Suc n)))"

definition print_str :: "(int \<Rightarrow> 's \<Rightarrow> 's) \<Rightarrow> kflags \<Rightarrow> u8 list option \<Rightarrow> 's kout \<Rightarrow> 's kout res" where
  "print_str func fl m k =
     (let p = (case m of None \<Rightarrow> [0x28, 0x6E, 0x75, 0x6C, 0x6C, 0x29, 0] | Some b \<Rightarrow> b)
      in res_bind (if \<not> dot fl then mem_strlen p else mem_strnlen (nat (dwidth fl)) p) (\<lambda>n.
           (let w = width fl - int n;
                k1 = (if \<not> ladjust fl then PCHARS func (pad w (padc fl)) k else k);
                k2 = PCHARS func (chars (take n p)) k1
            in Inr (if ladjust fl then PCHARS func (pad w (padc fl)) k2 else k2))))"

definition print_char :: "(int \<Rightarrow> 's \<Rightarrow> 's) \<Rightarrow> kflags \<Rightarrow> u32 \<Rightarrow> 's kout \<Rightarrow> 's kout" where
  "print_char func fl c k =
     (let w = width fl - 1;
          k1 = (if \<not> ladjust fl then PCHARS func (pad w (padc fl)) k else k);
          k2 = PCHAR func (sint c) k1
      in if ladjust fl then PCHARS func (pad w (padc fl)) k2 else k2)"

text \<open>The bytes of \<^verbatim>\<open>%D\<close>: \<open>w\<close> of them are left, with the separator between two.\<close>

fun dump_loop :: "(int \<Rightarrow> 's \<Rightarrow> 's) \<Rightarrow> nat \<Rightarrow> u8 list \<Rightarrow> u8 list option \<Rightarrow> 's kout \<Rightarrow> 's kout res" where
  "dump_loop func 0 up p k = Inr k"
| "dump_loop func (Suc w) [] p k = Inl BadAccess"
| "dump_loop func (Suc w) (b # up) p k =
     res_bind (hex2ascii (unat b div 16)) (\<lambda>hi. res_bind (hex2ascii (unat b mod 16)) (\<lambda>lo.
       (let k1 = PCHARS func [uint hi, uint lo] k
        in if w = 0 then dump_loop func w up p k1
           else (case p of
                   None \<Rightarrow> Inl NullDeref
                 | Some m \<Rightarrow> res_bind (mem_strlen m) (\<lambda>n.
                     dump_loop func w up p (PCHARS func (chars (take n m)) k1))))))"

definition print_dump ::
  "(int \<Rightarrow> 's \<Rightarrow> 's) \<Rightarrow> kflags \<Rightarrow> u8 list option \<Rightarrow> u8 list option \<Rightarrow> 's kout \<Rightarrow> 's kout res" where
  "print_dump func fl up p k =
     (case up of
        None \<Rightarrow> Inl NullDeref
      | Some b \<Rightarrow> dump_loop func (if width fl = 0 then 16 else nat (width fl)) b p k)"

text \<open>\<^verbatim>\<open>%n\<close>: the size of the object that is stored to.\<close>

definition n_bits :: "kflags \<Rightarrow> nat" where
  "n_bits fl =
     (if jflag fl then 64 else if qflag fl then 64 else if lflag fl then 32 else if zflag fl then 32
      else if hflag fl then 16 else if cflag fl then 8 else 32)"

definition store_count :: "kflags \<Rightarrow> nat \<Rightarrow> 's kout \<Rightarrow> 's kout" where
  "store_count fl l k = k\<lparr>stores := stores k @ [(l, n_bits fl, retval k mod 2 ^ n_bits fl)]\<rparr>"

text \<open>
  The conversions that take an unsigned or a signed number.  \<^verbatim>\<open>%b\<close> takes the string
  with the base and the bit names as well.
\<close>

definition conv_nosign ::
  "(int \<Rightarrow> 's \<Rightarrow> 's) \<Rightarrow> kflags \<Rightarrow> u64 \<Rightarrow> bool \<Rightarrow> karg list \<Rightarrow> 's kout \<Rightarrow> (karg list \<times> 's kout) res" where
  "conv_nosign func fl base upper args k =
     res_bind (handle_nosign fl args) (\<lambda>(num, args').
       res_bind (print_number func (fl\<lparr>sign := False\<rparr>) num base upper None k) (\<lambda>k'. Inr (args', k')))"

definition conv_sign ::
  "(int \<Rightarrow> 's \<Rightarrow> 's) \<Rightarrow> kflags \<Rightarrow> u64 \<Rightarrow> karg list \<Rightarrow> 's kout \<Rightarrow> (karg list \<times> 's kout) res" where
  "conv_sign func fl base args k =
     res_bind (handle_sign fl args) (\<lambda>(num, args').
       res_bind (print_number func (fl\<lparr>sign := True\<rparr>) num base False None k) (\<lambda>k'. Inr (args', k')))"

definition conv_bits ::
  "(int \<Rightarrow> 's \<Rightarrow> 's) \<Rightarrow> kflags \<Rightarrow> karg list \<Rightarrow> 's kout \<Rightarrow> (karg list \<times> 's kout) res" where
  "conv_bits func fl args k =
     res_bind (handle_nosign fl args) (\<lambda>(num, args').
       res_bind (arg_mem args') (\<lambda>(m, args'').
         case m of
           None \<Rightarrow> Inl NullDeref
         | Some [] \<Rightarrow> Inl BadAccess
         | Some (b # q) \<Rightarrow>
             res_bind (print_number func (fl\<lparr>sign := False, ladjust := True\<rparr>) num (ucast b) False (Some q) k)
               (\<lambda>k'. Inr (args'', k'))))"

text \<open>
  One conversion.  The result tells whether the character is one of the known ones; if not, nothing
  has been printed or taken.
\<close>

definition convert ::
  "(int \<Rightarrow> 's \<Rightarrow> 's) \<Rightarrow> u64 \<Rightarrow> u8 \<Rightarrow> kflags \<Rightarrow> karg list \<Rightarrow> 's kout \<Rightarrow> (bool \<times> karg list \<times> 's kout) res" where
  "convert func radix ch fl args k =
     (let known = (\<lambda>r. res_bind r (\<lambda>(args', k'). Inr (True, args', k')))
      in if ch = 0x25 then Inr (True, args, PCHAR func 0x25 k)
         else if ch = 0x62 then known (conv_bits func fl args k)
         else if ch = 0x63 then
           known (res_bind (arg_int args) (\<lambda>(c, args'). Inr (args', print_char func fl c k)))
         else if ch = 0x44 then
           known (res_bind (arg_mem args) (\<lambda>(up, args'). res_bind (arg_mem args') (\<lambda>(p, args'').
             res_bind (print_dump func fl up p k) (\<lambda>k'. Inr (args'', k')))))
         else if ch = 0x64 \<or> ch = 0x69 then known (conv_sign func fl 10 args k)
         else if ch = 0x6E then
           known (res_bind (arg_loc args) (\<lambda>(l, args'). Inr (args', store_count fl l k)))
         else if ch = 0x6F then known (conv_nosign func fl 8 False args k)
         else if ch = 0x70 then
           known (res_bind (arg_ptr args) (\<lambda>(x, args').
             res_bind (print_number func (fl\<lparr>sharpflag := (width fl = 0), sign := False\<rparr>) (ucast x) 16 False None k)
               (\<lambda>k'. Inr (args', k'))))
         else if ch = 0x72 then
           known (if sign fl then conv_sign func fl radix args k else conv_nosign func fl radix False args k)
         else if ch = 0x73 then
           known (res_bind (arg_mem args) (\<lambda>(m, args').
             res_bind (print_str func fl m k) (\<lambda>k'. Inr (args', k'))))
         else if ch = 0x75 then known (conv_nosign func fl 10 False args k)
         else if ch = 0x58 then known (conv_nosign func fl 16 True args k)
         else if ch = 0x78 then known (conv_nosign func fl 16 False args k)
         else if ch = 0x79 then known (conv_sign func fl 16 args k)
         else Inr (False, args, k))"

section \<open>The formatter\<close>

text \<open>
  The outer loop.  An unknown conversion is printed as it stands, from its percent sign on, and the rest
  of the format is then copied without conversions.
\<close>

function kv_loop ::
  "(int \<Rightarrow> 's \<Rightarrow> 's) \<Rightarrow> u64 \<Rightarrow> bool \<Rightarrow> u8 list \<Rightarrow> karg list \<Rightarrow> 's kout \<Rightarrow> (karg list \<times> 's kout) res" where
  "kv_loop func radix stop [] args k = Inl BadAccess"
| "kv_loop func radix stop (ch # fmt) args k =
     (if ch \<noteq> 0x25 \<or> stop
      then (if ch = 0 then Inr (args, k)
            else kv_loop func radix stop fmt args (PCHAR func (uint ch) k))
      else (case reswitch kflags0 fmt args of
              Inl e \<Rightarrow> Inl e
            | Inr (c, fl, fmt', args') \<Rightarrow>
                (case convert func radix c fl args' k of
                   Inl e \<Rightarrow> Inl e
                 | Inr (known, args'', k') \<Rightarrow>
                     if known then kv_loop func radix stop fmt' args'' k'
                     else kv_loop func radix True fmt' args''
                            (PCHARS func (chars (0x25 # take (length fmt - length fmt') fmt)) k'))))"
  by pat_completeness auto
termination
  by (relation "measure (\<lambda>(_, _, _, fmt, _). length fmt)") (auto dest!: reswitch_length)

declare kv_loop.simps(2) [simp del]

definition kvprintf ::
  "u8 list option \<Rightarrow> (int \<Rightarrow> 's \<Rightarrow> 's) \<Rightarrow> 's \<Rightarrow> int \<Rightarrow> karg list \<Rightarrow> 's kout res" where
  "kvprintf fmt func s radix args =
     (let f = (case fmt of
                 None \<Rightarrow> [0x28, 0x66, 0x6D, 0x74, 0x20, 0x6E, 0x75, 0x6C, 0x6C, 0x29, 0x0A, 0]
               | Some f \<Rightarrow> f);
          radix' = (if radix < 2 \<or> radix > 36 then 10 else radix)
      in res_bind (kv_loop func (word_of_int radix') False f args \<lparr>kstate = s, retval = 0, stores = []\<rparr>)
           (\<lambda>(_, k). Inr k))"

section \<open>Printing to a buffer\<close>

text \<open>The buffer is the list of its bytes; the receiver has the next index and the space left.\<close>

record snprintf_arg =
  sbuf :: "u8 list"
  spos :: nat
  remain :: nat

definition snprintk_func :: "int \<Rightarrow> snprintf_arg \<Rightarrow> snprintf_arg" where
  "snprintk_func ch info =
     (if remain info \<ge> 2
      then info\<lparr>sbuf := (sbuf info)[spos info := word_of_int ch], spos := spos info + 1,
                remain := remain info - 1\<rparr>
      else info)"

definition snprintk :: "u8 list \<Rightarrow> nat \<Rightarrow> u8 list option \<Rightarrow> karg list \<Rightarrow> (nat \<times> u8 list) res" where
  "snprintk str n fmt args =
     res_bind (kvprintf fmt snprintk_func \<lparr>sbuf = str, spos = 0, remain = n\<rparr> 10 args) (\<lambda>k.
       (let info = kstate k
        in Inr (retval k, if remain info \<ge> 1 then (sbuf info)[spos info := 0] else sbuf info)))"

end
