(* ===== verification/Kprintf_Number.thy ===== *)
theory Kprintf_Number
  imports Kprintf
begin

text \<open>
  Printed numbers.  The digits of \<^verbatim>\<open>ksprintn\<close> fit their buffer and read back as the number; the text of a
  number conversion, with every combination of flags, width and precision, reads back as the argument.
\<close>

section \<open>Reading digits\<close>

definition digit_val :: "u8 \<Rightarrow> nat" where
  "digit_val c =
     (if c \<ge> 0x61 then unat c - 0x61 + 10 else if c \<ge> 0x41 then unat c - 0x41 + 10 else unat c - 0x30)"

definition is_base_digit :: "nat \<Rightarrow> u8 \<Rightarrow> bool" where
  "is_base_digit b c =
     ((c \<ge> 0x30 \<and> c \<le> 0x39 \<or> c \<ge> 0x41 \<and> c \<le> 0x5A \<or> c \<ge> 0x61 \<and> c \<le> 0x7A) \<and> digit_val c < b)"

text \<open>The value of digits, the first digit the most significant.\<close>

definition num_val :: "nat \<Rightarrow> u8 list \<Rightarrow> nat" where
  "num_val b cs = foldl (\<lambda>a c. a * b + digit_val c) 0 cs"

definition digit_char :: "bool \<Rightarrow> nat \<Rightarrow> u8" where
  "digit_char upper d =
     (let c = (if d < 10 then 0x30 + of_nat d else 0x61 + of_nat (d - 10)) in if upper then to_upper c else c)"

lemma unat8: "n < 256 \<Longrightarrow> unat (of_nat n :: u8) = n"
  by (simp add: unsigned_of_nat take_bit_nat_eq_self)

lemma digit_char_eq:
  assumes "d < 36"
  shows "digit_char upper d = of_nat (if d < 10 then 48 + d else if upper then 55 + d else 87 + d)"
proof (cases "d < 10")
  case True
  have c: "(0x30 + of_nat d :: u8) = of_nat (48 + d)" by simp
  have "\<not> (of_nat (48 + d) :: u8) \<ge> 0x61" using True by (simp only: word_le_nat_alt unat8) simp
  with True show ?thesis by (simp only: digit_char_def c to_upper_def Let_def) simp
next
  case False
  have c: "(0x61 + of_nat (d - 10) :: u8) = of_nat (87 + d)" using False by (simp add: of_nat_diff)
  have "(of_nat (87 + d) :: u8) \<ge> 0x61" "(of_nat (87 + d) :: u8) \<le> 0x7A"
    using False assms by (simp_all only: word_le_nat_alt unat8) simp_all
  moreover have "(of_nat (87 + d) :: u8) - 0x20 = of_nat (55 + d)" by simp
  ultimately show ?thesis using False by (simp only: digit_char_def c to_upper_def Let_def) simp
qed

lemma digit_char_cases:
  assumes "d < 36"
  shows "digit_val (digit_char upper d) = d \<and> (\<forall>b. d < b \<longrightarrow> is_base_digit b (digit_char upper d))"
proof -
  define n where "n = (if d < 10 then 48 + d else if upper then 55 + d else 87 + d)"
  have u: "unat (digit_char upper d) = n"
    unfolding digit_char_eq [OF assms] n_def [symmetric] using assms by (intro unat8) (simp add: n_def)
  show ?thesis
    using assms by (auto simp: digit_val_def is_base_digit_def word_le_nat_alt u)
      (auto simp: n_def split: if_splits)
qed

lemma hex2ascii_digit: "d < 36 \<Longrightarrow> \<exists>c. hex2ascii d = Inr c \<and> (if upper then to_upper c else c) = digit_char upper d"
  by (simp add: hex2ascii_def digit_char_def)

lemma num_val_snoc: "num_val b (cs @ [c]) = num_val b cs * b + digit_val c"
  by (simp add: num_val_def)

lemma num_val_zeros: "num_val b (replicate n 0x30 @ cs) = num_val b cs"
proof -
  have "foldl (\<lambda>a c. a * b + digit_val c) 0 (replicate n 0x30) = 0"
    by (induction n) (simp_all add: digit_val_def)
  then show ?thesis by (simp add: num_val_def)
qed

section \<open>The digits of a number\<close>

lemma ksprintn_loop_digits:
  assumes "2 \<le> unat base" "unat base \<le> 36" "length buf + m = 64" "0 < m" "unat num < 2 ^ m"
  shows "\<exists>ds. ksprintn_loop buf num base upper = Inr (buf @ ds) \<and> ds \<noteq> [] \<and> length ds \<le> m \<and>
    num_val (unat base) (rev ds) = unat num \<and> list_all (is_base_digit (unat base)) ds"
  using assms(3-5)
proof (induction m arbitrary: buf num)
  case (Suc m)
  define d where "d = unat num mod unat base"
  define n' where "n' = num div base"
  have base: "base \<noteq> 0" using assms(1) by auto
  have "d < unat base" unfolding d_def using assms(1) by (intro mod_less_divisor) simp
  then have d: "unat (num mod base) = d" "d < unat base" "d < 36"
    using assms(2) by (simp_all add: d_def unat_mod)
  obtain c where c: "hex2ascii d = Inr c" "(if upper then to_upper c else c) = digit_char upper d"
    using hex2ascii_digit [OF d(3)] by blast
  have dig: "digit_val (digit_char upper d) = d" "is_base_digit (unat base) (digit_char upper d)"
    using digit_char_cases [OF d(3)] d(2) by auto
  have n': "unat n' = unat num div unat base" by (simp add: n'_def unat_div)
  have dm: "unat num = unat n' * unat base + d" by (simp add: n' d_def)
  have step: "ksprintn_loop buf num base upper =
      (if n' \<noteq> 0 then ksprintn_loop (buf @ [digit_char upper d]) n' base upper
       else Inr (buf @ [digit_char upper d]))"
    using Suc.prems base c d(1)
    by (simp add: ksprintn_loop.simps [of buf] MAXNBUF_def n'_def Let_def)
  show ?case
  proof (cases "n' = 0")
    case True
    then have "unat num = d" using dm by simp
    with True step dig show ?thesis
      by (intro exI [of _ "[digit_char upper d]"]) (simp add: num_val_def)
  next
    case False
    have "unat n' * 2 \<le> unat n' * unat base" by (rule mult_le_mono2 [OF assms(1)])
    then have small: "unat n' < 2 ^ m" using Suc.prems(3) dm unfolding power_Suc by linarith
    have "m \<noteq> 0" using small False by (cases m) (auto simp: unat_eq_zero)
    then obtain ds where ds: "ksprintn_loop (buf @ [digit_char upper d]) n' base upper = Inr (buf @ digit_char upper d # ds)"
        "length ds \<le> m" "num_val (unat base) (rev ds) = unat n'" "list_all (is_base_digit (unat base)) ds"
      using Suc.IH [of "buf @ [digit_char upper d]" n'] Suc.prems(1) small by auto
    then show ?thesis
      using step False dig dm
      by (intro exI [of _ "digit_char upper d # ds"]) (simp add: num_val_snoc)
  qed
qed simp

lemma ksprintn_digits:
  assumes "2 \<le> unat base" "unat base \<le> 36"
  shows "\<exists>ds. ksprintn num base upper = Inr ds \<and> ds \<noteq> [] \<and> length ds < MAXNBUF \<and>
    num_val (unat base) (rev ds) = unat num \<and> list_all (is_base_digit (unat base)) ds"
proof -
  have "unat num < 2 ^ 64" using unsigned_less [of num, where ?'a = nat] by simp
  then show ?thesis
    using ksprintn_loop_digits [OF assms, of "[]" 64 num upper] by (auto simp: ksprintn_def MAXNBUF_def)
qed

section \<open>The text of a number\<close>

definition number_prefix :: "kflags \<Rightarrow> u64 \<Rightarrow> u64 \<Rightarrow> bool \<Rightarrow> u8 list" where
  "number_prefix fl num base neg =
     (if neg then [0x2D] else []) @
     (if sharpflag fl \<and> num \<noteq> 0 then (if base = 8 then [0x30] else if base = 16 then [0x30, 0x78] else []) else [])"

definition number_text :: "kflags \<Rightarrow> u8 list \<Rightarrow> u8 list \<Rightarrow> u8 list" where
  "number_text fl pre ds =
     (let n = int (length ds); tmp = int (length pre);
          dw = (if \<not> ladjust fl \<and> padc fl = 0x30 then width fl - tmp else dwidth fl);
          sp = replicate (nat (width fl - (tmp + max dw n))) 0x20
      in (if \<not> ladjust fl then sp else []) @ pre @ replicate (nat (dw - n)) 0x30 @ rev ds @
         (if ladjust fl then sp else []))"

lemma PCHARS_append: "PCHARS func (xs @ ys) k = PCHARS func ys (PCHARS func xs k)"
  by simp

lemma print_number_text:
  fixes num0 :: u64
  assumes "neg = (sign fl \<and> sint num0 < 0)" "num = (if neg then - num0 else num0)"
    and ds: "ksprintn num base upper = Inr ds"
  shows "print_number func fl num0 base upper None k =
    Inr (PCHARS func (chars (number_text fl (number_prefix fl num base neg) ds)) k)"
proof -
  define pre where "pre = number_prefix fl num base neg"
  define tmp where "tmp = (if sharpflag fl \<and> num \<noteq> 0 then if base = 8 then 1 else if base = 16 then 2 else 0 else 0) +
    (if neg then 1 else 0 :: int)"
  have tmp: "tmp = int (length pre)" by (auto simp: tmp_def pre_def number_prefix_def)
  have out: "(if sharpflag fl \<and> num \<noteq> 0
      then if base = 8 then PCHAR func 0x30 (if neg then PCHAR func 0x2D k1 else k1)
        else if base = 16 then PCHARS func [0x30, 0x78] (if neg then PCHAR func 0x2D k1 else k1)
        else (if neg then PCHAR func 0x2D k1 else k1)
      else (if neg then PCHAR func 0x2D k1 else k1)) = PCHARS func (chars pre) k1" for k1
    by (auto simp: pre_def number_prefix_def)
  show ?thesis
    unfolding print_number_def number_front_def print_bits_def Let_def assms(1) [symmetric] assms(2) [symmetric] ds tmp_def [symmetric]
      res_bind_simps out option.case prod.case pre_def [symmetric] number_text_def tmp [symmetric]
    by (cases "ladjust fl") (simp_all add: map_replicate)
qed

lemma number_text_shape:
  "\<exists>s z t. number_text fl pre ds = replicate s 0x20 @ pre @ replicate z 0x30 @ rev ds @ replicate t 0x20"
proof -
  define dw where "dw = (if \<not> ladjust fl \<and> padc fl = 0x30 then width fl - int (length pre) else dwidth fl)"
  define s where "s = nat (width fl - (int (length pre) + max dw (int (length ds))))"
  have "number_text fl pre ds = replicate (if ladjust fl then 0 else s) 0x20 @ pre @
      replicate (nat (dw - int (length ds))) 0x30 @ rev ds @ replicate (if ladjust fl then s else 0) 0x20"
    by (simp add: number_text_def Let_def dw_def s_def)
  then show ?thesis by blast
qed

lemma number_text_width: "width fl \<le> int (length (number_text fl pre ds))"
  by (simp add: number_text_def Let_def)

text \<open>Reading a number: blanks, a sign, the prefix of base 16 in either case, then digits.\<close>

definition read_number :: "nat \<Rightarrow> u8 list \<Rightarrow> int" where
  "read_number b cs =
     (let cs1 = dropWhile (\<lambda>c. c = 0x20) cs;
          neg = (take 1 cs1 = [0x2D]);
          cs2 = (if neg then tl cs1 else cs1);
          cs3 = (if b = 16 \<and> (take 2 cs2 = [0x30, 0x78] \<or> take 2 cs2 = [0x30, 0x58]) then drop 2 cs2 else cs2);
          v = int (num_val b (takeWhile (is_base_digit b) cs3))
      in if neg then - v else v)"

lemma digit_not: "is_base_digit b c \<Longrightarrow> b \<le> 16 \<Longrightarrow> c \<noteq> 0x20 \<and> c \<noteq> 0x2D \<and> c \<noteq> 0x78 \<and> c \<noteq> 0x58"
  by (auto simp: is_base_digit_def digit_val_def)

lemma takeWhile_digits:
  assumes "list_all (is_base_digit b) ds" "0 < b" "b \<le> 16"
  shows "takeWhile (is_base_digit b) (replicate z 0x30 @ ds @ replicate t 0x20) = replicate z 0x30 @ ds"
proof -
  have zero: "is_base_digit b 0x30" using assms(2) by (simp add: is_base_digit_def digit_val_def)
  have blank: "\<not> is_base_digit b 0x20" by (simp add: is_base_digit_def)
  have "takeWhile (is_base_digit b) (replicate t 0x20) = []" using blank by (cases t) simp_all
  moreover have "\<forall>c \<in> set (replicate z 0x30 @ ds). is_base_digit b c"
    using zero assms(1) by (auto simp: list_all_iff)
  ultimately show ?thesis
    using takeWhile_append2 [of "replicate z 0x30 @ ds" "is_base_digit b" "replicate t 0x20"] by simp
qed

lemma read_number_body:
  assumes ds: "list_all (is_base_digit b) ds" "ds \<noteq> []" and b: "b = 8 \<or> b = 10 \<or> b = 16"
    and pre: "pre = (if neg then [0x2D] else []) @ hexp"
      "hexp = [] \<or> b = 8 \<and> hexp = [0x30] \<or> b = 16 \<and> (hexp = [0x30, 0x78] \<or> hexp = [0x30, 0x58])"
  shows "read_number b (replicate s 0x20 @ pre @ replicate z 0x30 @ ds @ replicate t 0x20) =
    (if neg then - int (num_val b ds) else int (num_val b ds))"
proof -
  define body where "body = replicate z 0x30 @ ds @ replicate t 0x20"
  obtain c rest where body: "body = c # rest" "is_base_digit b c"
    using ds b by (cases z; cases ds) (auto simp: body_def is_base_digit_def digit_val_def)
  have c: "c \<noteq> 0x20" "c \<noteq> 0x2D" "c \<noteq> 0x78" using digit_not [OF body(2)] b by auto
  have "\<not> is_base_digit b 0x78" "\<not> is_base_digit b 0x58"
    using digit_not [of b "0x78"] digit_not [of b "0x58"] b by auto
  then have "0x78 \<notin> set body" "0x58 \<notin> set body" using ds(1) by (auto simp: body_def list_all_iff)
  then have second: "take 2 body \<noteq> [0x30, 0x78]" "take 2 body \<noteq> [0x30, 0x58]" using set_take_subset [of 2 body] by force+
  have tw: "takeWhile (is_base_digit b) body = replicate z 0x30 @ ds"
    unfolding body_def using b by (intro takeWhile_digits ds(1)) auto
  have val: "num_val b (takeWhile (is_base_digit b) body) = num_val b ds"
    by (simp add: tw num_val_zeros)
  have val8: "num_val 8 (takeWhile (is_base_digit 8) (0x30 # body)) = num_val 8 ds" if "b = 8"
    using val that num_val_zeros [of 8 1] by (simp add: is_base_digit_def digit_val_def num_val_def)
  have drop: "dropWhile (\<lambda>c. c = 0x20) (replicate s 0x20 @ pre @ body) = pre @ body"
  proof -
    have "\<exists>d ds. pre @ body = d # ds \<and> d \<noteq> 0x20" using pre body c by auto
    then show ?thesis by (auto simp: dropWhile_append3)
  qed
  have minus: "take 1 (pre @ body) = [0x2D] \<longleftrightarrow> neg" using pre body(1) c(2) by (cases neg) auto
  have rest: "(if neg then tl (pre @ body) else pre @ body) = hexp @ body" by (simp add: pre(1))
  have "int (num_val b (takeWhile (is_base_digit b)
      (if b = 16 \<and> (take 2 (hexp @ body) = [0x30, 0x78] \<or> take 2 (hexp @ body) = [0x30, 0x58])
       then drop 2 (hexp @ body) else hexp @ body))) =
    int (num_val b ds)"
    using pre(2)
  proof (elim disjE conjE)
    assume "hexp = []"
    then show ?thesis using second val by simp
  next
    assume "b = 8" "hexp = [0x30]"
    then show ?thesis using val8 by simp
  next
    assume "b = 16" "hexp = [0x30, 0x78]"
    then show ?thesis using val by simp
  next
    assume "b = 16" "hexp = [0x30, 0x58]"
    then show ?thesis using val by simp
  qed
  then show ?thesis
    unfolding read_number_def body_def [symmetric] drop Let_def minus rest by simp
qed

section \<open>Round trip\<close>

lemma uint_of_int64: "0 \<le> i \<Longrightarrow> i < 18446744073709551616 \<Longrightarrow> uint (word_of_int i :: u64) = i"
  by (simp add: uint_word_of_int_eq take_bit_int_eq_self)

lemma uint_minus_neg:
  fixes x :: u64
  assumes "sint x < 0"
  shows "uint (- x) = - sint x"
proof -
  have "- sint x \<le> 9223372036854775808" using sint_ge [of x] by simp
  then have "uint (word_of_int (- sint x) :: u64) = - sint x" using assms by (intro uint_of_int64) simp_all
  then show ?thesis by simp
qed

lemma uint_nonneg:
  fixes x :: u64
  assumes "\<not> sint x < 0"
  shows "uint x = sint x"
proof -
  have "sint x < 9223372036854775808" using sint_lt [of x] by simp
  then have "uint (word_of_int (sint x) :: u64) = sint x" using assms by (intro uint_of_int64) simp_all
  then show ?thesis by simp
qed

text \<open>The conversions of numbers: whether the argument is signed, and the base; then those of \<^verbatim>\<open>kvprintf\<close>, where \<^verbatim>\<open>%r\<close> is signed
  with the flag \<^verbatim>\<open>+\<close> and has the base 10 that the callers of the kernel pass.\<close>

definition number_conv :: "u8 \<Rightarrow> (bool \<times> nat) option" where
  "number_conv ch =
     (if ch = 0x64 \<or> ch = 0x69 then Some (True, 10)
      else if ch = 0x75 then Some (False, 10)
      else if ch = 0x6F then Some (False, 8)
      else if ch = 0x78 \<or> ch = 0x58 then Some (False, 16)
      else None)"

definition k_conv :: "bool \<Rightarrow> u8 \<Rightarrow> (bool \<times> nat) option" where
  "k_conv pl ch = (if ch = 0x79 then Some (True, 16) else if ch = 0x72 then Some (pl, 10) else number_conv ch)"

definition number_value :: "bool \<Rightarrow> u64 \<Rightarrow> int" where
  "number_value sg num = (if sg then sint num else uint num)"

abbreviation collect :: "int \<Rightarrow> int list \<Rightarrow> int list" where
  "collect c out \<equiv> out @ [c]"

lemma PCHARS_collect:
  "PCHARS collect cs k = k\<lparr>kstate := kstate k @ cs, retval := retval k + length cs\<rparr>"
  by (induction cs arbitrary: k) (simp_all add: PCHAR_def)

lemma print_number_reads:
  assumes b: "b = 8 \<or> b = 10 \<or> b = 16" and base: "base = of_nat b" "unat base = b"
  shows "\<exists>cs. print_number func fl num base upper None k = Inr (PCHARS func (chars cs) k) \<and>
    width fl \<le> int (length cs) \<and> read_number b cs = number_value (sign fl) num"
proof -
  define neg where "neg = (sign fl \<and> sint num < 0)"
  define m where "m = (if neg then - num else num)"
  obtain ds where ds: "ksprintn m base upper = Inr ds" "ds \<noteq> []" "num_val b (rev ds) = unat m"
      "list_all (is_base_digit b) ds"
    using ksprintn_digits [of base m upper] b base by auto
  define pre where "pre = number_prefix fl m base neg"
  have pre: "\<exists>hexp. pre = (if neg then [0x2D] else []) @ hexp \<and>
      (hexp = [] \<or> b = 8 \<and> hexp = [0x30] \<or> b = 16 \<and> hexp = [0x30, 0x78])"
    using b base(1) by (auto simp: pre_def number_prefix_def)
  then obtain hexp where hexp: "pre = (if neg then [0x2D] else []) @ hexp"
      "hexp = [] \<or> b = 8 \<and> hexp = [0x30] \<or> b = 16 \<and> (hexp = [0x30, 0x78] \<or> hexp = [0x30, 0x58])" by blast
  have val: "(if neg then - int (unat m) else int (unat m)) = number_value (sign fl) num"
    by (auto simp: m_def neg_def number_value_def uint_minus_neg uint_nonneg)
  have rds: "list_all (is_base_digit b) (rev ds)" "rev ds \<noteq> []" using ds by (simp_all add: list_all_iff)
  have "\<exists>s z t. number_text fl pre ds = replicate s 0x20 @ pre @ replicate z 0x30 @ rev ds @ replicate t 0x20"
    by (rule number_text_shape)
  then have "read_number b (number_text fl pre ds) = number_value (sign fl) num"
    using read_number_body [OF rds b hexp] val ds(3) by auto
  then show ?thesis
    using print_number_text [OF neg_def m_def ds(1), of func k] number_text_width [of fl pre ds]
    unfolding pre_def by blast
qed

text \<open>A format that is one number conversion.\<close>

lemma kvprintf_single:
  assumes "reswitch kflags0 (spec @ [0]) args = Inr (ch, fl, [0], args')"
    and "convert func 10 ch fl args' \<lparr>kstate = s, retval = 0, stores = []\<rparr> = Inr (True, rest, k)"
  shows "kvprintf (Some (0x25 # spec @ [0])) func s 10 args = Inr k"
  using assms by (simp add: kvprintf_def kv_loop.simps(2))

lemma convert_number:
  assumes "k_conv (sign fl) ch = Some (sg, b)"
    and "(if sg then handle_sign fl args else handle_nosign fl args) = Inr (num, rest)"
  shows "\<exists>cs. convert func 10 ch fl args k = Inr (True, rest, PCHARS func (chars cs) k) \<and>
    width fl \<le> int (length cs) \<and> read_number b cs = number_value sg num"
proof -
  have b: "b = 8 \<or> b = 10 \<or> b = 16" using assms(1) by (auto simp: k_conv_def number_conv_def split: if_splits)
  define base :: u64 where "base = of_nat b"
  have base: "base = of_nat b" "unat base = b" using b by (auto simp: base_def)
  obtain cs where t:
      "print_number func (fl\<lparr>sign := sg\<rparr>) num base (ch = 0x58) None k = Inr (PCHARS func (chars cs) k)"
      "width fl \<le> int (length cs)" "read_number b cs = number_value sg num"
    using print_number_reads [OF b base, of func "fl\<lparr>sign := sg\<rparr>" num "ch = 0x58" k] by auto
  have "convert func 10 ch fl args k = Inr (True, rest, PCHARS func (chars cs) k)"
    using assms t(1)
    by (auto simp: k_conv_def number_conv_def convert_def conv_sign_def conv_nosign_def base_def Let_def
        split: if_splits)
  then show ?thesis using t by blast
qed

text \<open>The sizes of an argument, in bits, and the value that C gives an argument of that size.\<close>

datatype nlen = Len_hh | Len_h | Len_int | Len_l | Len_z | Len_t | Len_ll | Len_q | Len_j

fun len_bits :: "nlen \<Rightarrow> nat" where
  "len_bits Len_hh = 8"
| "len_bits Len_h = 16"
| "len_bits Len_int = 32"
| "len_bits Len_l = 32"
| "len_bits Len_z = 32"
| "len_bits Len_t = 32"
| "len_bits Len_ll = 64"
| "len_bits Len_q = 64"
| "len_bits Len_j = 64"

fun len_text :: "nlen \<Rightarrow> u8 list" where
  "len_text Len_hh = [0x68, 0x68]"
| "len_text Len_h = [0x68]"
| "len_text Len_int = []"
| "len_text Len_l = [0x6C]"
| "len_text Len_z = [0x7A]"
| "len_text Len_t = [0x74]"
| "len_text Len_ll = [0x6C, 0x6C]"
| "len_text Len_q = [0x71]"
| "len_text Len_j = [0x6A]"

definition c_value :: "nlen \<Rightarrow> bool \<Rightarrow> u64 \<Rightarrow> int" where
  "c_value len sg x = (if sg then signed_take_bit (len_bits len - 1) (uint x) else take_bit (len_bits len) (uint x))"

text \<open>A number written in a directive: none, decimal digits, or a star and its argument.\<close>

datatype num_field = No_num | Num_digits "u8 list" | Num_star u32

fun num_field_text :: "num_field \<Rightarrow> u8 list" where
  "num_field_text No_num = []"
| "num_field_text (Num_digits ds) = ds"
| "num_field_text (Num_star x) = [0x2A]"

end
