(* ===== verification/Kprintf_Output.thy ===== *)
theory Kprintf_Output
  imports Kprintf_Number
begin

text \<open>
  The formatter does not depend on its receiver: with any receiver it does what it does
  with one that collects the characters.  Hence \<^verbatim>\<open>snprintk\<close> stores a prefix of the text and never writes
  outside its buffer.
\<close>

section \<open>Independence of the receiver\<close>

text \<open>The receiver's state has taken the collected characters.\<close>

definition sim :: "(int \<Rightarrow> 's \<Rightarrow> 's) \<Rightarrow> 's \<Rightarrow> 's kout \<Rightarrow> int list kout \<Rightarrow> bool" where
  "sim func s k c =
     (kstate k = fold func (kstate c) s \<and> retval k = retval c \<and> stores k = stores c \<and>
      retval c = length (kstate c))"

named_theorems sim_rules

lemma sim_PCHAR [sim_rules]: "sim func s k c \<Longrightarrow> sim func s (PCHAR func x k) (PCHAR collect x c)"
  by (simp add: sim_def PCHAR_def)

lemma sim_PCHARS [sim_rules]: "sim func s k c \<Longrightarrow> sim func s (PCHARS func xs k) (PCHARS collect xs c)"
  by (induction xs arbitrary: k c) (simp_all add: sim_PCHAR)

lemma sim_if [sim_rules]:
  "(b \<Longrightarrow> sim func s k c) \<Longrightarrow> (\<not> b \<Longrightarrow> sim func s k' c') \<Longrightarrow>
   sim func s (if b then k else k') (if b then c else c')"
  by simp

lemma sim_retval: "sim func s k c \<Longrightarrow> retval k = retval c"
  by (simp add: sim_def)

abbreviation rsim where "rsim R \<equiv> rel_sum (=) R"

lemma rsim_bind:
  "rsim R x y \<Longrightarrow> (\<And>a b. R a b \<Longrightarrow> rsim Q (f a) (g b)) \<Longrightarrow> rsim Q (res_bind x f) (res_bind y g)"
  by (cases x; cases y) auto

lemma rsim_bind_same:
  "(\<And>a. x = Inr a \<Longrightarrow> rsim Q (f a) (g a)) \<Longrightarrow> rsim Q (res_bind x f) (res_bind x g)"
  by (cases x) auto

lemma rsim_if:
  "(b \<Longrightarrow> rsim R x y) \<Longrightarrow> (\<not> b \<Longrightarrow> rsim R x' y') \<Longrightarrow>
   rsim R (if b then x else x') (if b then y else y')"
  by simp

lemma sim_bits_loop:
  "sim func s k c \<Longrightarrow> rsim (sim func s) (bits_loop func num tmp q k) (bits_loop collect num tmp q c)"
proof (induction func num tmp q k arbitrary: c rule: bits_loop.induct)
  case (2 func num tmp n q k)
  show ?case
  proof (cases "n = 0 \<or> (\<exists>e. bit_mask n = Inl e)")
    case True
    then show ?thesis using "2.prems" by (auto simp: bits_loop.simps(2))
  next
    case False
    then obtain m where m: "n \<noteq> 0" "bit_mask n = Inr m" by (cases "bit_mask n") auto
    have "sim func s
        (if num AND m \<noteq> 0
         then PCHARS func ((if retval k \<noteq> tmp then 0x2C else 0x3C) # chars (takeWhile (\<lambda>c. c > 0x20) q)) k
         else k)
        (if num AND m \<noteq> 0
         then PCHARS collect ((if retval c \<noteq> tmp then 0x2C else 0x3C) # chars (takeWhile (\<lambda>c. c > 0x20) q)) c
         else c)"
      unfolding sim_retval [OF "2.prems"] by (intro sim_rules "2.prems")
    then show ?thesis
      using "2.IH" m unfolding bits_loop.simps(2) by (simp add: Let_def del: fold.simps)
  qed
qed simp

text \<open>A receiver's state with a width.\<close>

abbreviation simw where "simw func s \<equiv> rel_prod (sim func s) (=)"

lemma sim_number_front:
  "sim func s k c \<Longrightarrow> simw func s (number_front func fl neg num base ds k) (number_front collect fl neg num base ds c)"
  unfolding number_front_def Let_def by (intro rel_prod.intros refl sim_rules) auto

lemma sim_print_bits:
  assumes "simw func s kw cw"
  shows "rsim (simw func s) (print_bits func num bconv kw) (print_bits collect num bconv cw)"
proof -
  obtain k c w where kw: "kw = (k, w)" "cw = (c, w)" and sim: "sim func s k c"
    using assms by (cases kw; cases cw) auto
  have rk: "retval k = retval c" by (rule sim_retval [OF sim])
  have tail: "rsim (simw func s)
      (if retval k' \<noteq> t then let k'' = PCHAR func 0x3E k' in Inr (k'', w - int (retval k'' - t)) else Inr (k', w))
      (if retval c' \<noteq> t then let c'' = PCHAR collect 0x3E c' in Inr (c'', w - int (retval c'' - t)) else Inr (c', w))"
    if "sim func s k' c'" for k' c' t
    using sim_retval [OF that] that sim_PCHAR [OF that, of "0x3E"] by (simp add: Let_def PCHAR_def)
  have "rsim (simw func s) (print_bits func num (Some q) kw) (print_bits collect num (Some q) cw)" for q
  proof (cases "num = 0")
    case True
    then show ?thesis using sim by (simp add: print_bits_def kw)
  next
    case False
    then have n: "(num \<noteq> 0) = True" by simp
    show ?thesis
      unfolding print_bits_def kw option.case prod.case rk n if_True
      by (intro rsim_bind [OF sim_bits_loop [OF sim]] tail)
  qed
  then show ?thesis using assms by (cases bconv) (simp_all add: print_bits_def)
qed

lemma sim_print_number:
  assumes "sim func s k c"
  shows "rsim (sim func s) (print_number func fl num base upper bconv k)
    (print_number collect fl num base upper bconv c)"
  unfolding print_number_def Let_def
  by (intro rsim_bind_same rsim_bind [OF sim_print_bits [OF sim_number_front [OF assms]]])
    (auto simp: rel_prod_sel simp del: fold_replicate intro: sim_rules split: prod.splits)

section \<open>The conversions\<close>

lemma sim_print_str:
  "sim func s k c \<Longrightarrow> rsim (sim func s) (print_str func fl m k) (print_str collect fl m c)"
  unfolding print_str_def Let_def by (intro rsim_bind_same) (auto simp del: fold_replicate intro!: sim_rules)

lemma sim_print_char: "sim func s k c \<Longrightarrow> sim func s (print_char func fl x k) (print_char collect fl x c)"
  unfolding print_char_def Let_def by (intro sim_rules) auto

lemma sim_dump_loop:
  "sim func s k c \<Longrightarrow> rsim (sim func s) (dump_loop func w up p k) (dump_loop collect w up p c)"
proof (induction w arbitrary: up p k c)
  case (Suc w)
  show ?case
  proof (cases up)
    case (Cons b up')
    show ?thesis
      unfolding Cons dump_loop.simps Let_def
      using Suc.prems
      by (intro rsim_bind_same)
        (auto simp del: fold.simps intro!: rsim_bind_same Suc.IH sim_rules split: option.splits)
  qed simp
qed simp

lemma sim_store_count: "sim func s k c \<Longrightarrow> sim func s (store_count fl l k) (store_count fl l c)"
  by (simp add: sim_def store_count_def)

text \<open>The same arguments are left, and the same known or unknown conversion.\<close>

abbreviation sima where "sima func s \<equiv> rel_prod (=) (sim func s)"

lemma sim_bind_pair:
  "rsim (sim func s) x y \<Longrightarrow>
   rsim (sima func s) (res_bind x (\<lambda>k. Inr (args, k))) (res_bind y (\<lambda>k. Inr (args, k)))"
  by (cases x; cases y) auto

lemma sim_known:
  "rsim (sima func s) x y \<Longrightarrow>
   rsim (rel_prod (=) (sima func s)) (res_bind x (\<lambda>(args', k'). Inr (True, args', k')))
     (res_bind y (\<lambda>(args', k'). Inr (True, args', k')))"
  by (cases x; cases y) auto

lemma sim_conv:
  assumes "sim func s k c"
  shows "rsim (sima func s) (conv_nosign func fl base upper args k) (conv_nosign collect fl base upper args c)"
    and "rsim (sima func s) (conv_sign func fl base args k) (conv_sign collect fl base args c)"
    and "rsim (sima func s) (conv_bits func fl args k) (conv_bits collect fl args c)"
  unfolding conv_nosign_def conv_sign_def conv_bits_def
  by (auto intro!: rsim_bind_same sim_bind_pair sim_print_number assms split: prod.splits option.splits list.splits)

lemma sim_convert:
  assumes "sim func s k c"
  shows "rsim (rel_prod (=) (sima func s)) (convert func radix ch fl args k) (convert collect radix ch fl args c)"
proof -
  have chr: "rsim (sima func s) (res_bind (arg_int args) (\<lambda>(x, args'). Inr (args', print_char func fl x k)))
      (res_bind (arg_int args) (\<lambda>(x, args'). Inr (args', print_char collect fl x c)))"
    using sim_print_char [OF assms] by (auto intro!: rsim_bind_same)
  have cnt: "rsim (sima func s) (res_bind (arg_loc args) (\<lambda>(l, args'). Inr (args', store_count fl l k)))
      (res_bind (arg_loc args) (\<lambda>(l, args'). Inr (args', store_count fl l c)))"
    using sim_store_count [OF assms] by (auto intro!: rsim_bind_same)
  have str: "rsim (sima func s)
      (res_bind (arg_mem args) (\<lambda>(m, args'). res_bind (print_str func fl m k) (\<lambda>k'. Inr (args', k'))))
      (res_bind (arg_mem args) (\<lambda>(m, args'). res_bind (print_str collect fl m c) (\<lambda>k'. Inr (args', k'))))"
    by (auto intro!: rsim_bind_same sim_bind_pair sim_print_str assms)
  have ptr: "rsim (sima func s)
      (res_bind (arg_ptr args) (\<lambda>(x, args'). res_bind (print_number func (fl' x) (ucast x) 16 False None k) (\<lambda>k'. Inr (args', k'))))
      (res_bind (arg_ptr args) (\<lambda>(x, args'). res_bind (print_number collect (fl' x) (ucast x) 16 False None c) (\<lambda>k'. Inr (args', k'))))"
    for fl' by (auto intro!: rsim_bind_same sim_bind_pair sim_print_number assms)
  have dmp: "rsim (sima func s)
      (res_bind (arg_mem args) (\<lambda>(up, args'). res_bind (arg_mem args') (\<lambda>(p, args'').
         res_bind (print_dump func fl up p k) (\<lambda>k'. Inr (args'', k')))))
      (res_bind (arg_mem args) (\<lambda>(up, args'). res_bind (arg_mem args') (\<lambda>(p, args'').
         res_bind (print_dump collect fl up p c) (\<lambda>k'. Inr (args'', k')))))"
    by (auto simp: print_dump_def intro!: rsim_bind_same sim_bind_pair sim_dump_loop assms split: option.splits)
  show ?thesis
    unfolding convert_def Let_def
    by (intro rsim_if sim_known sim_conv [OF assms] chr cnt str ptr dmp)
      (simp_all add: sim_PCHAR assms)
qed

lemma sim_kv_loop:
  "sim func s k c \<Longrightarrow>
   rsim (sima func s) (kv_loop func radix stop fmt args k) (kv_loop collect radix stop fmt args c)"
proof (induction "length fmt" arbitrary: stop fmt args k c rule: less_induct)
  case less
  show ?case
  proof (cases fmt)
    case (Cons ch rest)
    show ?thesis
    proof (cases "ch \<noteq> 0x25 \<or> stop")
      case True
      then show ?thesis
        using less.hyps [of rest] less.prems Cons by (simp add: kv_loop.simps(2) sim_PCHAR)
    next
      case False
      show ?thesis
      proof (cases "reswitch kflags0 rest args")
        case (Inl e)
        then show ?thesis using False Cons by (simp add: kv_loop.simps(2))
      next
        case (Inr r)
        obtain x fl fmt' args' where r: "reswitch kflags0 rest args = Inr (x, fl, fmt', args')"
          using Inr by (cases r) auto
        have shorter: "length fmt' < length fmt" using reswitch_length [OF r] Cons by simp
        show ?thesis
          using sim_convert [OF less.prems, of radix x fl args'] False
          unfolding Cons kv_loop.simps(2)
          by (cases rule: rel_sum.cases)
            (auto simp: r simp del: fold.simps list.map intro!: less.hyps [OF shorter] sim_PCHARS)
      qed
    qed
  qed simp
qed

lemma kvprintf_collect:
  "kvprintf fmt func s radix args =
     res_bind (kvprintf fmt collect [] radix args) (\<lambda>c.
       Inr \<lparr>kstate = fold func (kstate c) s, retval = retval c, stores = stores c\<rparr>)"
  and kvprintf_length: "kvprintf fmt collect [] radix args = Inr c \<Longrightarrow> retval c = length (kstate c)"
proof -
  define f where "f = (case fmt of None \<Rightarrow> [0x28, 0x66, 0x6D, 0x74, 0x20, 0x6E, 0x75, 0x6C, 0x6C, 0x29, 0x0A, 0] | Some f \<Rightarrow> f)"
  define rx :: u64 where "rx = word_of_int (if radix < 2 \<or> radix > 36 then 10 else radix)"
  have start: "sim func s \<lparr>kstate = s, retval = 0, stores = []\<rparr> \<lparr>kstate = [], retval = 0, stores = []\<rparr>"
    by (simp add: sim_def)
  note R = sim_kv_loop [OF start, of rx False f args]
  have eq: "kvprintf fmt func s radix args = res_bind (kv_loop func rx False f args \<lparr>kstate = s, retval = 0, stores = []\<rparr>) (\<lambda>(_, k). Inr k)"
      "kvprintf fmt collect [] radix args = res_bind (kv_loop collect rx False f args \<lparr>kstate = [], retval = 0, stores = []\<rparr>) (\<lambda>(_, k). Inr k)"
    by (simp_all add: kvprintf_def f_def rx_def Let_def)
  show "kvprintf fmt func s radix args =
     res_bind (kvprintf fmt collect [] radix args) (\<lambda>c.
       Inr \<lparr>kstate = fold func (kstate c) s, retval = retval c, stores = stores c\<rparr>)"
    unfolding eq using R by (cases rule: rel_sum.cases) (auto simp: sim_def)
  show "retval c = length (kstate c)" if "kvprintf fmt collect [] radix args = Inr c"
    using R that unfolding eq by (cases rule: rel_sum.cases) (auto simp: sim_def)
qed

section \<open>Printing to a buffer\<close>

lemma snprintk_fold:
  assumes "1 \<le> r" "p + r \<le> length b"
  shows "fold snprintk_func out \<lparr>sbuf = b, spos = p, remain = r\<rparr> =
    \<lparr>sbuf = take p b @ map word_of_int (take (r - 1) out) @ drop (p + min (length out) (r - 1)) b,
     spos = p + min (length out) (r - 1), remain = r - min (length out) (r - 1)\<rparr>"
  using assms
proof (induction out arbitrary: b p r)
  case (Cons c out)
  show ?case
  proof (cases "r = 1")
    case True
    then show ?thesis using Cons.IH [of 1 p b] Cons.prems by (simp add: snprintk_func_def)
  next
    case False
    define b' where "b' = b[p := word_of_int c]"
    obtain r' where r': "r = Suc (Suc r')" using False Cons.prems(1) by (cases r; cases "r - 1") auto
    have "take (Suc p) b' = take p b @ [word_of_int c]" "drop (Suc p + i) b' = drop (Suc p + i) b" for i
      using Cons.prems r' by (simp_all add: b'_def take_Suc_conv_app_nth drop_update_cancel)
    moreover have "snprintk_func c \<lparr>sbuf = b, spos = p, remain = r\<rparr> = \<lparr>sbuf = b', spos = Suc p, remain = Suc r'\<rparr>"
      by (simp add: snprintk_func_def b'_def r')
    moreover have "length b' = length b" by (simp add: b'_def)
    ultimately show ?thesis
      using Cons.IH [of "Suc r'" "Suc p" b'] Cons.prems r' by simp
  qed
qed simp

text \<open>
  C9: \<^verbatim>\<open>snprintk\<close> is exact for every format and all arguments.  It fails exactly when formatting fails.  Otherwise it returns
  the length of the whole text, and with a size of at least one it stores the longest prefix that leaves room for the
  terminating zero, the zero, and nothing else: every other byte of the buffer is kept.  With
  size zero it writes nothing.
\<close>

theorem snprintk_exact:
  assumes "n \<le> length str"
  shows "snprintk str n fmt args =
    res_bind (kvprintf fmt collect [] 10 args) (\<lambda>k.
      Inr (length (kstate k),
        if n = 0 then str
        else map word_of_int (take (n - 1) (kstate k)) @ 0 # drop (min (length (kstate k)) (n - 1) + 1) str))"
proof (cases "kvprintf fmt collect [] 10 args")
  case (Inl e)
  then show ?thesis by (simp add: snprintk_def kvprintf_collect [of fmt snprintk_func])
next
  case (Inr c)
  note len = kvprintf_length [OF Inr]
  have zero: "fold snprintk_func out \<lparr>sbuf = str, spos = 0, remain = 0\<rparr> = \<lparr>sbuf = str, spos = 0, remain = 0\<rparr>" for out
    by (induction out) (simp_all add: snprintk_func_def)
  have upd: "(xs @ ys)[length xs := 0] = xs @ 0 # drop 1 ys" if "ys \<noteq> []" for xs ys :: "u8 list"
    using that by (cases ys) simp_all
  show ?thesis
  proof (cases "n = 0")
    case True
    then show ?thesis
      using len by (simp add: snprintk_def kvprintf_collect [of fmt snprintk_func] Inr zero)
  next
    case False
    define m where "m = min (length (kstate c)) (n - 1)"
    have m: "m < n" "length (map word_of_int (take (n - 1) (kstate c)) :: u8 list) = m" "drop m str \<noteq> []"
      using False assms by (auto simp: m_def)
    show ?thesis
      using False m len upd [OF m(3), of "map word_of_int (take (n - 1) (kstate c))"]
        snprintk_fold [of n 0 str "kstate c"] assms
      by (simp add: snprintk_def kvprintf_collect [of fmt snprintk_func] Inr m_def [symmetric] Let_def)
  qed
qed

lemmas kvprintf_eval = kvprintf_def kv_loop.simps reswitch.simps flag_case_def flag_char_def kflags0_def convert_def
  conv_nosign_def conv_sign_def handle_nosign_def handle_sign_def print_number_def number_front_def
  print_bits_def ksprintn_def ksprintn_loop.simps hex2ascii_def MAXNBUF_def PCHAR_def Let_def

text \<open>The format \<^verbatim>\<open>x=%u\<close> and the number 1234 into five bytes of a buffer of six.\<close>

theorem snprintk_exact_witness:
  "snprintk [9, 9, 9, 9, 9, 9] 5 (Some [0x78, 0x3D, 0x25, 0x75, 0]) [KInt 1234] =
     Inr (6, [0x78, 0x3D, 0x31, 0x32, 0, 9])"
proof -
  have "kvprintf (Some [0x78, 0x3D, 0x25, 0x75, 0]) collect [] 10 [KInt 1234] =
      Inr \<lparr>kstate = [0x78, 0x3D, 0x31, 0x32, 0x33, 0x34], retval = 6, stores = []\<rparr>"
    by (simp add: kvprintf_eval)
  then show ?thesis
    using snprintk_exact [of 5 "[9, 9, 9, 9, 9, 9]" "Some [0x78, 0x3D, 0x25, 0x75, 0]" "[KInt 1234]"] by simp
qed

end
