(* ===== verification/Kprintf_Types.thy ===== *)
theory Kprintf_Types
  imports Kprintf_Output
begin

text \<open>
  Types for formats.  A format determines the types of its arguments; with arguments of these types the formatter
  returns, whatever the receiver.  A format that ends in a percent sign has no type, and
  the formatter reads past its end.
\<close>

section \<open>Types of arguments\<close>

text \<open>
  A string is the null pointer or memory with a zero; a separator is not null; \<^verbatim>\<open>%D\<close> reads a known
  number of bytes; the string of \<^verbatim>\<open>%b\<close> starts with the base and has bit numbers up to 32.
\<close>

datatype kty = TInt | TLong | TPtr | TLoc | TStr | TSep | TBytes nat | TBits

function bits_ok :: "u8 list \<Rightarrow> bool" where
  "bits_ok [] = False"
| "bits_ok (n # q) = (n = 0 \<or> unat n \<le> 32 \<and> bits_ok (dropWhile (\<lambda>c. c > 0x20) q))"
  by pat_completeness auto
termination
  by (relation "measure length") (auto simp: le_imp_less_Suc length_dropWhile_le)

fun has_ty :: "karg \<Rightarrow> kty \<Rightarrow> bool" where
  "has_ty (KInt _) TInt = True"
| "has_ty (KLong _) TLong = True"
| "has_ty (KPtr _) TPtr = True"
| "has_ty (KLoc _) TLoc = True"
| "has_ty (KMem None) TStr = True"
| "has_ty (KMem (Some m)) TStr = (0 \<in> set m)"
| "has_ty (KMem (Some m)) TSep = (0 \<in> set m)"
| "has_ty (KMem (Some m)) (TBytes n) = (n \<le> length m)"
| "has_ty (KMem (Some (b # q))) TBits = (2 \<le> unat b \<and> unat b \<le> 36 \<and> bits_ok q)"
| "has_ty _ _ = False"

lemma has_ty_iff:
  "has_ty a TInt \<longleftrightarrow> (\<exists>x. a = KInt x)"
  "has_ty a TPtr \<longleftrightarrow> (\<exists>x. a = KPtr x)"
  "has_ty a TLoc \<longleftrightarrow> (\<exists>l. a = KLoc l)"
  "has_ty a TStr \<longleftrightarrow> (\<exists>m. a = KMem m \<and> has_ty (KMem m) TStr)"
  "has_ty a TSep \<longleftrightarrow> (\<exists>m. a = KMem (Some m) \<and> 0 \<in> set m)"
  "has_ty a (TBytes n) \<longleftrightarrow> (\<exists>m. a = KMem (Some m) \<and> n \<le> length m)"
  "has_ty a TBits \<longleftrightarrow> (\<exists>b q. a = KMem (Some (b # q)) \<and> 2 \<le> unat b \<and> unat b \<le> 36 \<and> bits_ok q)"
        apply (cases a; simp)
       apply (cases a; simp)
      apply (cases a; simp)
     apply (cases a; simp)
    apply (cases "(a, TSep)" rule: has_ty.cases; simp)
   apply (cases "(a, TBytes n)" rule: has_ty.cases; simp)
  apply (cases "(a, TBits)" rule: has_ty.cases; simp)
  done

definition num_ty :: "kflags \<Rightarrow> kty" where
  "num_ty fl = (if jflag fl \<or> qflag fl then TLong else TInt)"

text \<open>The arguments of a conversion, after those of \<^verbatim>\<open>*\<close>; \<^verbatim>\<open>%D\<close> must have a fixed width.\<close>

definition conv_tys :: "u8 \<Rightarrow> kflags \<Rightarrow> nat \<Rightarrow> kty list option" where
  "conv_tys ch fl stars =
     (if ch = 0x25 then Some []
      else if ch = 0x62 then Some [num_ty fl, TBits]
      else if ch = 0x63 then Some [TInt]
      else if ch = 0x44 then
        (if stars = 0 then Some [TBytes (if width fl = 0 then 16 else nat (width fl)), TSep] else None)
      else if ch = 0x6E then Some [TLoc]
      else if ch = 0x70 then Some [TPtr]
      else if ch = 0x73 then Some [TStr]
      else if ch \<in> {0x64, 0x69, 0x6F, 0x72, 0x75, 0x58, 0x78, 0x79} then Some [num_ty fl]
      else None)"

text \<open>
  A directive, read with zeros for the arguments of \<^verbatim>\<open>*\<close>: the conversion, the flags, the format behind
  it and the number of stars.
\<close>

definition directive :: "u8 list \<Rightarrow> (u8 \<times> kflags \<times> u8 list \<times> nat) option" where
  "directive fmt =
     (case reswitch kflags0 fmt (replicate (length fmt) (KInt 0)) of
        Inl _ \<Rightarrow> None
      | Inr (c, fl, fmt', rest) \<Rightarrow> Some (c, fl, fmt', length fmt - length rest))"

lemma directive_length: "directive fmt = Some (c, fl, fmt', n) \<Longrightarrow> length fmt' < length fmt"
  by (auto simp: directive_def split: sum.splits dest: reswitch_length)

function fmt_type :: "u8 list \<Rightarrow> kty list option" where
  "fmt_type [] = None"
| "fmt_type (ch # fmt) =
     (if ch \<noteq> 0x25 then (if ch = 0 then Some [] else fmt_type fmt)
      else (case directive fmt of
              None \<Rightarrow> None
            | Some (c, fl, fmt', stars) \<Rightarrow>
                (case conv_tys c fl stars of
                   None \<Rightarrow> None
                 | Some tys \<Rightarrow> map_option (\<lambda>r. replicate stars TInt @ tys @ r) (fmt_type fmt'))))"
  by pat_completeness auto
termination
  by (relation "measure length") (auto dest: directive_length)

declare fmt_type.simps(2) [simp del]

section \<open>Reading directives\<close>

text \<open>Flags that agree except for what a star can change.\<close>

definition same_kind :: "kflags \<Rightarrow> kflags \<Rightarrow> bool" where
  "same_kind fl fl' =
     (dot fl = dot fl' \<and> sign fl = sign fl' \<and> hflag fl = hflag fl' \<and> lflag fl = lflag fl' \<and>
      jflag fl = jflag fl' \<and> qflag fl = qflag fl')"

lemma flag_char_kind:
  assumes "same_kind fl fl'"
  shows "rel_option same_kind (flag_char fl ch) (flag_char fl' ch)"
  using assms unfolding flag_char_def same_kind_def by simp

lemma star_width_kind: "same_kind fl fl' \<Longrightarrow> same_kind (star_width fl x) (star_width fl' y)"
  by (simp add: star_width_def same_kind_def)

lemma flag_case_typed:
  assumes "flag_case fl ch fmt (replicate n (KInt 0)) = Inr (Some (fl1, fmt1, args1))" "same_kind fl fl'"
  shows "(args1 = replicate n (KInt 0) \<and>
      (\<forall>args. \<exists>fl1'. flag_case fl' ch fmt args = Inr (Some (fl1', fmt1, args)) \<and> same_kind fl1 fl1' \<and>
        (fl = fl' \<longrightarrow> fl1 = fl1'))) \<or>
    (0 < n \<and> args1 = replicate (n - 1) (KInt 0) \<and>
      (\<forall>x args. \<exists>fl1'. flag_case fl' ch fmt (KInt x # args) = Inr (Some (fl1', fmt1, args)) \<and> same_kind fl1 fl1'))"
proof (cases "flag_char fl ch")
  case (Some g)
  then obtain g' where "flag_char fl' ch = Some g'" "same_kind g g'"
    using flag_char_kind [OF assms(2), of ch] by (auto elim: option.rel_cases)
  then show ?thesis using Some assms(1) by (auto simp: flag_case_def)
next
  case None
  then have none: "flag_char fl' ch = None" using flag_char_kind [OF assms(2), of ch] by auto
  have dot: "dot fl = dot fl'" using assms(2) by (simp add: same_kind_def)
  show ?thesis
  proof (cases "ch = 0x2A")
    case True
    then obtain m where n: "n = Suc m" using assms(1) None by (cases n) (auto simp: flag_case_def)
    have "flag_case fl ch fmt (replicate n (KInt 0)) = Inr (Some (star_width fl 0, fmt, replicate m (KInt 0)))"
      using True None by (simp add: flag_case_def n)
    moreover have "flag_case fl' ch fmt (KInt x # args) = Inr (Some (star_width fl' (sint x), fmt, args))" for x args
      using True none by (simp add: flag_case_def)
    ultimately show ?thesis using assms(1) n star_width_kind [OF assms(2)] by auto
  next
    case False
    have digits: "flag_case f ch fmt args = (if is_digit ch then res_bind (width_loop 0 ch fmt) (\<lambda>(n, fmt').
        Inr (Some (if dot f then f\<lparr>dwidth := n\<rparr> else f\<lparr>width := n\<rparr>, fmt', args))) else Inr None)"
      if "flag_char f ch = None" for f args
      using False that by (simp add: flag_case_def)
    have w: "is_digit ch"
    proof (rule ccontr)
      assume "\<not> is_digit ch"
      then show False using assms(1) unfolding digits [OF None] by (simp only: if_False) simp
    qed
    obtain i where i: "width_loop 0 ch fmt = Inr (i, fmt1)" "fl1 = (if dot fl then fl\<lparr>dwidth := i\<rparr> else fl\<lparr>width := i\<rparr>)"
        "args1 = replicate n (KInt 0)"
      using assms(1) unfolding digits [OF None] by (simp only: w simp_thms if_True res_bind_Inr_iff) auto
    have "same_kind fl1 (if dot fl' then fl'\<lparr>dwidth := i\<rparr> else fl'\<lparr>width := i\<rparr>)"
      using assms(2) dot i(2) by (simp add: same_kind_def)
    then show ?thesis
      unfolding digits [OF none] using w i by (intro disjI1) (simp only: simp_thms if_True, simp)
  qed
qed

lemma flag_case_none:
  assumes "flag_case fl ch fmt args = Inr None" "same_kind fl fl'"
  shows "flag_case fl' ch fmt args' = Inr None"
  using assms(1) flag_char_kind [OF assms(2), of ch]
  by (auto simp: flag_case_def res_bind_Inr_iff split: if_splits option.splits)

lemma reswitch_typed:
  assumes "reswitch fl fmt (replicate n (KInt 0)) = Inr (c, fl1, fmt', args1)" "same_kind fl fl'"
  shows "length args1 \<le> n \<and> (\<forall>xs rest. length xs = n - length args1 \<longrightarrow>
    (\<exists>fl1'. reswitch fl' fmt (map KInt xs @ rest) = Inr (c, fl1', fmt', rest) \<and> same_kind fl1 fl1' \<and>
      (n = length args1 \<and> fl = fl' \<longrightarrow> fl1 = fl1')))"
  using assms
proof (induction "length fmt" arbitrary: fmt fl fl' n rule: less_induct)
  case less
  obtain ch fmt0 where fmt: "fmt = ch # fmt0" using less.prems(1) by (cases fmt) auto
  show ?case
  proof (cases "flag_case fl ch fmt0 (replicate n (KInt 0))")
    case (Inl e)
    then show ?thesis using less.prems(1) by (simp add: fmt reswitch.simps(2))
  next
    case (Inr r)
    show ?thesis
    proof (cases r)
      case None
      then have none: "flag_case fl' ch fmt0 args = Inr None" for args
        using flag_case_none [OF _ less.prems(2)] Inr by simp
      show ?thesis
        using less.prems Inr None none by (auto simp: fmt reswitch.simps(2))
    next
      case (Some p)
      obtain fl2 fmt2 args2 where p: "p = (fl2, fmt2, args2)" by (cases p) auto
      have step: "flag_case fl ch fmt0 (replicate n (KInt 0)) = Inr (Some (fl2, fmt2, args2))"
        using Inr Some p by simp
      have shorter: "length fmt2 < length fmt" using flag_case_length [OF step] fmt by simp
      have run: "reswitch fl2 fmt2 args2 = Inr (c, fl1, fmt', args1)"
        using less.prems(1) step by (simp add: fmt reswitch.simps(2))
      from flag_case_typed [OF step less.prems(2)] show ?thesis
      proof (elim disjE conjE)
        assume a: "args2 = replicate n (KInt 0)" "\<forall>args. \<exists>fl1'. flag_case fl' ch fmt0 args =
          Inr (Some (fl1', fmt2, args)) \<and> same_kind fl2 fl1' \<and> (fl = fl' \<longrightarrow> fl2 = fl1')"
        show ?thesis
        proof (intro conjI allI impI)
          obtain g where "flag_case fl' ch fmt0 [] = Inr (Some (g, fmt2, []))" "same_kind fl2 g" using a(2) by blast
          then show "length args1 \<le> n" using less.hyps [OF shorter run [unfolded a(1)]] by blast
        next
          fix xs :: "u32 list" and rest assume xs: "length xs = n - length args1"
          obtain g where g: "flag_case fl' ch fmt0 (map KInt xs @ rest) = Inr (Some (g, fmt2, map KInt xs @ rest))"
            "same_kind fl2 g" "fl = fl' \<longrightarrow> fl2 = g" using a(2) by blast
          show "\<exists>fl1'. reswitch fl' fmt (map KInt xs @ rest) = Inr (c, fl1', fmt', rest) \<and> same_kind fl1 fl1' \<and>
              (n = length args1 \<and> fl = fl' \<longrightarrow> fl1 = fl1')"
            using less.hyps [OF shorter run [unfolded a(1)] g(2)] xs g by (fastforce simp: fmt reswitch.simps(2))
        qed
      next
        assume a: "0 < n" "args2 = replicate (n - 1) (KInt 0)" "\<forall>x args. \<exists>fl1'. flag_case fl' ch fmt0 (KInt x # args) =
          Inr (Some (fl1', fmt2, args)) \<and> same_kind fl2 fl1'"
        show ?thesis
        proof (intro conjI allI impI)
          obtain g where "flag_case fl' ch fmt0 [KInt 0] = Inr (Some (g, fmt2, []))" "same_kind fl2 g" using a(3) by blast
          then have le: "length args1 \<le> n - 1" using less.hyps [OF shorter run [unfolded a(2)]] by blast
          then show "length args1 \<le> n" by simp
          fix xs :: "u32 list" and rest assume xs: "length xs = n - length args1"
          then obtain x ys where xs': "xs = x # ys" "length ys = n - 1 - length args1" using a(1) le by (cases xs) auto
          obtain g where g: "flag_case fl' ch fmt0 (map KInt xs @ rest) = Inr (Some (g, fmt2, map KInt ys @ rest))"
            "same_kind fl2 g" using a(3) xs'(1) by (metis append_Cons list.simps(9))
          show "\<exists>fl1'. reswitch fl' fmt (map KInt xs @ rest) = Inr (c, fl1', fmt', rest) \<and> same_kind fl1 fl1' \<and>
              (n = length args1 \<and> fl = fl' \<longrightarrow> fl1 = fl1')"
            using less.hyps [OF shorter run [unfolded a(2)] g(2)] xs'(2) g a(1) le by (fastforce simp: fmt reswitch.simps(2))
        qed
      qed
    qed
  qed
qed

section \<open>Conversions of typed arguments\<close>

lemma bit_mask_ok: "unat n \<le> 32 \<Longrightarrow> \<exists>m. bit_mask n = Inr m"
  by (auto simp: bit_mask_def)

lemma bits_loop_ok: "bits_ok q \<Longrightarrow> \<exists>k'. bits_loop func num tmp q k = Inr k'"
proof (induction func num tmp q k rule: bits_loop.induct)
  case (2 func num tmp n q k)
  show ?case
  proof (cases "n = 0")
    case True
    then show ?thesis by (simp add: bits_loop.simps(2))
  next
    case False
    then obtain m where m: "bit_mask n = Inr m" using "2.prems" bit_mask_ok [of n] by auto
    show ?thesis
      using "2.IH" [OF False m refl refl] "2.prems" False
      unfolding bits_loop.simps(2) [of func num tmp n q k] by (simp add: m Let_def del: fold.simps)
  qed
qed simp

lemma print_number_ok:
  assumes "2 \<le> unat base" "unat base \<le> 36" "\<And>q. bconv = Some q \<Longrightarrow> bits_ok q"
  shows "\<exists>k'. print_number func fl num base upper bconv k = Inr k'"
proof -
  define neg where "neg = (sign fl \<and> sint num < 0)"
  obtain ds where ds: "ksprintn (if neg then - num else num) base upper = Inr ds"
    using ksprintn_digits [OF assms(1,2)] by blast
  have "\<exists>kw. print_bits func m bconv (k1, w) = Inr kw" for m k1 w
    using assms(3) bits_loop_ok [of _ func m "retval k1" k1]
    by (cases bconv) (fastforce simp: print_bits_def Let_def)+
  then obtain kw where "print_bits func (if neg then - num else num) bconv
      (number_front func fl neg (if neg then - num else num) base ds k) = Inr kw"
    by (metis surj_pair)
  then show ?thesis
    using ds unfolding print_number_def neg_def [symmetric] Let_def
    by (cases kw) (simp del: fold_replicate)
qed

lemma handle_ok:
  assumes "has_ty a (num_ty fl)" "jflag fl = jflag fl'" "qflag fl = qflag fl'"
  shows "\<exists>num. handle_nosign fl' (a # args) = Inr (num, args)" "\<exists>num. handle_sign fl' (a # args) = Inr (num, args)"
  using assms by (cases a; auto simp: num_ty_def handle_nosign_def handle_sign_def split: if_splits)+

lemma mem_strlen_ok: "0 \<in> set m \<Longrightarrow> \<exists>n. mem_strlen m = Inr n"
  by (induction m) auto

lemma mem_strnlen_ok: "0 \<in> set m \<Longrightarrow> \<exists>n. mem_strnlen d m = Inr n"
proof (induction m arbitrary: d)
  case (Cons c m)
  then show ?case by (cases d) (auto, metis res_bind_simps(2))
qed simp

lemma print_str_ok:
  assumes "has_ty (KMem m) TStr"
  shows "\<exists>k'. print_str func fl m k = Inr k'"
proof -
  have "0 \<in> set (case m of None \<Rightarrow> [0x28, 0x6E, 0x75, 0x6C, 0x6C, 0x29, 0 :: u8] | Some b \<Rightarrow> b)"
    using assms by (cases m) auto
  from mem_strlen_ok [OF this] mem_strnlen_ok [OF this, of "nat (dwidth fl)"]
  show ?thesis by (auto simp: print_str_def Let_def)
qed

lemma hex2ascii_ok: "d < 16 \<Longrightarrow> \<exists>c. hex2ascii d = Inr c"
  by (simp add: hex2ascii_def)

lemma dump_loop_ok:
  assumes "w \<le> length up" "0 \<in> set m"
  shows "\<exists>k'. dump_loop func w up (Some m) k = Inr k'"
  using assms(1)
proof (induction w arbitrary: up k)
  case (Suc w)
  then obtain b up' where up: "up = b # up'" by (cases up) auto
  have "unat b < 16 * 16" using unsigned_less [of b, where ?'a = nat] by simp
  then have b: "unat b div 16 < 16" by (rule less_mult_imp_div_less)
  obtain hi lo n where "hex2ascii (unat b div 16) = Inr hi" "hex2ascii (unat b mod 16) = Inr lo" "mem_strlen m = Inr n"
    using hex2ascii_ok [of "unat b div 16"] hex2ascii_ok [of "unat b mod 16"] mem_strlen_ok [OF assms(2)] b by auto
  then show ?case using Suc up by (simp add: Let_def del: fold.simps)
qed simp

lemma conv_number_ok:
  assumes "has_ty a (num_ty fl)" "same_kind fl fl'" "2 \<le> unat base" "unat base \<le> 36"
  shows "\<exists>k'. conv_nosign func fl' base upper (a # rest) k = Inr (rest, k')"
    and "\<exists>k'. conv_sign func fl' base (a # rest) k = Inr (rest, k')"
proof -
  have jq: "jflag fl = jflag fl'" "qflag fl = qflag fl'" using assms(2) by (simp_all add: same_kind_def)
  obtain n1 n2 where h: "handle_nosign fl' (a # rest) = Inr (n1, rest)" "handle_sign fl' (a # rest) = Inr (n2, rest)"
    using handle_ok [OF assms(1) jq] by blast
  show "\<exists>k'. conv_nosign func fl' base upper (a # rest) k = Inr (rest, k')"
    using print_number_ok [OF assms(3,4), of None func "fl'\<lparr>sign := False\<rparr>" n1 upper k]
    by (auto simp: conv_nosign_def h)
  show "\<exists>k'. conv_sign func fl' base (a # rest) k = Inr (rest, k')"
    using print_number_ok [OF assms(3,4), of None func "fl'\<lparr>sign := True\<rparr>" n2 False k]
    by (auto simp: conv_sign_def h)
qed

lemma conv_bits_ok:
  assumes "has_ty a (num_ty fl)" "has_ty b TBits" "same_kind fl fl'"
  shows "\<exists>k'. conv_bits func fl' (a # b # rest) k = Inr (rest, k')"
proof -
  have jq: "jflag fl = jflag fl'" "qflag fl = qflag fl'" using assms(3) by (simp_all add: same_kind_def)
  obtain num where h: "handle_nosign fl' (a # b # rest) = Inr (num, b # rest)"
    using handle_ok [OF assms(1) jq] by blast
  obtain c q where b: "b = KMem (Some (c # q))" "2 \<le> unat c" "unat c \<le> 36" "bits_ok q"
    using assms(2) unfolding has_ty_iff(1-3,5-) by blast
  have "unat c < 2 ^ 64" using b(3) by simp
  then have "unat (ucast c :: u64) = unat c" by (simp add: unsigned_ucast_eq take_bit_nat_eq_self)
  then show ?thesis
    using print_number_ok [of "ucast c" "Some q" func "fl'\<lparr>sign := False, ladjust := True\<rparr>" num False k] b
    by (auto simp: conv_bits_def h [unfolded b(1)])
qed

lemma convert_ok:
  assumes tys: "conv_tys ch fl stars = Some tys" and args: "list_all2 has_ty as tys"
    and kind: "same_kind fl fl'" "stars = 0 \<Longrightarrow> fl = fl'" and radix: "2 \<le> unat radix" "unat radix \<le> 36"
  shows "\<exists>k'. convert func radix ch fl' (as @ rest) k = Inr (True, rest, k')"
proof -
  have one: "\<exists>a. as = [a] \<and> has_ty a t" if "tys = [t]" for t
    using args that by (auto simp: list_all2_Cons2)
  have two: "\<exists>a b. as = [a, b] \<and> has_ty a t \<and> has_ty b u" if "tys = [t, u]" for t u
    using args that by (auto simp: list_all2_Cons2)
  consider "ch = 0x25" "as = []" | "ch = 0x62" "tys = [num_ty fl, TBits]" | "ch = 0x63" "tys = [TInt]" |
    "ch = 0x44" "stars = 0" "tys = [TBytes (if width fl = 0 then 16 else nat (width fl)), TSep]" |
    "ch = 0x6E" "tys = [TLoc]" | "ch = 0x70" "tys = [TPtr]" | "ch = 0x73" "tys = [TStr]" |
    "ch \<in> {0x64, 0x69, 0x6F, 0x72, 0x75, 0x58, 0x78, 0x79}" "tys = [num_ty fl]"
    using tys args by (auto simp: conv_tys_def split: if_splits)
  then show ?thesis
  proof cases
    case 1
    then show ?thesis by (simp add: convert_def)
  next
    case 2
    then obtain a b where "as = [a, b]" "has_ty a (num_ty fl)" "has_ty b TBits" using two by blast
    then show ?thesis using conv_bits_ok [OF _ _ kind(1), of a b func rest k] 2 by (auto simp: convert_def)
  next
    case 3
    then obtain x where "as = [KInt x]" using one [of TInt] unfolding has_ty_iff(1-3,5-) by blast
    then show ?thesis using 3 by (simp add: convert_def)
  next
    case 4
    then obtain a b where ab: "as = [a, b]" "has_ty a (TBytes (if width fl = 0 then 16 else nat (width fl)))" "has_ty b TSep"
      using two by blast
    obtain up m where m: "a = KMem (Some up)" "b = KMem (Some m)" "(if width fl = 0 then 16 else nat (width fl)) \<le> length up" "0 \<in> set m"
      using ab(2,3) unfolding has_ty_iff(1-3,5-) by blast
    show ?thesis
      using 4 ab m kind(2) dump_loop_ok [OF m(3,4), of func k] by (auto simp: convert_def print_dump_def)
  next
    case 5
    then obtain l where "as = [KLoc l]" using one [of TLoc] unfolding has_ty_iff(1-3,5-) by blast
    then show ?thesis using 5 by (simp add: convert_def)
  next
    case 6
    then obtain x where "as = [KPtr x]" using one [of TPtr] unfolding has_ty_iff(1-3,5-) by blast
    then show ?thesis
      using 6 print_number_ok [of 16 None func "fl'\<lparr>sharpflag := (width fl' = 0), sign := False\<rparr>" "ucast x" False k]
      by (auto simp: convert_def)
  next
    case 7
    then obtain m where "as = [KMem m]" "has_ty (KMem m) TStr"
      using one [of TStr] has_ty_iff(4) by blast
    then show ?thesis using 7 print_str_ok [of m func fl' k] by (auto simp: convert_def)
  next
    case 8
    then obtain a where a: "as = [a]" "has_ty a (num_ty fl)" using one by blast
    have ns: "\<exists>k'. res_bind (conv_nosign func fl' base u (a # rest) k) (\<lambda>(args', k'). Inr (True, args', k')) =
        Inr (True, rest, k')" if "2 \<le> unat base" "unat base \<le> 36" for base u
      using conv_number_ok(1) [OF a(2) kind(1) that, where func = func and rest = rest and k = k and upper = u] by auto
    have sg: "\<exists>k'. res_bind (conv_sign func fl' base (a # rest) k) (\<lambda>(args', k'). Inr (True, args', k')) =
        Inr (True, rest, k')" if "2 \<le> unat base" "unat base \<le> 36" for base
      using conv_number_ok(2) [OF a(2) kind(1) that, where func = func and rest = rest and k = k] by auto
    have "\<exists>k'. convert func radix ch fl' (a # rest) k = Inr (True, rest, k')"
      using 8(1) by (elim insertE emptyE) (simp_all add: convert_def ns sg radix)
    then show ?thesis using a by simp
  qed
qed

section \<open>Typed formats\<close>

lemma kv_loop_typed:
  assumes "fmt_type fmt = Some tys" "list_all2 has_ty args tys" "2 \<le> unat radix" "unat radix \<le> 36"
  shows "\<exists>k'. kv_loop func radix False fmt args k = Inr ([], k')"
  using assms(1,2)
proof (induction fmt arbitrary: tys args k rule: fmt_type.induct)
  case (2 ch fmt)
  show ?case
  proof (cases "ch = 0x25")
    case False
    then show ?thesis
      using "2.IH"(1) "2.prems" by (auto simp: fmt_type.simps(2) kv_loop.simps(2) split: if_splits)
  next
    case True
    then obtain c fl fmt' stars ctys tys' where d: "directive fmt = Some (c, fl, fmt', stars)"
        "conv_tys c fl stars = Some ctys" "fmt_type fmt' = Some tys'"
        "tys = replicate stars TInt @ ctys @ tys'"
      using "2.prems"(1) by (auto simp: fmt_type.simps(2) split: option.splits)
    obtain as1 as2 as3 where as: "args = as1 @ as2 @ as3" "list_all2 has_ty as1 (replicate stars TInt)"
        "list_all2 has_ty as2 ctys" "list_all2 has_ty as3 tys'"
      using "2.prems"(2) unfolding d(4) by (auto simp: list_all2_append2)
    obtain xs where xs: "as1 = map KInt xs" "length xs = stars"
    proof -
      have "length as1 = stars" "\<forall>a \<in> set as1. \<exists>x. a = KInt x"
        using as(2) by (auto simp: list_all2_conv_all_nth in_set_conv_nth has_ty_iff(1))
      then have "\<exists>xs. as1 = map KInt xs" by (simp add: ex_map_conv)
      then show ?thesis using that \<open>length as1 = stars\<close> by auto
    qed
    obtain rest where r: "reswitch kflags0 fmt (replicate (length fmt) (KInt 0)) = Inr (c, fl, fmt', rest)"
        "stars = length fmt - length rest"
      using d(1) by (auto simp: directive_def split: sum.splits)
    have "same_kind kflags0 kflags0" by (simp add: same_kind_def)
    from reswitch_typed [OF r(1) this] obtain fl' where fl':
        "reswitch kflags0 fmt (map KInt xs @ as2 @ as3) = Inr (c, fl', fmt', as2 @ as3)" "same_kind fl fl'"
        "stars = 0 \<Longrightarrow> fl = fl'"
      using xs r(2) by fastforce
    obtain k1 where k1: "convert func radix c fl' (as2 @ as3) k = Inr (True, as3, k1)"
      using convert_ok [OF d(2) as(3) fl'(2,3) assms(3,4)] by blast
    obtain k2 where "kv_loop func radix False fmt' as3 k1 = Inr ([], k2)"
      using "2.IH"(2) [of "(c, fl, fmt', stars)" c "(fl, fmt', stars)" fl "(fmt', stars)" fmt' stars ctys tys' as3 k1] d as(4) True
      by auto
    then show ?thesis using True fl'(1) k1 xs(1) as(1) by (simp add: kv_loop.simps(2))
  qed
qed simp

section \<open>Properties\<close>

lemma radix_ok:
  "2 \<le> unat (word_of_int (if radix < 2 \<or> radix > 36 then 10 else radix) :: u64)"
  "unat (word_of_int (if radix < 2 \<or> radix > 36 then 10 else radix) :: u64) \<le> 36"
proof -
  define r where "r = (if radix < 2 \<or> radix > 36 then 10 else radix)"
  have r: "2 \<le> r" "r \<le> 36" by (auto simp: r_def)
  then have "int (unat (word_of_int r :: u64)) = r" using uint_of_int64 [of r] by simp
  then show "2 \<le> unat (word_of_int (if radix < 2 \<or> radix > 36 then 10 else radix) :: u64)"
    "unat (word_of_int (if radix < 2 \<or> radix > 36 then 10 else radix) :: u64) \<le> 36"
    using r unfolding r_def [symmetric] by linarith+
qed

lemma kvprintf_returns:
  assumes "fmt_type fmt = Some tys" "list_all2 has_ty args tys"
  shows "\<exists>k. kvprintf (Some fmt) func s radix args = Inr k"
  using kv_loop_typed [OF assms radix_ok, of func radix "\<lparr>kstate = s, retval = 0, stores = []\<rparr>"]
  by (auto simp: kvprintf_def Let_def)

lemmas fmt_type_eval = fmt_type.simps(2) directive_def reswitch.simps(2) flag_case_def flag_char_def
  star_width_def kflags0_def conv_tys_def num_ty_def

text \<open>
  C7: Well-typed formats do not go wrong.  A format determines the types of its arguments, those of the stars
  included; with arguments of these types \<^verbatim>\<open>kvprintf\<close> returns for every receiver and every radix: it reads
  no memory outside the format and the arguments, overruns no buffer, fails no assertion and takes no argument of
  another type.  Widths and counts are mathematical integers: overflow of an \<^verbatim>\<open>int\<close> is outside the statement.
\<close>

theorem kvprintf_type_safe:
  assumes "fmt_type fmt = Some tys" "list_all2 has_ty args tys"
  shows "\<exists>k. kvprintf (Some fmt) func s radix args = Inr k"
  by (rule kvprintf_returns [OF assms])

text \<open>The format \<^verbatim>\<open>%*d %s\<close>.\<close>

theorem kvprintf_type_safe_witness:
  "\<exists>k. kvprintf (Some [0x25, 0x2A, 0x64, 0x20, 0x25, 0x73, 0]) collect [] 10
     [KInt 5, KInt 7, KMem (Some [0x61, 0])] = Inr k"
proof -
  have "fmt_type [0x25, 0x2A, 0x64, 0x20, 0x25, 0x73, 0] = Some [TInt, TInt, TStr]"
    by (simp add: fmt_type_eval)
  then show ?thesis by (rule kvprintf_type_safe) simp
qed

text \<open>
  A format that ends inside a directive is read past its end.  If a percent sign is followed by flags only and then by
  the terminating zero, the zero is taken as an unknown conversion, printed, and reading goes on
  behind it.
\<close>

theorem kvprintf_trailing_percent:
  assumes "list_all (\<lambda>c. c \<noteq> 0 \<and> c \<noteq> 0x25) pre"
    and "reswitch kflags0 (flags @ [0]) args = Inr (0, fl, [], args')"
  shows "kvprintf (Some (pre @ 0x25 # flags @ [0])) func s radix args = Inl BadAccess"
proof -
  have unknown: "convert func rx 0 fl args' k = Inr (False, args', k)" for rx k
    by (simp add: convert_def)
  have "kv_loop func rx False (0x25 # flags @ [0]) args k = Inl BadAccess" for rx k
    using assms(2) unknown by (simp add: kv_loop.simps(2))
  then have "kv_loop func rx False (pre @ 0x25 # flags @ [0]) args k = Inl BadAccess" for rx k
    using assms(1) by (induction pre arbitrary: k) (simp_all add: kv_loop.simps(2))
  then show ?thesis by (simp add: kvprintf_def Let_def)
qed

text \<open>The format \<^verbatim>\<open>5%-\<close>.\<close>

theorem kvprintf_trailing_percent_witness:
  "kvprintf (Some [0x35, 0x25, 0x2D, 0]) collect [] 10 [] = Inl BadAccess"
proof -
  have "reswitch kflags0 ([0x2D] @ [0]) [] = Inr (0, kflags0\<lparr>ladjust := True\<rparr>, [], [])"
    by (simp add: reswitch.simps(2) flag_case_def flag_char_def)
  from kvprintf_trailing_percent [OF _ this, of "[0x35]" collect "[]" 10] show ?thesis by simp
qed

end
