(* ===== verification/Printk.thy ===== *)
theory Printk
  imports Kprintf_Types
begin

text \<open>
  The kernel log of \<^verbatim>\<open>kernel/console.c\<close>: \<^verbatim>\<open>printk\<close> formats into a ring of 4096 characters, \<^verbatim>\<open>console_flush\<close> copies what
  has not been shown to the registered consoles.  The counters of the ring have 32 bits and
  are never reset.  The clock, the panic state and the semaphore of the log task are parameters or results.
\<close>

section \<open>State\<close>

definition PRINTK_BUFSIZ :: u32 where "PRINTK_BUFSIZ = 4096"

definition PRINTK_BUFIDX :: "u32 \<Rightarrow> nat" where
  "PRINTK_BUFIDX i = unat (i AND (PRINTK_BUFSIZ - 1))"

text \<open>For each registered console its name and the characters written to it.\<close>

record klog =
  printk_buf :: "u8 list"
  printk_head :: u32
  printk_tail :: u32
  console_list :: "(u8 list \<times> u8 list) list"

definition console_write :: "u8 list \<Rightarrow> klog \<Rightarrow> klog" where
  "console_write s p = p\<lparr>console_list := map (\<lambda>(nm, out). (nm, out @ s)) (console_list p)\<rparr>"

definition printk_putc :: "int \<Rightarrow> klog \<Rightarrow> klog" where
  "printk_putc c p =
     p\<lparr>printk_buf := (printk_buf p)[PRINTK_BUFIDX (printk_head p) := word_of_int c],
       printk_head := printk_head p + 1\<rparr>"

definition kprintf :: "u8 list option \<Rightarrow> karg list \<Rightarrow> klog \<Rightarrow> (nat \<times> klog) res" where
  "kprintf fmt args p =
     res_bind (kvprintf fmt printk_putc p 10 args) (\<lambda>k. Inr (retval k, kstate k))"

section \<open>Showing the log\<close>

text \<open>The loop from the tail to the head; an unsigned comparison ends it.\<close>

function flush_loop :: "klog \<Rightarrow> klog" where
  "flush_loop p =
     (if printk_tail p < printk_head p
      then flush_loop
             ((console_write [printk_buf p ! PRINTK_BUFIDX (printk_tail p)] p)\<lparr>printk_tail := printk_tail p + 1\<rparr>)
      else p)"
  by pat_completeness auto
termination
proof (relation "measure (\<lambda>p. unat (printk_head p) - unat (printk_tail p))")
  fix p :: klog assume less: "printk_tail p < printk_head p"
  then have "unat (printk_tail p + 1) = unat (printk_tail p) + 1"
    using unat_plus32 [of "printk_tail p" 1] unat_lt32 [of "printk_head p"] by (simp add: word_less_nat_alt)
  then show "((console_write [printk_buf p ! PRINTK_BUFIDX (printk_tail p)] p)\<lparr>printk_tail := printk_tail p + 1\<rparr>, p)
      \<in> measure (\<lambda>p. unat (printk_head p) - unat (printk_tail p))"
    using less by (simp add: console_write_def word_less_nat_alt)
qed simp

declare flush_loop.simps [simp del]

definition console_flush :: "klog \<Rightarrow> klog" where
  "console_flush p =
     (let p1 = (if printk_head p - printk_tail p > PRINTK_BUFSIZ
                then p\<lparr>printk_tail := printk_head p - PRINTK_BUFSIZ\<rparr> else p);
          p2 = flush_loop p1
      in p2\<lparr>printk_tail := printk_head p2\<rparr>)"

text \<open>\<^verbatim>\<open>[%06u.%06u] \<close>\<close>

definition stamp_fmt :: "u8 list" where
  "stamp_fmt = [0x5B, 0x25, 0x30, 0x36, 0x75, 0x2E, 0x25, 0x30, 0x36, 0x75, 0x5D, 0x20, 0]"

text \<open>
  \<open>us\<close> is the time in microseconds.  The result has the length and whether the semaphore of the log task is
  released; in a panic the log is shown at once.
\<close>

definition printk :: "bool \<Rightarrow> u32 \<Rightarrow> u8 list option \<Rightarrow> karg list \<Rightarrow> klog \<Rightarrow> (nat \<times> bool \<times> klog) res" where
  "printk in_panic us fmt args p =
     res_bind
       (if printk_buf p ! PRINTK_BUFIDX (printk_head p - 1) = 0x0A
        then kprintf (Some stamp_fmt) [KInt (us div 1000000), KInt (us mod 1000000)] p
        else Inr (0, p))
       (\<lambda>(len, p1).
          res_bind (kprintf fmt args p1) (\<lambda>(len', p2).
            Inr (len + len', \<not> in_panic, if in_panic then console_flush p2 else p2)))"

text \<open>One round of the log task, after it has acquired the semaphore.\<close>

definition klogd_round :: "bool \<Rightarrow> klog \<Rightarrow> klog" where
  "klogd_round in_panic p = (if in_panic then p else console_flush p)"

definition register_console :: "bool \<Rightarrow> u32 \<Rightarrow> u8 list \<Rightarrow> klog \<Rightarrow> (int \<times> klog) res" where
  "register_console in_panic us nm p =
     res_bind (printk in_panic us
         (Some [0x43, 0x4F, 0x4E, 0x53, 0x4F, 0x4C, 0x45, 0x3A, 0x20, 0x61, 0x64, 0x64, 0x20, 0x25, 0x73, 0x0A, 0])
         [KMem (Some (nm @ [0]))] p)
       (\<lambda>(_, _, p1). Inr (0, p1\<lparr>console_list := console_list p1 @ [(nm, [])]\<rparr>))"

text \<open>\<^verbatim>\<open>db_printf\<close> on the characters that \<^verbatim>\<open>putchar\<close> has been given.\<close>

definition putc_func :: "int \<Rightarrow> int list \<Rightarrow> int list" where
  "putc_func c out = out @ [c]"

definition db_printf :: "u8 list option \<Rightarrow> karg list \<Rightarrow> int list \<Rightarrow> (nat \<times> int list) res" where
  "db_printf fmt args out = res_bind (kvprintf fmt putc_func out 10 args) (\<lambda>k. Inr (retval k, kstate k))"

section \<open>Refinement of a log\<close>

text \<open>
  \<open>L\<close> is everything that was ever logged and \<open>F\<close> how much of it has been dealt with.  The ring has the last
  4096 characters.
\<close>

definition log_inv :: "u8 list \<Rightarrow> nat \<Rightarrow> klog \<Rightarrow> bool" where
  "log_inv L F p =
     (length (printk_buf p) = 4096 \<and> printk_head p = of_nat (length L) \<and> printk_tail p = of_nat F \<and> F \<le> length L \<and>
      (\<forall>i < length L. length L \<le> i + 4096 \<longrightarrow> printk_buf p ! (i mod 4096) = L ! i) \<and>
      (L = [] \<longrightarrow> printk_buf p ! 4095 \<noteq> 0x0A))"

lemma bufidx_of_nat: "PRINTK_BUFIDX (of_nat n) = n mod 4096"
proof -
  have "(of_nat n :: u32) AND (PRINTK_BUFSIZ - 1) = take_bit 12 (of_nat n)"
    by (simp add: PRINTK_BUFSIZ_def take_bit_eq_mask mask_eq_exp_minus_1)
  moreover have "unat (take_bit 12 (of_nat n :: u32)) = take_bit 12 (take_bit 32 n)"
    by (simp add: unsigned_take_bit_eq unsigned_of_nat)
  ultimately show ?thesis by (simp add: PRINTK_BUFIDX_def take_bit_eq_mod mod_mod_cancel)
qed

lemma log_putc:
  assumes "log_inv L F p"
  shows "log_inv (L @ [word_of_int c]) F (printk_putc c p) \<and> console_list (printk_putc c p) = console_list p"
proof -
  have idx: "PRINTK_BUFIDX (printk_head p) = length L mod 4096"
    using assms bufidx_of_nat by (simp add: log_inv_def)
  have ring: "(printk_buf p)[length L mod 4096 := x] ! (i mod 4096) = (if i = length L then x else L ! i)"
    if i: "i \<le> length L" "length L < i + 4096" for i x
  proof (cases "i = length L")
    case True
    then show ?thesis using assms by (simp add: log_inv_def)
  next
    case False
    have "i mod 4096 \<noteq> length L mod 4096"
    proof
      assume "i mod 4096 = length L mod 4096"
      then have "4096 dvd length L - i" using mod_eq_dvd_iff_nat [OF i(1), of 4096] by simp
      then show False using False i by (auto dest: dvd_imp_le)
    qed
    then show ?thesis using False assms i by (simp add: log_inv_def)
  qed
  define p' where "p' = printk_putc c p"
  have p': "printk_buf p' = (printk_buf p)[length L mod 4096 := word_of_int c]" "printk_head p' = printk_head p + 1"
    "printk_tail p' = printk_tail p" "console_list p' = console_list p"
    by (simp_all add: p'_def printk_putc_def idx)
  have "printk_buf p' ! (i mod 4096) = (L @ [word_of_int c]) ! i"
    if "i < length (L @ [word_of_int c])" "length (L @ [word_of_int c]) \<le> i + 4096" for i
    using ring [of i "word_of_int c"] that by (auto simp: p' nth_append)
  then show ?thesis
    using assms p' unfolding p'_def [symmetric] log_inv_def by (simp add: add.commute)
qed

lemma log_fold:
  "log_inv L F p \<Longrightarrow> log_inv (L @ map word_of_int cs) F (fold printk_putc cs p) \<and>
     console_list (fold printk_putc cs p) = console_list p"
proof (induction cs arbitrary: L p)
  case (Cons c cs)
  then show ?case using log_putc [OF Cons.prems, of c] Cons.IH [of "L @ [word_of_int c]" "printk_putc c p"] by simp
qed simp

section \<open>Showing\<close>

text \<open>Every console gets the characters \<open>cs\<close>.\<close>

definition shown :: "u8 list \<Rightarrow> (u8 list \<times> u8 list) list \<Rightarrow> (u8 list \<times> u8 list) list" where
  "shown cs = map (\<lambda>(nm, out). (nm, out @ cs))"

lemma shown_shown: "shown ys (shown xs cl) = shown (xs @ ys) cl"
  by (simp add: shown_def case_prod_beta)

lemma shown_Nil: "shown [] cl = cl"
  by (simp add: shown_def)

lemma unat_sub_nat:
  assumes "m \<le> n" "m \<le> n mod 4294967296"
  shows "unat (of_nat (n - m) :: u32) = n mod 4294967296 - m"
proof -
  have e: "n - m = n div 4294967296 * 4294967296 + (n mod 4294967296 - m)"
    using assms(2) div_mult_mod_eq [of n 4294967296] by linarith
  have "(n - m) mod 4294967296 = (n mod 4294967296 - m) mod 4294967296"
    by (subst e) (rule mod_mult_self3)
  also have "\<dots> = n mod 4294967296 - m"
    using mod_less_divisor [of 4294967296 n] by (intro mod_less) linarith
  finally show ?thesis by (simp add: unsigned_of_nat take_bit_eq_mod)
qed

lemma unat_sub_wrapped:
  assumes "m \<le> n" "n mod 4294967296 < m" "m \<le> 4096"
  shows "unat (of_nat (n - m) :: u32) = 4294967296 + n mod 4294967296 - m"
proof -
  have "n div 4294967296 \<noteq> 0" using assms(1,2) div_mult_mod_eq [of n 4294967296] by linarith
  then obtain q where q: "n div 4294967296 = Suc q" by (cases "n div 4294967296") auto
  have e: "n - m = q * 4294967296 + (4294967296 + n mod 4294967296 - m)"
    using assms(3) div_mult_mod_eq [of n 4294967296] unfolding q by simp
  have "(n - m) mod 4294967296 = (4294967296 + n mod 4294967296 - m) mod 4294967296"
    by (subst e) (rule mod_mult_self3)
  also have "\<dots> = 4294967296 + n mod 4294967296 - m" using assms(2) by (intro mod_less) linarith
  finally show ?thesis by (simp add: unsigned_of_nat take_bit_eq_mod)
qed

lemma flush_loop_shows:
  assumes "length (printk_buf p) = 4096" "printk_head p = of_nat (length L)" "printk_tail p = of_nat (length L - m)"
    and "\<forall>i < length L. length L \<le> i + 4096 \<longrightarrow> printk_buf p ! (i mod 4096) = L ! i"
    and "m \<le> 4096" "m \<le> length L" "m \<le> length L mod 4294967296"
  shows "flush_loop p = p\<lparr>console_list := shown (drop (length L - m) L) (console_list p), printk_tail := printk_head p\<rparr>"
  using assms
proof (induction m arbitrary: p)
  case 0
  then show ?case by (simp add: flush_loop.simps [of p] shown_Nil)
next
  case (Suc m)
  define c where "c = L ! (length L - Suc m)"
  have "unat (printk_tail p) = length L mod 4294967296 - Suc m"
    using Suc.prems(3) unat_sub_nat [of "Suc m" "length L"] Suc.prems(6,7) by simp
  moreover have "unat (printk_head p) = length L mod 4294967296"
    using Suc.prems(2) by (simp add: unsigned_of_nat take_bit_eq_mod)
  ultimately have less: "printk_tail p < printk_head p" using Suc.prems(7) by (simp add: word_less_nat_alt)
  have ch: "printk_buf p ! PRINTK_BUFIDX (printk_tail p) = c"
    unfolding Suc.prems(3) bufidx_of_nat c_def using Suc.prems(4-6) by auto
  have next_tail: "printk_tail p + 1 = of_nat (length L - m)"
  proof -
    have "length L - m = Suc (length L - Suc m)" using Suc.prems(6) by simp
    then show ?thesis using Suc.prems(3) by (simp add: add.commute)
  qed
  have drop: "drop (length L - Suc m) L = c # drop (length L - m) L"
    using Suc.prems(6) Cons_nth_drop_Suc [of "length L - Suc m" L] by (simp add: c_def Suc_diff_Suc)
  define p1 where "p1 = (console_write [c] p)\<lparr>printk_tail := printk_tail p + 1\<rparr>"
  have cl: "console_list p1 = shown [c] (console_list p)" by (simp add: p1_def console_write_def shown_def)
  have "flush_loop p1 = p1\<lparr>console_list := shown (drop (length L - m) L) (console_list p1), printk_tail := printk_head p1\<rparr>"
    using Suc.prems next_tail by (intro Suc.IH) (simp_all add: p1_def console_write_def)
  then show ?case
    using less ch cl drop by (simp add: flush_loop.simps [of p] p1_def [symmetric] shown_shown)
      (simp add: p1_def console_write_def)
qed

text \<open>
  What a flush shows: at most the last 4096 unread characters; nothing at all if the head has just
  wrapped and these characters began before it did.
\<close>

definition flushed :: "u8 list \<Rightarrow> nat \<Rightarrow> u8 list" where
  "flushed L F =
     (let n = min 4096 (length L - F) in if n \<le> length L mod 4294967296 then drop (length L - n) L else [])"

lemma console_flush_log:
  assumes inv: "log_inv L F p" and small: "length L - F < 4294967296"
  shows "log_inv L (length L) (console_flush p) \<and>
    console_list (console_flush p) = shown (flushed L F) (console_list p)"
proof -
  define n where "n = min 4096 (length L - F)"
  define p1 where "p1 = (if printk_head p - printk_tail p > PRINTK_BUFSIZ
    then p\<lparr>printk_tail := printk_head p - PRINTK_BUFSIZ\<rparr> else p)"
  have "printk_head p - printk_tail p = of_nat (length L - F)" using inv by (simp add: log_inv_def of_nat_diff)
  then have gap: "unat (printk_head p - printk_tail p) = length L - F"
    using small by (simp add: unsigned_of_nat take_bit_nat_eq_self)
  have tail: "printk_tail p1 = of_nat (length L - n)"
  proof (cases "4096 < length L - F")
    case True
    then have "p1 = p\<lparr>printk_tail := printk_head p - PRINTK_BUFSIZ\<rparr>" "n = 4096"
      using gap by (simp_all add: p1_def n_def word_less_nat_alt PRINTK_BUFSIZ_def)
    then show ?thesis using inv True by (simp add: log_inv_def of_nat_diff PRINTK_BUFSIZ_def)
  next
    case False
    then have "p1 = p" "n = length L - F"
      using gap by (simp_all add: p1_def n_def word_less_nat_alt PRINTK_BUFSIZ_def)
    then show ?thesis using inv by (simp add: log_inv_def)
  qed
  have n: "n \<le> 4096" "n \<le> length L" by (simp_all add: n_def)
  have p1: "printk_buf p1 = printk_buf p" "printk_head p1 = printk_head p" "console_list p1 = console_list p"
    by (simp_all add: p1_def)
  have loop: "flush_loop p1 = p1\<lparr>console_list := shown (flushed L F) (console_list p1),
      printk_tail := printk_tail (flush_loop p1)\<rparr>"
  proof (cases "n \<le> length L mod 4294967296")
    case True
    then have "flush_loop p1 = p1\<lparr>console_list := shown (drop (length L - n) L) (console_list p1), printk_tail := printk_head p1\<rparr>"
      using inv n tail by (intro flush_loop_shows) (simp_all add: p1 log_inv_def)
    then show ?thesis using True by (simp add: flushed_def n_def Let_def)
  next
    case False
    have "unat (of_nat (length L - n) :: u32) = 4294967296 + length L mod 4294967296 - n"
      using False n by (intro unat_sub_wrapped) simp_all
    moreover have "unat (printk_head p1) = length L mod 4294967296"
      using inv by (simp add: p1 log_inv_def unsigned_of_nat take_bit_eq_mod)
    ultimately have "\<not> printk_tail p1 < printk_head p1" using n(1) by (simp add: tail word_less_nat_alt)
    then show ?thesis using False by (simp add: flush_loop.simps [of p1] flushed_def n_def Let_def shown_Nil)
  qed
  have "console_flush p = p1\<lparr>console_list := shown (flushed L F) (console_list p), printk_tail := printk_head p\<rparr>"
    unfolding console_flush_def Let_def p1_def [symmetric] by (subst (1 2) loop) (simp add: p1)
  then show ?thesis using inv by (simp add: log_inv_def p1)
qed

section \<open>Logging\<close>

lemma kprintf_collect:
  "kprintf fmt args p =
     res_bind (kvprintf fmt collect [] 10 args) (\<lambda>c. Inr (retval c, fold printk_putc (kstate c) p))"
  unfolding kprintf_def kvprintf_collect [of fmt printk_putc] by (cases "kvprintf fmt collect [] 10 args") simp_all

definition stamp :: "u32 \<Rightarrow> u8 list" where
  "stamp us =
     (case kvprintf (Some stamp_fmt) collect [] 10 [KInt (us div 1000000), KInt (us mod 1000000)] of
        Inl _ \<Rightarrow> [] | Inr k \<Rightarrow> map word_of_int (kstate k))"

lemma stamp_type: "fmt_type stamp_fmt = Some [TInt, TInt]"
  by (simp add: stamp_fmt_def fmt_type_eval)

lemma kprintf_stamp:
  assumes "log_inv L F p"
  shows "\<exists>n p'. kprintf (Some stamp_fmt) [KInt (us div 1000000), KInt (us mod 1000000)] p = Inr (n, p') \<and>
    log_inv (L @ stamp us) F p' \<and> console_list p' = console_list p"
proof -
  obtain k where k: "kvprintf (Some stamp_fmt) collect [] 10 [KInt (us div 1000000), KInt (us mod 1000000)] = Inr k"
    using kvprintf_returns [OF stamp_type, of "[KInt (us div 1000000), KInt (us mod 1000000)]" collect "[]" 10] by auto
  then show ?thesis using log_fold [OF assms, of "kstate k"] by (simp add: kprintf_collect stamp_def)
qed

text \<open>The time is put in front of the text when the log is at the start of a line.\<close>

definition entry :: "u32 \<Rightarrow> u8 list \<Rightarrow> int list \<Rightarrow> u8 list" where
  "entry us L cs = (if L \<noteq> [] \<and> last L = 0x0A then stamp us else []) @ map word_of_int cs"

lemma log_last:
  assumes "log_inv L F p"
  shows "printk_buf p ! PRINTK_BUFIDX (printk_head p - 1) = 0x0A \<longleftrightarrow> L \<noteq> [] \<and> last L = 0x0A"
proof (cases "L = []")
  case True
  have "PRINTK_BUFIDX (-1) = 4095" by (simp add: PRINTK_BUFIDX_def PRINTK_BUFSIZ_def)
  then show ?thesis using True assms by (simp add: log_inv_def)
next
  case False
  then have "printk_head p - 1 = of_nat (length L - 1)" using assms by (simp add: log_inv_def of_nat_diff Suc_leI)
  then have "printk_buf p ! PRINTK_BUFIDX (printk_head p - 1) = L ! (length L - 1)"
    using assms False by (simp only: bufidx_of_nat) (auto simp: log_inv_def)
  then show ?thesis using False by (simp add: last_conv_nth)
qed

lemma printk_log:
  assumes inv: "log_inv L F p" and out: "kvprintf fmt collect [] 10 args = Inr k"
  shows "\<exists>n p'. printk False us fmt args p = Inr (n, True, p') \<and> log_inv (L @ entry us L (kstate k)) F p' \<and>
    console_list p' = console_list p"
proof -
  obtain n p1 where p1: "(if printk_buf p ! PRINTK_BUFIDX (printk_head p - 1) = 0x0A
      then kprintf (Some stamp_fmt) [KInt (us div 1000000), KInt (us mod 1000000)] p else Inr (0, p)) = Inr (n, p1)"
      "log_inv (L @ (if L \<noteq> [] \<and> last L = 0x0A then stamp us else [])) F p1" "console_list p1 = console_list p"
    using kprintf_stamp [OF inv, of us] inv unfolding log_last [OF inv] by (cases "L \<noteq> [] \<and> last L = 0x0A") auto
  show ?thesis
    using log_fold [OF p1(2), of "kstate k"] p1(3)
    unfolding printk_def p1(1) by (simp add: kprintf_collect out entry_def)
qed

section \<open>Properties\<close>

datatype log_op = Log u32 "u8 list option" "karg list" | Show

text \<open>The code on a sequence of messages and rounds of the log task; the specification on the list of all
  characters, how many were dealt with, and what each console has got.\<close>

fun log_run :: "log_op list \<Rightarrow> klog \<Rightarrow> klog res" where
  "log_run [] p = Inr p"
| "log_run (Log us fmt args # ops) p = res_bind (printk False us fmt args p) (\<lambda>(_, _, p'). log_run ops p')"
| "log_run (Show # ops) p = log_run ops (klogd_round False p)"

fun log_spec :: "log_op list \<Rightarrow> u8 list \<Rightarrow> nat \<Rightarrow> u8 list \<Rightarrow> (u8 list \<times> u8 list) res" where
  "log_spec [] L F out = Inr (L, out)"
| "log_spec (Log us fmt args # ops) L F out =
     res_bind (kvprintf fmt collect [] 10 args) (\<lambda>k. log_spec ops (L @ entry us L (kstate k)) F out)"
| "log_spec (Show # ops) L F out = log_spec ops L (length L) (out @ drop (max F (length L - 4096)) L)"

lemma log_spec_grows: "log_spec ops L F out = Inr (L', out') \<Longrightarrow> length L \<le> length L'"
  by (induction ops L F out rule: log_spec.induct) (fastforce simp: res_bind_Inr_iff)+

lemma flushed_unwrapped: "length L < 4294967296 \<Longrightarrow> F \<le> length L \<Longrightarrow> flushed L F = drop (max F (length L - 4096)) L"
  by (auto simp: flushed_def Let_def min_def max_def)

lemma log_run_spec:
  assumes "log_inv L F p" "log_spec ops L F out = Inr (L', out')" "length L' < 4294967296"
    and "console_list p = shown out cl"
  shows "\<exists>p' F'. log_run ops p = Inr p' \<and> log_inv L' F' p' \<and> console_list p' = shown out' cl"
  using assms
proof (induction ops L F out arbitrary: p rule: log_spec.induct)
  case (2 us fmt args ops L F out)
  then obtain k where k: "kvprintf fmt collect [] 10 args = Inr k"
      "log_spec ops (L @ entry us L (kstate k)) F out = Inr (L', out')"
    by (auto simp: res_bind_Inr_iff)
  obtain n p1 where "printk False us fmt args p = Inr (n, True, p1)" "log_inv (L @ entry us L (kstate k)) F p1"
      "console_list p1 = console_list p"
    using printk_log [OF "2.prems"(1) k(1)] by blast
  then show ?case using "2.IH" [OF _ k(2) "2.prems"(3)] "2.prems"(4) by simp
next
  case (3 ops L F out)
  have F: "F \<le> length L" "length L < 4294967296"
    using "3.prems" log_spec_grows [of ops] by (fastforce simp: log_inv_def)+
  have "log_inv L (length L) (console_flush p)"
    "console_list (console_flush p) = shown (out @ drop (max F (length L - 4096)) L) cl"
    using console_flush_log [OF "3.prems"(1)] F "3.prems"(4) by (simp_all add: flushed_unwrapped shown_shown)
  then show ?case using "3.IH" "3.prems"(2,3) by (simp add: klogd_round_def)
qed auto

text \<open>
  C10: The kernel log.  Up to 4 GiB of output, for every sequence of messages and rounds of the log task, each
  round shows on every console exactly what was logged since the last round, or its last 4096 characters if
  it was more; nothing is shown twice, and a message at the start of a line has its time in front.
\<close>

theorem printk_log_refines:
  assumes "log_inv [] 0 p" "log_spec ops [] 0 [] = Inr (L, out)" "length L < 4294967296"
  shows "\<exists>p'. log_run ops p = Inr p' \<and> console_list p' = shown out (console_list p)"
  using log_run_spec [OF assms, of "console_list p"] by (auto simp: shown_Nil)

definition ex_klog :: klog where
  "ex_klog = \<lparr>printk_buf = replicate 4096 0, printk_head = 0, printk_tail = 0, console_list = [([0x63], [])]\<rparr>"

theorem printk_log_refines_witness:
  "\<exists>p'. log_run [Log 0 (Some [0x61, 0]) [], Show, Log 5 (Some [0x62, 0]) [], Show] ex_klog = Inr p' \<and>
     console_list p' = [([0x63], [0x61, 0x62])]"
proof -
  have inv: "log_inv [] 0 ex_klog" by (simp add: log_inv_def ex_klog_def)
  have "kvprintf (Some [c, 0]) collect [] 10 [] = Inr \<lparr>kstate = [uint c], retval = 1, stores = []\<rparr>"
    if "c \<noteq> 0" "c \<noteq> 0x25" for c
    using that by (simp add: kvprintf_def kv_loop.simps(2) PCHAR_def)
  then have "log_spec [Log 0 (Some [0x61, 0]) [], Show, Log 5 (Some [0x62, 0]) [], Show] [] 0 [] = Inr ([0x61, 0x62], [0x61, 0x62])"
    by (simp add: entry_def)
  from printk_log_refines [OF inv this] show ?thesis by (simp add: shown_def ex_klog_def)
qed

text \<open>
  A flush just after the head has wrapped loses the log.  If the unread characters began before the head passed
  4 GiB, the comparison of tail and head is false from the start: nothing is shown, and the tail is moved over the
  unread characters.
\<close>

theorem printk_wrap_loses:
  assumes "log_inv L F p" "length L - F < 4294967296" "length L mod 4294967296 < min 4096 (length L - F)"
  shows "console_list (console_flush p) = console_list p \<and> log_inv L (length L) (console_flush p)"
  using console_flush_log [OF assms(1,2)] assms(3) by (simp add: flushed_def Let_def shown_Nil)

theorem printk_wrap_loses_witness:
  "console_list (console_flush \<lparr>printk_buf = replicate 4096 0x61, printk_head = 1, printk_tail = 0xFFFFFFF0,
     console_list = [([0x63], [])]\<rparr>) = [([0x63], [])]"
proof -
  have "log_inv (replicate 4294967297 0x61) 4294967280 \<lparr>printk_buf = replicate 4096 0x61, printk_head = 1,
      printk_tail = 0xFFFFFFF0, console_list = [([0x63], [])]\<rparr>"
    unfolding log_inv_def by (intro conjI) (auto simp: nth_replicate)
  from printk_wrap_loses [OF this] show ?thesis by simp
qed

end
