(* ===== verification/Hex_Dump.thy ===== *)
theory Hex_Dump
  imports Printk
begin

text \<open>
  Hexadecimal dumps, \<^verbatim>\<open>hex_dump_to_buffer\<close> and \<^verbatim>\<open>print_hex_dump\<close> of \<^verbatim>\<open>kernel/console.c\<close>.  \<^verbatim>\<open>snprintf\<close> is the C
  function: it stores what fits with a terminating zero and returns the length of the whole text.  Group sizes are
  not negative.
\<close>

section \<open>The code\<close>

definition is_power_of_2 :: "u32 \<Rightarrow> bool" where
  "is_power_of_2 n = (n \<noteq> 0 \<and> n AND (n - 1) = 0)"

definition hex_asc :: "nat \<Rightarrow> u8" where
  "hex_asc d = (if d < 10 then 0x30 + of_nat d else 0x61 + of_nat (d - 10))"

text \<open>A store through \<^verbatim>\<open>linebuf\<close>, whose object ends with the list.\<close>

definition put :: "u8 list \<Rightarrow> nat \<Rightarrow> u8 \<Rightarrow> u8 list res" where
  "put lb i c = (if i < length lb then Inr (lb[i := c]) else Inl BadAccess)"

definition c_snprintf :: "u8 list \<Rightarrow> nat \<Rightarrow> nat \<Rightarrow> u8 list \<Rightarrow> (nat \<times> u8 list) res" where
  "c_snprintf lb pos n t =
     (if n = 0 then Inr (length t, lb)
      else (let s = take (n - 1) t @ [0]
            in if pos + length s \<le> length lb
               then Inr (length t, take pos lb @ s @ drop (pos + length s) lb)
               else Inl BadAccess))"

text \<open>The digits of a little-endian group, the last byte first.\<close>

definition byte_hex :: "u8 \<Rightarrow> u8 list" where
  "byte_hex b = [hex_asc (unat b div 16), hex_asc (unat b mod 16)]"

definition group_hex :: "u8 list \<Rightarrow> u8 list" where
  "group_hex g = concat (map byte_hex (rev g))"

text \<open>The loop over groups of two or four bytes; the result is none after an overflow.\<close>

fun group_loop :: "nat \<Rightarrow> bool \<Rightarrow> u8 list list \<Rightarrow> u8 list \<Rightarrow> nat \<Rightarrow> (nat option \<times> u8 list) res" where
  "group_loop n first [] lb lx = Inr (Some lx, lb)"
| "group_loop n first (g # gs) lb lx =
     res_bind (c_snprintf lb lx (n - lx) ((if first then [] else [0x20]) @ group_hex g)) (\<lambda>(ret, lb').
       if ret \<ge> n - lx then Inr (None, lb') else group_loop n False gs lb' (lx + ret))"

text \<open>The loop over single bytes: three guarded stores for each.  Characters left to store are in the list.\<close>

fun byte_loop :: "nat \<Rightarrow> u8 list \<Rightarrow> u8 list \<Rightarrow> nat \<Rightarrow> (bool \<times> u8 list \<times> nat) res" where
  "byte_loop n [] lb lx = Inr (False, lb, lx)"
| "byte_loop n (c # cs) lb lx =
     (if n < lx + 2 then Inr (True, lb, lx)
      else res_bind (put lb lx c) (\<lambda>lb'. byte_loop n cs lb' (lx + 1)))"

fun chunks :: "nat \<Rightarrow> nat \<Rightarrow> 'a list \<Rightarrow> 'a list list" where
  "chunks 0 g xs = []"
| "chunks (Suc k) g xs = take g xs # chunks k g (drop g xs)"

definition row_size :: "int \<Rightarrow> nat" where
  "row_size rowsize = (if rowsize \<noteq> 16 \<and> rowsize \<noteq> 32 then 16 else nat rowsize)"

definition group_size :: "nat \<Rightarrow> nat \<Rightarrow> nat" where
  "group_size len groupsize =
     (let g1 = (if \<not> is_power_of_2 (of_nat groupsize) \<or> groupsize > 8 then 1 else groupsize);
          g2 = (if len mod g1 \<noteq> 0 then 1 else g1)
      in if g2 > 4 then 4 else g2)"

definition hex_dump_to_buffer ::
  "u8 list \<Rightarrow> nat \<Rightarrow> int \<Rightarrow> nat \<Rightarrow> u8 list \<Rightarrow> nat \<Rightarrow> bool \<Rightarrow> (int \<times> u8 list) res" where
  "hex_dump_to_buffer buf len0 rowsize0 groupsize0 linebuf linebuflen ascii =
     (let rowsize = row_size rowsize0;
          len = (if len0 > rowsize then rowsize else len0);
          groupsize = group_size len groupsize0;
          ngroups = len div groupsize;
          ascii_column = rowsize * 2 + rowsize div groupsize + 1;
          overflow = (if ascii then int (ascii_column + len) else int ((groupsize * 2 + 1) * ngroups) - 1)
      in if linebuflen = 0 then Inr (overflow, linebuf)
         else if len = 0 then res_bind (put linebuf 0 0) (\<lambda>lb. Inr (0, lb))
         else if length buf < len then Inl BadAccess
         else if groupsize = 4 \<or> groupsize = 2
         then res_bind (group_loop linebuflen True (chunks ngroups groupsize buf) linebuf 0) (\<lambda>(r, lb).
                case r of
                  None \<Rightarrow> Inr (overflow, lb)
                | Some lx \<Rightarrow> res_bind (put lb lx 0) (\<lambda>lb'. Inr (int lx, lb')))
         else res_bind (byte_loop linebuflen (concat (map (\<lambda>b. byte_hex b @ [0x20]) (take len buf))) linebuf 0)
                (\<lambda>(over, lb, lx).
                   if over then res_bind (put lb lx 0) (\<lambda>lb'. Inr (overflow, lb'))
                   else res_bind (put lb (lx - 1) 0) (\<lambda>lb'. Inr (int lx - 1, lb'))))"

datatype prefix_type = DUMP_PREFIX_NONE | DUMP_PREFIX_ADDRESS | DUMP_PREFIX_OFFSET

text \<open>\<^verbatim>\<open>%s%s%p: %s\<close>, \<^verbatim>\<open>%s%s%.8x: %s\<close> and \<^verbatim>\<open>%s%s%s\<close>, each with a newline.\<close>

definition dump_line :: "prefix_type \<Rightarrow> u8 list \<Rightarrow> u32 \<Rightarrow> nat \<Rightarrow> u8 list \<Rightarrow> u8 list \<times> karg list" where
  "dump_line pt prefix ptr i linebuf =
     (let s = (\<lambda>m. KMem (Some m)); head = [0x25, 0x73, 0x25, 0x73]; tail = [0x25, 0x73, 0x0A, 0]
      in case pt of
           DUMP_PREFIX_ADDRESS \<Rightarrow>
             (head @ [0x25, 0x70, 0x3A, 0x20] @ tail, [s [0], s prefix, KPtr (ptr + of_nat i), s linebuf])
         | DUMP_PREFIX_OFFSET \<Rightarrow>
             (head @ [0x25, 0x2E, 0x38, 0x78, 0x3A, 0x20] @ tail, [s [0], s prefix, KInt (of_nat i), s linebuf])
         | DUMP_PREFIX_NONE \<Rightarrow> (head @ tail, [s [0], s prefix, s linebuf]))"

text \<open>The rows that are left, with the buffer of the previous row; \<open>us\<close> is the time of each message.\<close>

fun dump_rows ::
  "nat \<Rightarrow> (nat \<Rightarrow> u32) \<Rightarrow> prefix_type \<Rightarrow> u8 list \<Rightarrow> u32 \<Rightarrow> nat \<Rightarrow> nat \<Rightarrow> bool \<Rightarrow> nat \<Rightarrow> u8 list \<Rightarrow> u8 list \<Rightarrow>
   klog \<Rightarrow> klog res" where
  "dump_rows 0 us pt prefix ptr rowsize groupsize ascii i buf linebuf p = Inr p"
| "dump_rows (Suc n) us pt prefix ptr rowsize groupsize ascii i buf linebuf p =
     res_bind (hex_dump_to_buffer buf (min (length buf) rowsize) (int rowsize) groupsize linebuf (length linebuf) ascii)
       (\<lambda>(_, lb).
          (let (fmt, args) = dump_line pt prefix ptr i lb
           in res_bind (printk False (us i) (Some fmt) args p) (\<lambda>(_, _, p').
                dump_rows n us pt prefix ptr rowsize groupsize ascii (i + rowsize) (drop rowsize buf) lb p')))"

text \<open>\<open>buf\<close> has the \<^verbatim>\<open>len\<close> bytes to dump, \<open>stack\<close> what the local buffer of 131 bytes happens to hold.\<close>

definition print_hex_dump ::
  "(nat \<Rightarrow> u32) \<Rightarrow> u8 list \<Rightarrow> prefix_type \<Rightarrow> int \<Rightarrow> nat \<Rightarrow> u32 \<Rightarrow> u8 list \<Rightarrow> bool \<Rightarrow> u8 list \<Rightarrow> klog \<Rightarrow> klog res" where
  "print_hex_dump us prefix pt rowsize groupsize ptr buf ascii stack p =
     (let r = row_size rowsize
      in dump_rows ((length buf + r - 1) div r) us pt prefix ptr r groupsize ascii 0 buf stack p)"

section \<open>A line always fits its bounds\<close>

lemma put_ok: "i < length lb \<Longrightarrow> put lb i c = Inr (lb[i := c])"
  by (simp add: put_def)

lemma byte_loop_ok:
  assumes "lx < n" "n \<le> length lb"
  shows "\<exists>over lb' lx'. byte_loop n cs lb lx = Inr (over, lb', lx') \<and> lx' < n \<and> length lb' = length lb \<and>
    drop n lb' = drop n lb \<and> lx' \<le> lx + length cs \<and> take lx' lb' = take lx lb @ take (lx' - lx) cs \<and> lx \<le> lx' \<and>
    (over \<longrightarrow> lx' = n - 1) \<and> (\<not> over \<longrightarrow> lx' = lx + length cs)"
  using assms
proof (induction cs arbitrary: lb lx)
  case Nil
  then show ?case by (intro exI [of _ False]) simp
next
  case (Cons c cs)
  show ?case
  proof (cases "n < lx + 2")
    case True
    then have "lx = n - 1" using Cons.prems(1) by linarith
    then show ?thesis using True Cons.prems(1) by (intro exI [of _ True]) simp
  next
    case False
    define lb1 where "lb1 = lb[lx := c]"
    have lb1: "length lb1 = length lb" "drop n lb1 = drop n lb" "take (Suc lx) lb1 = take lx lb @ [c]"
      using Cons.prems by (simp_all add: lb1_def take_Suc_conv_app_nth)
    obtain over lb' lx' where r: "byte_loop n cs lb1 (Suc lx) = Inr (over, lb', lx')" "lx' < n"
        "length lb' = length lb1" "drop n lb' = drop n lb1" "lx' \<le> Suc lx + length cs"
        "take lx' lb' = take (Suc lx) lb1 @ take (lx' - Suc lx) cs" "Suc lx \<le> lx'" "over \<longrightarrow> lx' = n - 1"
        "\<not> over \<longrightarrow> lx' = Suc lx + length cs"
      using Cons.IH [of "Suc lx" lb1] False Cons.prems lb1(1) by auto
    have step: "byte_loop n (c # cs) lb lx = byte_loop n cs lb1 (Suc lx)"
      using False Cons.prems by (simp add: put_ok lb1_def)
    have "lx' - lx = Suc (lx' - Suc lx)" using r(7) by simp
    then have "take (lx' - lx) (c # cs) = c # take (lx' - Suc lx) cs" by simp
    then have "take lx' lb' = take lx lb @ take (lx' - lx) (c # cs)" using r(6) lb1(3) by simp
    then show ?thesis
      unfolding step r(1) using r lb1 by (intro exI [of _ over] exI [of _ lb'] exI [of _ lx']) simp
  qed
qed

lemma c_snprintf_ok:
  assumes "lx < n" "n \<le> length lb"
  shows "\<exists>lb'. c_snprintf lb lx (n - lx) t = Inr (length t, lb') \<and> length lb' = length lb \<and> drop n lb' = drop n lb \<and>
    (length t < n - lx \<longrightarrow> take (lx + length t) lb' = take lx lb @ t)"
proof -
  define s where "s = take (n - lx - 1) t @ [0 :: u8]"
  have s: "length s \<le> n - lx" using assms(1) by (simp add: s_def)
  have "c_snprintf lb lx (n - lx) t = Inr (length t, take lx lb @ s @ drop (lx + length s) lb)"
    unfolding c_snprintf_def Let_def s_def [symmetric] using assms s by simp
  moreover have "length (take lx lb @ s @ drop (lx + length s) lb) = length lb" using assms s by simp
  moreover have "drop n (take lx lb @ s @ drop (lx + length s) lb) = drop n lb" using assms s by simp
  moreover have "take (lx + length t) (take lx lb @ s @ drop (lx + length s) lb) = take lx lb @ t" if "length t < n - lx"
    using assms that by (simp add: s_def)
  ultimately show ?thesis by blast
qed

lemma group_loop_ok:
  assumes "lx < n" "n \<le> length lb"
  shows "\<exists>r lb'. group_loop n first gs lb lx = Inr (r, lb') \<and> length lb' = length lb \<and> drop n lb' = drop n lb \<and>
    (\<forall>lx'. r = Some lx' \<longrightarrow> lx' < n)"
  using assms
proof (induction gs arbitrary: first lb lx)
  case (Cons g gs)
  obtain lb1 where lb1: "c_snprintf lb lx (n - lx) ((if first then [] else [0x20]) @ group_hex g) =
      Inr (length ((if first then [] else [0x20]) @ group_hex g), lb1)" "length lb1 = length lb" "drop n lb1 = drop n lb"
    using c_snprintf_ok [OF Cons.prems] by blast
  show ?case
    using Cons.IH [of "lx + length ((if first then [] else [0x20]) @ group_hex g)" lb1 False] lb1 Cons.prems
    by (simp add: Let_def)
qed simp

lemma hex_dump_bounds:
  assumes "linebuflen \<le> length linebuf" "len \<le> length buf"
  shows "\<exists>ret lb. hex_dump_to_buffer buf len rowsize groupsize linebuf linebuflen ascii = Inr (ret, lb) \<and>
    length lb = length linebuf \<and> drop linebuflen lb = drop linebuflen linebuf"
proof -
  define l where "l = (if len > row_size rowsize then row_size rowsize else len)"
  have l: "\<not> length buf < l" using assms(2) by (simp add: l_def)
  have keep: "\<exists>lb'. put lb i 0 = Inr lb' \<and> length lb' = length lb \<and> drop linebuflen lb' = drop linebuflen lb"
    if "i < linebuflen" "length lb = length linebuf" for lb i
    using that assms(1) by (simp add: put_def)
  show ?thesis
  proof (cases "linebuflen = 0 \<or> l = 0")
    case True
    then show ?thesis
      using l keep [of 0 linebuf] unfolding hex_dump_to_buffer_def Let_def l_def [symmetric] by auto
  next
    case False
    then have pos: "0 < linebuflen" "l \<noteq> 0" by simp_all
    define g where "g = group_size l groupsize"
    obtain r lb1 where g1: "group_loop linebuflen True (chunks (l div g) g buf) linebuf 0 = Inr (r, lb1)"
        "length lb1 = length linebuf" "drop linebuflen lb1 = drop linebuflen linebuf" "\<forall>lx'. r = Some lx' \<longrightarrow> lx' < linebuflen"
      using group_loop_ok [OF pos(1) assms(1)] by blast
    obtain over lb2 lx where b: "byte_loop linebuflen (concat (map (\<lambda>b. byte_hex b @ [0x20]) (take l buf))) linebuf 0 = Inr (over, lb2, lx)"
        "lx < linebuflen" "length lb2 = length linebuf" "drop linebuflen lb2 = drop linebuflen linebuf"
      using byte_loop_ok [OF pos(1) assms(1)] by blast
    have k1: "\<exists>lb'. put lb1 i 0 = Inr lb' \<and> length lb' = length linebuf \<and> drop linebuflen lb' = drop linebuflen linebuf"
      if "r = Some i" for i using keep [of i lb1] g1 that by auto
    have k2: "\<exists>lb'. put lb2 i 0 = Inr lb' \<and> length lb' = length linebuf \<and> drop linebuflen lb' = drop linebuflen linebuf"
      if "i \<le> lx" for i using keep [of i lb2] b that by auto
    show ?thesis
      using pos l g1 b k1 k2 [of lx] k2 [of "lx - 1"]
      unfolding hex_dump_to_buffer_def Let_def l_def [symmetric] g_def [symmetric]
      by (cases r) (auto split: if_splits)
  qed
qed

end
