(* ===== verification/Wall_Clock.thy ===== *)
theory Wall_Clock
  imports Wise_Prelude
begin

text \<open>
  The time of day, \<^verbatim>\<open>kernel/time.c\<close>: a time base that is added to the running time of the system.  \<open>m\<close> is the
  value read from the hardware timer and \<open>rate\<close> its ticks per microsecond, a constant of the configuration.  The fields of \<^verbatim>\<open>struct timeval\<close> are integers:
  the width of \<^verbatim>\<open>time_t\<close> is the C library's.
\<close>

definition USEC_PER_SEC :: int where "USEC_PER_SEC = 1000000"

definition time_mtime_to_usec :: "u64 \<Rightarrow> u64 \<Rightarrow> u64" where
  "time_mtime_to_usec rate m = m div rate"

record timeval =
  tv_sec :: int
  tv_usec :: int

definition g_timebase0 :: timeval where
  "g_timebase0 = \<lparr>tv_sec = 1640995200, tv_usec = 0\<rparr>"

definition gettimeofday :: "u64 \<Rightarrow> timeval \<Rightarrow> u64 \<Rightarrow> timeval" where
  "gettimeofday rate g_timebase m =
     (let now = time_mtime_to_usec rate m;
          tv = \<lparr>tv_sec = uint now div 1000000 + tv_sec g_timebase, tv_usec = uint now mod 1000000 + tv_usec g_timebase\<rparr>
      in if tv_usec tv \<ge> USEC_PER_SEC
         then (let carry = tv_usec tv div USEC_PER_SEC
               in \<lparr>tv_sec = tv_sec tv + carry, tv_usec = tv_usec tv - carry * USEC_PER_SEC\<rparr>)
         else tv)"

definition settimeofday :: "u64 \<Rightarrow> timeval \<Rightarrow> u64 \<Rightarrow> timeval" where
  "settimeofday rate tv m =
     (let now = time_mtime_to_usec rate m;
          ts = \<lparr>tv_sec = uint now div 1000000, tv_usec = uint now mod 1000000\<rparr>;
          g = (if tv_usec tv < tv_usec ts
               then \<lparr>tv_sec = tv_sec tv - 1, tv_usec = tv_usec tv + USEC_PER_SEC\<rparr> else tv)
      in \<lparr>tv_sec = tv_sec g - tv_sec ts, tv_usec = tv_usec g - tv_usec ts\<rparr>)"

text \<open>The time in microseconds.\<close>

definition usecs :: "timeval \<Rightarrow> int" where
  "usecs tv = tv_sec tv * USEC_PER_SEC + tv_usec tv"

definition timeval_ok :: "timeval \<Rightarrow> bool" where
  "timeval_ok tv = (0 \<le> tv_usec tv \<and> tv_usec tv < USEC_PER_SEC)"

lemma settimeofday_base:
  assumes "timeval_ok tv"
  shows "timeval_ok (settimeofday rate tv m) \<and>
    usecs (settimeofday rate tv m) = usecs tv - uint (time_mtime_to_usec rate m)"
proof -
  define n where "n = uint (time_mtime_to_usec rate m)"
  have "0 \<le> n mod 1000000" "n mod 1000000 < 1000000" by simp_all
  moreover have "n = n div 1000000 * 1000000 + n mod 1000000" by simp
  ultimately show ?thesis
    using assms unfolding n_def [symmetric]
    by (simp add: settimeofday_def timeval_ok_def usecs_def USEC_PER_SEC_def Let_def algebra_simps
        flip: n_def) linarith
qed

lemma gettimeofday_exact:
  assumes "timeval_ok g"
  shows "timeval_ok (gettimeofday rate g m) \<and>
    usecs (gettimeofday rate g m) = usecs g + uint (time_mtime_to_usec rate m)"
proof -
  define n where "n = uint (time_mtime_to_usec rate m)"
  define u where "u = n mod 1000000 + tv_usec g"
  have u: "0 \<le> u" using assms by (simp add: u_def timeval_ok_def)
  have d: "n = n div 1000000 * 1000000 + n mod 1000000" by simp
  have g: "gettimeofday rate g m =
      \<lparr>tv_sec = n div 1000000 + tv_sec g + u div 1000000, tv_usec = u mod 1000000\<rparr>"
    using u by (simp add: gettimeofday_def Let_def USEC_PER_SEC_def minus_div_mult_eq_mod flip: n_def u_def)
  have lin: "(q + s + c) * 1000000 + r = s * 1000000 + tv_usec g + n"
    if "c * 1000000 + r = r' + tv_usec g" "n = q * 1000000 + r'" for q s c r r' :: int
    using that by (simp add: algebra_simps)
  have "u div 1000000 * 1000000 + u mod 1000000 = n mod 1000000 + tv_usec g"
    unfolding u_def [symmetric] by (rule div_mult_mod_eq)
  from lin [OF this d] have "usecs (gettimeofday rate g m) = usecs g + n"
    by (simp add: g usecs_def USEC_PER_SEC_def)
  then show ?thesis by (simp add: g timeval_ok_def USEC_PER_SEC_def flip: n_def)
qed

text \<open>
  The clock keeps time: after it is set to a valid time, reading it gives the time it was set to plus the
  running time in between, again with a valid fraction of a second.
\<close>

lemma clock_keeps_time:
  assumes "timeval_ok tv"
  shows "timeval_ok (gettimeofday rate (settimeofday rate tv m) m') \<and>
    usecs (gettimeofday rate (settimeofday rate tv m) m') =
      usecs tv + (uint (time_mtime_to_usec rate m') - uint (time_mtime_to_usec rate m))"
  using gettimeofday_exact [of "settimeofday rate tv m" rate m'] settimeofday_base [OF assms, of rate m] by simp

end
