(* ===== verification/C_String.thy ===== *)
theory C_String
  imports Wise_Prelude
begin

text \<open>
  The string functions of the C library that the components use, on the list of the bytes that may be read from a
  pointer; a read behind the list is an error.
\<close>

section \<open>Comparing\<close>

text \<open>\<^verbatim>\<open>strcmp\<close> and \<^verbatim>\<open>strncmp\<close>, as far as equality goes.\<close>

fun str_eq :: "u8 list \<Rightarrow> u8 list \<Rightarrow> bool res" where
  "str_eq (x # a) (y # b) = (if x \<noteq> y then Inr False else if x = 0 then Inr True else str_eq a b)"
| "str_eq a b = Inl BadAccess"

fun strn_eq :: "nat \<Rightarrow> u8 list \<Rightarrow> u8 list \<Rightarrow> bool res" where
  "strn_eq 0 a b = Inr True"
| "strn_eq (Suc n) (x # a) (y # b) = (if x \<noteq> y then Inr False else if x = 0 then Inr True else strn_eq n a b)"
| "strn_eq (Suc n) a b = Inl BadAccess"

lemma strn_eq_numeral [simp]:
  "strn_eq (numeral n) (x # a) (y # b) =
     (if x \<noteq> y then Inr False else if x = 0 then Inr True else strn_eq (pred_numeral n) a b)"
  by (simp add: numeral_eq_Suc)

text \<open>The string at a pointer.\<close>

definition cstr :: "u8 list \<Rightarrow> u8 list" where
  "cstr a = takeWhile (\<lambda>c. c \<noteq> 0) a"

lemma str_eq_spec: "0 \<in> set a \<Longrightarrow> 0 \<in> set b \<Longrightarrow> str_eq a b = Inr (cstr a = cstr b)"
  by (induction a b rule: str_eq.induct) (auto simp: cstr_def)

lemma strn_eq_spec:
  "0 \<in> set a \<Longrightarrow> 0 \<in> set b \<Longrightarrow> length a \<le> n \<Longrightarrow> strn_eq n a b = Inr (cstr a = cstr b)"
  by (induction n a b rule: strn_eq.induct) (auto simp: cstr_def)

section \<open>Searching and copying\<close>

text \<open>\<^verbatim>\<open>strchr\<close>: the index of the character in the string.\<close>

fun str_chr :: "u8 list \<Rightarrow> u8 \<Rightarrow> nat option res" where
  "str_chr [] c = Inl BadAccess"
| "str_chr (x # a) c =
     (if x = c then Inr (Some 0) else if x = 0 then Inr None
      else res_bind (str_chr a c) (\<lambda>r. Inr (map_option Suc r)))"

text \<open>\<^verbatim>\<open>memcpy\<close> to position \<open>pos\<close> of an object.\<close>

definition mem_copy :: "u8 list \<Rightarrow> nat \<Rightarrow> u8 list \<Rightarrow> u8 list res" where
  "mem_copy obj pos bs =
     (if pos + length bs \<le> length obj then Inr (take pos obj @ bs @ drop (pos + length bs) obj) else Inl BadAccess)"

section \<open>Numbers\<close>

text \<open>\<^verbatim>\<open>atoi\<close> on a terminated string; a value outside of \<^verbatim>\<open>int\<close> is undefined.\<close>

definition is_space :: "u8 \<Rightarrow> bool" where
  "is_space c = (c = 0x20 \<or> 0x09 \<le> c \<and> c \<le> 0x0D)"

definition dec_value :: "u8 list \<Rightarrow> int" where
  "dec_value ds = foldl (\<lambda>n c. n * 10 + (uint c - 0x30)) 0 ds"

definition c_atoi :: "u8 list \<Rightarrow> int res" where
  "c_atoi a =
     (let t = dropWhile is_space a;
          neg = (t \<noteq> [] \<and> hd t = 0x2D);
          u = (if t \<noteq> [] \<and> (hd t = 0x2D \<or> hd t = 0x2B) then tl t else t);
          v = dec_value (takeWhile (\<lambda>c. 0x30 \<le> c \<and> c \<le> 0x39) u);
          r = (if neg then - v else v)
      in if - 2147483648 \<le> r \<and> r \<le> 2147483647 then Inr r else Inl Undefined)"

end
