(* ===== verification/Tiny_Printf.thy ===== *)
theory Tiny_Printf
  imports Kprintf_Number C_String
begin

text \<open>
  The formatter of \<^verbatim>\<open>lib/stdlib-ext/stdio-ext.c\<close> that replaces the one in the read-only memory: \<^verbatim>\<open>tfp_format\<close> and
  what is built on it.  A pointer to a string is the list of the bytes that may be read from it on, \<^verbatim>\<open>char\<close> is unsigned
  and \<^verbatim>\<open>long\<close> has 32 bits.  Arithmetic on \<^verbatim>\<open>double\<close> is a parameter.  The file that takes the characters is written
  through its table of methods, so the formatter is polymorphic in it.
\<close>

section \<open>The memory file\<close>

type_synonym 's vmt = "(nat \<Rightarrow> u8 list \<Rightarrow> 's \<Rightarrow> ('s \<times> nat) res) option"

record memfile =
  m_mem :: "u8 list"
  m_pos :: nat
  bytes_written :: u32
  m_size :: u32

fun memfile_write :: "nat \<Rightarrow> u8 list \<Rightarrow> memfile \<Rightarrow> (memfile \<times> nat) res" where
  "memfile_write 0 bp f = Inr (f, 0)"
| "memfile_write (Suc n) bp f =
     (let f' = f\<lparr>bytes_written := bytes_written f + 1\<rparr>
      in if bytes_written f' \<le> m_size f' then
           (case bp of [] \<Rightarrow> Inl BadAccess
            | c # bp' \<Rightarrow>
                if m_pos f' < length (m_mem f') then
                  res_bind (memfile_write n bp' (f'\<lparr>m_mem := (m_mem f')[m_pos f' := c], m_pos := m_pos f' + 1\<rparr>))
                    (\<lambda>(f'', i). Inr (f'', Suc i))
                else Inl BadAccess)
         else memfile_write n bp f')"

definition MemFile_methods :: "memfile vmt" where
  "MemFile_methods = Some memfile_write"

definition fmemopen_w :: "u8 list \<Rightarrow> u32 \<Rightarrow> memfile" where
  "fmemopen_w buffer fsz = \<lparr>m_mem = buffer, m_pos = 0, bytes_written = 0, m_size = fsz\<rparr>"

definition mfwrite :: "'s vmt \<Rightarrow> u8 list \<Rightarrow> nat \<Rightarrow> nat \<Rightarrow> 's \<Rightarrow> ('s \<times> nat) res" where
  "mfwrite vmt buf sz nmemb s =
     (case vmt of None \<Rightarrow> Inr (s, 0)
      | Some mwrite \<Rightarrow> res_bind (mwrite (sz * nmemb) buf s) (\<lambda>(s', i). Inr (s', i div sz)))"

definition mfputc :: "'s vmt \<Rightarrow> u8 \<Rightarrow> 's \<Rightarrow> ('s \<times> int) res" where
  "mfputc vmt c s = res_bind (mfwrite vmt [c] 1 1 s) (\<lambda>(s', k). Inr (s', if k = 1 then uint c else -1))"

definition putf :: "'s vmt \<Rightarrow> u8 \<Rightarrow> 's \<Rightarrow> ('s \<times> u32) res" where
  "putf vmt c s = res_bind (mfputc vmt c s) (\<lambda>(s', r). Inr (s', if r = -1 then 0 else 1))"

text \<open>\<^verbatim>\<open>written += putf(putp, c)\<close>.\<close>

definition emit :: "'s vmt \<Rightarrow> u8 \<Rightarrow> 's \<times> u32 \<Rightarrow> ('s \<times> u32) res" where
  "emit vmt c = (\<lambda>(s, written). res_bind (putf vmt c s) (\<lambda>(s', k). Inr (s', written + k)))"

section \<open>Numbers\<close>

text \<open>The bits of \<^verbatim>\<open>struct param\<close>; the base has no value before the first number.\<close>

record param =
  p_width :: u8
  p_lz :: u8
  p_sign :: bool
  p_alt :: bool
  p_uc :: bool
  p_left :: bool
  p_hh :: nat
  p_base :: "u8 option"
  p_bf :: "u8 list option"

definition BF_SIZE :: nat where "BF_SIZE = 23"

lemma scale_bound:
  fixes num :: u64
  assumes "b \<le> num div d"
  shows "unat d * unat b \<le> unat num"
proof -
  have "unat b \<le> unat num div unat d" using assms by (simp add: word_le_nat_alt unat_div)
  then have "unat d * unat b \<le> unat d * (unat num div unat d)" by (rule mult_le_mono2)
  also have "\<dots> \<le> unat num" by (rule times_div_less_eq_dividend)
  finally show ?thesis .
qed

lemma scale_step:
  fixes num :: u64
  assumes "d \<noteq> 0" "b \<le> num div d" "1 < b"
  shows "unat (d * b) = unat d * unat b" "unat d < unat (d * b)" "unat (d * b) \<le> unat num"
proof -
  have le: "unat d * unat b \<le> unat num" by (rule scale_bound) fact
  moreover have "unat num < 2 ^ 64" using unsigned_less [of num, where ?'a = nat] by simp
  ultimately show m: "unat (d * b) = unat d * unat b" by (simp add: unat_word_ariths)
  have "unat d > 0" "unat b > 1" using assms by (simp_all add: unat_gt_0 word_less_nat_alt)
  then show "unat d < unat (d * b)" unfolding m by simp
  show "unat (d * b) \<le> unat num" unfolding m by (rule le)
qed

lemma one_less:
  fixes b :: u64
  assumes "b \<noteq> 0" "b \<noteq> 1"
  shows "1 < b"
proof -
  have "unat b \<noteq> 0" "unat b \<noteq> 1" using assms by (simp_all add: word_unat_eq_iff)
  then show ?thesis by (simp add: word_less_nat_alt)
qed

lemma div_less:
  fixes b :: u64
  assumes "b \<noteq> 0" "b \<noteq> 1" "d \<noteq> 0"
  shows "unat (d div b) < unat d"
  using one_less [OF assms(1,2)] assms(3) by (simp add: unat_div word_less_nat_alt unat_gt_0)

function ui2a_scale :: "u64 \<Rightarrow> u64 \<Rightarrow> u64 \<Rightarrow> u64 res" where
  "ui2a_scale num base d =
     (if d = 0 then Inl Undefined
      else if base \<le> num div d then
        (if base = 0 then Inl Undefined else if base = 1 then Inl NoReturn else ui2a_scale num base (d * base))
      else Inr d)"
  by pat_completeness auto
termination
proof (relation "measure (\<lambda>(num, _, d). unat num - unat d)", goal_cases)
  case (2 num base d)
  then have "1 < base" by (simp add: one_less)
  with scale_step(2,3) [of d base num] 2 have "unat d < unat (d * base)" "unat (d * base) \<le> unat num" by blast+
  then show ?case by (simp only: in_measure prod.case)
qed simp

declare ui2a_scale.simps [simp del]

definition ui2a_char :: "bool \<Rightarrow> u64 \<Rightarrow> u8" where
  "ui2a_char uc dgt = ucast (dgt + (if dgt < 10 then 0x30 else (if uc then 0x41 else 0x61) - 10))"

text \<open>The loop that stores the digits; \<open>acc\<close> has the ones stored so far.\<close>

function ui2a_digits :: "u64 \<Rightarrow> u64 \<Rightarrow> u64 \<Rightarrow> bool \<Rightarrow> u8 list \<Rightarrow> u8 list res" where
  "ui2a_digits num d base uc acc =
     (if d = 0 then (if length acc < BF_SIZE then Inr (acc @ [0]) else Inl BadAccess)
      else if base = 0 then Inl Undefined
      else if base = 1 then Inl NoReturn
      else (let dgt = num div d; num' = num mod d; d' = d div base
            in if acc \<noteq> [] \<or> dgt > 0 \<or> d' = 0 then
                 (if length acc < BF_SIZE then ui2a_digits num' d' base uc (acc @ [ui2a_char uc dgt])
                  else Inl BadAccess)
               else ui2a_digits num' d' base uc acc))"
  by pat_completeness auto
termination
  by (relation "measure (\<lambda>(_, d, _). unat d)") (auto intro: div_less)

declare ui2a_digits.simps [simp del]

definition narrow :: "nat \<Rightarrow> u64 \<Rightarrow> u64" where
  "narrow hh num = (if hh = 1 then ucast (ucast num :: u16) else if hh = 2 then ucast (ucast num :: u8) else num)"

definition ui2a :: "u64 \<Rightarrow> param \<Rightarrow> param res" where
  "ui2a num0 p =
     (case p_base p of None \<Rightarrow> Inl Undefined
      | Some b \<Rightarrow>
          (let num = narrow (p_hh p) num0; base = ucast b
           in res_bind (ui2a_scale num base 1) (\<lambda>d.
                res_bind (ui2a_digits num d base (p_uc p) []) (\<lambda>bf. Inr (p\<lparr>p_bf := Some bf\<rparr>)))))"

definition i2a :: "u64 \<Rightarrow> param \<Rightarrow> param res" where
  "i2a num p =
     (if sint num < 0
      then (if sint num = - (2 ^ 63) then Inl Undefined else ui2a (- num) (p\<lparr>p_sign := True\<rparr>))
      else ui2a num p)"

definition a2d :: "u8 \<Rightarrow> int" where
  "a2d ch =
     (if ch \<ge> 0x30 \<and> ch \<le> 0x39 then uint ch - 0x30
      else if ch \<ge> 0x61 \<and> ch \<le> 0x66 then uint ch - 0x61 + 10
      else if ch \<ge> 0x41 \<and> ch \<le> 0x46 then uint ch - 0x41 + 10
      else -1)"

fun a2i :: "u8 \<Rightarrow> u8 list \<Rightarrow> int \<Rightarrow> int \<Rightarrow> (u8 \<times> u8 list \<times> u8) res" where
  "a2i ch fmt base num =
     (if a2d ch \<ge> 0 \<and> \<not> a2d ch > base then
        (let num' = num * base + a2d ch
         in if num' > 2147483647 then Inl Undefined
            else (case fmt of [] \<Rightarrow> Inl BadAccess | c # fmt' \<Rightarrow> a2i c fmt' base num'))
      else Inr (ch, fmt, word_of_int num))"

declare a2i.simps [simp del]

section \<open>A field\<close>

text \<open>The loop that takes the text off the width.\<close>

fun fill_loop :: "u8 list \<Rightarrow> int \<Rightarrow> int res" where
  "fill_loop [] n = Inl BadAccess"
| "fill_loop (c # bf) n = (if c \<noteq> 0 \<and> n > 0 then fill_loop bf (n - 1) else Inr n)"

text \<open>\<^verbatim>\<open>while (n-- > 0) written += putf(putp, c)\<close>, with the value that is left in \<open>n\<close>.\<close>

function pad_loop :: "'s vmt \<Rightarrow> u8 \<Rightarrow> int \<Rightarrow> 's \<times> u32 \<Rightarrow> (int \<times> 's \<times> u32) res" where
  "pad_loop vmt c n st =
     (if n > 0 then (case emit vmt c st of Inl e \<Rightarrow> Inl e | Inr st' \<Rightarrow> pad_loop vmt c (n - 1) st')
      else Inr (n - 1, st))"
  by pat_completeness auto
termination by (relation "measure (\<lambda>(_, _, n, _). nat n)") auto

declare pad_loop.simps [simp del]

fun put_loop :: "'s vmt \<Rightarrow> u8 list \<Rightarrow> 's \<times> u32 \<Rightarrow> ('s \<times> u32) res" where
  "put_loop vmt [] st = Inl BadAccess"
| "put_loop vmt (ch # bf) st = (if ch = 0 then Inr st else res_bind (emit vmt ch st) (put_loop vmt bf))"

text \<open>What the alternate form puts before the number: its base is read only if it is asked for.\<close>

definition alt_base :: "param \<Rightarrow> u8 res" where
  "alt_base p = (if p_alt p then (case p_base p of None \<Rightarrow> Inl Undefined | Some b \<Rightarrow> Inr b) else Inr 0)"

definition putchw :: "'s vmt \<Rightarrow> param \<Rightarrow> 's \<times> u32 \<Rightarrow> ('s \<times> u32) res" where
  "putchw vmt p st =
     (case p_bf p of None \<Rightarrow> Inl NullDeref
      | Some bf \<Rightarrow>
          res_bind (fill_loop bf (uint (p_width p))) (\<lambda>n0. res_bind (alt_base p) (\<lambda>b.
            (let n1 = (if p_sign p then n0 - 1 else n0);
                 n2 = (if b = 16 then n1 - 2 else if b = 8 then n1 - 1 else n1)
             in res_bind (if p_lz p = 0 \<and> \<not> p_left p then pad_loop vmt 0x20 n2 st else Inr (n2, st)) (\<lambda>(n3, st).
                res_bind (if p_sign p then emit vmt 0x2D st else Inr st) (\<lambda>st.
                res_bind
                  (if b = 16 then
                     res_bind (emit vmt 0x30 st) (emit vmt (if p_uc p then 0x58 else 0x78))
                   else if b = 8 then emit vmt 0x30 st else Inr st) (\<lambda>st.
                res_bind (if p_lz p \<noteq> 0 then pad_loop vmt 0x30 n3 st else Inr (n3, st)) (\<lambda>(n4, st).
                res_bind (put_loop vmt bf st) (\<lambda>st.
                res_bind (if p_left p then pad_loop vmt 0x20 n4 st else Inr (n4, st)) (\<lambda>(_, st).
                Inr st))))))))))"

section \<open>The formatter\<close>

text \<open>A variadic argument: a number of 32 bits, one of 64 bits, a pointer to print, a string, a floating-point number.\<close>

datatype 'd targ = VInt u32 | VLong u64 | VPtr u32 | VStr "u8 list option" | VDbl 'd

text \<open>
  What the formatter does with a \<^verbatim>\<open>double\<close>: \<^verbatim>\<open>(int) d\<close> and \<^verbatim>\<open>(int) ((d - n) * 1000)\<close>, undefined outside the range of \<^verbatim>\<open>int\<close>,
  and \<^verbatim>\<open>d < 0.0\<close>.
\<close>

record 'd dops =
  d_int :: "'d \<Rightarrow> u32 option"
  d_frac :: "'d \<Rightarrow> u32 \<Rightarrow> u32 option"
  d_neg :: "'d \<Rightarrow> bool"

fun intarg :: "nat \<Rightarrow> bool \<Rightarrow> 'd targ list \<Rightarrow> (u64 \<times> 'd targ list) res" where
  "intarg lng sg (VInt x # va) =
     (if lng < 2 then Inr (if sg then scast x else ucast x, va) else Inl Undefined)"
| "intarg lng sg (VLong x # va) = (if lng < 2 then Inl Undefined else Inr (x, va))"
| "intarg lng sg va = Inl Undefined"

fun fetch :: "u8 list \<Rightarrow> (u8 \<times> u8 list) res" where
  "fetch [] = Inl BadAccess"
| "fetch (ch # fmt) = Inr (ch, fmt)"

text \<open>The parts of a directive in turn.  Each has the character \<open>ch\<close> read last and the format behind it.\<close>

fun flags_loop :: "param \<Rightarrow> u8 list \<Rightarrow> (u8 \<times> u8 list \<times> param) res" where
  "flags_loop p [] = Inl BadAccess"
| "flags_loop p (ch # fmt) =
     (if ch = 0x30 then flags_loop (if p_left p then p else p\<lparr>p_lz := 1\<rparr>) fmt
      else if ch = 0x23 then flags_loop (p\<lparr>p_alt := True\<rparr>) fmt
      else if ch = 0x2D then flags_loop (p\<lparr>p_left := True, p_lz := 0\<rparr>) fmt
      else Inr (ch, fmt, p))"

definition width_part ::
  "u8 \<Rightarrow> u8 list \<Rightarrow> param \<Rightarrow> 'd targ list \<Rightarrow> (u8 \<times> u8 list \<times> param \<times> 'd targ list) res" where
  "width_part ch fmt p va =
     (if ch = 0x2A then
        res_bind (intarg 0 True va) (\<lambda>(v, va).
          (let i = sint (ucast v :: u32);
               p' = (if i > 255 then p\<lparr>p_width := 255\<rparr> else if i > 0 then p\<lparr>p_width := word_of_int i\<rparr> else p)
           in res_bind (fetch fmt) (\<lambda>(ch, fmt). Inr (ch, fmt, p', va))))
      else if ch \<ge> 0x30 \<and> ch \<le> 0x39 then
        res_bind (a2i ch fmt 10 0) (\<lambda>(ch, fmt, w). Inr (ch, fmt, p\<lparr>p_width := w\<rparr>, va))
      else Inr (ch, fmt, p, va))"

definition length_part :: "u8 \<Rightarrow> u8 list \<Rightarrow> param \<Rightarrow> (u8 \<times> u8 list \<times> param \<times> nat) res" where
  "length_part ch fmt p =
     (if ch = 0x6C then
        res_bind (fetch fmt) (\<lambda>(ch, fmt).
          if ch = 0x6C then res_bind (fetch fmt) (\<lambda>(ch, fmt). Inr (ch, fmt, p, 2)) else Inr (ch, fmt, p, 1))
      else if ch = 0x68 then
        res_bind (fetch fmt) (\<lambda>(ch, fmt).
          if ch = 0x68 then res_bind (fetch fmt) (\<lambda>(ch, fmt). Inr (ch, fmt, p\<lparr>p_hh := 2\<rparr>, 0))
          else Inr (ch, fmt, p\<lparr>p_hh := 1\<rparr>, 0))
      else Inr (ch, fmt, p, 0))"

definition size_part :: "u8 \<Rightarrow> u8 list \<Rightarrow> (u8 \<times> u8 list) res" where
  "size_part ch fmt = (if ch = 0x7A then fetch fmt else Inr (ch, fmt))"

text \<open>
  The precision is read over: nothing uses its value, which the code computes from a variable without an
  initial value, so the digits are only skipped here.
\<close>

fun skip_digits :: "u8 \<Rightarrow> u8 list \<Rightarrow> (u8 \<times> u8 list) res" where
  "skip_digits ch [] = (if ch \<ge> 0x30 \<and> ch \<le> 0x39 then Inl BadAccess else Inr (ch, []))"
| "skip_digits ch (c # fmt) = (if ch \<ge> 0x30 \<and> ch \<le> 0x39 then skip_digits c fmt else Inr (ch, c # fmt))"

definition precision_part :: "u8 \<Rightarrow> u8 list \<Rightarrow> 'd targ list \<Rightarrow> (u8 \<times> u8 list \<times> 'd targ list) res" where
  "precision_part ch fmt va =
     (if ch = 0x2E then
        res_bind (fetch fmt) (\<lambda>(ch, fmt).
          if ch = 0x2A then
            res_bind (fetch fmt) (\<lambda>(ch, fmt). res_bind (intarg 0 True va) (\<lambda>(_, va). Inr (ch, fmt, va)))
          else res_bind (skip_digits ch fmt) (\<lambda>(ch, fmt). Inr (ch, fmt, va)))
      else Inr (ch, fmt, va))"

definition directive_parts ::
  "param \<Rightarrow> u8 list \<Rightarrow> 'd targ list \<Rightarrow> (u8 \<times> u8 list \<times> param \<times> nat \<times> 'd targ list) res" where
  "directive_parts p fmt va =
     res_bind (flags_loop p fmt) (\<lambda>(ch, fmt, p).
     res_bind (width_part ch fmt p va) (\<lambda>(ch, fmt, p, va).
     res_bind (length_part ch fmt p) (\<lambda>(ch, fmt, p, lng).
     res_bind (size_part ch fmt) (\<lambda>(ch, fmt).
     res_bind (precision_part ch fmt va) (\<lambda>(ch, fmt, va).
     Inr (ch, fmt, p, lng, va))))))"

text \<open>A number conversion: the argument, its digits, the field.\<close>

definition conv_int ::
  "'s vmt \<Rightarrow> bool \<Rightarrow> nat \<Rightarrow> param \<Rightarrow> 'd targ list \<Rightarrow> 's \<times> u32 \<Rightarrow> ((param \<times> 'd targ list) \<times> 's \<times> u32) res" where
  "conv_int vmt sg lng p va st =
     res_bind (intarg lng sg va) (\<lambda>(num, va).
     res_bind (if sg then i2a num p else ui2a num p) (\<lambda>p.
     res_bind (putchw vmt p st) (\<lambda>st. Inr ((p, va), st))))"

fun conv_ptr ::
  "'s vmt \<Rightarrow> param \<Rightarrow> 'd targ list \<Rightarrow> 's \<times> u32 \<Rightarrow> ((param \<times> 'd targ list) \<times> 's \<times> u32) res" where
  "conv_ptr vmt p (VPtr v # va) st =
     res_bind (ui2a (ucast v) (p\<lparr>p_base := Some 16\<rparr>)) (\<lambda>p.
       (let p = p\<lparr>p_width := 8, p_lz := 1\<rparr>
        in res_bind (emit vmt 0x30 st) (\<lambda>st. res_bind (emit vmt 0x78 st) (\<lambda>st.
             res_bind (putchw vmt p st) (\<lambda>st. Inr ((p, va), st))))))"
| "conv_ptr vmt p va st = Inl Undefined"

fun conv_char ::
  "'s vmt \<Rightarrow> param \<Rightarrow> 'd targ list \<Rightarrow> 's \<times> u32 \<Rightarrow> ((param \<times> 'd targ list) \<times> 's \<times> u32) res" where
  "conv_char vmt p (VInt c # va) st = res_bind (emit vmt (ucast c) st) (\<lambda>st. Inr ((p, va), st))"
| "conv_char vmt p va st = Inl Undefined"

fun conv_str ::
  "'s vmt \<Rightarrow> param \<Rightarrow> 'd targ list \<Rightarrow> 's \<times> u32 \<Rightarrow> ((param \<times> 'd targ list) \<times> 's \<times> u32) res" where
  "conv_str vmt p (VStr m # va) st =
     res_bind (putchw vmt (p\<lparr>p_bf := m\<rparr>) st) (\<lambda>st. Inr ((p, va), st))"
| "conv_str vmt p va st = Inl Undefined"

definition put_uncounted :: "'s vmt \<Rightarrow> u8 \<Rightarrow> 's \<times> u32 \<Rightarrow> ('s \<times> u32) res" where
  "put_uncounted vmt c = (\<lambda>(s, written). res_bind (putf vmt c s) (\<lambda>(s', _). Inr (s', written)))"

text \<open>The fraction is three digits, and its decimal point is not counted.\<close>

fun conv_dbl ::
  "'s vmt \<Rightarrow> 'd dops \<Rightarrow> param \<Rightarrow> 'd targ list \<Rightarrow> 's \<times> u32 \<Rightarrow> ((param \<times> 'd targ list) \<times> 's \<times> u32) res" where
  "conv_dbl vmt dop p (VDbl d # va) st =
     res_bind (res_of_option Undefined (d_int dop d)) (\<lambda>n.
     res_bind (i2a (scast n) (p\<lparr>p_base := Some 10\<rparr>)) (\<lambda>p.
       (let p = p\<lparr>p_sign := p_sign p \<or> d_neg dop d, p_left := False,
                  p_width := (if p_width p \<ge> 4 then p_width p - 4 else 0)\<rparr>
        in res_bind (putchw vmt p st) (\<lambda>st.
           res_bind (res_of_option Undefined (d_frac dop d n)) (\<lambda>n.
           res_bind (i2a (scast n) p) (\<lambda>p.
             (let p = p\<lparr>p_lz := 3, p_width := 3, p_sign := False\<rparr>
              in res_bind (put_uncounted vmt 0x2E st) (\<lambda>st.
                 res_bind (putchw vmt p st) (\<lambda>st. Inr ((p, va), st))))))))))"
| "conv_dbl vmt dop p va st = Inl Undefined"

definition tfp_switch ::
  "'s vmt \<Rightarrow> 'd dops \<Rightarrow> u8 \<Rightarrow> nat \<Rightarrow> param \<Rightarrow> 'd targ list \<Rightarrow> 's \<times> u32 \<Rightarrow>
     ((param \<times> 'd targ list) \<times> 's \<times> u32) res" where
  "tfp_switch vmt dop ch lng p va st =
     (if ch = 0x75 then conv_int vmt False lng (p\<lparr>p_base := Some 10\<rparr>) va st
      else if ch = 0x64 \<or> ch = 0x69 then conv_int vmt True lng (p\<lparr>p_base := Some 10\<rparr>) va st
      else if ch = 0x78 \<or> ch = 0x58 then
        conv_int vmt False lng (p\<lparr>p_base := Some 16, p_uc := (ch = 0x58)\<rparr>) va st
      else if ch = 0x6F then conv_int vmt False lng (p\<lparr>p_base := Some 8\<rparr>) va st
      else if ch = 0x70 then conv_ptr vmt p va st
      else if ch = 0x63 then conv_char vmt p va st
      else if ch = 0x73 then conv_str vmt p va st
      else if ch = 0x67 \<or> ch = 0x66 then conv_dbl vmt dop p va st
      else if ch = 0x25 then res_bind (emit vmt ch st) (\<lambda>st. Inr ((p, va), st))
      else Inr ((p, va), st))"

text \<open>Every part leaves a shorter or the same format.\<close>

lemma fetch_length: "fetch fmt = Inr (ch, fmt') \<Longrightarrow> length fmt' < length fmt"
  by (cases fmt) auto

lemma flags_length: "flags_loop p fmt = Inr (ch, fmt', p') \<Longrightarrow> length fmt' < length fmt"
  by (induction p fmt rule: flags_loop.induct) (auto split: if_splits)

lemma a2i_length: "a2i ch fmt base num = Inr (ch', fmt', w) \<Longrightarrow> length fmt' \<le> length fmt"
proof (induction fmt arbitrary: ch num)
  case (Cons c fmt)
  from Cons.prems show ?case
    by (subst (asm) a2i.simps) (auto simp: Let_def split: if_splits dest!: Cons.IH)
qed (subst (asm) a2i.simps, auto simp: Let_def split: if_splits)

lemma skip_length: "skip_digits ch fmt = Inr (ch', fmt') \<Longrightarrow> length fmt' \<le> length fmt"
  by (induction ch fmt rule: skip_digits.induct) (auto split: if_splits)

lemmas part_lengths = fetch_length flags_length a2i_length skip_length

lemma width_part_length: "width_part ch fmt p va = Inr (ch', fmt', q) \<Longrightarrow> length fmt' \<le> length fmt"
  by (auto simp: width_part_def res_bind_Inr_iff Let_def split: if_splits dest!: part_lengths)

lemma length_part_length: "length_part ch fmt p = Inr (ch', fmt', q) \<Longrightarrow> length fmt' \<le> length fmt"
  by (auto simp: length_part_def res_bind_Inr_iff split: if_splits dest!: part_lengths)

lemma size_part_length: "size_part ch fmt = Inr (ch', fmt') \<Longrightarrow> length fmt' \<le> length fmt"
  by (auto simp: size_part_def split: if_splits dest!: part_lengths)

lemma precision_part_length: "precision_part ch fmt va = Inr (ch', fmt', q) \<Longrightarrow> length fmt' \<le> length fmt"
  by (auto simp: precision_part_def res_bind_Inr_iff split: if_splits dest!: part_lengths)

lemma directive_parts_length: "directive_parts p fmt va = Inr (ch, fmt', q) \<Longrightarrow> length fmt' < length fmt"
  by (auto simp: directive_parts_def res_bind_Inr_iff
      dest!: flags_length width_part_length length_part_length size_part_length precision_part_length)

definition param_init :: "param \<Rightarrow> param" where
  "param_init p = p\<lparr>p_lz := 0, p_alt := False, p_width := 0, p_sign := False, p_left := False, p_uc := False,
     p_hh := 0\<rparr>"

function tfp_loop ::
  "'s vmt \<Rightarrow> 'd dops \<Rightarrow> param \<Rightarrow> u8 list \<Rightarrow> 'd targ list \<Rightarrow> 's \<times> u32 \<Rightarrow> ('s \<times> u32) res" where
  "tfp_loop vmt dop p [] va st = Inl BadAccess"
| "tfp_loop vmt dop p (ch # fmt) va st =
     (if ch = 0 then Inr st
      else if ch \<noteq> 0x25 then (case emit vmt ch st of Inl e \<Rightarrow> Inl e | Inr st' \<Rightarrow> tfp_loop vmt dop p fmt va st')
      else (case directive_parts (param_init p) fmt va of
              Inl e \<Rightarrow> Inl e
            | Inr (c, fmt', p', lng, va') \<Rightarrow>
                if c = 0 then Inr st
                else (case tfp_switch vmt dop c lng p' va' st of
                        Inl e \<Rightarrow> Inl e
                      | Inr ((p'', va''), st') \<Rightarrow> tfp_loop vmt dop p'' fmt' va'' st')))"
  by pat_completeness auto
termination
  by (relation "measure (\<lambda>(_, _, _, fmt, _). length fmt)") (auto dest!: directive_parts_length)

declare tfp_loop.simps(2) [simp del]

text \<open>The parameters before the first conversion; all but the base are set there.\<close>

definition param0 :: param where
  "param0 = \<lparr>p_width = 0, p_lz = 0, p_sign = False, p_alt = False, p_uc = False, p_left = False, p_hh = 0,
     p_base = None, p_bf = None\<rparr>"

definition tfp_format :: "'s vmt \<Rightarrow> 'd dops \<Rightarrow> u8 list \<Rightarrow> 'd targ list \<Rightarrow> 's \<Rightarrow> ('s \<times> u32) res" where
  "tfp_format vmt dop fmt va s = tfp_loop vmt dop param0 fmt va (s, 0)"

section \<open>Printing to memory\<close>

definition store :: "u8 list \<Rightarrow> nat \<Rightarrow> u8 \<Rightarrow> u8 list res" where
  "store mem i c = (if i < length mem then Inr (mem[i := c]) else Inl BadAccess)"

definition terminate_file :: "memfile \<Rightarrow> (int \<times> u8 list) res" where
  "terminate_file f =
     (let ret = sint (bytes_written f)
      in if m_size f > 0 then
           (if bytes_written f < m_size f
            then res_bind (store (m_mem f) (m_pos f) 0) (\<lambda>m. Inr (ret, m))
            else res_bind (store (m_mem f) (unat (m_size f - 1)) 0) (\<lambda>m. Inr (ret, m)))
         else Inr (ret, m_mem f))"

definition u_vsnprintf :: "'d dops \<Rightarrow> u8 list \<Rightarrow> u32 \<Rightarrow> u8 list \<Rightarrow> 'd targ list \<Rightarrow> (int \<times> u8 list) res" where
  "u_vsnprintf dop str sz fmt va =
     res_bind (tfp_format MemFile_methods dop fmt va (fmemopen_w str sz)) (\<lambda>(f, _). terminate_file f)"

definition u_vsprintf :: "'d dops \<Rightarrow> u8 list \<Rightarrow> u8 list \<Rightarrow> 'd targ list \<Rightarrow> (int \<times> u8 list) res" where
  "u_vsprintf dop str fmt va =
     res_bind (tfp_format MemFile_methods dop fmt va (fmemopen_w str 0x7FFFFFFF)) (\<lambda>(f, _). terminate_file f)"

section \<open>Printing through a function, and to memory of its own\<close>

text \<open>
  \<^verbatim>\<open>alloc n\<close> is the memory the allocator returns for \<open>n\<close> bytes.  On the target a \<^verbatim>\<open>va_list\<close> is a pointer that is
  passed by value, so the second call starts with the same arguments.
\<close>

fun fn_loop :: "(u8 \<Rightarrow> 'a \<Rightarrow> 'a) \<Rightarrow> u8 list \<Rightarrow> 'a \<Rightarrow> int \<Rightarrow> (int \<times> 'a) res" where
  "fn_loop fn [] arg ret = Inl BadAccess"
| "fn_loop fn (c # ptr) arg ret = (if c = 0 then Inr (ret, arg) else fn_loop fn ptr (fn c arg) (ret + 1))"

definition patch_std_kvprintf ::
  "'d dops \<Rightarrow> (int \<Rightarrow> u8 list option) \<Rightarrow> u8 list \<Rightarrow> u8 list \<Rightarrow> (u8 \<Rightarrow> 'a \<Rightarrow> 'a) \<Rightarrow> 'a \<Rightarrow> 'd targ list \<Rightarrow>
     (int \<times> 'a) res" where
  "patch_std_kvprintf dop alloc buf format fn arg ap =
     res_bind (u_vsnprintf dop buf 256 format ap) (\<lambda>(sz, buf).
       if (word_of_int sz :: u32) \<ge> 256 then
         (case alloc (sz + 10) of None \<Rightarrow> Inr (0, arg)
          | Some nbuf \<Rightarrow>
              res_bind (u_vsnprintf dop nbuf (word_of_int (sz + 10)) format ap) (\<lambda>(_, nbuf). fn_loop fn nbuf arg 0))
       else fn_loop fn buf arg 0)"

text \<open>
  \<^verbatim>\<open>os_vasprintf\<close> calls \<^verbatim>\<open>vsnprintf\<close> and \<^verbatim>\<open>vsprintf\<close>, which are parameters: the file has \<^verbatim>\<open>__wrap_vsnprintf\<close> and
  \<^verbatim>\<open>__wrap_vsprintf\<close> to stand for them.  The result is the value returned and the buffer, none if there is no memory.
\<close>

definition wrap_vsnprintf ::
  "'d dops \<Rightarrow> u8 list \<Rightarrow> u32 \<Rightarrow> u8 list \<Rightarrow> 'd targ list \<Rightarrow> (int \<times> u8 list) res" where
  "wrap_vsnprintf dop str sz fmt va = u_vsnprintf dop str sz fmt va"

definition wrap_vsprintf :: "'d dops \<Rightarrow> u8 list \<Rightarrow> u8 list \<Rightarrow> 'd targ list \<Rightarrow> (int \<times> u8 list) res" where
  "wrap_vsprintf dop str fmt va = u_vsprintf dop str fmt va"

definition os_vasprintf ::
  "(u8 list \<Rightarrow> u32 \<Rightarrow> u8 list \<Rightarrow> 'd targ list \<Rightarrow> (int \<times> u8 list) res) \<Rightarrow>
   (u8 list \<Rightarrow> u8 list \<Rightarrow> 'd targ list \<Rightarrow> (int \<times> u8 list) res) \<Rightarrow>
   (u32 \<Rightarrow> u8 list option) \<Rightarrow> u8 list \<Rightarrow> 'd targ list \<Rightarrow> (int \<times> u8 list option) res" where
  "os_vasprintf vsnp vsp alloc fmt ap =
     res_bind (vsnp [] 0 fmt ap) (\<lambda>(r, _).
       (let sz = word_of_int r :: u32
        in case alloc (sz + 1) of None \<Rightarrow> Inr (-1, None)
           | Some buf \<Rightarrow>
               res_bind (store buf (unat sz) 0) (\<lambda>buf.
               res_bind (vsp buf fmt ap) (\<lambda>(r, buf). Inr (sint (word_of_int r :: u32), Some buf)))))"

end
