(* ===== verification/Kprintf_Directive.thy ===== *)
theory Kprintf_Directive
  imports Kprintf_Number
begin

text \<open>
  Number directives of \<^verbatim>\<open>kvprintf\<close> from their text to the number read back.  A directive is written out as flags, width,
  precision, size and conversion; reading it gives these parts again, and the argument is taken with the value C gives it.
\<close>

section \<open>Reading a directive\<close>

lemma reswitch_flag: "flag_char fl ch = Some fl' \<Longrightarrow> reswitch fl (ch # fmt) args = reswitch fl' fmt args"
  by (simp add: reswitch.simps(2) flag_case_def)

text \<open>Only the flag \<^verbatim>\<open>+\<close> has been seen of what decides the conversion of the argument.\<close>

definition plain_flags :: "bool \<Rightarrow> kflags \<Rightarrow> bool" where
  "plain_flags pl fl \<longleftrightarrow> sign fl = pl \<and> \<not> cflag fl \<and> \<not> hflag fl \<and> \<not> jflag fl \<and> \<not> lflag fl \<and> \<not> qflag fl \<and>
     \<not> tflag fl \<and> \<not> zflag fl"

lemma flag_char_plain:
  "c \<in> {0x23, 0x2B, 0x2D, 0x30} \<Longrightarrow> plain_flags pl fl \<Longrightarrow> \<not> dot fl \<Longrightarrow>
   \<exists>fl'. flag_char fl c = Some fl' \<and> plain_flags (pl \<or> c = 0x2B) fl' \<and> \<not> dot fl' \<and> width fl' = width fl"
  by (elim insertE emptyE) (simp_all add: flag_char_def plain_flags_def)

lemma reswitch_flags:
  "set flags \<subseteq> {0x23, 0x2B, 0x2D, 0x30} \<Longrightarrow> plain_flags pl fl \<Longrightarrow> \<not> dot fl \<Longrightarrow>
   \<exists>fl'. (\<forall>fmt args. reswitch fl (flags @ fmt) args = reswitch fl' fmt args) \<and>
     plain_flags (pl \<or> 0x2B \<in> set flags) fl' \<and> \<not> dot fl' \<and> width fl' = width fl"
proof (induction flags arbitrary: fl pl)
  case (Cons c flags)
  obtain fl' where c: "flag_char fl c = Some fl'" "plain_flags (pl \<or> c = 0x2B) fl'" "\<not> dot fl'" "width fl' = width fl"
    using flag_char_plain [of c pl fl] Cons.prems by auto
  have "(pl \<or> c = 0x2B) \<or> 0x2B \<in> set flags \<longleftrightarrow> pl \<or> 0x2B \<in> set (c # flags)" by auto
  then show ?case
    using Cons.IH [OF _ c(2,3)] Cons.prems(1) c(4) by (simp add: reswitch_flag [OF c(1)])
qed auto

lemma width_loop_digits:
  "list_all is_digit ds \<Longrightarrow> is_digit ch \<Longrightarrow> \<not> is_digit c \<Longrightarrow>
   width_loop n ch (ds @ c # fmt) = Inr (foldl (\<lambda>a d. a * 10 + uint d - 0x30) n (ch # ds), c # fmt)"
  by (induction ds arbitrary: n ch) (auto simp: Let_def)

lemma digit_val_dec: "is_digit d \<Longrightarrow> int (digit_val d) = uint d - 0x30"
proof -
  assume d: "is_digit d"
  then have "unat d \<ge> 48" "unat d \<le> 57" by (simp_all add: word_le_nat_alt)
  then show ?thesis by (simp add: digit_val_def word_le_nat_alt of_nat_diff)
qed

lemma foldl_digits:
  "list_all is_digit ds \<Longrightarrow>
   foldl (\<lambda>a d. a * 10 + uint d - 0x30) (int n) ds = int (foldl (\<lambda>a c. a * 10 + digit_val c) n ds)"
proof (induction ds arbitrary: n)
  case (Cons d ds)
  then have "int n * 10 + uint d - 0x30 = int (n * 10 + digit_val d)" using digit_val_dec [of d] by simp
  with Cons show ?case by (simp del: of_nat_add of_nat_mult)
qed simp

lemma reswitch_digits:
  assumes "list_all is_digit ds" "ds \<noteq> []" "dot fl \<or> hd ds \<noteq> 0x30" "\<not> is_digit c"
  shows "reswitch fl (ds @ c # fmt) args =
    reswitch (if dot fl then fl\<lparr>dwidth := int (num_val 10 ds)\<rparr> else fl\<lparr>width := int (num_val 10 ds)\<rparr>) (c # fmt) args"
proof -
  obtain d ds' where ds: "ds = d # ds'" using assms(2) by (cases ds) auto
  have d: "is_digit d" "list_all is_digit ds'" using assms(1) ds by simp_all
  have "flag_char fl d = None"
    using d(1) assms(3) ds by (auto simp: flag_char_def)
  moreover have "d \<noteq> 0x2A" using d(1) by auto
  moreover have "width_loop 0 d (ds' @ c # fmt) = Inr (int (num_val 10 ds), c # fmt)"
    using width_loop_digits [OF d(2,1) assms(4), of 0 fmt] foldl_digits [OF assms(1), of 0] by (simp add: ds num_val_def)
  ultimately show ?thesis using d(1) by (simp add: ds reswitch.simps(2) [of fl d] flag_case_def)
qed

fun field_args :: "num_field \<Rightarrow> karg list" where
  "field_args (Num_star x) = [KInt x]"
| "field_args _ = []"

fun field_width :: "num_field \<Rightarrow> int" where
  "field_width No_num = 0"
| "field_width (Num_digits ds) = int (num_val 10 ds)"
| "field_width (Num_star x) = \<bar>sint x\<bar>"

definition width_ok :: "num_field \<Rightarrow> bool" where
  "width_ok w = (case w of Num_digits ds \<Rightarrow> list_all is_digit ds \<and> ds \<noteq> [] \<and> hd ds \<noteq> 0x30 | _ \<Rightarrow> True)"

definition prec_ok :: "num_field option \<Rightarrow> bool" where
  "prec_ok p = (case p of Some (Num_digits ds) \<Rightarrow> list_all is_digit ds \<and> ds \<noteq> [] | _ \<Rightarrow> True)"

definition prec_text :: "num_field option \<Rightarrow> u8 list" where
  "prec_text p = (case p of None \<Rightarrow> [] | Some f \<Rightarrow> 0x2E # num_field_text f)"

definition prec_args :: "num_field option \<Rightarrow> karg list" where
  "prec_args p = (case p of None \<Rightarrow> [] | Some f \<Rightarrow> field_args f)"

lemma reswitch_star:
  "reswitch fl (0x2A # fmt) (KInt x # args) = reswitch (star_width fl (sint x)) fmt args"
  by (simp add: reswitch.simps(2) flag_case_def flag_char_def)

lemma reswitch_width:
  assumes "width_ok w" "plain_flags pl fl" "\<not> dot fl" "width fl = 0" "\<not> is_digit c"
  shows "\<exists>fl'. reswitch fl (num_field_text w @ c # fmt) (field_args w @ args) = reswitch fl' (c # fmt) args \<and>
    plain_flags pl fl' \<and> \<not> dot fl' \<and> width fl' = field_width w"
proof (cases w)
  case No_num
  then show ?thesis using assms by auto
next
  case (Num_digits ds)
  then show ?thesis
    using assms reswitch_digits [of ds fl c fmt args] by (auto simp: width_ok_def plain_flags_def)
next
  case (Num_star x)
  then show ?thesis
    using assms reswitch_star [of fl "c # fmt" x args] by (auto simp: star_width_def plain_flags_def)
qed

lemma reswitch_prec:
  assumes "prec_ok p" "plain_flags pl fl" "\<not> is_digit c"
  shows "\<exists>fl'. reswitch fl (prec_text p @ c # fmt) (prec_args p @ args) = reswitch fl' (c # fmt) args \<and>
    plain_flags pl fl' \<and> width fl' = width fl"
proof (cases p)
  case None
  then show ?thesis using assms by (auto simp: prec_text_def prec_args_def)
next
  case (Some f)
  have d: "reswitch fl (0x2E # r) a = reswitch (fl\<lparr>dot := True\<rparr>) r a" for r a
    by (rule reswitch_flag) (simp add: flag_char_def)
  show ?thesis
  proof (cases f)
    case No_num
    then show ?thesis using assms Some d by (auto simp: prec_text_def prec_args_def plain_flags_def)
  next
    case (Num_digits ds)
    then show ?thesis
      using assms Some d reswitch_digits [of ds "fl\<lparr>dot := True\<rparr>" c fmt args]
      by (auto simp: prec_ok_def prec_text_def prec_args_def plain_flags_def)
  next
    case (Num_star x)
    then show ?thesis
      using assms Some d reswitch_star [of "fl\<lparr>dot := True\<rparr>" "c # fmt" x args]
      by (auto simp: prec_text_def prec_args_def plain_flags_def star_width_def)
  qed
qed

fun len_flags :: "nlen \<Rightarrow> kflags \<Rightarrow> kflags" where
  "len_flags Len_hh fl = fl\<lparr>hflag := False, cflag := True\<rparr>"
| "len_flags Len_h fl = fl\<lparr>hflag := True\<rparr>"
| "len_flags Len_int fl = fl"
| "len_flags Len_l fl = fl\<lparr>lflag := True\<rparr>"
| "len_flags Len_z fl = fl\<lparr>zflag := True\<rparr>"
| "len_flags Len_t fl = fl\<lparr>tflag := True\<rparr>"
| "len_flags Len_ll fl = fl\<lparr>lflag := False, qflag := True\<rparr>"
| "len_flags Len_q fl = fl\<lparr>qflag := True\<rparr>"
| "len_flags Len_j fl = fl\<lparr>jflag := True\<rparr>"

lemma reswitch_len:
  "plain_flags pl fl \<Longrightarrow> reswitch fl (len_text len @ fmt) args = reswitch (len_flags len fl) fmt args"
  by (cases len) (simp_all add: reswitch_flag flag_char_def plain_flags_def)

lemma k_conv_chars: "k_conv pl ch = Some sb \<Longrightarrow> ch \<in> {0x58, 0x64, 0x69, 0x6F, 0x72, 0x75, 0x78, 0x79}"
  by (auto simp: k_conv_def number_conv_def split: if_splits)

lemma reswitch_conv:
  assumes "k_conv pl ch = Some sb"
  shows "reswitch fl (ch # fmt) args = Inr (ch, fl, fmt, args)"
proof -
  have "flag_case fl ch fmt args = Inr None"
    using k_conv_chars [OF assms] by (elim insertE emptyE) (simp_all add: flag_case_def flag_char_def)
  then show ?thesis by (simp add: reswitch.simps(2))
qed

text \<open>The parts of a directive in turn.\<close>

lemma len_conv_head:
  assumes "k_conv pl ch = Some sb"
  shows "\<exists>c fmt. len_text len @ [ch, 0] = c # fmt \<and> \<not> is_digit c"
  using k_conv_chars [OF assms] by (cases len) auto

lemma prec_len_conv_head:
  assumes "k_conv pl ch = Some sb"
  shows "\<exists>c fmt. prec_text p @ len_text len @ [ch, 0] = c # fmt \<and> \<not> is_digit c"
  using len_conv_head [OF assms, of len] by (cases p) (auto simp: prec_text_def)

lemma reswitch_directive:
  assumes "set flags \<subseteq> {0x23, 0x2B, 0x2D, 0x30}" "width_ok w" "prec_ok p" "k_conv (0x2B \<in> set flags) ch = Some sb"
  shows "\<exists>fl. reswitch kflags0 (flags @ num_field_text w @ prec_text p @ len_text len @ [ch, 0]) (field_args w @ prec_args p @ args) =
      Inr (ch, len_flags len fl, [0], args) \<and> plain_flags (0x2B \<in> set flags) fl \<and> width fl = field_width w"
proof -
  have "plain_flags False kflags0" "\<not> dot kflags0" "width kflags0 = 0" by (simp_all add: plain_flags_def kflags0_def)
  then obtain fl1 where 1: "\<forall>r a. reswitch kflags0 (flags @ r) a = reswitch fl1 r a"
    "plain_flags (0x2B \<in> set flags) fl1" "\<not> dot fl1" "width fl1 = 0"
    using reswitch_flags [OF assms(1), of False kflags0] by auto
  obtain c r where c: "prec_text p @ len_text len @ [ch, 0] = c # r" "\<not> is_digit c"
    using prec_len_conv_head [OF assms(4)] by blast
  obtain fl2 where 2: "reswitch fl1 (num_field_text w @ c # r) (field_args w @ prec_args p @ args) = reswitch fl2 (c # r) (prec_args p @ args)"
    "plain_flags (0x2B \<in> set flags) fl2" "width fl2 = field_width w"
    using reswitch_width [OF assms(2) 1(2-4) c(2)] by blast
  obtain d t where d: "len_text len @ [ch, 0] = d # t" "\<not> is_digit d" using len_conv_head [OF assms(4)] by blast
  obtain fl3 where 3: "reswitch fl2 (prec_text p @ d # t) (prec_args p @ args) = reswitch fl3 (d # t) args"
    "plain_flags (0x2B \<in> set flags) fl3" "width fl3 = width fl2"
    using reswitch_prec [OF assms(3) 2(2) d(2)] by blast
  have "reswitch fl3 (d # t) args = Inr (ch, len_flags len fl3, [0], args)"
    unfolding d(1) [symmetric] reswitch_len [OF 3(2)] by (rule reswitch_conv [OF assms(4)])
  then show ?thesis
    using 1 2 3 unfolding c(1) [symmetric] d(1) [symmetric] by auto
qed

section \<open>The argument\<close>

definition karg_of :: "nlen \<Rightarrow> u64 \<Rightarrow> karg" where
  "karg_of len x = (if len_bits len = 64 then KLong x else KInt (ucast x))"

lemma sint_scast_up: "sint (scast w :: u64) = sint (w :: u32)" "sint (scast v :: u64) = sint (v :: u16)"
proof -
  have "signed_take_bit 63 (sint w) = sint w" "signed_take_bit 63 (sint v) = sint v"
    using sint_ge [of w] sint_lt [of w] sint_ge [of v] sint_lt [of v] by (simp_all add: signed_take_bit_int_eq_self)
  then show "sint (scast w :: u64) = sint w" "sint (scast v :: u64) = sint v" by (simp_all add: signed_scast_eq)
qed

lemma ucast_down: "(ucast (ucast (x :: u64) :: u32) :: u16) = ucast x" "(ucast (ucast x :: u32) :: u8) = ucast x"
  by (rule bit_word_eqI, simp add: bit_unsigned_iff)+

lemma sint_scast64:
  "sint (scast (ucast x :: u32) :: u64) = signed_take_bit 31 (uint (x :: u64))"
  "sint (scast (ucast (ucast x :: u32) :: u16) :: u64) = signed_take_bit 15 (uint x)"
  unfolding sint_scast_up ucast_down by (simp_all add: sint_uint unsigned_ucast_eq signed_take_bit_take_bit)

lemma uint_ucast64:
  "uint (ucast (ucast x :: u32) :: u64) = take_bit 32 (uint (x :: u64))"
  "uint (ucast (ucast (ucast x :: u32) :: u16) :: u64) = take_bit 16 (uint x)"
  "uint (ucast (ucast (ucast x :: u32) :: u8) :: u64) = take_bit 8 (uint x)"
  unfolding ucast_down by (simp_all add: unsigned_ucast_eq take_bit_take_bit unsigned_take_bit_eq)

lemma take_bit_positive: "0 \<le> signed_take_bit n (k :: int) \<Longrightarrow> signed_take_bit n k = take_bit (Suc n) k"
proof -
  assume "0 \<le> signed_take_bit n k"
  then have "\<not> bit k n" by simp
  then show ?thesis by (simp add: signed_take_bit_eq_take_bit_minus)
qed

lemma handle_sign_value:
  assumes "plain_flags pl fl" "\<not> (len = Len_hh \<and> c_value len True x < 0)"
  shows "\<exists>num. handle_sign (len_flags len fl) [karg_of len x] = Inr (num, []) \<and> sint num = c_value len True x"
proof -
  have "sint (ucast (ucast (ucast x :: u32) :: u8) :: u64) = take_bit 8 (uint x)"
  proof -
    define k where "k = take_bit 8 (uint x)"
    have "0 \<le> k" "k < 2 ^ 8" unfolding k_def by (simp, rule take_bit_int_less_exp)
    then have "signed_take_bit 63 k = k" by (intro signed_take_bit_int_eq_self) simp_all
    then show ?thesis unfolding sint_uint uint_ucast64(3) k_def [symmetric] by simp
  qed
  moreover have "signed_take_bit 63 (uint x) = sint x" by (simp add: sint_uint)
  ultimately show ?thesis
    using assms take_bit_positive [of 7 "uint x"]
    by (cases len) (simp_all add: handle_sign_def karg_of_def c_value_def plain_flags_def sint_scast64)
qed

lemma handle_nosign_value:
  assumes "plain_flags pl fl" "\<not> (len = Len_t \<and> c_value len True x < 0)"
  shows "\<exists>num. handle_nosign (len_flags len fl) [karg_of len x] = Inr (num, []) \<and> uint num = c_value len False x"
proof -
  have "uint (scast (ucast x :: u32) :: u64) = take_bit 32 (uint x)" if "0 \<le> signed_take_bit 31 (uint x)"
  proof -
    have "uint (scast (ucast x :: u32) :: u64) = signed_take_bit 31 (uint x)"
      using that sint_scast64(1) [of x] uint_nonneg [of "scast (ucast x :: u32) :: u64"] by simp
    then show ?thesis using take_bit_positive [OF that] by simp
  qed
  moreover have "take_bit 64 (uint x) = uint x" using take_bit_int_eq_self [of "uint x" 64] uint_lt2p [of x] by simp
  ultimately show ?thesis
    using assms
    by (cases len) (simp_all add: handle_nosign_def karg_of_def c_value_def plain_flags_def uint_ucast64)
qed

section \<open>Round trip\<close>

text \<open>
  C8: Printed numbers read back.  Take any directive of the conversions \<^verbatim>\<open>d i u o x X y r\<close> with any flags, a width and a
  precision that are absent, written out or taken from an argument, and any size; and any argument of that size.  The formatter
  returns, its text is at least as wide as the field, is counted exactly, and reads back, past blanks, sign, prefix and padding
  zeros, as the value that C gives the argument: its low bits, as many as the size has, signed or unsigned.  Left out are the
  smallest 64-bit number, whose negation C leaves undefined, and two sizes that the code converts wrongly: a negative \<^verbatim>\<open>%hhd\<close>
  and an unsigned \<^verbatim>\<open>%t\<close> with the top bit set.
\<close>

theorem printf_number_roundtrip:
  assumes "set flags \<subseteq> {0x23, 0x2B, 0x2D, 0x30}" "width_ok w" "prec_ok p"
    and "k_conv (0x2B \<in> set flags) ch = Some (sg, b)"
    and "\<not> (len = Len_hh \<and> sg \<and> c_value len True x < 0)" "\<not> (len = Len_t \<and> \<not> sg \<and> c_value len True x < 0)"
    and "c_value len sg x \<noteq> - (2 ^ 63)"
  shows "\<exists>cs k. kvprintf (Some (0x25 # flags @ num_field_text w @ prec_text p @ len_text len @ [ch, 0])) collect [] 10
      (field_args w @ prec_args p @ [karg_of len x]) = Inr k \<and>
    kstate k = chars cs \<and> retval k = length cs \<and> field_width w \<le> int (length cs) \<and>
    read_number b cs = c_value len sg x"
proof -
  obtain fl where r: "reswitch kflags0 ((flags @ num_field_text w @ prec_text p @ len_text len @ [ch]) @ [0])
      (field_args w @ prec_args p @ [karg_of len x]) = Inr (ch, len_flags len fl, [0], [karg_of len x])"
    and fl: "plain_flags (0x2B \<in> set flags) fl" "width fl = field_width w"
    using reswitch_directive [OF assms(1-4), of len "[karg_of len x]"] by auto
  have f: "width (len_flags len fl) = field_width w" "sign (len_flags len fl) = (0x2B \<in> set flags)"
    using fl by (cases len; simp add: plain_flags_def)+
  obtain num where num: "(if sg then handle_sign (len_flags len fl) [karg_of len x]
      else handle_nosign (len_flags len fl) [karg_of len x]) = Inr (num, [])" "number_value sg num = c_value len sg x"
    using handle_sign_value [OF fl(1), of len x] handle_nosign_value [OF fl(1), of len x] assms(5,6)
    by (cases sg) (auto simp: number_value_def)
  obtain cs where "convert collect 10 ch (len_flags len fl) [karg_of len x] \<lparr>kstate = [], retval = 0, stores = []\<rparr> =
      Inr (True, [], \<lparr>kstate = chars cs, retval = length cs, stores = []\<rparr>)"
      "field_width w \<le> int (length cs)" "read_number b cs = c_value len sg x"
    using convert_number [OF assms(4) [folded f(2)] num(1), of collect "\<lparr>kstate = [], retval = 0, stores = []\<rparr>"] num(2) f(1)
    by (auto simp: PCHARS_collect)
  then show ?thesis using kvprintf_single [OF r] by fastforce
qed

text \<open>The directive \<^verbatim>\<open>%-*hd\<close> with a width of 6 and an argument whose low 16 bits are those of -42.\<close>

theorem printf_number_roundtrip_witness:
  "\<exists>cs k. kvprintf (Some [0x25, 0x2D, 0x2A, 0x68, 0x64, 0]) collect [] 10 [KInt 6, KInt 0x1FFD6] = Inr k \<and>
    kstate k = chars cs \<and> retval k = length cs \<and> 6 \<le> int (length cs) \<and> read_number 10 cs = -42"
  using printf_number_roundtrip [of "[0x2D]" "Num_star 6" None "0x64" True 10 Len_h "0x1FFD6"]
  by (simp add: width_ok_def prec_ok_def prec_text_def prec_args_def k_conv_def number_conv_def c_value_def karg_of_def
      signed_take_bit_numeral_of_1)

end
