(* ===== verification/Tiny_Printf_Props.thy ===== *)
theory Tiny_Printf_Props
  imports Tiny_Printf Kprintf_Directive
begin

text \<open>
  Correctness of the formatter of \<^verbatim>\<open>lib/stdlib-ext/stdio-ext.c\<close>: its numbers fit their buffer and read back, and whatever
  it prints arrives in memory cut to the size, terminated, and counted in full.
\<close>

section \<open>Digits\<close>

lemma ui2a_char_digit: "unat dgt < 36 \<Longrightarrow> ui2a_char uc dgt = digit_char uc (unat dgt)"
proof -
  assume d: "unat dgt < 36"
  define c where "c = (if unat dgt < 10 then 48 else if uc then 55 else 87 :: nat)"
  have ten: "dgt < 10 \<longleftrightarrow> unat dgt < 10" by (simp add: word_less_nat_alt)
  have "ui2a_char uc dgt = ucast (dgt + of_nat c)" by (simp add: ui2a_char_def c_def ten)
  also have "\<dots> = of_nat (unat (dgt + of_nat c))" by (simp only: of_nat_unat)
  also have "unat (dgt + of_nat c) = unat dgt + c" using d by (simp add: unat_word_ariths c_def)
  finally show ?thesis using d by (simp add: digit_char_eq c_def add.commute)
qed

lemma num_val_acc: "foldl (\<lambda>a c. a * b + digit_val c) x cs = x * b ^ length cs + num_val b cs"
proof (induction cs arbitrary: x)
  case (Cons c cs)
  show ?case using Cons [of "x * b + digit_val c"] Cons [of "digit_val c"]
    by (simp add: num_val_def algebra_simps)
qed (simp add: num_val_def)

lemma num_val_Cons: "num_val b (c # cs) = digit_val c * b ^ length cs + num_val b cs"
  using num_val_acc [of b "digit_val c" cs] by (simp add: num_val_def)

lemma ui2a_scale_spec:
  assumes "1 < base" "unat d = unat base ^ j" "j = 0 \<or> unat base ^ j \<le> unat num"
  shows "\<exists>d' k. ui2a_scale num base d = Inr d' \<and> unat d' = unat base ^ k \<and>
    unat num < unat base ^ Suc k \<and> (k = 0 \<or> unat base ^ k \<le> unat num)"
  using assms
proof (induction num base d arbitrary: j rule: ui2a_scale.induct)
  case (1 num base d)
  have b: "1 < unat base" using "1.prems"(1) by (simp add: word_less_nat_alt)
  then have "unat d \<noteq> 0" using "1.prems"(2) by simp
  then have d: "d \<noteq> 0" by auto
  show ?case
  proof (cases "base \<le> num div d")
    case True
    have base: "base \<noteq> 0" "base \<noteq> 1" using b by auto
    have "unat (d * base) = unat base ^ Suc j" "unat (d * base) \<le> unat num"
      using scale_step [OF d True "1.prems"(1)] "1.prems"(2) by (simp_all add: mult.commute)
    then have "\<exists>d' k. ui2a_scale num base (d * base) = Inr d' \<and> unat d' = unat base ^ k \<and>
      unat num < unat base ^ Suc k \<and> (k = 0 \<or> unat base ^ k \<le> unat num)"
      using "1.IH" [OF d True base "1.prems"(1), of "Suc j"] by simp
    then show ?thesis using d True base by (simp add: ui2a_scale.simps [of num base d])
  next
    case False
    then have "unat num div unat base ^ j < unat base"
      using "1.prems"(2) by (simp add: word_le_nat_alt unat_div)
    then have "unat num < unat base ^ Suc j" using b by (simp add: div_less_iff_less_mult)
    with False d "1.prems" show ?thesis
      by (intro exI [of _ d] exI [of _ j]) (simp add: ui2a_scale.simps [of num base d])
  qed
qed

lemma ui2a_digits_spec:
  assumes "1 < base" "unat base \<le> 36" "unat d = unat base ^ k" "unat num < unat base ^ Suc k"
    "length acc + k + 1 < BF_SIZE" "acc \<noteq> [] \<or> k = 0 \<or> unat base ^ k \<le> unat num"
  shows "\<exists>ds. ui2a_digits num d base uc acc = Inr (acc @ ds @ [0]) \<and> length ds = Suc k \<and>
    num_val (unat base) ds = unat num \<and> list_all (is_base_digit (unat base)) ds"
  using assms(3-6)
proof (induction k arbitrary: num d acc)
  case 0
  have b: "1 < unat base" "base \<noteq> 0" "base \<noteq> 1" using assms(1) by (auto simp: word_less_nat_alt)
  have d: "d = 1" using 0(1) by (simp add: word_unat_eq_iff)
  have "(1 :: u64) div base = 0" using b(1) by (simp add: word_unat_eq_iff unat_div)
  moreover have "num div 1 = num" "num mod 1 = 0" by (simp_all add: word_unat_eq_iff unat_div unat_mod)
  ultimately have "ui2a_digits num d base uc acc = ui2a_digits 0 0 base uc (acc @ [ui2a_char uc num])"
    using 0(3) b(2,3) unfolding d by (subst ui2a_digits.simps) (simp add: Let_def)
  then show ?case
    using 0 assms(2) ui2a_char_digit [of num uc] digit_char_cases [of "unat num" uc]
    by (intro exI [of _ "[ui2a_char uc num]"]) (simp add: ui2a_digits.simps num_val_def)
next
  case (Suc k)
  have b: "1 < unat base" "base \<noteq> 0" "base \<noteq> 1" using assms(1) by (auto simp: word_less_nat_alt)
  define dgt where "dgt = num div d"
  have ud: "unat d = unat base * unat base ^ k" "unat d > 0" using Suc.prems(1) b by simp_all
  then have d: "d \<noteq> 0" by auto
  have d': "unat (d div base) = unat base ^ k" using ud b by (simp add: unat_div)
  have dgt: "unat dgt = unat num div unat d" by (simp add: dgt_def unat_div)
  have small: "unat dgt < unat base"
    unfolding dgt using Suc.prems(2) ud by (simp add: div_less_iff_less_mult mult.commute)
  have rest: "unat (num mod d) < unat base ^ Suc k" using ud by (simp add: unat_mod)
  have emit: "acc \<noteq> [] \<or> dgt > 0 \<or> d div base = 0"
  proof (rule disjCI)
    assume "\<not> (dgt > 0 \<or> d div base = 0)"
    then have "unat num div unat d = 0" using dgt by (simp add: word_less_nat_alt)
    then have "unat num < unat d" using ud(2) by (simp add: div_eq_0_iff)
    then show "acc \<noteq> []" using Suc.prems(1,4) by auto
  qed
  have step: "ui2a_digits num d base uc acc = ui2a_digits (num mod d) (d div base) base uc (acc @ [ui2a_char uc dgt])"
    using emit d b Suc.prems(3) by (subst ui2a_digits.simps) (auto simp: Let_def dgt_def)
  obtain ds where ds: "ui2a_digits (num mod d) (d div base) base uc (acc @ [ui2a_char uc dgt]) =
      Inr ((acc @ [ui2a_char uc dgt]) @ ds @ [0])" "length ds = Suc k"
      "num_val (unat base) ds = unat (num mod d)" "list_all (is_base_digit (unat base)) ds"
    using Suc.IH [OF d' rest, of "acc @ [ui2a_char uc dgt]"] Suc.prems(3) by auto
  have "unat dgt * unat base ^ Suc k + unat (num mod d) = unat num"
    unfolding unat_mod dgt Suc.prems(1) [symmetric] by (rule div_mult_mod_eq)
  then show ?case
    using step ds small assms(2) ui2a_char_digit [of dgt uc] digit_char_cases [of "unat dgt" uc]
    by (intro exI [of _ "ui2a_char uc dgt # ds"]) (simp add: num_val_Cons)
qed

text \<open>In base 8 and above a number of 64 bits has at most 22 digits: the buffer has room for them and the zero.\<close>

lemma digit_count:
  fixes num :: u64
  assumes "8 \<le> b" "b ^ k \<le> unat num"
  shows "k \<le> 21"
proof (rule ccontr)
  assume "\<not> k \<le> 21"
  then have "(8 :: nat) ^ 22 \<le> 8 ^ k" by (intro power_increasing) simp_all
  also have "\<dots> \<le> b ^ k" using assms(1) by (intro power_mono) simp_all
  also have "\<dots> < 2 ^ 64" using assms(2) unsigned_less [of num, where ?'a = nat] by simp
  finally show False by simp
qed

lemma ui2a_exact:
  assumes "p_base p = Some b" "8 \<le> unat b" "unat b \<le> 36"
  shows "\<exists>ds. ui2a num p = Inr (p\<lparr>p_bf := Some (ds @ [0])\<rparr>) \<and> ds \<noteq> [] \<and> length ds < BF_SIZE \<and>
    num_val (unat b) ds = unat (narrow (p_hh p) num) \<and> list_all (is_base_digit (unat b)) ds"
proof -
  define n where "n = narrow (p_hh p) num"
  define base where "base = (ucast b :: u64)"
  have ub: "unat base = unat b"
    using unsigned_less [of b, where ?'a = nat] by (simp add: base_def unsigned_ucast_eq take_bit_nat_eq_self)
  then have base: "1 < base" using assms(2) by (simp add: word_less_nat_alt)
  obtain d k where d: "ui2a_scale n base 1 = Inr d" "unat d = unat base ^ k" "unat n < unat base ^ Suc k"
    "k = 0 \<or> unat base ^ k \<le> unat n"
    using ui2a_scale_spec [OF base, of 1 0 n] by auto
  have k: "k \<le> 21" using d(4) digit_count [of "unat base" k n] assms(2) ub by auto
  obtain ds where "ui2a_digits n d base (p_uc p) [] = Inr (ds @ [0])" "length ds = Suc k"
    "num_val (unat base) ds = unat n" "list_all (is_base_digit (unat base)) ds"
    using ui2a_digits_spec [OF base _ d(2,3), of "[]" "p_uc p"] k d(4) ub assms(3) by (auto simp: BF_SIZE_def)
  then show ?thesis using d(1) k assms(1)
    by (auto simp: ui2a_def n_def [symmetric] base_def [symmetric] Let_def ub BF_SIZE_def)
qed

section \<open>Fields\<close>

text \<open>The file that keeps everything: its contents are the text of a format.\<close>

definition text_file :: "u8 list vmt" where
  "text_file = Some (\<lambda>n bs s. Inr (s @ take n bs, n))"

lemma text_putf [simp]: "putf text_file c s = Inr (s @ [c], 1)"
proof -
  have "uint c \<noteq> - 1" using uint_ge_0 [of c] by linarith
  then show ?thesis by (simp add: putf_def mfputc_def mfwrite_def text_file_def)
qed

lemma text_emit [simp]: "emit text_file c (s, w) = Inr (s @ [c], w + 1)"
  by (simp add: emit_def)

lemma text_pad:
  "pad_loop text_file c n (s, w) =
     Inr (min n 0 - 1, s @ replicate (nat n) c, w + of_nat (nat n))"
proof (induction "nat n" arbitrary: n s w)
  case (Suc k)
  then have n: "n > 0" "k = nat (n - 1)" by linarith+
  then have "nat n = Suc (nat (n - 1))" by linarith
  with n Suc.hyps(1) [OF n(2), of "s @ [c]" "w + 1"] show ?case
    by (simp add: pad_loop.simps [of text_file c n])
qed (simp add: pad_loop.simps)

lemma text_put: "0 \<in> set bf \<Longrightarrow> put_loop text_file bf (s, w) = Inr (s @ cstr bf, w + of_nat (length (cstr bf)))"
  by (induction bf arbitrary: s w) (auto simp: cstr_def algebra_simps)

lemma fill_loop_spec: "0 \<in> set bf \<Longrightarrow> 0 \<le> n \<Longrightarrow> fill_loop bf n = Inr (max 0 (n - int (length (cstr bf))))"
  by (induction bf n rule: fill_loop.induct) (auto simp: cstr_def)

text \<open>A field: the text behind sign and prefix, filled to the width with blanks before, zeros between, or blanks
  behind.\<close>

definition field_prefix :: "param \<Rightarrow> u8 \<Rightarrow> u8 list" where
  "field_prefix p b =
     (if p_sign p then [0x2D] else []) @
     (if b = 16 then [0x30, if p_uc p then 0x58 else 0x78] else if b = 8 then [0x30] else [])"

definition field :: "param \<Rightarrow> u8 \<Rightarrow> u8 list \<Rightarrow> u8 list" where
  "field p b t =
     (let pre = field_prefix p b; n = unat (p_width p) - length t - length pre
      in if p_lz p \<noteq> 0 then pre @ replicate n 0x30 @ t
         else if p_left p then pre @ t @ replicate n 0x20
         else replicate n 0x20 @ pre @ t)"

lemma field_text_width: "unat (p_width p) \<le> length (field p b t)"
  by (cases "p_lz p = 0"; cases "p_left p") (simp_all add: field_def Let_def)

lemma pad_count:
  "n = max 0 (int a - int b) - int c \<Longrightarrow> nat n = a - b - c" "n = max 0 (int a - int b) - int c \<Longrightarrow> nat (min n 0 - 1) = 0"
  by linarith+

lemma putchw_text:
  assumes "p_bf p = Some bf" "0 \<in> set bf" "alt_base p = Inr b"
  shows "putchw text_file p (s, w) = Inr (s @ field p b (cstr bf), w + of_nat (length (field p b (cstr bf))))"
proof -
  define t where "t = cstr bf"
  define pre where "pre = field_prefix p b"
  define n where "n = max 0 (int (unat (p_width p)) - int (length t)) - int (length pre)"
  define m where "m = unat (p_width p) - length t - length pre"
  have n: "nat n = m" "nat (min n 0 - 1) = 0" unfolding m_def by (rule pad_count [OF n_def])+
  have fill: "fill_loop bf (uint (p_width p)) = Inr (n + int (length pre))"
    using fill_loop_spec [OF assms(2), of "uint (p_width p)"] by (simp add: n_def t_def)
  have less: "(let n1 = (if p_sign p then n + int (length pre) - 1 else n + int (length pre))
      in if b = 16 then n1 - 2 else if b = 8 then n1 - 1 else n1) = n"
    by (simp add: pre_def field_prefix_def)
  have head: "res_bind (if p_sign p then emit text_file 0x2D (x, v) else Inr (x, v)) (\<lambda>st.
      res_bind (if b = 16 then res_bind (emit text_file 0x30 st) (emit text_file (if p_uc p then 0x58 else 0x78))
        else if b = 8 then emit text_file 0x30 st else Inr st) f) = f (x @ pre, v + of_nat (length pre))" for x v f
    by (simp add: pre_def field_prefix_def algebra_simps)
  have f: "field p b t = (if p_lz p \<noteq> 0 then pre @ replicate m 0x30 @ t
      else if p_left p then pre @ t @ replicate m 0x20 else replicate m 0x20 @ pre @ t)"
    by (simp add: field_def pre_def m_def Let_def)
  consider "p_lz p \<noteq> 0" | "p_lz p = 0" "p_left p" | "p_lz p = 0" "\<not> p_left p" by blast
  then show ?thesis
    unfolding putchw_def assms option.case fill res_bind_simps Let_def less [unfolded Let_def] t_def [symmetric] f
    by cases (simp_all add: head text_pad text_put [OF assms(2)] n t_def [symmetric] algebra_simps)
qed

section \<open>Numbers read back\<close>

lemma flags_sign: "flags_loop p fmt = Inr (ch, fmt', p') \<Longrightarrow> p_sign p' = p_sign p \<and> p_uc p' = p_uc p"
  by (induction p fmt rule: flags_loop.induct) (auto split: if_splits)

lemma width_part_sign:
  "width_part ch fmt p va = Inr (ch', fmt', p', q) \<Longrightarrow> p_sign p' = p_sign p \<and> p_uc p' = p_uc p"
  by (auto simp: width_part_def res_bind_Inr_iff Let_def split: if_splits)

lemma length_part_sign:
  "length_part ch fmt p = Inr (ch', fmt', p', q) \<Longrightarrow> p_sign p' = p_sign p \<and> p_uc p' = p_uc p"
  by (auto simp: length_part_def res_bind_Inr_iff split: if_splits)

lemma directive_sign:
  "directive_parts p fmt va = Inr (ch, fmt', p', q) \<Longrightarrow> p_sign p' = p_sign p \<and> p_uc p' = p_uc p"
  by (auto simp: directive_parts_def res_bind_Inr_iff dest!: flags_sign width_part_sign length_part_sign)

text \<open>The value a conversion shows: the short sizes cut the magnitude.\<close>

definition shown_value :: "nat \<Rightarrow> bool \<Rightarrow> u64 \<Rightarrow> int" where
  "shown_value hh sg num =
     (if sg \<and> sint num < 0 then - uint (narrow hh (- num)) else uint (narrow hh num))"

lemma shown_value_full: "hh = 0 \<Longrightarrow> shown_value hh sg num = number_value sg num"
  by (simp add: shown_value_def number_value_def narrow_def uint_minus_neg uint_nonneg)

definition number_param :: "u8 \<Rightarrow> nat \<Rightarrow> param \<Rightarrow> param" where
  "number_param ch b p = (if b = 16 then p\<lparr>p_base := Some 16, p_uc := (ch = 0x58)\<rparr> else p\<lparr>p_base := Some (of_nat b)\<rparr>)"

lemma switch_number:
  "number_conv ch = Some (sg, b) \<Longrightarrow>
   tfp_switch vmt dop ch lng p va st = conv_int vmt sg lng (number_param ch b p) va st"
  by (auto simp: number_conv_def tfp_switch_def number_param_def split: if_splits)

lemma number_conv_base: "number_conv ch = Some (sg, b) \<Longrightarrow> (b = 8 \<or> b = 10 \<or> b = 16) \<and> ch \<noteq> 0"
  by (auto simp: number_conv_def split: if_splits)

lemma number_digits:
  assumes "p_base p = Some (of_nat b)" "b = 8 \<or> b = 10 \<or> b = 16" "\<not> p_sign p" "sg \<longrightarrow> sint num \<noteq> - (2 ^ 63)"
  shows "\<exists>ds. (if sg then i2a num p else ui2a num p) =
      Inr (p\<lparr>p_sign := (sg \<and> sint num < 0), p_bf := Some (ds @ [0])\<rparr>) \<and> ds \<noteq> [] \<and>
    list_all (is_base_digit b) ds \<and> (if sg \<and> sint num < 0 then - int (num_val b ds) else int (num_val b ds)) = shown_value (p_hh p) sg num"
proof -
  have b: "8 \<le> unat (of_nat b :: u8)" "unat (of_nat b :: u8) \<le> 36" "unat (of_nat b :: u8) = b" using assms(2) by auto
  define neg where "neg = (sg \<and> sint num < 0)"
  define q where "q = p\<lparr>p_sign := neg\<rparr>"
  define v where "v = (if neg then - num else num)"
  obtain ds where ds: "ui2a v q = Inr (q\<lparr>p_bf := Some (ds @ [0])\<rparr>)" "ds \<noteq> []"
    "num_val b ds = unat (narrow (p_hh p) v)" "list_all (is_base_digit b) ds"
    using ui2a_exact [OF _ b(1,2), of q v] assms(1) b(3) by (auto simp: q_def)
  have "p\<lparr>p_sign := False\<rparr> = p" using assms(3) by simp
  then have "(if sg then i2a num p else ui2a num p) = ui2a v q"
    using assms(4) by (auto simp: i2a_def neg_def q_def v_def)
  then show ?thesis
    unfolding neg_def [symmetric] using ds by (intro exI [of _ ds]) (auto simp: q_def v_def shown_value_def neg_def [symmetric])
qed

lemma read_field:
  assumes "list_all (is_base_digit b) ds" "ds \<noteq> []" "b = 8 \<or> b = 10 \<or> b = 16" "c = (if p_alt p then of_nat b else 0)"
  shows "read_number b (field p c ds) = (if p_sign p then - int (num_val b ds) else int (num_val b ds))"
proof -
  define hexp where "hexp = (if c = 16 then [0x30, if p_uc p then 0x58 else 0x78] else if c = 8 then [0x30 :: u8] else [])"
  have pre: "field_prefix p c = (if p_sign p then [0x2D] else []) @ hexp" by (simp add: field_prefix_def hexp_def)
  have hexp: "hexp = [] \<or> b = 8 \<and> hexp = [0x30] \<or> b = 16 \<and> (hexp = [0x30, 0x78] \<or> hexp = [0x30, 0x58])"
    using assms(3,4) by (auto simp: hexp_def)
  note body = read_number_body [OF assms(1-3) pre hexp]
  show ?thesis
    using body [of _ 0 0] body [of 0 _ 0] body [of 0 0] by (simp add: field_def Let_def)
qed

lemma number_directive:
  assumes "directive_parts (param_init param0) (spec @ [0]) va = Inr (ch, [0], p, lng, va')"
    and "number_conv ch = Some (sg, b)"
    and "intarg lng sg va' = Inr (num, rest)"
    and "sg \<longrightarrow> sint num \<noteq> - (2 ^ 63)"
  shows "\<exists>cs. tfp_format text_file dop (0x25 # spec @ [0]) va [] = Inr (cs, of_nat (length cs)) \<and>
    unat (p_width p) \<le> length cs \<and> read_number b cs = shown_value (p_hh p) sg num"
proof -
  define q where "q = number_param ch b p"
  have b: "b = 8 \<or> b = 10 \<or> b = 16" and ch: "ch \<noteq> 0" using number_conv_base [OF assms(2)] by blast+
  have p: "\<not> p_sign p" "\<not> p_uc p" using directive_sign [OF assms(1)] by (auto simp: param_init_def)
  have q: "p_base q = Some (of_nat b)" "\<not> p_sign q" "p_hh q = p_hh p" "p_width q = p_width p" "p_alt q = p_alt p"
    using b p by (auto simp: q_def number_param_def)
  define neg where "neg = (sg \<and> sint num < 0)"
  obtain ds where ds: "(if sg then i2a num q else ui2a num q) = Inr (q\<lparr>p_sign := neg, p_bf := Some (ds @ [0])\<rparr>)"
    "ds \<noteq> []" "list_all (is_base_digit b) ds"
    "(if neg then - int (num_val b ds) else int (num_val b ds)) = shown_value (p_hh p) sg num"
    using number_digits [OF q(1) b q(2) assms(4)] unfolding q(3) neg_def by blast
  define r where "r = q\<lparr>p_sign := neg, p_bf := Some (ds @ [0])\<rparr>"
  define c where "c = (if p_alt r then of_nat b else 0 :: u8)"
  have "0 \<notin> set ds" using ds(3) by (auto simp: list_all_iff is_base_digit_def)
  then have t: "cstr (ds @ [0]) = ds" by (induction ds) (auto simp: cstr_def)
  have put: "putchw text_file r ([], 0) = Inr (field r c ds, of_nat (length (field r c ds)))"
    using putchw_text [of r "ds @ [0]" c "[]" 0] q(1) t by (simp add: r_def alt_base_def c_def)
  have "conv_int text_file sg lng q va' ([], 0) = Inr ((r, rest), field r c ds, of_nat (length (field r c ds)))"
    unfolding conv_int_def assms(3) res_bind_simps prod.case ds(1) r_def [symmetric] put ..
  then have "tfp_format text_file dop (0x25 # spec @ [0]) va [] = Inr (field r c ds, of_nat (length (field r c ds)))"
    using assms(1) ch by (simp add: tfp_format_def tfp_loop.simps(2) switch_number [OF assms(2)] q_def [symmetric])
  moreover have "read_number b (field r c ds) = shown_value (p_hh p) sg num"
    using read_field [OF ds(3,2) b c_def] q(5) ds(4) by (simp add: r_def)
  ultimately show ?thesis using field_text_width [of r c ds] q(4) by (auto simp: r_def)
qed

section \<open>Number directives\<close>

text \<open>The parts of a directive that is written out as flags, width, size and conversion.\<close>

lemma flags_loop_flags:
  "set flags \<subseteq> {0x23, 0x2D, 0x30} \<Longrightarrow> c \<notin> {0x23, 0x2D, 0x30} \<Longrightarrow>
   \<exists>p'. flags_loop p (flags @ c # fmt) = Inr (c, fmt, p') \<and> p_width p' = p_width p \<and> p_hh p' = p_hh p"
proof (induction flags arbitrary: p)
  case (Cons f flags)
  then have "f = 0x30 \<or> f = 0x23 \<or> f = 0x2D" by auto
  then show ?case
  proof (elim disjE)
    assume "f = 0x30"
    then show ?thesis using Cons.IH [of "if p_left p then p else p\<lparr>p_lz := 1\<rparr>"] Cons.prems by auto
  next
    assume "f = 0x23"
    then show ?thesis using Cons.IH [of "p\<lparr>p_alt := True\<rparr>"] Cons.prems by auto
  next
    assume "f = 0x2D"
    then show ?thesis using Cons.IH [of "p\<lparr>p_left := True, p_lz := 0\<rparr>"] Cons.prems by auto
  qed
qed auto

lemma a2d_digit: "is_digit d \<Longrightarrow> a2d d = int (digit_val d) \<and> digit_val d < 10"
proof -
  assume d: "is_digit d"
  then have "unat d \<ge> 48" "unat d \<le> 57" by (simp_all add: word_le_nat_alt)
  with d digit_val_dec [OF d] show ?thesis by (simp add: a2d_def digit_val_def word_le_nat_alt)
qed

lemma a2i_stop: "\<not> (0 \<le> a2d c \<and> a2d c \<le> 10) \<Longrightarrow> a2i c fmt 10 num = Inr (c, fmt, word_of_int num)"
  by (subst a2i.simps) auto

lemma a2i_step:
  "is_digit d \<Longrightarrow> n * 10 + digit_val d \<le> 255 \<Longrightarrow> a2i d (c # fmt) 10 (int n) = a2i c fmt 10 (int (n * 10 + digit_val d))"
  using a2d_digit [of d] by (subst a2i.simps) (simp add: Let_def)

lemma foldl_digits_le: "m \<le> foldl (\<lambda>a c. a * 10 + digit_val c) m ds"
proof (induction ds arbitrary: m)
  case (Cons d ds)
  have "m \<le> m * 10 + digit_val d" by simp
  also have "\<dots> \<le> foldl (\<lambda>a c. a * 10 + digit_val c) (m * 10 + digit_val d) ds" by (rule Cons)
  finally show ?case by simp
qed simp

lemma a2i_digits:
  "list_all is_digit ds \<Longrightarrow> is_digit d \<Longrightarrow> \<not> (0 \<le> a2d c \<and> a2d c \<le> 10) \<Longrightarrow>
   foldl (\<lambda>a c. a * 10 + digit_val c) n (d # ds) \<le> 255 \<Longrightarrow>
   a2i d (ds @ c # fmt) 10 (int n) = Inr (c, fmt, of_nat (foldl (\<lambda>a c. a * 10 + digit_val c) n (d # ds)))"
proof (induction ds arbitrary: d n)
  case Nil
  then show ?case by (simp add: a2i_step a2i_stop del: of_nat_add of_nat_mult)
next
  case (Cons e ds)
  have "n * 10 + digit_val d \<le> 255"
    using Cons.prems(4) foldl_digits_le [of "n * 10 + digit_val d" "e # ds"] by (simp only: foldl.simps)
  then show ?case
    using Cons.IH [of e "n * 10 + digit_val d"] Cons.prems by (simp add: a2i_step del: of_nat_add of_nat_mult)
qed

fun targ_width :: "num_field \<Rightarrow> 'd targ list" where
  "targ_width (Num_star x) = [VInt x]"
| "targ_width _ = []"

text \<open>The width of a field is a byte; a star gives at most 255 and a negative one nothing.\<close>

fun tiny_width :: "num_field \<Rightarrow> nat" where
  "tiny_width No_num = 0"
| "tiny_width (Num_digits ds) = num_val 10 ds"
| "tiny_width (Num_star x) = nat (min 255 (sint x))"

definition tiny_width_ok :: "num_field \<Rightarrow> bool" where
  "tiny_width_ok w = (width_ok w \<and> tiny_width w \<le> 255)"

lemma width_part_field:
  assumes "tiny_width_ok w" "p_width p = 0" "num_field_text w @ c # fmt = ch # r"
    "\<not> (0 \<le> a2d c \<and> a2d c \<le> 10)" "c \<noteq> 0x2A" "\<not> is_digit c"
  shows "\<exists>p'. width_part ch r p (targ_width w @ va) = Inr (c, fmt, p', va) \<and> unat (p_width p') = tiny_width w \<and> p_hh p' = p_hh p"
proof (cases w)
  case No_num
  then show ?thesis using assms by (auto simp: width_part_def)
next
  case (Num_digits ds)
  then obtain ds' where ds: "ds = ch # ds'" "r = ds' @ c # fmt" "list_all is_digit ds'" "is_digit ch"
    using assms(1,3) by (cases ds) (auto simp: tiny_width_ok_def width_ok_def)
  then have "num_val 10 ds \<le> 255" "ch \<noteq> 0x2A" using assms(1) Num_digits by (auto simp: tiny_width_ok_def)
  then show ?thesis
    using ds a2i_digits [OF ds(3,4) assms(4), of 0 fmt] Num_digits
    by (simp add: width_part_def num_val_def unat8)
next
  case (Num_star x)
  define i where "i = sint x"
  have u: "unat (word_of_int i :: u8) = nat i" if "0 < i" "i \<le> 255" for i
    using that unat8 [of "nat i"] by (simp add: of_nat_nat)
  have c: "ucast (scast x :: u64) = x" by (rule bit_word_eqI) (simp add: bit_simps)
  show ?thesis
    using Num_star assms(2,3) u [of i]
    by (auto simp: width_part_def Let_def c i_def [symmetric] min_def)
qed

fun tiny_hh :: "nlen \<Rightarrow> nat" where
  "tiny_hh Len_hh = 2"
| "tiny_hh Len_h = 1"
| "tiny_hh _ = 0"

fun tiny_lng :: "nlen \<Rightarrow> nat" where
  "tiny_lng Len_l = 1"
| "tiny_lng Len_ll = 2"
| "tiny_lng _ = 0"

definition tiny_lens :: "nlen set" where
  "tiny_lens = {Len_hh, Len_h, Len_int, Len_l, Len_z, Len_ll}"

lemma number_conv_chars: "number_conv ch = Some sb \<Longrightarrow> ch \<in> {0x58, 0x64, 0x69, 0x6F, 0x75, 0x78}"
  by (auto simp: number_conv_def split: if_splits)

lemma len_head:
  assumes "len \<in> tiny_lens" "number_conv ch = Some sb"
  shows "\<exists>c t. len_text len @ [ch, 0] = c # t \<and> \<not> (0 \<le> a2d c \<and> a2d c \<le> 10) \<and> c \<notin> {0x23, 0x2A, 0x2D, 0x30} \<and> \<not> is_digit c"
  using number_conv_chars [OF assms(2)] assms(1) unfolding tiny_lens_def
  by (elim insertE emptyE) (simp_all add: a2d_def)

lemma len_parts:
  assumes "len \<in> tiny_lens" "number_conv ch = Some sb" "len_text len @ [ch, 0] = c # t" "p_hh p = 0"
  shows "\<exists>c1 t1 p' c2 t2. length_part c t p = Inr (c1, t1, p', tiny_lng len) \<and> size_part c1 t1 = Inr (c2, t2) \<and>
    precision_part c2 t2 va = Inr (ch, [0], va) \<and> p_hh p' = tiny_hh len \<and> p_width p' = p_width p"
proof -
  have ch: "ch \<noteq> 0x6C" "ch \<noteq> 0x68" "ch \<noteq> 0x7A" "ch \<noteq> 0x2E" using number_conv_chars [OF assms(2)] by auto
  show ?thesis
    using assms(1,3,4) ch unfolding tiny_lens_def
    by (elim insertE emptyE) (auto simp: length_part_def size_part_def precision_part_def)
qed

lemma field_head:
  assumes "tiny_width_ok w" "c \<notin> {0x23, 0x2A, 0x2D, 0x30}"
  shows "\<exists>f r. num_field_text w @ c # t = f # r \<and> f \<notin> {0x23, 0x2D, 0x30}"
proof (cases w)
  case (Num_digits ds)
  then obtain d ds' where d: "ds = d # ds'" "is_digit d" "d \<noteq> 0x30"
    using assms(1) by (cases ds) (auto simp: tiny_width_ok_def width_ok_def)
  then have "d \<noteq> 0x23" "d \<noteq> 0x2D" by auto
  with d Num_digits show ?thesis by auto
qed (use assms(2) in auto)

lemma directive_text:
  assumes "set flags \<subseteq> {0x23, 0x2D, 0x30}" "tiny_width_ok w" "len \<in> tiny_lens" "number_conv ch = Some sb"
  shows "\<exists>p. directive_parts (param_init param0) (flags @ num_field_text w @ len_text len @ [ch, 0]) (targ_width w @ va) =
      Inr (ch, [0], p, tiny_lng len, va) \<and> unat (p_width p) = tiny_width w \<and> p_hh p = tiny_hh len"
proof -
  obtain c t where c: "len_text len @ [ch, 0] = c # t" "\<not> (0 \<le> a2d c \<and> a2d c \<le> 10)" "c \<notin> {0x23, 0x2A, 0x2D, 0x30}"
    "\<not> is_digit c" using len_head [OF assms(3,4)] by blast
  obtain f r where f: "num_field_text w @ c # t = f # r" "f \<notin> {0x23, 0x2D, 0x30}"
    using field_head [OF assms(2) c(3)] by blast
  obtain p1 where 1: "flags_loop (param_init param0) (flags @ f # r) = Inr (f, r, p1)" "p_width p1 = 0" "p_hh p1 = 0"
    using flags_loop_flags [OF assms(1) f(2), of "param_init param0" r] by (auto simp: param_init_def)
  obtain p2 where 2: "width_part f r p1 (targ_width w @ va) = Inr (c, t, p2, va)" "unat (p_width p2) = tiny_width w" "p_hh p2 = 0"
    using width_part_field [OF assms(2) 1(2) f(1) c(2) _ c(4), of va] c(3) 1(3) by auto
  obtain c1 t1 p3 c2 t2 where 3: "length_part c t p2 = Inr (c1, t1, p3, tiny_lng len)" "size_part c1 t1 = Inr (c2, t2)"
    "precision_part c2 t2 va = Inr (ch, [0], va)" "p_hh p3 = tiny_hh len" "p_width p3 = p_width p2"
    using len_parts [OF assms(3,4) c(1) 2(3), of va] by blast
  have "directive_parts (param_init param0) (flags @ f # r) (targ_width w @ va) = Inr (ch, [0], p3, tiny_lng len, va)"
    by (simp add: directive_parts_def 1 2 3)
  then show ?thesis using 2(2) 3(4,5) f(1) c(1) by auto
qed

definition targ_of :: "nlen \<Rightarrow> u64 \<Rightarrow> 'd targ" where
  "targ_of len x = (if len_bits len = 64 then VLong x else VInt (ucast x))"

text \<open>An argument of a short size as C passes it: an \<^verbatim>\<open>int\<close> in the range of that size.\<close>

definition promoted :: "nlen \<Rightarrow> u64 \<Rightarrow> bool" where
  "promoted len x \<longleftrightarrow> (len = Len_hh \<or> len = Len_h \<longrightarrow> c_value len True x = c_value Len_int True x)"

lemma narrow_small:
  "hh = 1 \<and> uint n < 2 ^ 16 \<or> hh = 2 \<and> uint n < 2 ^ 8 \<or> hh = 0 \<Longrightarrow> uint (narrow hh n) = uint n"
  by (auto simp: narrow_def unsigned_ucast_eq unsigned_take_bit_eq take_bit_int_eq_self)

lemma shown_signed:
  assumes "hh = 1 \<and> - (2 ^ 15) \<le> sint n \<and> sint n < 2 ^ 15 \<or> hh = 2 \<and> - (2 ^ 7) \<le> sint n \<and> sint n < 2 ^ 7 \<or> hh = 0"
  shows "shown_value hh True n = sint n"
proof (cases "sint n < 0")
  case True
  then have "uint (narrow hh (- n)) = uint (- n)" using assms uint_minus_neg [OF True] by (intro narrow_small) auto
  with True show ?thesis by (simp add: shown_value_def uint_minus_neg)
next
  case False
  then have "uint (narrow hh n) = uint n" using assms uint_nonneg [OF False] by (intro narrow_small) auto
  with False show ?thesis by (simp add: shown_value_def uint_nonneg)
qed

lemma signed_range: "- (2 ^ n) \<le> signed_take_bit n (k :: int)" "signed_take_bit n k < 2 ^ n"
  by (rule signed_take_bit_int_greater_eq_minus_exp, rule signed_take_bit_int_less_exp)

lemma promoted_range:
  assumes "promoted len x" "len = Len_hh \<or> len = Len_h"
  shows "- (2 ^ (len_bits len - 1)) \<le> signed_take_bit 31 (uint x) \<and> signed_take_bit 31 (uint x) < 2 ^ (len_bits len - 1)"
  using assms signed_range [of 7 "uint x"] signed_range [of 15 "uint x"] by (auto simp: promoted_def c_value_def)

lemma intarg_signed:
  assumes "len \<in> tiny_lens" "promoted len x"
  shows "\<exists>num. intarg (tiny_lng len) True [targ_of len x] = Inr (num, []) \<and> sint num = c_value len True x \<and>
    shown_value (tiny_hh len) True num = c_value len True x"
proof (cases "len = Len_ll")
  case True
  then show ?thesis by (simp add: targ_of_def shown_signed c_value_def sint_uint)
next
  case False
  define num :: u64 where "num = scast (ucast x :: u32)"
  have n: "sint num = c_value len True x"
    using assms False by (auto simp: num_def sint_scast64 c_value_def tiny_lens_def promoted_def)
  have "shown_value (tiny_hh len) True num = sint num"
    using assms False promoted_range [OF assms(2)]
    by (intro shown_signed) (auto simp: num_def sint_scast64 tiny_lens_def)
  with n show ?thesis using assms(1) False by (auto simp: targ_of_def tiny_lens_def num_def)
qed

lemma intarg_unsigned:
  assumes "len \<in> tiny_lens"
  shows "\<exists>num. intarg (tiny_lng len) False [targ_of len x] = Inr (num, []) \<and>
    shown_value (tiny_hh len) False num = c_value len False x"
  using assms bintr_uint [where w = x and n = 64] unfolding tiny_lens_def
  by (elim insertE emptyE)
    (simp_all add: targ_of_def shown_value_def narrow_def c_value_def unsigned_ucast_eq take_bit_take_bit unsigned_take_bit_eq)

lemma intarg_value:
  assumes "len \<in> tiny_lens" "sg \<longrightarrow> promoted len x"
  shows "\<exists>num. intarg (tiny_lng len) sg [targ_of len x] = Inr (num, []) \<and>
    shown_value (tiny_hh len) sg num = c_value len sg x \<and> (sg \<longrightarrow> sint num = c_value len sg x)"
proof (cases sg)
  case True
  then show ?thesis using intarg_signed assms by (metis (full_types))
next
  case False
  then show ?thesis using intarg_unsigned assms(1) by (metis (full_types))
qed

text \<open>
  C11.  The text of a number directive reads back as the argument.  The directive is written out in full: any of the flags \<^verbatim>\<open>#\<close>,
  \<^verbatim>\<open>-\<close> and \<^verbatim>\<open>0\<close> in any order, no width, one in digits up to 255 or a star, one of the sizes
  \<^verbatim>\<open>hh\<close>, \<^verbatim>\<open>h\<close>, none, \<^verbatim>\<open>l\<close>, \<^verbatim>\<open>z\<close> and \<^verbatim>\<open>ll\<close>, and one of the conversions
  \<^verbatim>\<open>d i u o x X\<close>.  The formatter reads just the arguments of the directive, writes at least as many characters as the
  width, and the characters read back in the base of the conversion as the value that C gives the argument at that size.
  Left out: a signed \<^verbatim>\<open>h\<close> or \<^verbatim>\<open>hh\<close> argument outside the range of its type, whose magnitude is cut instead of its
  value, the smallest 64-bit number, which the code negates, and a precision.
\<close>

theorem tiny_number_roundtrip:
  fixes dop :: "'d dops"
  assumes "set flags \<subseteq> {0x23, 0x2D, 0x30}" "tiny_width_ok w" "len \<in> tiny_lens" "number_conv ch = Some (sg, b)"
    and "sg \<longrightarrow> promoted len x" "c_value len sg x \<noteq> - (2 ^ 63)"
  shows "\<exists>cs. tfp_format text_file dop (0x25 # flags @ num_field_text w @ len_text len @ [ch, 0])
      (targ_width w @ [targ_of len x]) [] = Inr (cs, of_nat (length cs)) \<and>
    tiny_width w \<le> length cs \<and> read_number b cs = c_value len sg x"
proof -
  obtain p where p: "directive_parts (param_init param0) ((flags @ num_field_text w @ len_text len @ [ch]) @ [0])
      (targ_width w @ [targ_of len x]) = Inr (ch, [0], p, tiny_lng len, [targ_of len x :: 'd targ])"
    "unat (p_width p) = tiny_width w" "p_hh p = tiny_hh len"
    using directive_text [OF assms(1-4), of "[targ_of len x]"] by auto
  obtain num where num: "intarg (tiny_lng len) sg [targ_of len x :: 'd targ] = Inr (num, [])"
    "shown_value (tiny_hh len) sg num = c_value len sg x" "sg \<longrightarrow> sint num = c_value len sg x"
    using intarg_value [OF assms(3,5)] by blast
  have "sg \<longrightarrow> sint num \<noteq> - (2 ^ 63)" using num(3) assms(6) by auto
  from number_directive [OF p(1) assms(4) num(1) this] show ?thesis using p(2,3) num(2) by simp
qed

text \<open>The directives \<open>%#-08hd\<close> on -5 and \<open>%*X\<close> on 6 and 0xBEEF.\<close>

theorem tiny_number_roundtrip_witness:
  "(\<exists>cs. tfp_format text_file (\<lparr>d_int = \<lambda>d :: nat. None, d_frac = \<lambda>d i. None, d_neg = \<lambda>d. False\<rparr>)
       [0x25, 0x23, 0x2D, 0x30, 0x38, 0x68, 0x64, 0] [VInt (- 5)] [] = Inr (cs, of_nat (length cs)) \<and>
     8 \<le> length cs \<and> read_number 10 cs = - 5) \<and>
   (\<exists>cs. tfp_format text_file (\<lparr>d_int = \<lambda>d :: nat. None, d_frac = \<lambda>d i. None, d_neg = \<lambda>d. False\<rparr>)
       [0x25, 0x2A, 0x58, 0] [VInt 6, VInt 0xBEEF] [] = Inr (cs, of_nat (length cs)) \<and>
     6 \<le> length cs \<and> read_number 16 cs = 0xBEEF)"
proof (intro conjI)
  have v: "c_value Len_h True (- 5) = - 5" "promoted Len_h (- 5)" "c_value Len_int False 0xBEEF = 0xBEEF"
    by (simp_all add: c_value_def promoted_def)
  have a: "(targ_of Len_h (- 5) :: nat targ) = VInt (- 5)" by (simp add: targ_of_def)
  show "\<exists>cs. tfp_format text_file (\<lparr>d_int = \<lambda>d :: nat. None, d_frac = \<lambda>d i. None, d_neg = \<lambda>d. False\<rparr>)
       [0x25, 0x23, 0x2D, 0x30, 0x38, 0x68, 0x64, 0] [VInt (- 5)] [] = Inr (cs, of_nat (length cs)) \<and>
     8 \<le> length cs \<and> read_number 10 cs = - 5"
    using tiny_number_roundtrip [where flags = "[0x23, 0x2D, 0x30]" and w = "Num_digits [0x38]" and len = Len_h and ch = "0x64"
        and sg = True and b = 10 and x = "- 5" and dop = "\<lparr>d_int = \<lambda>d :: nat. None, d_frac = \<lambda>d i. None, d_neg = \<lambda>d. False\<rparr>"] v(1,2) a
    by (simp add: tiny_width_ok_def width_ok_def num_val_def digit_val_def tiny_lens_def number_conv_def)
  show "\<exists>cs. tfp_format text_file (\<lparr>d_int = \<lambda>d :: nat. None, d_frac = \<lambda>d i. None, d_neg = \<lambda>d. False\<rparr>)
       [0x25, 0x2A, 0x58, 0] [VInt 6, VInt 0xBEEF] [] = Inr (cs, of_nat (length cs)) \<and>
     6 \<le> length cs \<and> read_number 16 cs = 0xBEEF"
    using tiny_number_roundtrip [where flags = "[]" and w = "Num_star 6" and len = Len_int and ch = "0x58"
        and sg = False and b = 16 and x = "0xBEEF" and dop = "\<lparr>d_int = \<lambda>d :: nat. None, d_frac = \<lambda>d i. None, d_neg = \<lambda>d. False\<rparr>"] v(3)
    by (simp add: tiny_width_ok_def width_ok_def tiny_lens_def number_conv_def targ_of_def)
qed

end
