(* ===== verification/Tiny_Printf_Output.thy ===== *)
theory Tiny_Printf_Output
  imports Tiny_Printf_Props
begin

text \<open>
  Where the characters of the formatter go.  The locale \<open>output_file\<close> is what the formatter asks of a file: a character
  put to it is appended to what it holds.  Everything printed to such a file is the text of the format; the memory file is
  one as long as its memory lasts, which gives the exact result of the functions that print to memory.
\<close>

section \<open>Runs with the same output\<close>

text \<open>The second operation does to a file what the first does to the text, as long as the text stays within \<open>n\<close>
  characters: without and with a result of its own.\<close>

definition sim0 :: "(u8 list \<Rightarrow> 's) \<Rightarrow> nat \<Rightarrow> (u8 list \<times> u32 \<Rightarrow> (u8 list \<times> u32) res) \<Rightarrow> ('s \<times> u32 \<Rightarrow> ('s \<times> u32) res) \<Rightarrow> bool"
  where "sim0 rep n g h \<longleftrightarrow>
    (\<forall>out w out' w' v. g (out, w) = Inr (out', w') \<longrightarrow>
       length out \<le> length out' \<and> (length out' \<le> n \<longrightarrow> (\<exists>v'. h (rep out, v) = Inr (rep out', v'))))"

definition sim1 ::
  "(u8 list \<Rightarrow> 's) \<Rightarrow> nat \<Rightarrow> (u8 list \<times> u32 \<Rightarrow> ('x \<times> u8 list \<times> u32) res) \<Rightarrow> ('s \<times> u32 \<Rightarrow> ('x \<times> 's \<times> u32) res) \<Rightarrow> bool"
  where "sim1 rep n g h \<longleftrightarrow>
    (\<forall>out w x out' w' v. g (out, w) = Inr (x, out', w') \<longrightarrow>
       length out \<le> length out' \<and> (length out' \<le> n \<longrightarrow> (\<exists>v'. h (rep out, v) = Inr (x, rep out', v'))))"

named_theorems sims \<open>rules that build one run from its steps\<close>

lemma sim_return [sims]: "sim0 rep n Inr Inr" "sim0 rep n (\<lambda>st. Inr st) (\<lambda>st. Inr st)" "sim1 rep n (\<lambda>st. Inr (x, st)) (\<lambda>st. Inr (x, st))"
  by (auto simp: sim0_def sim1_def)

lemma sim_fail [sims]: "sim0 rep n (\<lambda>st. Inl e) h" "sim1 rep n (\<lambda>st. Inl e) h'"
  by (auto simp: sim0_def sim1_def)

lemma sim0_bind0 [sims]:
  "sim0 rep n g h \<Longrightarrow> sim0 rep n g' h' \<Longrightarrow> sim0 rep n (\<lambda>st. res_bind (g st) g') (\<lambda>st. res_bind (h st) h')"
  unfolding sim0_def by (fastforce simp: res_bind_Inr_iff)

lemma sim0_bind1 [sims]:
  "sim0 rep n g h \<Longrightarrow> sim1 rep n g' h' \<Longrightarrow> sim1 rep n (\<lambda>st. res_bind (g st) g') (\<lambda>st. res_bind (h st) h')"
  unfolding sim0_def sim1_def by (fastforce simp: res_bind_Inr_iff)

lemma sim1_bind0:
  "sim1 rep n g h \<Longrightarrow> (\<And>x. sim0 rep n (g' x) (h' x)) \<Longrightarrow>
   sim0 rep n (\<lambda>st. res_bind (g st) (case_prod g')) (\<lambda>st. res_bind (h st) (case_prod h'))"
  unfolding sim0_def sim1_def by (fastforce simp: res_bind_Inr_iff)

lemma sim_pure [sims]:
  "(\<And>x. sim0 rep n (g x) (h x)) \<Longrightarrow> sim0 rep n (\<lambda>st. res_bind r (\<lambda>x. g x st)) (\<lambda>st. res_bind r (\<lambda>x. h x st))"
  "(\<And>x. sim1 rep n (g1 x) (h1 x)) \<Longrightarrow> sim1 rep n (\<lambda>st. res_bind r (\<lambda>x. g1 x st)) (\<lambda>st. res_bind r (\<lambda>x. h1 x st))"
  by (cases r; simp add: sim_fail)+

lemma file_sim_if [sims]:
  "(c \<Longrightarrow> sim0 rep n g h) \<Longrightarrow> (\<not> c \<Longrightarrow> sim0 rep n g' h') \<Longrightarrow>
   sim0 rep n (\<lambda>st. if c then g st else g' st) (\<lambda>st. if c then h st else h' st)"
  "(c \<Longrightarrow> sim1 rep n g1 h1) \<Longrightarrow> (\<not> c \<Longrightarrow> sim1 rep n g1' h1') \<Longrightarrow>
   sim1 rep n (\<lambda>st. if c then g1 st else g1' st) (\<lambda>st. if c then h1 st else h1' st)"
  by (cases c; simp)+

text \<open>The loops as operations on the state.\<close>

lemma pad_loop_eq:
  "\<not> n > 0 \<Longrightarrow> pad_loop vmt ch n = (\<lambda>st. Inr (n - 1, st))"
  "n > 0 \<Longrightarrow> pad_loop vmt ch n = (\<lambda>st. res_bind (emit vmt ch st) (pad_loop vmt ch (n - 1)))"
  by (auto simp: fun_eq_iff pad_loop.simps [of vmt ch n] res_bind_def split: sum.splits)

lemma put_loop_eq:
  "put_loop vmt [] = (\<lambda>st. Inl BadAccess)"
  "put_loop vmt (ch # bf) = (\<lambda>st. if ch = 0 then Inr st else res_bind (emit vmt ch st) (put_loop vmt bf))"
  by (simp_all add: fun_eq_iff)

lemma conv_other_eq:
  "\<nexists>x va'. va = VPtr x # va' \<Longrightarrow> conv_ptr vmt p va = (\<lambda>st. Inl Undefined)"
  "\<nexists>x va'. va = VInt x # va' \<Longrightarrow> conv_char vmt p va = (\<lambda>st. Inl Undefined)"
  "\<nexists>x va'. va = VStr x # va' \<Longrightarrow> conv_str vmt p va = (\<lambda>st. Inl Undefined)"
  "\<nexists>x va'. va = VDbl x # va' \<Longrightarrow> conv_dbl vmt dop p va = (\<lambda>st. Inl Undefined)"
  by (cases va; cases "hd va"; simp add: fun_eq_iff)+

lemma conv_eq:
  "conv_ptr vmt p (VPtr v # va) = (\<lambda>st. res_bind (ui2a (ucast v) (p\<lparr>p_base := Some 16\<rparr>)) (\<lambda>p.
     res_bind (emit vmt 0x30 st) (\<lambda>st. res_bind (emit vmt 0x78 st) (\<lambda>st.
       res_bind (putchw vmt (p\<lparr>p_width := 8, p_lz := 1\<rparr>) st) (\<lambda>st. Inr ((p\<lparr>p_width := 8, p_lz := 1\<rparr>, va), st))))))"
  "conv_char vmt p (VInt ch # va) = (\<lambda>st. res_bind (emit vmt (ucast ch) st) (\<lambda>st. Inr ((p, va), st)))"
  "conv_str vmt p (VStr m # va) = (\<lambda>st. res_bind (putchw vmt (p\<lparr>p_bf := m\<rparr>) st) (\<lambda>st. Inr ((p, va), st)))"
  by (simp_all add: fun_eq_iff Let_def)

lemma tfp_loop_eq:
  "tfp_loop vmt dop p [] va = (\<lambda>st. Inl BadAccess)"
  "tfp_loop vmt dop p (ch # fmt) va = (\<lambda>st. if ch = 0 then Inr st
     else if ch \<noteq> 0x25 then res_bind (emit vmt ch st) (tfp_loop vmt dop p fmt va)
     else (case directive_parts (param_init p) fmt va of Inl e \<Rightarrow> Inl e
           | Inr (c, fmt', p', lng, va') \<Rightarrow>
               if c = 0 then Inr st
               else res_bind (tfp_switch vmt dop c lng p' va' st) (case_prod (\<lambda>x. tfp_loop vmt dop (fst x) fmt' (snd x)))))"
  by (auto simp: fun_eq_iff tfp_loop.simps(2) res_bind_def split: sum.splits prod.splits)

section \<open>Files\<close>

locale output_file =
  fixes vmt :: "'s vmt" and rep :: "'c \<Rightarrow> u8 list \<Rightarrow> 's" and lim :: "'c \<Rightarrow> nat" and ok :: "'c \<Rightarrow> bool"
  assumes put: "\<lbrakk>ok c; length out < lim c\<rbrakk> \<Longrightarrow> \<exists>k. putf vmt ch (rep c out) = Inr (rep c (out @ [ch]), k)"
begin

lemma sim_emit: "ok c \<Longrightarrow> sim0 (rep c) (lim c) (emit text_file ch) (emit vmt ch)"
proof -
  assume c: "ok c"
  have "\<exists>v'. emit vmt ch (rep c out, v) = Inr (rep c (out @ [ch]), v')" if "length out < lim c" for out v
    using put [OF c that, of ch] by (auto simp: emit_def)
  then show ?thesis by (simp add: sim0_def)
qed

lemma sim_uncounted: "ok c \<Longrightarrow> sim0 (rep c) (lim c) (put_uncounted text_file ch) (put_uncounted vmt ch)"
proof -
  assume c: "ok c"
  have "\<exists>v'. put_uncounted vmt ch (rep c out, v) = Inr (rep c (out @ [ch]), v')" if "length out < lim c" for out v
    using put [OF c that, of ch] by (auto simp: put_uncounted_def)
  then show ?thesis by (simp add: sim0_def put_uncounted_def)
qed

lemma sim_pad: "ok c \<Longrightarrow> sim1 (rep c) (lim c) (pad_loop text_file ch n) (pad_loop vmt ch n)"
proof (induction "nat n" arbitrary: n)
  case 0
  then show ?case by (simp add: pad_loop_eq(1) sim_return)
next
  case (Suc k)
  then have n: "k = nat (n - 1)" "n > 0" by linarith+
  show ?case unfolding pad_loop_eq(2) [OF n(2)] by (intro sim0_bind1 sim_emit Suc.hyps(1) n(1) Suc.prems)
qed

lemma sim_put: "ok c \<Longrightarrow> sim0 (rep c) (lim c) (put_loop text_file bf) (put_loop vmt bf)"
proof (induction bf)
  case (Cons ch bf)
  show ?case unfolding put_loop_eq by (intro file_sim_if sim_return sim0_bind0 sim_emit Cons)
qed (simp only: put_loop_eq sim_fail)

lemma sim_putchw: "ok c \<Longrightarrow> sim0 (rep c) (lim c) (putchw text_file p) (putchw vmt p)"
proof (cases "p_bf p")
  case None
  then show ?thesis by (simp add: putchw_def [abs_def] sim_fail)
next
  case (Some bf)
  assume c: "ok c"
  note steps = sim_emit [OF c] sim_pad [OF c] sim_put [OF c]
  show ?thesis
    unfolding putchw_def [abs_def] Some option.case Let_def
    by (intro sim_pure(1) sim1_bind0 sim0_bind0 file_sim_if sim_return steps)
qed

lemma sim_conv_int: "ok c \<Longrightarrow> sim1 (rep c) (lim c) (conv_int text_file sg lng p va) (conv_int vmt sg lng p va)"
  unfolding conv_int_def [abs_def] case_prod_beta
  by (intro sim_pure(2) sim0_bind1 sim_putchw sim_return)

lemma sim_conv_ptr: "ok c \<Longrightarrow> sim1 (rep c) (lim c) (conv_ptr text_file p va) (conv_ptr vmt p va)"
proof (cases "\<exists>x va'. va = VPtr x # va'")
  case True
  assume "ok c"
  with True show ?thesis
    by (elim exE) (hypsubst, unfold conv_eq, intro sim_pure(2) sim0_bind1 sim_putchw sim_emit sim_return)
next
  case False
  show ?thesis unfolding conv_other_eq(1) [OF False] by (rule sim_fail)
qed

lemma sim_conv_char: "ok c \<Longrightarrow> sim1 (rep c) (lim c) (conv_char text_file p va) (conv_char vmt p va)"
proof (cases "\<exists>x va'. va = VInt x # va'")
  case True
  assume "ok c"
  with True show ?thesis by (elim exE) (hypsubst, unfold conv_eq, intro sim0_bind1 sim_emit sim_return)
next
  case False
  show ?thesis unfolding conv_other_eq(2) [OF False] by (rule sim_fail)
qed

lemma sim_conv_str: "ok c \<Longrightarrow> sim1 (rep c) (lim c) (conv_str text_file p va) (conv_str vmt p va)"
proof (cases "\<exists>x va'. va = VStr x # va'")
  case True
  assume "ok c"
  with True show ?thesis by (elim exE) (hypsubst, unfold conv_eq, intro sim0_bind1 sim_putchw sim_return)
next
  case False
  show ?thesis unfolding conv_other_eq(3) [OF False] by (rule sim_fail)
qed

lemma sim_conv_dbl: "ok c \<Longrightarrow> sim1 (rep c) (lim c) (conv_dbl text_file dop p va) (conv_dbl vmt dop p va)"
proof (cases "\<exists>x va'. va = VDbl x # va'")
  case True
  assume "ok c"
  with True show ?thesis
    by (elim exE) (hypsubst, unfold conv_dbl.simps [abs_def] Let_def,
        intro sim_pure(2) sim0_bind1 sim_putchw sim_uncounted sim_return)
next
  case False
  show ?thesis unfolding conv_other_eq(4) [OF False] by (rule sim_fail)
qed

lemmas sim_conv = sim_conv_int sim_conv_ptr sim_conv_char sim_conv_str sim_conv_dbl

lemma sim_switch:
  assumes c: "ok c"
  shows "sim1 (rep c) (lim c) (tfp_switch text_file dop ch lng p va) (tfp_switch vmt dop ch lng p va)"
  unfolding tfp_switch_def [abs_def]
  by (intro file_sim_if(2) sim0_bind1 sim_conv sim_emit sim_return c)

lemma sim_loop: "ok c \<Longrightarrow> sim0 (rep c) (lim c) (tfp_loop text_file dop p fmt va) (tfp_loop vmt dop p fmt va)"
proof (induction "length fmt" arbitrary: fmt p va rule: less_induct)
  case less
  show ?case
  proof (cases fmt)
    case Nil
    then show ?thesis by (simp only: tfp_loop_eq(1) sim_fail)
  next
    case (Cons ch fmt')
    have shorter: "sim0 (rep c) (lim c) (tfp_loop text_file dop p' f va') (tfp_loop vmt dop p' f va')"
      if "length f \<le> length fmt'" for p' f va'
      using less that Cons by simp
    show ?thesis
    proof (cases "directive_parts (param_init p) fmt' va")
      case (Inl e)
      show ?thesis unfolding Cons tfp_loop_eq(2) Inl sum.case
        by (intro file_sim_if sim_return sim0_bind0 sim_emit sim_fail shorter less.prems) simp
    next
      case (Inr d)
      obtain ch' f p' lng va' where d: "d = (ch', f, p', lng, va')" by (cases d)
      have "length f \<le> length fmt'" using directive_parts_length [of _ fmt' va ch' f] Inr d by fastforce
      then show ?thesis unfolding Cons tfp_loop_eq(2) Inr d sum.case prod.case
        by (intro file_sim_if sim_return sim0_bind0 sim1_bind0 sim_emit sim_switch shorter less.prems) simp_all
    qed
  qed
qed

text \<open>What the formatter prints to a file is the text of the format.\<close>

lemma format_output:
  assumes "ok c" "tfp_format text_file dop fmt va [] = Inr (out, w)" "length out \<le> lim c"
  shows "\<exists>k. tfp_format vmt dop fmt va (rep c []) = Inr (rep c out, k)"
  using sim_loop [OF assms(1), of dop param0 fmt va] assms(2,3) unfolding sim0_def tfp_format_def by blast

end

section \<open>The memory file\<close>

text \<open>The memory file that was opened on \<open>mem\<close> with the size \<open>sz\<close>, after \<open>out\<close> was put to it.  The text may be \<open>n\<close> characters
  long if the memory has room for what is stored of it and the counter does not wrap.\<close>

definition file_of :: "u8 list \<times> u32 \<times> nat \<Rightarrow> u8 list \<Rightarrow> memfile" where
  "file_of = (\<lambda>(mem, sz, _) out.
     (let k = min (length out) (unat sz)
      in \<lparr>m_mem = take k out @ drop k mem, m_pos = k, bytes_written = of_nat (length out), m_size = sz\<rparr>))"

definition file_ok :: "u8 list \<times> u32 \<times> nat \<Rightarrow> bool" where
  "file_ok = (\<lambda>(mem, sz, n). n < 2 ^ 32 \<and> min n (unat sz) \<le> length mem)"

lemma of_nat_le32: "n < 2 ^ 32 \<Longrightarrow> (of_nat n :: u32) \<le> x \<longleftrightarrow> n \<le> unat x"
  by (simp add: word_le_nat_alt unat_of_nat32)

lemma file_store:
  assumes "length out < length mem"
  shows "(out @ drop (length out) mem)[length out := c] = (out @ [c]) @ drop (Suc (length out)) mem"
  using assms by (simp add: list_update_append Cons_nth_drop_Suc [symmetric])

lemma memfile_put:
  assumes "file_ok (mem, sz, n)" "length out < n"
  shows "\<exists>k. putf MemFile_methods ch (file_of (mem, sz, n) out) = Inr (file_of (mem, sz, n) (out @ [ch]), k)"
proof -
  have n: "Suc (length out) < 2 ^ 32" "min n (unat sz) \<le> length mem" using assms by (auto simp: file_ok_def)
  have le: "1 + (of_nat (length out) :: u32) \<le> sz \<longleftrightarrow> length out < unat sz"
    using of_nat_le32 [OF n(1), of sz] by (simp add: Suc_le_eq)
  show ?thesis
  proof (cases "length out < unat sz")
    case True
    then have "length out < length mem" using n(2) assms(2) by simp
    with True show ?thesis
      using file_store [of out mem ch] by (simp add: putf_def mfputc_def mfwrite_def MemFile_methods_def file_of_def Let_def le add.commute)
  next
    case False
    then show ?thesis
      by (simp add: putf_def mfputc_def mfwrite_def MemFile_methods_def file_of_def Let_def le add.commute)
  qed
qed

interpretation mf: output_file MemFile_methods file_of "\<lambda>(_, _, n). n" file_ok
  by unfold_locales (auto intro: memfile_put)

section \<open>Printing to memory\<close>

text \<open>What is in memory afterwards: as much of the text as fits before the zero, and what was there behind it.\<close>

definition printed :: "u8 list \<Rightarrow> u32 \<Rightarrow> u8 list \<Rightarrow> u8 list" where
  "printed mem sz out =
     (if sz = 0 then mem else (let t = take (unat sz - 1) out in t @ 0 # drop (Suc (length t)) mem))"

lemma terminate_printed:
  assumes "length out < 2 ^ 31" "min (length out + 1) (unat sz) \<le> length mem"
  shows "terminate_file (file_of (mem, sz, n) out) = Inr (int (length out), printed mem sz out)"
proof -
  have len: "unat (of_nat (length out) :: u32) = length out" using assms(1) by (intro unat_of_nat32) simp
  have ret: "sint (of_nat (length out) :: u32) = int (length out)" using assms(1) unfolding sint32 len by simp
  have less: "(of_nat (length out) :: u32) < sz \<longleftrightarrow> length out < unat sz" by (simp only: word_less_nat_alt len)
  consider "sz = 0" | "sz \<noteq> 0" "length out < unat sz" | "sz \<noteq> 0" "\<not> length out < unat sz" by blast
  then show ?thesis
  proof cases
    case 1
    then show ?thesis by (simp add: terminate_file_def file_of_def printed_def ret Let_def)
  next
    case 2
    then have "length out < length mem" using assms(2) by simp
    with 2 show ?thesis
      using file_store [of out mem 0] by (auto simp: terminate_file_def file_of_def printed_def ret less store_def Let_def word_gt_0)
  next
    case 3
    define t where "t = take (unat sz - 1) out"
    have z: "unat sz > 0" using 3(1) by (simp add: unat_gt_0)
    then have t: "length t = unat sz - 1" "Suc (length t) = unat sz" using 3(2) by (simp_all add: t_def)
    have "take (Suc (length t)) out = take (length t) out @ [out ! length t]"
      using t(2) 3(2) by (intro take_Suc_conv_app_nth) simp
    moreover have "take (length t) out = t" unfolding t(1) by (simp add: t_def)
    ultimately have out: "take (unat sz) out = t @ [out ! length t]" unfolding t(2) by simp
    have mem: "unat sz \<le> length mem" using 3(2) assms(2) by simp
    have last: "unat (sz - 1) = length t" using z t(1) by (simp add: unat_minus32)
    have f: "file_of (mem, sz, n) out = \<lparr>m_mem = take (unat sz) out @ drop (unat sz) mem, m_pos = unat sz,
        bytes_written = of_nat (length out), m_size = sz\<rparr>"
      using 3(2) by (simp add: file_of_def min_def Let_def)
    have p: "printed mem sz out = t @ 0 # drop (Suc (length t)) mem" using 3(1) by (simp add: printed_def t_def Let_def)
    have "(take (unat sz) out @ drop (unat sz) mem)[length t := 0] = t @ 0 # drop (Suc (length t)) mem"
      unfolding out t(2) by (simp add: list_update_append)
    moreover have "length t < length (take (unat sz) out @ drop (unat sz) mem)" unfolding out by simp
    ultimately show ?thesis
      using 3 unfolding f p terminate_file_def Let_def memfile.simps less ret last store_def by (simp add: word_gt_0)
  qed
qed

lemma open_file_of: "fmemopen_w mem sz = file_of (mem, sz, n) []"
  by (simp add: fmemopen_w_def file_of_def)

lemma format_to_memory:
  assumes "tfp_format text_file dop fmt va [] = Inr (out, w)" "length out < 2 ^ 31"
    "min (length out + 1) (unat sz) \<le> length mem"
  shows "res_bind (tfp_format MemFile_methods dop fmt va (fmemopen_w mem sz)) (\<lambda>(f, _). terminate_file f) =
    Inr (int (length out), printed mem sz out)"
proof -
  have "file_ok (mem, sz, length out + 1)" using assms by (simp add: file_ok_def)
  then obtain k where "tfp_format MemFile_methods dop fmt va (file_of (mem, sz, length out + 1) []) =
      Inr (file_of (mem, sz, length out + 1) out, k)"
    using mf.format_output [OF _ assms(1), of "(mem, sz, length out + 1)"] by auto
  then show ?thesis
    using terminate_printed [OF assms(2,3)] by (simp add: open_file_of [of mem sz "length out + 1"])
qed

text \<open>C12. Printing to memory is exact: whatever a format prints, the buffer gets as much of it as fits before a zero,
  nothing outside the given size is written, and the length of the whole text is returned.\<close>

theorem tiny_vsnprintf_exact:
  assumes "tfp_format text_file dop fmt va [] = Inr (out, w)" "length out < 2 ^ 31"
    "min (length out + 1) (unat sz) \<le> length mem"
  shows "u_vsnprintf dop mem sz fmt va = Inr (int (length out), printed mem sz out)"
  unfolding u_vsnprintf_def by (rule format_to_memory [OF assms])

text \<open>The format \<^verbatim>\<open>a%sb\<close> with the string \<^verbatim>\<open>xyz\<close> into four bytes.\<close>

theorem tiny_vsnprintf_exact_witness:
  "u_vsnprintf \<lparr>d_int = \<lambda>_. None, d_frac = \<lambda>_ _. None, d_neg = \<lambda>_. False\<rparr> [1, 2, 3, 4, 5] 4
      [0x61, 0x25, 0x73, 0x62, 0] [VStr (Some [0x78, 0x79, 0x7A, 0]) :: unit targ] =
    Inr (5, [0x61, 0x78, 0x79, 0, 5])"
proof -
  have "tfp_format text_file \<lparr>d_int = \<lambda>_. None, d_frac = \<lambda>_ _. None, d_neg = \<lambda>_. False\<rparr>
      [0x61, 0x25, 0x73, 0x62, 0] [VStr (Some [0x78, 0x79, 0x7A, 0]) :: unit targ] [] =
      Inr ([0x61, 0x78, 0x79, 0x7A, 0x62], 5)"
    by (simp add: tfp_format_def tfp_loop.simps(2) directive_parts_def width_part_def length_part_def size_part_def
        precision_part_def tfp_switch_def putchw_def alt_base_def param_init_def param0_def text_pad Let_def)
  from tiny_vsnprintf_exact [OF this, of 4 "[1, 2, 3, 4, 5]"] show ?thesis by (simp add: printed_def Let_def)
qed

section \<open>Printing through a function, and to memory of its own\<close>

lemma fn_loop_spec:
  "0 \<in> set m \<Longrightarrow> fn_loop fn m arg ret = Inr (ret + int (length (cstr m)), fold fn (cstr m) arg)"
  by (induction m arbitrary: arg ret) (auto simp: cstr_def)

lemma cstr_append_zero: "cstr (out @ 0 # rest) = cstr (out @ [0])"
  by (induction out) (auto simp: cstr_def)

text \<open>Printing through a function delivers the text of the format, up to a zero character in it, in order, one call
  for each character, and returns their number; a text that does not fit the buffer of 256 bytes is printed
  again to memory of its own, and nothing is delivered if there is none.\<close>

theorem patch_std_kvprintf_delivers:
  assumes "tfp_format text_file dop fmt va [] = Inr (out, w)" "length out < 2 ^ 31 - 10"
    "length buf = 256" "\<And>n m. alloc n = Some m \<Longrightarrow> length m = nat n"
  shows "patch_std_kvprintf dop alloc buf fmt fn arg va =
    (if length out \<ge> 256 \<and> alloc (int (length out) + 10) = None then Inr (0, arg)
     else Inr (int (length (cstr (out @ [0]))), fold fn (cstr (out @ [0])) arg))"
proof -
  have len: "unat (of_nat n :: u32) = n" if "n < 2 ^ 32" for n using that by (intro unat_of_nat32) simp
  have first: "u_vsnprintf dop buf 256 fmt va = Inr (int (length out), printed buf 256 out)"
    unfolding u_vsnprintf_def using assms by (intro format_to_memory) auto
  have big: "(word_of_int (int (length out)) :: u32) \<ge> 256 \<longleftrightarrow> 256 \<le> length out"
    using len [of "length out"] assms(2) by (simp add: word_le_nat_alt)
  have fits: "fn_loop fn (printed m sz out) arg 0 = Inr (int (length (cstr (out @ [0]))), fold fn (cstr (out @ [0])) arg)"
    if "length out < unat sz" for m sz
  proof -
    have "sz \<noteq> 0" using that by auto
    then have "printed m sz out = out @ 0 # drop (Suc (length out)) m" using that by (simp add: printed_def Let_def)
    then show ?thesis by (simp add: fn_loop_spec cstr_append_zero [of out "drop (Suc (length out)) m"])
  qed
  show ?thesis
  proof (cases "256 \<le> length out")
    case True
    have sz: "unat (word_of_int (int (length out) + 10) :: u32) = length out + 10"
      using len [of "length out + 10"] assms(2) by simp
    have "u_vsnprintf dop m (word_of_int (int (length out) + 10)) fmt va =
        Inr (int (length out), printed m (word_of_int (int (length out) + 10)) out)"
      if "alloc (int (length out) + 10) = Some m" for m
      unfolding u_vsnprintf_def using assms(1,2) assms(4) [OF that] sz by (intro format_to_memory) auto
    with True big first fits [of "word_of_int (int (length out) + 10)"] sz show ?thesis
      by (auto simp: patch_std_kvprintf_def split: option.split)
  next
    case False
    with big first fits [of 256] show ?thesis by (simp add: patch_std_kvprintf_def)
  qed
qed

text \<open>C13. Printing to memory of its own: with the functions of the file for \<^verbatim>\<open>vsnprintf\<close> and \<^verbatim>\<open>vsprintf\<close>, the memory
  asked for has exactly the size of the text and its zero, it holds them afterwards, nothing outside of it is
  written, and the length is returned; without memory the result is -1.\<close>

theorem os_vasprintf_exact:
  assumes "tfp_format text_file dop fmt va [] = Inr (out, w)" "length out < 2 ^ 31 - 1"
    "\<And>n m. alloc n = Some m \<Longrightarrow> length m = unat n"
  shows "os_vasprintf (wrap_vsnprintf dop) (wrap_vsprintf dop) alloc fmt va =
    Inr (if alloc (of_nat (length out + 1)) = None then (-1, None) else (int (length out), Some (out @ [0])))"
proof -
  have len: "unat (of_nat n :: u32) = n" if "n < 2 ^ 32" for n using that by (intro unat_of_nat32) simp
  have first: "u_vsnprintf dop [] 0 fmt va = Inr (int (length out), [])"
    using format_to_memory [OF assms(1), of 0 "[]"] assms(2) by (simp add: u_vsnprintf_def printed_def)
  show ?thesis
  proof (cases "alloc (of_nat (length out + 1))")
    case None
    then show ?thesis using first by (simp add: os_vasprintf_def wrap_vsnprintf_def Let_def add.commute)
  next
    case (Some m)
    have m: "length m = length out + 1" using assms(3) [OF Some] len [of "length out + 1"] assms(2) by simp
    define m' where "m' = m[length out := 0]"
    have st: "store m (unat (of_nat (length out) :: u32)) 0 = Inr m'"
      using len [of "length out"] assms(2) m by (simp add: store_def m'_def)
    have "u_vsprintf dop m' fmt va = Inr (int (length out), printed m' 0x7FFFFFFF out)"
      unfolding u_vsprintf_def using assms(1,2) m by (intro format_to_memory) (auto simp: m'_def)
    moreover have "printed m' 0x7FFFFFFF out = out @ [0]" using assms(2) m by (simp add: printed_def m'_def Let_def)
    moreover have "sint (word_of_int (int (length out)) :: u32) = int (length out)"
      using len [of "length out"] assms(2) by (simp add: sint32)
    ultimately show ?thesis
      using Some first st by (simp add: os_vasprintf_def wrap_vsnprintf_def wrap_vsprintf_def Let_def add.commute)
  qed
qed

text \<open>The format \<^verbatim>\<open>a%%\<close> with an allocator that always finds memory.\<close>

theorem os_vasprintf_exact_witness:
  "os_vasprintf (wrap_vsnprintf \<lparr>d_int = \<lambda>_. None, d_frac = \<lambda>_ _. None, d_neg = \<lambda>_. False\<rparr>)
      (wrap_vsprintf \<lparr>d_int = \<lambda>_. None, d_frac = \<lambda>_ _. None, d_neg = \<lambda>_. False\<rparr>)
      (\<lambda>n. Some (replicate (unat n) 7)) [0x61, 0x25, 0x25, 0] ([] :: unit targ list) =
    Inr (2, Some [0x61, 0x25, 0])"
proof -
  have "tfp_format text_file \<lparr>d_int = \<lambda>_. None, d_frac = \<lambda>_ _. None, d_neg = \<lambda>_. False\<rparr>
      [0x61, 0x25, 0x25, 0] ([] :: unit targ list) [] = Inr ([0x61, 0x25], 2)"
    by (simp add: tfp_format_def tfp_loop.simps(2) directive_parts_def width_part_def length_part_def size_part_def
        precision_part_def tfp_switch_def)
  from os_vasprintf_exact [OF this, of "\<lambda>n. Some (replicate (unat n) 7)"] show ?thesis by simp
qed

end
