(* ===== verification/String_Ext.thy ===== *)
theory String_Ext
  imports C_String
begin

text \<open>
  The string helpers of \<^verbatim>\<open>lib/stdlib-ext/string-ext.c\<close>: a bounded copy, and the search for a string without regard
  to case, which is shown equal to its specification on lists.  Pointers into a string are indices.
\<close>

section \<open>The code\<close>

definition str_len :: "u8 list \<Rightarrow> nat res" where
  "str_len s = (if 0 \<in> set s then Inr (length (cstr s)) else Inl BadAccess)"

definition os_strndup2 :: "bool \<Rightarrow> u8 list \<Rightarrow> nat \<Rightarrow> u8 list option res" where
  "os_strndup2 mem_ok s n =
     res_bind (str_len s) (\<lambda>k.
       (let l = (if n > k then k + 1 else n + 1)
        in if \<not> mem_ok then Inr None
           else Inr (Some ((take l s)[l - 1 := 0]))))"

definition toupper :: "u8 \<Rightarrow> u8" where
  "toupper c = (if 0x61 \<le> c \<and> c \<le> 0x7A then c - 0x61 + 0x41 else c)"

fun strcasechr :: "u8 list \<Rightarrow> u8 \<Rightarrow> nat option res" where
  "strcasechr [] uc = Inl BadAccess"
| "strcasechr (ch # s) uc =
     (if ch = 0 then Inr None
      else if toupper ch = uc then Inr (Some 0)
      else res_bind (strcasechr s uc) (\<lambda>r. Inr (map_option Suc r)))"

text \<open>\<^verbatim>\<open>strncasecmp\<close> of the C library, as far as equality goes.\<close>

fun strncase_eq :: "nat \<Rightarrow> u8 list \<Rightarrow> u8 list \<Rightarrow> bool res" where
  "strncase_eq 0 a b = Inr True"
| "strncase_eq (Suc n) (x # a) (y # b) =
     (if toupper x \<noteq> toupper y then Inr False else if x = 0 then Inr True else strncase_eq n a b)"
| "strncase_eq (Suc n) a b = Inl BadAccess"

lemma strcasechr_length: "strcasechr s uc = Inr (Some k) \<Longrightarrow> k < length s"
  by (induction s arbitrary: k) (auto simp: res_bind_Inr_iff split: if_splits)

text \<open>The loop from the place \<open>i\<close> of the string on.\<close>

function strcasestr_loop :: "u8 list \<Rightarrow> u8 list \<Rightarrow> nat \<Rightarrow> u8 \<Rightarrow> nat \<Rightarrow> nat option res" where
  "strcasestr_loop str substr len ch i =
     (case strcasechr (drop i str) ch of
        Inl e \<Rightarrow> Inl e
      | Inr None \<Rightarrow> Inr None
      | Inr (Some k) \<Rightarrow>
          (let candidate = drop (i + k) str
           in case str_len candidate of
                Inl e \<Rightarrow> Inl e
              | Inr l \<Rightarrow>
                  if l < len then Inr None
                  else (case strncase_eq len candidate substr of
                          Inl e \<Rightarrow> Inl e
                        | Inr eq \<Rightarrow>
                            if eq then Inr (Some (i + k)) else strcasestr_loop str substr len ch (i + k + 1))))"
  by pat_completeness auto
termination
  by (relation "measure (\<lambda>(str, _, _, _, i). length str - i)") (auto dest!: strcasechr_length)

declare strcasestr_loop.simps [simp del]

definition os_strcasestr2 :: "u8 list \<Rightarrow> u8 list \<Rightarrow> nat option res" where
  "os_strcasestr2 str substr =
     res_bind (str_len substr) (\<lambda>len.
       if hd substr = 0 then Inr (Some 0)
       else strcasestr_loop str substr len (toupper (hd substr)) 0)"

section \<open>Correctness\<close>

lemma strndup_spec:
  assumes "0 \<in> set s"
  shows "os_strndup2 True s n = Inr (Some (take n (cstr s) @ [0]))"
proof -
  obtain rest where s: "s = cstr s @ 0 # rest"
  proof -
    have "dropWhile (\<lambda>c. c \<noteq> 0) s \<noteq> []" using assms by (simp add: dropWhile_eq_Nil_conv)
    then obtain c r where d: "dropWhile (\<lambda>c. c \<noteq> 0) s = c # r" by (cases "dropWhile (\<lambda>c. c \<noteq> 0) s") auto
    then have "c = 0" using hd_dropWhile [of "\<lambda>c. c \<noteq> 0" s] by simp
    then show thesis using that [of r] d takeWhile_dropWhile_id [of "\<lambda>c. c \<noteq> 0" s] by (simp add: cstr_def)
  qed
  define t where "t = cstr s"
  have "take (n + 1) s = take n t @ [(t @ [0]) ! n]" if "n \<le> length t"
    using that by (subst s) (simp add: t_def [symmetric] take_Suc_conv_app_nth nth_append take_Cons')
  moreover have "take (length t + 1) s = t @ [0]" by (subst s) (simp add: t_def)
  ultimately show ?thesis
    using assms by (auto simp: os_strndup2_def str_len_def t_def [symmetric] Let_def not_less list_update_append)
qed

text \<open>The place of the first occurrence without regard to case.\<close>

definition same_case :: "u8 list \<Rightarrow> u8 list \<Rightarrow> bool" where
  "same_case a b = (map toupper a = map toupper b)"

definition occurs_at :: "u8 list \<Rightarrow> u8 list \<Rightarrow> nat \<Rightarrow> bool" where
  "occurs_at t u i = same_case (take (length u) (drop i t)) u"

definition first_from :: "(nat \<Rightarrow> bool) \<Rightarrow> nat \<Rightarrow> nat \<Rightarrow> nat option \<Rightarrow> bool" where
  "first_from P i n r =
     (case r of None \<Rightarrow> \<forall>j. i \<le> j \<and> j < n \<longrightarrow> \<not> P j
      | Some k \<Rightarrow> i \<le> k \<and> k < n \<and> P k \<and> (\<forall>j. i \<le> j \<and> j < k \<longrightarrow> \<not> P j))"

lemma first_from_Suc:
  "\<lbrakk>first_from P k n r; i \<le> k; \<forall>j. i \<le> j \<and> j < k \<longrightarrow> \<not> P j\<rbrakk> \<Longrightarrow> first_from P i n r"
  by (auto simp: first_from_def not_less split: option.splits) (meson le_trans not_le)+

lemma cstr_drop: "j \<le> length (cstr s) \<Longrightarrow> cstr (drop j s) = drop j (cstr s)"
  by (induction s arbitrary: j) (auto simp: cstr_def drop_Cons' split: if_splits)

lemma zero_in_drop: "0 \<in> set s \<Longrightarrow> j \<le> length (cstr s) \<Longrightarrow> 0 \<in> set (drop j s)"
  by (induction s arbitrary: j) (auto simp: cstr_def drop_Cons' split: if_splits)

lemma strcasechr_spec:
  "0 \<in> set s \<Longrightarrow>
   \<exists>r. strcasechr s uc = Inr r \<and> first_from (\<lambda>j. toupper (cstr s ! j) = uc) 0 (length (cstr s)) r"
proof (induction s)
  case (Cons ch s)
  show ?case
  proof (cases "ch = 0 \<or> toupper ch = uc")
    case True
    then show ?thesis by (auto simp: cstr_def first_from_def)
  next
    case False
    with Cons obtain r where "strcasechr s uc = Inr r"
      "first_from (\<lambda>j. toupper (cstr s ! j) = uc) 0 (length (cstr s)) r" by auto
    with False show ?thesis
      by (auto simp: cstr_def first_from_def less_Suc_eq_0_disj split: option.splits)
  qed
qed simp

lemma strncase_spec:
  "\<lbrakk>n \<le> length (cstr a); n \<le> length (cstr b)\<rbrakk> \<Longrightarrow>
   strncase_eq n a b = Inr (same_case (take n (cstr a)) (take n (cstr b)))"
  by (induction n a b rule: strncase_eq.induct) (auto simp: cstr_def same_case_def split: if_splits)

lemma occurs_at_head: "occurs_at t u j \<Longrightarrow> u \<noteq> [] \<Longrightarrow> j < length t \<and> toupper (t ! j) = toupper (hd u)"
  by (cases u; cases "j < length t") (auto simp: occurs_at_def same_case_def Cons_nth_drop_Suc [symmetric])

lemma occurs_at_fits: "occurs_at t u j \<Longrightarrow> u \<noteq> [] \<Longrightarrow> j + length u \<le> length t"
  by (cases u) (auto simp: occurs_at_def same_case_def min_def split: if_splits dest!: arg_cong [of _ _ length])

lemma strcasechr_candidate:
  assumes "0 \<in> set str" "t = cstr str" "i \<le> length t" "u \<noteq> []"
  shows "\<exists>r. strcasechr (drop i str) (toupper (hd u)) = Inr r \<and>
    (case r of None \<Rightarrow> first_from (occurs_at t u) i (length t) None
     | Some k \<Rightarrow> i + k < length t \<and> (\<forall>j. i \<le> j \<and> j < i + k \<longrightarrow> \<not> occurs_at t u j))"
proof -
  have here: "cstr (drop i str) = drop i t" "0 \<in> set (drop i str)"
    using assms cstr_drop zero_in_drop by auto
  obtain r where r: "strcasechr (drop i str) (toupper (hd u)) = Inr r"
    "first_from (\<lambda>j. toupper (drop i t ! j) = toupper (hd u)) 0 (length t - i) r"
    using strcasechr_spec [OF here(2), of "toupper (hd u)"] here(1) by auto
  have skip: "\<not> occurs_at t u j" if "i \<le> j" "\<not> toupper (drop i t ! (j - i)) = toupper (hd u)" for j
    using occurs_at_head [of t u j] that assms by auto
  have "\<not> occurs_at t u j" if "i \<le> j" "j < length t" "r = None" for j
    using skip [of j] that r(2) by (auto simp: first_from_def dest: spec [of _ "j - i"])
  moreover have "\<not> occurs_at t u j" if "i \<le> j" "j < i + k" "r = Some k" for j k
    using skip [of j] that r(2) by (auto simp: first_from_def dest: spec [of _ "j - i"])
  ultimately show ?thesis using r by (auto simp: first_from_def split: option.splits)
qed

lemma strcasestr_loop_spec:
  assumes "0 \<in> set str" "0 \<in> set substr" "u = cstr substr" "u \<noteq> []" "t = cstr str"
    "len = length u" "ch = toupper (hd u)" "i \<le> length t"
  shows "\<exists>r. strcasestr_loop str substr len ch i = Inr r \<and> first_from (occurs_at t u) i (length t) r"
  using assms
proof (induction str substr len ch i rule: strcasestr_loop.induct)
  case (1 str substr len ch i)
  note step = strcasestr_loop.simps [of str substr len ch i]
  obtain r where r: "strcasechr (drop i str) ch = Inr r"
    "case r of None \<Rightarrow> first_from (occurs_at t u) i (length t) None
     | Some k \<Rightarrow> i + k < length t \<and> (\<forall>j. i \<le> j \<and> j < i + k \<longrightarrow> \<not> occurs_at t u j)"
    using strcasechr_candidate [of str t i u] "1.prems" by auto
  show ?case
  proof (cases r)
    case None
    with r step show ?thesis by simp
  next
    case (Some k)
    have k: "i + k < length t" and before: "\<forall>j. i \<le> j \<and> j < i + k \<longrightarrow> \<not> occurs_at t u j"
      using Some r(2) by auto
    have cand: "cstr (drop (i + k) str) = drop (i + k) t" "0 \<in> set (drop (i + k) str)"
      using k "1.prems" cstr_drop [of "i + k" str] zero_in_drop [of str "i + k"] by auto
    have len: "str_len (drop (i + k) str) = Inr (length t - (i + k))"
      using cand by (simp add: str_len_def)
    consider "length t - (i + k) < len" | "\<not> length t - (i + k) < len" by blast
    then show ?thesis
    proof cases
      case 1
      then have "\<forall>j. i + k \<le> j \<and> j < length t \<longrightarrow> \<not> occurs_at t u j"
        using occurs_at_fits [of t u] "1.prems" by fastforce
      then have "first_from (occurs_at t u) i (length t) None"
        using before by (auto simp: first_from_def) (meson not_le)
      with 1 Some r(1) len step show ?thesis by simp
    next
      case 2
      have eq: "strncase_eq len (drop (i + k) str) substr = Inr (occurs_at t u (i + k))"
        using strncase_spec [of len "drop (i + k) str" substr] cand 2 "1.prems" by (simp add: occurs_at_def)
      have "\<exists>r. strcasestr_loop str substr len ch (i + k + 1) = Inr r \<and>
        first_from (occurs_at t u) (i + k + 1) (length t) r" if "\<not> occurs_at t u (i + k)"
        using "1.IH" [OF r(1) Some refl len 2 eq] that k "1.prems" by simp
      moreover have "first_from (occurs_at t u) i (length t) q"
        if "\<not> occurs_at t u (i + k)" "first_from (occurs_at t u) (i + k + 1) (length t) q" for q
        by (rule first_from_Suc [OF that(2)]) (use before that(1) in \<open>auto simp: less_Suc_eq\<close>)
      ultimately show ?thesis
        using 2 Some r(1) len eq step before k by (cases "occurs_at t u (i + k)") (auto simp: first_from_def)
    qed
  qed
qed

text \<open>C14. The search without regard to case ends on every pair of terminated strings, reads nothing behind them,
  and returns the first place at which the string looked for occurs up to case, the beginning if that string is
  empty, and nothing if it does not occur.\<close>

theorem strcasestr_first:
  assumes "0 \<in> set str" "0 \<in> set substr"
  shows "\<exists>r. os_strcasestr2 str substr = Inr r \<and>
    first_from (occurs_at (cstr str) (cstr substr)) 0 (length (cstr str) + 1) r"
proof (cases "cstr substr = []")
  case True
  with assms have "hd substr = 0" by (cases substr) (auto simp: cstr_def split: if_splits)
  with True assms show ?thesis
    by (simp add: os_strcasestr2_def str_len_def first_from_def occurs_at_def same_case_def)
next
  case False
  then have hd: "hd substr = hd (cstr substr)" "hd substr \<noteq> 0"
    by (cases substr; auto simp: cstr_def split: if_splits)+
  obtain r where r: "strcasestr_loop str substr (length (cstr substr)) (toupper (hd (cstr substr))) 0 = Inr r"
    "first_from (occurs_at (cstr str) (cstr substr)) 0 (length (cstr str)) r"
    using strcasestr_loop_spec [OF assms refl False refl refl refl] by auto
  have "\<not> occurs_at (cstr str) (cstr substr) (length (cstr str))" using occurs_at_head False by blast
  with r(2) have "first_from (occurs_at (cstr str) (cstr substr)) 0 (length (cstr str) + 1) r"
    by (auto simp: first_from_def less_Suc_eq split: option.splits)
  with r(1) hd assms show ?thesis by (simp add: os_strcasestr2_def str_len_def)
qed

theorem strcasestr_first_witness:
  "\<exists>r. os_strcasestr2 [0x78, 0x61, 0x42, 0] [0x41, 0x62, 0] = Inr r \<and>
    first_from (occurs_at (cstr [0x78, 0x61, 0x42, 0]) (cstr [0x41, 0x62, 0])) 0
      (length (cstr [0x78, 0x61, 0x42, 0]) + 1) r"
  by (rule strcasestr_first) simp_all

end
