(* ===== verification/Sweep.thy ===== *)
theory Sweep
  imports C_String
begin

text \<open>
  The sweeps of the radio tests, \<^verbatim>\<open>changeitem.c\<close>, \<^verbatim>\<open>changeset.c\<close>, \<^verbatim>\<open>assessor.c\<close>, \<^verbatim>\<open>sweeper.c\<close>, \<^verbatim>\<open>transmitter.c\<close>,
  \<^verbatim>\<open>transmitaction.c\<close> and \<^verbatim>\<open>receiver.c\<close> of \<^verbatim>\<open>lib/cli\<close>: a set of named parameters, each with a range and a step,
  runs through all combinations except excluded ones; the transmitter acts on each and the receiver keeps
  a score of what arrived.  Linked lists are lists and methods are functions.  An overflow of a parameter is undefined; totals are mathematical
  integers.  Loops over combinations are partial functions, so that not returning is a result.
\<close>

section \<open>Parameters\<close>

text \<open>The name is an array of 32 bytes.\<close>

record changeitem =
  ci_name :: "u8 list"
  ci_start :: int
  ci_end :: int
  ci_step :: int
  ci_current :: int

definition in_int :: "int \<Rightarrow> bool" where
  "in_int x = (- 2147483648 \<le> x \<and> x \<le> 2147483647)"

definition changeitem_advance :: "changeitem \<Rightarrow> (bool \<times> changeitem) res" where
  "changeitem_advance this =
     (if ci_step this = 0 then Inr (False, this)
      else (let lower = (if ci_step this > 0 then ci_start this else ci_end this);
                upper = (if ci_step this > 0 then ci_end this else ci_start this);
                next = ci_current this + ci_step this
            in if \<not> in_int next then Inl Undefined
               else if next \<ge> lower \<and> next \<le> upper then Inr (True, this\<lparr>ci_current := next\<rparr>)
               else Inr (False, this)))"

definition changeitem_init :: "changeitem \<Rightarrow> changeitem" where
  "changeitem_init this = this\<lparr>ci_current := ci_start this\<rparr>"

text \<open>\<open>this\<close> is the head of the list; the next item is the one behind it.\<close>

fun changeitem_change :: "changeitem \<Rightarrow> changeitem list \<Rightarrow> (bool \<times> changeitem \<times> changeitem list) res" where
  "changeitem_change this [] = res_bind (changeitem_advance this) (\<lambda>(ret, this'). Inr (ret, this', []))"
| "changeitem_change this (next # rest) =
     res_bind (changeitem_change next rest) (\<lambda>(ret, next', rest').
       if ret then Inr (True, this, next' # rest')
       else res_bind (changeitem_advance this) (\<lambda>(ret', this'). Inr (ret', this', changeitem_init next' # rest')))"

definition changeitem_is_included :: "changeitem \<Rightarrow> changeitem \<Rightarrow> bool res" where
  "changeitem_is_included this other =
     res_bind (strn_eq 32 (ci_name this) (ci_name other)) (\<lambda>eq.
       if \<not> eq then Inr False
       else if ci_end other \<ge> 0 then Inr (ci_start other \<le> ci_current this \<and> ci_current this \<le> ci_end other)
       else Inr (ci_start other \<le> ci_current this))"

text \<open>\<open>name\<close> is the string without its zero.\<close>

definition create_changeitem :: "u8 list \<Rightarrow> int \<Rightarrow> int \<Rightarrow> int \<Rightarrow> changeitem" where
  "create_changeitem name start ende step =
     changeitem_init \<lparr>ci_name = take 32 (name @ replicate 32 0), ci_start = start, ci_end = ende, ci_step = step, ci_current = 0\<rparr>"

section \<open>Sets of parameters\<close>

record changeset =
  items :: "changeitem list"
  curidx :: u32

text \<open>
  The result is whether the loop variable is null; the list walk leaves it at the list head, so that it never
  is.
\<close>

definition changeset_init :: "changeset \<Rightarrow> bool \<times> changeset" where
  "changeset_init this = (True, \<lparr>items = map changeitem_init (items this), curidx = 0\<rparr>)"

definition changeset_iter :: "changeset \<Rightarrow> (bool \<times> changeset) res" where
  "changeset_iter this =
     (case items this of
        [] \<Rightarrow> Inr (False, this)
      | first # rest \<Rightarrow>
          res_bind (changeitem_change first rest) (\<lambda>(ret, first', rest').
            Inr (ret, \<lparr>items = first' # rest', curidx = curidx this + 1\<rparr>)))"

definition changeset_add :: "changeset \<Rightarrow> u8 list \<Rightarrow> int \<Rightarrow> int \<Rightarrow> int \<Rightarrow> changeset" where
  "changeset_add this name start ende step =
     this\<lparr>items := items this @ [create_changeitem name start (if step = 0 then start else ende) step]\<rparr>"

fun changeset_find :: "changeitem list \<Rightarrow> u8 list \<Rightarrow> changeitem option res" where
  "changeset_find [] name = Inr None"
| "changeset_find (ci # cis) name =
     res_bind (str_eq (ci_name ci) name) (\<lambda>eq. if eq then Inr (Some ci) else changeset_find cis name)"

fun subset_loop :: "changeitem list \<Rightarrow> changeitem list \<Rightarrow> bool res" where
  "subset_loop mine [] = Inr True"
| "subset_loop mine (to_check # others) =
     res_bind (changeset_find mine (ci_name to_check)) (\<lambda>my_ci.
       res_bind (case my_ci of None \<Rightarrow> Inr False | Some ci \<Rightarrow> changeitem_is_included ci to_check) (\<lambda>subset.
         if \<not> subset then Inr False else subset_loop mine others))"

definition changeset_is_subset :: "changeset \<Rightarrow> changeset \<Rightarrow> bool res" where
  "changeset_is_subset this other = (if items other = [] then Inr False else subset_loop (items this) (items other))"

definition changeset_curidx :: "changeset \<Rightarrow> u32" where
  "changeset_curidx this = curidx this"

text \<open>The index is not set by \<^verbatim>\<open>create_changeset\<close>: it is whatever the memory holds.\<close>

definition create_changeset :: "u32 \<Rightarrow> changeset" where
  "create_changeset garbage = \<lparr>items = [], curidx = garbage\<rparr>"

section \<open>Exclusions\<close>

type_synonym assessor = "changeset list"

definition assessor_exclude :: "assessor \<Rightarrow> changeset \<Rightarrow> assessor" where
  "assessor_exclude this cs = this @ [cs]"

fun assessor_assess :: "assessor \<Rightarrow> changeset \<Rightarrow> bool res" where
  "assessor_assess [] cs = Inr True"
| "assessor_assess (check # excluded) cs =
     res_bind (changeset_is_subset cs check) (\<lambda>sub. if sub then Inr False else assessor_assess excluded cs)"

definition passes :: "assessor option \<Rightarrow> changeset \<Rightarrow> bool res" where
  "passes as cs = (case as of None \<Rightarrow> Inr True | Some a \<Rightarrow> assessor_assess a cs)"

section \<open>The sweeper\<close>

definition EAGAIN :: int where "EAGAIN = 11"

text \<open>
  The action on a world \<open>'w\<close>; it is repeated while it returns \<open>-EAGAIN\<close>.  The sweep has the last result, the set and the world.
\<close>

partial_function (option) act_loop :: "(changeset \<Rightarrow> 'w \<Rightarrow> int \<times> 'w) \<Rightarrow> changeset \<Rightarrow> 'w \<Rightarrow> (int \<times> 'w) option" where
  "act_loop m_do cs w =
     (let (ret, w') = m_do cs w in if ret = - EAGAIN then act_loop m_do cs w' else Some (ret, w'))"

partial_function (option) sweep_loop ::
  "assessor option \<Rightarrow> (changeset \<Rightarrow> 'w \<Rightarrow> int \<times> 'w) \<Rightarrow> int \<Rightarrow> changeset \<Rightarrow> 'w \<Rightarrow> (int \<times> changeset \<times> 'w) res option" where
  "sweep_loop as m_do ret cs w =
     (case passes as cs of
        Inl e \<Rightarrow> Some (Inl e)
      | Inr passed \<Rightarrow>
          Option.bind (if passed then act_loop m_do cs w else Some (ret, w)) (\<lambda>(ret', w').
            if ret' \<noteq> 0 then Some (Inr (ret', cs, w'))
            else (case changeset_iter cs of
                    Inl e \<Rightarrow> Some (Inl e)
                  | Inr (again, cs') \<Rightarrow> if again then sweep_loop as m_do ret' cs' w' else Some (Inr (ret', cs', w')))))"

definition sweep ::
  "assessor option \<Rightarrow> (changeset \<Rightarrow> 'w \<Rightarrow> int \<times> 'w) \<Rightarrow> changeset \<Rightarrow> 'w \<Rightarrow> (int \<times> changeset \<times> 'w) res option" where
  "sweep as m_do cs w = sweep_loop as m_do 0 cs w"

section \<open>The transmitter\<close>

record tx_stats =
  tx_ok :: u64
  fail_reason :: "u64 list"
  tx_sent :: u64
  tx_acked :: u64

record transmitaction =
  ta_repeat :: int
  ta_addr :: "u8 list"
  ta_peer :: "u8 list"
  ta_ciph :: u8
  ta_keyi :: u8
  ta_gtk :: u8
  ta_noack :: u8
  ta_stats :: tx_stats
  ta_checksum :: bool

record transmitter =
  tx_cs :: changeset
  tx_as :: assessor
  tx_ta :: transmitaction
  sw_busy :: bool

definition transmitaction_set_repeat :: "transmitaction \<Rightarrow> int \<Rightarrow> transmitaction" where
  "transmitaction_set_repeat this n = this\<lparr>ta_repeat := n\<rparr>"

text \<open>Addresses are copied from six bytes or more.\<close>

definition transmitaction_set_addr :: "transmitaction \<Rightarrow> u8 list \<Rightarrow> transmitaction res" where
  "transmitaction_set_addr this a = (if length a < 6 then Inl BadAccess else Inr (this\<lparr>ta_addr := take 6 a\<rparr>))"

definition transmitaction_set_peer :: "transmitaction \<Rightarrow> u8 list \<Rightarrow> transmitaction res" where
  "transmitaction_set_peer this a = (if length a < 6 then Inl BadAccess else Inr (this\<lparr>ta_peer := take 6 a\<rparr>))"

definition transmitaction_set_ciph :: "transmitaction \<Rightarrow> u8 \<Rightarrow> transmitaction" where
  "transmitaction_set_ciph this x = this\<lparr>ta_ciph := x\<rparr>"

definition transmitaction_set_keyi :: "transmitaction \<Rightarrow> u8 \<Rightarrow> transmitaction" where
  "transmitaction_set_keyi this x = this\<lparr>ta_keyi := x\<rparr>"

definition transmitaction_set_gtk :: "transmitaction \<Rightarrow> u8 \<Rightarrow> transmitaction" where
  "transmitaction_set_gtk this x = this\<lparr>ta_gtk := x\<rparr>"

definition transmitaction_set_noack :: "transmitaction \<Rightarrow> u8 \<Rightarrow> transmitaction" where
  "transmitaction_set_noack this x = this\<lparr>ta_noack := x\<rparr>"

definition create_transmitaction :: "transmitaction \<Rightarrow> transmitaction" where
  "create_transmitaction base = base\<lparr>ta_checksum := False\<rparr>"

definition zero_stats :: tx_stats where
  "zero_stats = \<lparr>tx_ok = 0, fail_reason = replicate 16 0, tx_sent = 0, tx_acked = 0\<rparr>"

definition transmitaction_clear_stat :: "transmitaction \<Rightarrow> transmitaction" where
  "transmitaction_clear_stat this = this\<lparr>ta_stats := zero_stats\<rparr>"

definition transmitter_add_changeitem ::
  "transmitter \<Rightarrow> u8 list \<Rightarrow> int \<Rightarrow> int \<Rightarrow> int \<Rightarrow> int \<times> transmitter" where
  "transmitter_add_changeitem this name start ende step =
     (if sw_busy this then (-1, this) else (0, this\<lparr>tx_cs := changeset_add (tx_cs this) name start ende step\<rparr>))"

definition transmitter_clear_cs :: "u32 \<Rightarrow> transmitter \<Rightarrow> int \<times> transmitter" where
  "transmitter_clear_cs garbage this =
     (if sw_busy this then (-1, this) else (0, this\<lparr>tx_cs := snd (changeset_init (create_changeset garbage))\<rparr>))"

definition transmitter_init_cs :: "transmitter \<Rightarrow> int \<times> transmitter" where
  "transmitter_init_cs this =
     (if sw_busy this then (-1, this) else (0, this\<lparr>tx_cs := snd (changeset_init (tx_cs this))\<rparr>))"

text \<open>
  Starting puts the sweep on the queue of its task; \<open>setup\<close> is the result of \<^verbatim>\<open>p_setup\<close>.
\<close>

definition sweeper_sweep :: "transmitter \<Rightarrow> transmitter" where
  "sweeper_sweep this =
     (let (again, cs) = changeset_init (tx_cs this)
      in if again then this\<lparr>tx_cs := cs, sw_busy := True\<rparr> else this\<lparr>tx_cs := cs\<rparr>)"

definition transmitter_start :: "int \<Rightarrow> transmitter \<Rightarrow> int \<Rightarrow> int \<times> transmitter" where
  "transmitter_start setup this n =
     (if sw_busy this then (-1, this)
      else if setup \<noteq> 0 then (-1, this)
      else (0, sweeper_sweep (this\<lparr>tx_ta := transmitaction_clear_stat (transmitaction_set_repeat (tx_ta this) n)\<rparr>)))"

text \<open>
  The task runs the sweep and is then no longer busy.  \<open>excl\<close> is what \<^verbatim>\<open>p_setup_assessor\<close> excludes and \<open>ta\<close> the action of
  the transmitter that is created.
\<close>

definition sweep_task ::
  "(changeset \<Rightarrow> 'w \<Rightarrow> int \<times> 'w) \<Rightarrow> transmitter \<Rightarrow> 'w \<Rightarrow> (int \<times> transmitter \<times> 'w) res option" where
  "sweep_task m_do this w =
     map_option (\<lambda>r. res_bind r (\<lambda>(ret, cs, w'). Inr (ret, this\<lparr>tx_cs := cs, sw_busy := False\<rparr>, w')))
       (sweep (Some (tx_as this)) m_do (tx_cs this) w)"

definition create_transmitter :: "u32 \<Rightarrow> changeset list \<Rightarrow> transmitaction \<Rightarrow> transmitter" where
  "create_transmitter garbage excl ta =
     \<lparr>tx_cs = create_changeset garbage, tx_as = fold (\<lambda>cs a. assessor_exclude a cs) excl [], tx_ta = ta, sw_busy = False\<rparr>"

text \<open>
  Stopping waits for the sweep, whose state changes meanwhile: \<open>busy k\<close> is the answer to the question number \<open>k\<close>.
  The result has the value left in \<^verbatim>\<open>retry\<close> and the number of questions.
\<close>

fun stop_loop :: "(nat \<Rightarrow> bool) \<Rightarrow> nat \<Rightarrow> nat \<Rightarrow> int \<times> nat" where
  "stop_loop busy k 0 = (if busy k then (-1, k + 1) else (0, k + 1))"
| "stop_loop busy k (Suc n) = (if busy k then stop_loop busy (k + 1) n else (int (Suc n), k + 1))"

text \<open>The result has whether \<^verbatim>\<open>p_cleanup\<close> is called and whether the sweep was still running at the last question.\<close>

definition transmitter_stop :: "(nat \<Rightarrow> bool) \<Rightarrow> int \<times> bool \<times> bool" where
  "transmitter_stop busy =
     (if \<not> busy 0 then (-1, False, False)
      else (let (retry, k) = stop_loop busy 1 10
            in if retry = 0 then (-1, False, busy (k - 1)) else (0, True, busy (k - 1))))"

definition transmitter_get_stats :: "transmitter \<Rightarrow> tx_stats" where
  "transmitter_get_stats this = ta_stats (tx_ta this)"

definition transmitter_checksum :: "transmitter \<Rightarrow> bool \<Rightarrow> transmitter" where
  "transmitter_checksum this enable = this\<lparr>tx_ta := (tx_ta this)\<lparr>ta_checksum := enable\<rparr>\<rparr>"

section \<open>The receiver\<close>

record receiver =
  rx_cs :: changeset
  rx_as :: "assessor option"
  scoreboard :: "u8 list option"
  rx_repeat :: int
  chksum_error :: u64
  rx_checksum :: bool

definition receiver_add_changeitem :: "receiver \<Rightarrow> u8 list \<Rightarrow> int \<Rightarrow> int \<Rightarrow> int \<Rightarrow> int \<times> receiver" where
  "receiver_add_changeitem this name start ende step = (0, this\<lparr>rx_cs := changeset_add (rx_cs this) name start ende step\<rparr>)"

definition receiver_clear_cs :: "u32 \<Rightarrow> receiver \<Rightarrow> int \<times> receiver" where
  "receiver_clear_cs garbage this = (0, this\<lparr>rx_cs := snd (changeset_init (create_changeset garbage))\<rparr>)"

definition receiver_init_cs :: "receiver \<Rightarrow> int \<times> receiver" where
  "receiver_init_cs this = (0, this\<lparr>rx_cs := snd (changeset_init (rx_cs this))\<rparr>)"

partial_function (option) total_loop ::
  "assessor option \<Rightarrow> int \<Rightarrow> int \<Rightarrow> changeset \<Rightarrow> (int \<times> changeset) res option" where
  "total_loop as rpt n cs =
     (case passes as cs of
        Inl e \<Rightarrow> Some (Inl e)
      | Inr passed \<Rightarrow>
          (let n' = (if passed then n + rpt else n)
           in case changeset_iter cs of
                Inl e \<Rightarrow> Some (Inl e)
              | Inr (again, cs') \<Rightarrow> if again then total_loop as rpt n' cs' else Some (Inr (n', cs'))))"

definition receiver_expected_total :: "receiver \<Rightarrow> (int \<times> receiver) res option" where
  "receiver_expected_total this =
     (let (again, cs) = changeset_init (rx_cs this)
      in if \<not> again then Some (Inr (0, this\<lparr>rx_cs := cs\<rparr>))
         else map_option (\<lambda>r. res_bind r (\<lambda>(n, cs'). Inr (n, this\<lparr>rx_cs := cs'\<rparr>)))
                (total_loop (rx_as this) (rx_repeat this) 0 cs))"

text \<open>
  \<open>mem_ok\<close>: there is memory for the scoreboard; \<open>setup\<close> is the result of \<^verbatim>\<open>p_setup\<close>.  The repeat count is not negative.
\<close>

definition receiver_start :: "bool \<Rightarrow> int \<Rightarrow> receiver \<Rightarrow> int \<Rightarrow> (int \<times> receiver) res option" where
  "receiver_start mem_ok setup this rpt =
     map_option (\<lambda>r. res_bind r (\<lambda>(cnt, this1).
         if \<not> mem_ok then Inr (-1, this1\<lparr>scoreboard := None\<rparr>)
         else (let this2 = this1\<lparr>scoreboard := Some (replicate (nat ((cnt + 7) div 8)) 0), chksum_error := 0\<rparr>
               in Inr (if setup \<noteq> 0 then -1 else 0, this2))))
       (receiver_expected_total (this\<lparr>rx_repeat := rpt\<rparr>))"

definition isset :: "u8 list \<Rightarrow> nat \<Rightarrow> bool res" where
  "isset a i = (if i div 8 < length a then Inr (a ! (i div 8) AND push_bit (i mod 8) 1 \<noteq> 0) else Inl BadAccess)"

text \<open>The loop with \<open>k\<close> rounds left, at index \<open>i\<close>.\<close>

fun lookup_loop :: "u8 list \<Rightarrow> bool \<Rightarrow> int \<Rightarrow> nat \<Rightarrow> nat \<Rightarrow> int \<Rightarrow> int res" where
  "lookup_loop sb ok target 0 i n = Inr n"
| "lookup_loop sb ok target (Suc k) i n =
     res_bind (isset sb i) (\<lambda>b.
       (let n' = (if b = ok then n + 1 else n)
        in if target \<ge> 0 \<and> n' = target + 1 then Inr (int i) else lookup_loop sb ok target k (i + 1) n'))"

definition receiver_lookup :: "receiver \<Rightarrow> bool \<Rightarrow> int \<Rightarrow> (int \<times> receiver) res option" where
  "receiver_lookup this ok target =
     (case scoreboard this of
        None \<Rightarrow> Some (Inl AssertFail)
      | Some sb \<Rightarrow>
          map_option (\<lambda>r. res_bind r (\<lambda>(cnt, this').
            res_bind (lookup_loop sb ok target (nat cnt) 0 0) (\<lambda>n. Inr (n, this')))) (receiver_expected_total this))"

definition receiver_received :: "receiver \<Rightarrow> (int \<times> receiver) res option" where
  "receiver_received this = (if scoreboard this = None then Some (Inr (0, this)) else receiver_lookup this True (-1))"

definition receiver_missed :: "receiver \<Rightarrow> (int \<times> receiver) res option" where
  "receiver_missed this = (if scoreboard this = None then Some (Inr (0, this)) else receiver_lookup this False (-1))"

definition receiver_checksum :: "receiver \<Rightarrow> bool \<Rightarrow> receiver" where
  "receiver_checksum this enable = this\<lparr>rx_checksum := enable\<rparr>"

definition receiver_is_checksum_enabled :: "receiver \<Rightarrow> bool" where
  "receiver_is_checksum_enabled this = rx_checksum this"

definition receiver_error :: "receiver \<Rightarrow> u64" where
  "receiver_error this = chksum_error this"

partial_function (option) query_loop ::
  "assessor option \<Rightarrow> int \<Rightarrow> int \<Rightarrow> changeset \<Rightarrow> (int \<times> changeset) res option" where
  "query_loop as rpt target cs =
     (case passes as cs of
        Inl e \<Rightarrow> Some (Inl e)
      | Inr passed \<Rightarrow>
          (let target' = (if passed then target - rpt else target)
           in if target' < 0 then Some (Inr (target', cs))
              else (case changeset_iter cs of
                      Inl e \<Rightarrow> Some (Inl e)
                    | Inr (again, cs') \<Rightarrow> if again then query_loop as rpt target' cs' else Some (Inr (target', cs')))))"

text \<open>The result is the set at the combination that was asked for.\<close>

definition receiver_query :: "receiver \<Rightarrow> bool \<Rightarrow> int \<Rightarrow> changeset option res option" where
  "receiver_query this ok index =
     (if scoreboard this = None then Some (Inr None)
      else Option.bind (receiver_lookup this ok (-1)) (\<lambda>r1. case r1 of
        Inl e \<Rightarrow> Some (Inl e)
      | Inr (cnt, this1) \<Rightarrow>
          if index < 0 \<or> index > cnt - 1 then Some (Inr None)
          else Option.bind (receiver_lookup this1 ok index) (\<lambda>r2. case r2 of
            Inl e \<Rightarrow> Some (Inl e)
          | Inr (target, this2) \<Rightarrow>
              (let (again, cs) = changeset_init (rx_cs this2)
               in Option.bind (if again then query_loop (rx_as this2) (rx_repeat this2) target cs else Some (Inr (target, cs)))
                    (\<lambda>r3. case r3 of
                       Inl e \<Rightarrow> Some (Inl e)
                     | Inr (target', cs') \<Rightarrow> Some (Inr (if target' < 0 then Some cs' else None)))))))"

end
