(* ===== verification/Sweep_Props.thy ===== *)
theory Sweep_Props
  imports Sweep
begin

text \<open>
  A sweep visits the product of the ranges of its parameters in lexicographic order; the receiver counts
  the same combinations and finds the one behind a bit of its scoreboard; stopping the transmitter misjudges its time-out.
\<close>

section \<open>Counting with several digits\<close>

text \<open>The successor of a list of digits \<open>ks\<close> below the bases \<open>ns\<close>, the last digit changing fastest.\<close>

fun odo :: "nat list \<Rightarrow> nat list \<Rightarrow> nat list option" where
  "odo (n # ns) (k # ks) =
     (case odo ns ks of
        Some ks' \<Rightarrow> Some (k # ks')
      | None \<Rightarrow> if k + 1 < n then Some ((k + 1) # replicate (length ns) 0) else None)"
| "odo ns ks = None"

definition vectors :: "nat list \<Rightarrow> nat list list" where
  "vectors ns = product_lists (map (\<lambda>n. [0..<n]) ns)"

lemma vectors_Nil [simp]: "vectors [] = [[]]"
  by (simp add: vectors_def)

lemma vectors_Cons: "vectors (n # ns) = concat (map (\<lambda>k. map (Cons k) (vectors ns)) [0..<n])"
  by (simp add: vectors_def)

lemma length_vectors_Cons [simp]: "length (vectors (n # ns)) = n * length (vectors ns)"
  by (induction n) (simp_all add: vectors_Cons)

lemma vectors_pos: "list_all ((<) 0) ns \<Longrightarrow> 0 < length (vectors ns)"
  by (induction ns) simp_all

lemma length_vector: "ks \<in> set (vectors ns) \<Longrightarrow> length ks = length ns"
  by (auto simp: vectors_def dest: in_set_product_lists_length)

lemma nth_concat_same:
  assumes "\<And>k. k < n \<Longrightarrow> length (f k) = c" "j < n * c"
  shows "concat (map f [0..<n]) ! j = f (j div c) ! (j mod c)"
  using assms
proof (induction n)
  case (Suc n)
  have len: "length (concat (map f [0..<n])) = n * c"
    using Suc.prems(1) by (induction n) (simp_all add: less_Suc_eq)
  show ?case
  proof (cases "j < n * c")
    case True
    then show ?thesis using Suc by (simp add: nth_append len)
  next
    case False
    then have d: "j div c = n" using Suc.prems(2) by (intro div_nat_eqI) (simp_all add: mult.commute)
    then have "j mod c = j - n * c" using minus_div_mult_eq_mod [of j c] by simp
    with d show ?thesis using False by (simp add: nth_append len)
  qed
qed simp

lemma nth_vectors:
  assumes "j < n * length (vectors ns)"
  shows "vectors (n # ns) ! j = (j div length (vectors ns)) # vectors ns ! (j mod length (vectors ns))"
proof -
  have "j mod length (vectors ns) < length (vectors ns)" using assms by (cases "vectors ns") auto
  then show ?thesis
    unfolding vectors_Cons by (subst nth_concat_same [where c = "length (vectors ns)"]) (simp_all add: assms)
qed

lemma vectors_first: "list_all ((<) 0) ns \<Longrightarrow> vectors ns ! 0 = replicate (length ns) 0"
proof (induction ns)
  case (Cons n ns)
  then have "vectors ns \<noteq> []" using vectors_pos [of ns] by auto
  then show ?case using Cons nth_vectors [of 0 n ns] by simp
qed simp

lemma odo_vectors:
  assumes "list_all ((<) 0) ns" "j < length (vectors ns)"
  shows "odo ns (vectors ns ! j) = (if j + 1 < length (vectors ns) then Some (vectors ns ! (j + 1)) else None)"
  using assms
proof (induction ns arbitrary: j)
  case (Cons n ns)
  define c where "c = length (vectors ns)"
  have c: "0 < c" using Cons.prems(1) vectors_pos [of ns] by (simp add: c_def)
  have j: "j < n * c" using Cons.prems(2) by (simp add: c_def)
  then have d: "j div c < n" by (simp add: less_mult_imp_div_less)
  have IH: "odo ns (vectors ns ! (j mod c)) =
      (if j mod c + 1 < c then Some (vectors ns ! (j mod c + 1)) else None)"
    using Cons c by (simp add: c_def)
  show ?case
  proof (cases "j mod c + 1 < c")
    case True
    then have e: "(j + 1) div c = j div c" "(j + 1) mod c = j mod c + 1"
      by (simp_all add: div_Suc mod_Suc)
    have "j + 1 < n * c" using d e(1) div_less_iff_less_mult [OF c, of "j + 1" n] by simp
    then show ?thesis
      using True IH j e nth_vectors [of j n ns] nth_vectors [of "j + 1" n ns] by (simp add: c_def [symmetric])
  next
    case False
    then have "j mod c + 1 = c" using mod_less_divisor [OF c, of j] by simp
    then have e: "(j + 1) div c = j div c + 1" "(j + 1) mod c = 0"
      using c by (simp_all add: div_Suc mod_Suc)
    have iff: "j div c + 1 < n \<longleftrightarrow> j + 1 < n * c"
      using e(1) div_less_iff_less_mult [OF c, of "j + 1" n] by simp
    show ?thesis
      using False IH j e iff nth_vectors [of j n ns] nth_vectors [of "j + 1" n ns] vectors_first [of ns] Cons.prems(1)
      by (simp add: c_def [symmetric])
  qed
qed simp

section \<open>The values of a parameter\<close>

definition item_count :: "changeitem \<Rightarrow> nat" where
  "item_count it = (if ci_step it = 0 then 1 else nat ((ci_end it - ci_start it) div ci_step it) + 1)"

definition item_vals :: "changeitem \<Rightarrow> int list" where
  "item_vals it = map (\<lambda>k. ci_start it + int k * ci_step it) [0..<item_count it]"

text \<open>No step leaves the range of \<^verbatim>\<open>int\<close>, not even the one behind the end.\<close>

definition item_ok :: "changeitem \<Rightarrow> bool" where
  "item_ok it = (ci_step it \<noteq> 0 \<longrightarrow> in_int (ci_start it + ci_step it) \<and> in_int (ci_end it + ci_step it))"

definition at :: "changeitem \<Rightarrow> nat \<Rightarrow> changeitem" where
  "at it k = it\<lparr>ci_current := ci_start it + int k * ci_step it\<rparr>"

lemma at_init [simp]: "changeitem_init (at it k) = at it 0" "changeitem_init it = at it 0"
  by (simp_all add: at_def changeitem_init_def)

lemma at_simps [simp]: "item_count (at it k) = item_count it" "ci_name (at it k) = ci_name it" "at (at it k) k' = at it k'"
    "ci_current (at it k) = ci_start it + int k * ci_step it"
  by (simp_all add: at_def item_count_def)

lemma item_count_pos [simp]: "0 < item_count it"
  by (simp add: item_count_def)

lemma count_up:
  fixes a b d :: int
  assumes "0 < d"
  shows "k + 1 < nat ((b - a) div d) + 1 \<longleftrightarrow> a + int (k + 1) * d \<le> b"
proof -
  define x where "x = int (k + 1)"
  have "x * d \<le> b - a" if "x \<le> (b - a) div d"
  proof -
    have "x * d \<le> (b - a) div d * d" using that assms by (simp add: mult_right_mono)
    also have "\<dots> \<le> b - a" using assms pos_mod_sign [of d "b - a"] div_mult_mod_eq [of "b - a" d] by linarith
    finally show ?thesis .
  qed
  moreover have "x \<le> (b - a) div d" if "x * d \<le> b - a"
    using zdiv_mono1 [OF that assms] assms by simp
  moreover have "k + 1 < nat ((b - a) div d) + 1 \<longleftrightarrow> x \<le> (b - a) div d" by (auto simp: x_def)
  ultimately show ?thesis unfolding x_def [symmetric] by linarith
qed

lemma in_int_between: "in_int x \<Longrightarrow> in_int z \<Longrightarrow> x \<le> y \<Longrightarrow> y \<le> z \<Longrightarrow> in_int y"
  by (simp add: in_int_def)

lemma advance_at:
  assumes "item_ok it" "k < item_count it"
  shows "changeitem_advance (at it k) = Inr (if k + 1 < item_count it then (True, at it (k + 1)) else (False, at it k))"
proof -
  define a b d where abd: "a = ci_start it" "b = ci_end it" "d = ci_step it"
  define x where "x = a + int k * d"
  have nxt: "a + int (k + 1) * d = x + d" by (simp add: x_def algebra_simps)
  consider "d = 0" | "0 < d" | "d < 0" by linarith
  then show ?thesis
  proof cases
    case 1
    then show ?thesis by (simp add: changeitem_advance_def at_def item_count_def abd)
  next
    case 2
    have iff: "k + 1 < item_count it \<longleftrightarrow> x + d \<le> b"
      using count_up [OF 2, of k b a] 2 unfolding nxt by (simp add: item_count_def abd)
    have "0 \<le> int k * d" using 2 by simp
    then have low: "a \<le> x" by (simp add: x_def)
    have "x \<le> b \<or> k = 0"
      using count_up [OF 2, of "k - 1" b a] 2 assms(2) by (cases k) (simp_all add: x_def item_count_def abd)
    then have "in_int (x + d)"
      using assms(1) 2 low in_int_between [of "a + d" "b + d" "x + d"] by (auto simp: item_ok_def abd x_def)
    then show ?thesis
      using 2 low iff nxt by (simp add: changeitem_advance_def at_def abd [symmetric] x_def [symmetric] Let_def)
  next
    case 3
    have "- b - - a = - (b - a)" by simp
    then have neg: "(- b - - a) div (- d) = (b - a) div d" by (simp only: div_minus_minus)
    have count: "item_count it = nat ((b - a) div d) + 1" using 3 by (simp add: item_count_def abd)
    note up = count_up [of "- d" _ "- b" "- a", unfolded neg, folded count]
    have iff: "k + 1 < item_count it \<longleftrightarrow> b \<le> x + d"
      using up [of k] 3 nxt by linarith
    have "int k * d \<le> 0" using 3 by (simp add: mult_nonneg_nonpos)
    then have low: "x \<le> a" by (simp add: x_def)
    have "b \<le> x \<or> k = 0"
      using up [of "k - 1"] 3 assms(2) by (cases k) (simp_all add: x_def)
    then have "in_int (x + d)"
      using assms(1) 3 low in_int_between [of "b + d" "a + d" "x + d"] by (auto simp: item_ok_def abd x_def)
    then show ?thesis
      using 3 low iff nxt by (simp add: changeitem_advance_def at_def abd [symmetric] x_def [symmetric] Let_def)
  qed
qed

lemma change_at:
  assumes "list_all item_ok (it # its)" "list_all2 (\<lambda>it k. k < item_count it) (it # its) (k # ks)"
  shows "changeitem_change (at it k) (map2 at its ks) =
    Inr (case odo (map item_count (it # its)) (k # ks) of
           Some ks' \<Rightarrow> (True, at it (hd ks'), map2 at its (tl ks'))
         | None \<Rightarrow> (False, at it k, map2 at its (replicate (length its) 0)))"
  using assms
proof (induction its arbitrary: it k ks)
  case Nil
  then show ?case by (simp add: advance_at)
next
  case (Cons it2 its)
  obtain k2 ks2 where ks: "ks = k2 # ks2" using Cons.prems(2) by (cases ks) auto
  show ?case
  proof (cases "odo (map item_count (it2 # its)) (k2 # ks2)")
    case None
    then show ?thesis using Cons.IH [of it2 k2 ks2] Cons.prems advance_at [of it k] by (simp add: ks)
  next
    case (Some ks')
    then have "ks' \<noteq> []" by (auto split: option.splits if_splits)
    then show ?thesis using Some Cons.IH [of it2 k2 ks2] Cons.prems by (cases ks') (simp_all add: ks)
  qed
qed

section \<open>Combinations\<close>

abbreviation bases :: "changeitem list \<Rightarrow> nat list" where
  "bases its \<equiv> map item_count its"

definition ncomb :: "changeitem list \<Rightarrow> nat" where
  "ncomb its = length (vectors (bases its))"

definition comb :: "changeitem list \<Rightarrow> nat \<Rightarrow> changeset" where
  "comb its j = \<lparr>items = map2 at its (vectors (bases its) ! j), curidx = of_nat j\<rparr>"

text \<open>What is left behind after the last combination.\<close>

definition final_set :: "changeitem list \<Rightarrow> changeset" where
  "final_set its =
     (case its of
        [] \<Rightarrow> \<lparr>items = [], curidx = 0\<rparr>
      | it # rest \<Rightarrow> \<lparr>items = at it (item_count it - 1) # map (\<lambda>i. at i 0) rest, curidx = of_nat (ncomb its)\<rparr>)"

lemma bases_pos [simp]: "list_all ((<) 0) (bases its)"
  by (simp add: list_all_iff)

lemma ncomb_pos [simp]: "0 < ncomb its"
  using vectors_pos [OF bases_pos] by (simp add: ncomb_def)

lemma map2_at_zero: "map2 at its (replicate (length its) 0) = map (\<lambda>i. at i 0) its"
  by (induction its) simp_all

lemma init_comb: "changeset_init cs = (True, comb (items cs) 0)"
  using vectors_first [OF bases_pos, of "items cs"] by (simp add: changeset_init_def comb_def map2_at_zero)

lemma vectors_below: "ks \<in> set (vectors (bases its)) \<Longrightarrow> list_all2 (\<lambda>it k. k < item_count it) its ks"
proof (induction its arbitrary: ks)
  case (Cons it its)
  then show ?case by (auto simp: vectors_Cons)
qed simp

lemma iter_comb:
  assumes "list_all item_ok its" "j < ncomb its"
  shows "changeset_iter (comb its j) = Inr (if j + 1 < ncomb its then (True, comb its (j + 1)) else (False, final_set its))"
proof (cases its)
  case Nil
  then show ?thesis using assms(2) by (simp add: comb_def changeset_iter_def ncomb_def final_set_def)
next
  case (Cons it rest)
  define ks where "ks = vectors (bases its) ! j"
  have "ks \<in> set (vectors (bases its))" using assms(2) by (simp add: ks_def ncomb_def)
  then have below: "list_all2 (\<lambda>it k. k < item_count it) its ks" by (rule vectors_below)
  then obtain k ks' where k: "ks = k # ks'" by (cases ks) (auto simp: Cons)
  have odo: "odo (bases its) ks = (if j + 1 < ncomb its then Some (vectors (bases its) ! (j + 1)) else None)"
    using odo_vectors [OF bases_pos, of j its] assms(2) by (simp add: ks_def ncomb_def)
  have change: "changeitem_change (at it k) (map2 at rest ks') =
      Inr (case odo (bases its) ks of Some v \<Rightarrow> (True, at it (hd v), map2 at rest (tl v))
           | None \<Rightarrow> (False, at it k, map2 at rest (replicate (length rest) 0)))"
    using change_at [of it rest k ks'] assms(1) below by (simp add: Cons k)
  have iter: "changeset_iter (comb its j) = res_bind (changeitem_change (at it k) (map2 at rest ks'))
      (\<lambda>(ret, first', rest'). Inr (ret, \<lparr>items = first' # rest', curidx = of_nat j + 1\<rparr>))"
    using k by (simp add: changeset_iter_def comb_def Cons ks_def)
  show ?thesis
  proof (cases "j + 1 < ncomb its")
    case True
    have "length (vectors (bases its) ! (j + 1)) = length its"
      using True length_vector [of "vectors (bases its) ! (j + 1)" "bases its"] by (simp add: ncomb_def)
    then obtain v vs where "vectors (bases its) ! (j + 1) = v # vs"
      by (cases "vectors (bases its) ! (j + 1)") (auto simp: Cons)
    then show ?thesis using True iter change odo by (simp add: comb_def Cons)
  next
    case False
    then have "k = item_count it - 1" using odo below by (auto simp: Cons k split: option.splits if_splits)
    moreover have "j + 1 = ncomb its" using False assms(2) by simp
    then have "(of_nat j + 1 :: u32) = of_nat (ncomb its)" by (metis of_nat_Suc Suc_eq_plus1 add.commute)
    ultimately show ?thesis using False iter change odo by (simp add: final_set_def Cons map2_at_zero)
  qed
qed

text \<open>The combinations are the product of the values of the parameters, the last one changing fastest.\<close>

definition combs :: "changeitem list \<Rightarrow> changeset list" where
  "combs its = map (comb its) [0..<ncomb its]"

lemma product_lists_map: "product_lists (map (map f) xss) = map (map f) (product_lists xss)"
  by (induction xss) (simp_all add: map_concat comp_def)

lemma combs_values: "map (\<lambda>cs. map ci_current (items cs)) (combs its) = product_lists (map item_vals its)"
proof -
  have "map ci_current (items (comb its j)) = map2 (\<lambda>it k. ci_start it + int k * ci_step it) its (vectors (bases its) ! j)" for j
    by (simp add: comb_def at_def comp_def case_prod_unfold)
  then have "map (\<lambda>cs. map ci_current (items cs)) (combs its) =
      map (\<lambda>j. map2 (\<lambda>it k. ci_start it + int k * ci_step it) its (vectors (bases its) ! j)) [0..<length (vectors (bases its))]"
    by (simp add: combs_def ncomb_def)
  also have "\<dots> = map (map2 (\<lambda>it k. ci_start it + int k * ci_step it) its) (vectors (bases its))"
    by (rule nth_equalityI) simp_all
  also have "\<dots> = product_lists (map item_vals its)"
  proof (induction its)
    case (Cons it its)
    show ?case
      by (simp add: vectors_Cons item_vals_def map_concat comp_def Cons.IH [symmetric, unfolded item_vals_def])
  qed simp
  finally show ?thesis .
qed

lemma length_combs [simp]: "length (combs its) = ncomb its"
  by (simp add: combs_def)

lemma comb_again:
  assumes "map (\<lambda>it. it\<lparr>ci_current := 0\<rparr>) its = map (\<lambda>it. it\<lparr>ci_current := 0\<rparr>) its'"
  shows "ncomb its = ncomb its'" "comb its j = comb its' j"
proof -
  have e: "at it k = at (it\<lparr>ci_current := 0\<rparr>) k" "item_count it = item_count (it\<lparr>ci_current := 0\<rparr>)" for it k
    by (simp_all add: at_def item_count_def)
  have b: "bases its = bases its'"
    using arg_cong [OF assms, of "map item_count"] by (simp add: comp_def e(2) [symmetric])
  then show "ncomb its = ncomb its'" by (simp add: ncomb_def)
  have "map2 at xs ks = map2 at (map (\<lambda>it. it\<lparr>ci_current := 0\<rparr>) xs) ks" for xs ks
    by (induction xs ks rule: list_induct2') (simp_all add: e(1) [symmetric])
  then show "comb its j = comb its' j" unfolding comb_def b using assms by metis
qed

section \<open>Names and exclusions\<close>

definition name_ok :: "u8 list \<Rightarrow> bool" where
  "name_ok a = (length a = 32 \<and> 0 \<in> set a)"

lemma create_name_ok:
  assumes "length nm < 32" "0 \<notin> set nm"
  shows "name_ok (ci_name (create_changeitem nm a b d))" "cstr (ci_name (create_changeitem nm a b d)) = nm"
proof -
  obtain k where k: "32 - length nm = Suc k" using assms(1) by (cases "32 - length nm") simp_all
  have nm: "ci_name (create_changeitem nm a b d) = nm @ 0 # replicate k 0"
    using assms(1) k by (simp add: create_changeitem_def changeitem_init_def)
  show "name_ok (ci_name (create_changeitem nm a b d))" using k assms(1) unfolding nm name_ok_def by simp
  show "cstr (ci_name (create_changeitem nm a b d)) = nm"
    using assms(2) unfolding nm cstr_def by (subst takeWhile_append2) auto
qed

text \<open>An exclusion covers a combination if it has an entry and each entry has a parameter of its name in its range.\<close>

definition covers :: "changeitem list \<Rightarrow> changeset \<Rightarrow> bool" where
  "covers its ex = (items ex \<noteq> [] \<and> list_all (\<lambda>e.
     case find (\<lambda>it. cstr (ci_name it) = cstr (ci_name e)) its of
       None \<Rightarrow> False
     | Some it \<Rightarrow> ci_start e \<le> ci_current it \<and> (0 \<le> ci_end e \<longrightarrow> ci_current it \<le> ci_end e)) (items ex))"

definition passing :: "assessor option \<Rightarrow> changeset \<Rightarrow> bool" where
  "passing as cs = (case as of None \<Rightarrow> True | Some a \<Rightarrow> \<not> list_ex (covers (items cs)) a)"

definition names_ok :: "assessor option \<Rightarrow> changeitem list \<Rightarrow> bool" where
  "names_ok as its = (list_all (\<lambda>it. name_ok (ci_name it)) its \<and>
     (case as of None \<Rightarrow> True | Some a \<Rightarrow> list_all (\<lambda>ex. list_all (\<lambda>it. name_ok (ci_name it)) (items ex)) a))"

lemma find_spec:
  assumes "list_all (\<lambda>it. name_ok (ci_name it)) its" "name_ok nm"
  shows "changeset_find its nm = Inr (find (\<lambda>it. cstr (ci_name it) = cstr nm) its)"
  using assms by (induction its) (simp_all add: name_ok_def str_eq_spec)

lemma subset_spec:
  assumes "list_all (\<lambda>it. name_ok (ci_name it)) its" "list_all (\<lambda>it. name_ok (ci_name it)) es"
  shows "subset_loop its es = Inr (list_all (\<lambda>e.
     case find (\<lambda>it. cstr (ci_name it) = cstr (ci_name e)) its of
       None \<Rightarrow> False
     | Some it \<Rightarrow> ci_start e \<le> ci_current it \<and> (0 \<le> ci_end e \<longrightarrow> ci_current it \<le> ci_end e)) es)"
  using assms(2)
proof (induction es)
  case (Cons e es)
  have inc: "changeitem_is_included it e =
      Inr (ci_start e \<le> ci_current it \<and> (0 \<le> ci_end e \<longrightarrow> ci_current it \<le> ci_end e))"
    if "find (\<lambda>it. cstr (ci_name it) = cstr (ci_name e)) its = Some it" for it
  proof -
    from that have "it \<in> set its" "cstr (ci_name it) = cstr (ci_name e)" by (auto simp: find_Some_iff)
    then have "strn_eq 32 (ci_name it) (ci_name e) = Inr True"
      using assms(1) Cons.prems by (simp add: strn_eq_spec name_ok_def list_all_iff)
    then show ?thesis by (simp add: changeitem_is_included_def)
  qed
  show ?case
    using Cons inc find_spec [OF assms(1), of "ci_name e"] by (simp split: option.split)
qed simp

lemma passes_spec:
  assumes "names_ok as (items cs)"
  shows "passes as cs = Inr (passing as cs)"
proof -
  have "assessor_assess a cs = Inr (\<not> list_ex (covers (items cs)) a)"
    if "list_all (\<lambda>ex. list_all (\<lambda>it. name_ok (ci_name it)) (items ex)) a" for a
    using that assms
    by (induction a) (simp_all add: changeset_is_subset_def covers_def subset_spec names_ok_def)
  then show ?thesis using assms by (auto simp: passes_def passing_def names_ok_def split: option.splits)
qed

lemma names_comb: "names_ok as its \<Longrightarrow> j < ncomb its \<Longrightarrow> names_ok as (items (comb its j))"
  by (auto simp: names_ok_def comb_def list_all_iff dest: set_zip_leftD)

section \<open>Sweeping\<close>

text \<open>
  The reference: the combinations of a list in turn.  The result has the combination at which the action failed, or \<open>fin\<close>.
\<close>

fun sweep_list ::
  "(changeset \<Rightarrow> bool) \<Rightarrow> (changeset \<Rightarrow> 'w \<Rightarrow> int \<times> 'w) \<Rightarrow> changeset \<Rightarrow> changeset list \<Rightarrow> 'w \<Rightarrow> (int \<times> changeset \<times> 'w) option" where
  "sweep_list pass m_do fin [] w = Some (0, fin, w)"
| "sweep_list pass m_do fin (cs # css) w =
     (if pass cs
      then Option.bind (act_loop m_do cs w) (\<lambda>(ret, w').
             if ret \<noteq> 0 then Some (ret, cs, w') else sweep_list pass m_do fin css w')
      else sweep_list pass m_do fin css w)"

lemma combs_from: "j < ncomb its \<Longrightarrow> map (comb its) [j..<ncomb its] = comb its j # map (comb its) [j + 1..<ncomb its]"
  by (simp add: upt_conv_Cons)

lemma sweep_loop_list:
  assumes "list_all item_ok its" "names_ok as its" "j < ncomb its"
  shows "sweep_loop as m_do 0 (comb its j) w =
    map_option Inr (sweep_list (passing as) m_do (final_set its) (map (comb its) [j..<ncomb its]) w)"
  using assms(3)
proof (induction "ncomb its - j" arbitrary: j w)
  case (Suc d)
  note p = passes_spec [OF names_comb [OF assms(2) Suc.prems]]
  note it = iter_comb [OF assms(1) Suc.prems]
  have rest: "(case changeset_iter (comb its j) of Inl e \<Rightarrow> Some (Inl e)
      | Inr (again, cs') \<Rightarrow> if again then sweep_loop as m_do 0 cs' w' else Some (Inr (0, cs', w'))) =
    map_option Inr (sweep_list (passing as) m_do (final_set its) (map (comb its) [j + 1..<ncomb its]) w')" for w'
  proof (cases "j + 1 < ncomb its")
    case True
    then show ?thesis using Suc.hyps(1) [of "j + 1" w'] Suc.hyps(2) it by simp
  next
    case False
    then show ?thesis using it by simp
  qed
  show ?case
    unfolding combs_from [OF Suc.prems]
    by (subst sweep_loop.simps) (auto simp: p rest split: Option.bind_splits)
qed simp

text \<open>Every combination in order, with its values.\<close>

lemma sweep_combs:
  assumes "list_all item_ok its" "names_ok as its"
  shows "sweep as m_do (comb its 0) w = map_option Inr (sweep_list (passing as) m_do (final_set its) (combs its) w)"
  using sweep_loop_list [OF assms ncomb_pos] by (simp add: sweep_def combs_def)

lemma total_loop_list:
  assumes "list_all item_ok its" "names_ok as its" "j < ncomb its"
  shows "total_loop as rpt n (comb its j) =
    Some (Inr (n + rpt * int (length (filter (passing as) (map (comb its) [j..<ncomb its]))), final_set its))"
  using assms(3)
proof (induction "ncomb its - j" arbitrary: j n)
  case (Suc d)
  note p = passes_spec [OF names_comb [OF assms(2) Suc.prems]]
  note it = iter_comb [OF assms(1) Suc.prems]
  have IH: "total_loop as rpt n (comb its (j + 1)) = Some (Inr (n + rpt *
      int (length (filter (passing as) (map (comb its) [j + 1..<ncomb its]))), final_set its))" if "j + 1 < ncomb its" for n
    using Suc.hyps(1) [of "j + 1" n] Suc.hyps(2) that by simp
  show ?case
    unfolding combs_from [OF Suc.prems]
    by (subst total_loop.simps, cases "j + 1 < ncomb its") (simp_all add: p it IH [simplified] Let_def algebra_simps)
qed simp

lemma query_loop_list:
  assumes "list_all item_ok its" "names_ok as its" "j < ncomb its" "0 < rpt" "0 \<le> t"
    "t < rpt * int (length (filter (passing as) (map (comb its) [j..<ncomb its])))"
  shows "\<exists>t'. t' < 0 \<and> query_loop as rpt t (comb its j) =
    Some (Inr (t', filter (passing as) (map (comb its) [j..<ncomb its]) ! nat (t div rpt)))"
  using assms(3,5,6)
proof (induction "ncomb its - j" arbitrary: j t)
  case (Suc d)
  note p = passes_spec [OF names_comb [OF assms(2) Suc.prems(1)]]
  note it = iter_comb [OF assms(1) Suc.prems(1)]
  define ps where "ps = filter (passing as) (map (comb its) [j + 1..<ncomb its])"
  have all: "filter (passing as) (map (comb its) [j..<ncomb its]) = (if passing as (comb its j) then [comb its j] else []) @ ps"
    unfolding combs_from [OF Suc.prems(1)] by (simp add: ps_def)
  have go: "\<exists>t'. t' < 0 \<and> query_loop as rpt u (comb its (j + 1)) = Some (Inr (t', ps ! nat (u div rpt)))" and
    lt: "j + 1 < ncomb its" if "0 \<le> u" "u < rpt * int (length ps)" for u
  proof -
    have "ps \<noteq> []" using that by auto
    then show l: "j + 1 < ncomb its" by (rule contrapos_np) (simp add: ps_def)
    show "\<exists>t'. t' < 0 \<and> query_loop as rpt u (comb its (j + 1)) = Some (Inr (t', ps ! nat (u div rpt)))"
      using Suc.hyps(1) [of "j + 1" u] Suc.hyps(2) that l by (simp add: ps_def)
  qed
  show ?case
  proof (cases "passing as (comb its j) \<and> t < rpt")
    case True
    then have "t div rpt = 0" using Suc.prems(2) by simp
    then show ?thesis using True by (subst query_loop.simps) (simp add: p all Let_def)
  next
    case False
    define u where "u = (if passing as (comb its j) then t - rpt else t)"
    have u: "0 \<le> u" "u < rpt * int (length ps)"
      using False Suc.prems(2,3) by (simp_all add: u_def all algebra_simps split: if_splits)
    have "(t - rpt) div rpt = t div rpt - 1" using assms(4) div_add_self2 [of rpt "t - rpt"] by simp
    moreover have "1 \<le> t div rpt" if "rpt \<le> t" using zdiv_mono1 [OF that assms(4)] assms(4) by simp
    ultimately have idx: "((if passing as (comb its j) then [comb its j] else []) @ ps) ! nat (t div rpt) = ps ! nat (u div rpt)"
      using False by (auto simp: u_def nth_Cons' nat_diff_distrib)
    have "query_loop as rpt t (comb its j) = query_loop as rpt u (comb its (j + 1))"
      using u(1) lt [OF u] by (subst query_loop.simps) (simp add: p it u_def Let_def)
    then show ?thesis using go [OF u] idx by (simp add: all)
  qed
qed simp

section \<open>The receiver\<close>

lemma final_again:
  "combs (items (final_set its)) = combs its" "list_all item_ok (items (final_set its)) = list_all item_ok its"
  "names_ok as (items (final_set its)) = names_ok as its"
proof -
  have "map (\<lambda>it. it\<lparr>ci_current := 0\<rparr>) (items (final_set its)) = map (\<lambda>it. it\<lparr>ci_current := 0\<rparr>) its"
    by (cases its) (simp_all add: final_set_def at_def)
  from comb_again [OF this] show "combs (items (final_set its)) = combs its" by (simp add: combs_def)
  have "item_ok (at it k) = item_ok it" for it k by (simp add: item_ok_def at_def)
  then show "list_all item_ok (items (final_set its)) = list_all item_ok its"
    by (cases its) (simp_all add: final_set_def list_all_iff)
  show "names_ok as (items (final_set its)) = names_ok as its"
    by (cases its) (simp_all add: final_set_def names_ok_def list_all_iff)
qed

definition rx_ok :: "receiver \<Rightarrow> bool" where
  "rx_ok this = (list_all item_ok (items (rx_cs this)) \<and> names_ok (rx_as this) (items (rx_cs this)) \<and> 0 < rx_repeat this)"

definition rx_passing :: "receiver \<Rightarrow> changeset list" where
  "rx_passing this = filter (passing (rx_as this)) (combs (items (rx_cs this)))"

definition rx_total :: "receiver \<Rightarrow> nat" where
  "rx_total this = nat (rx_repeat this) * length (rx_passing this)"

abbreviation rewound :: "receiver \<Rightarrow> receiver" where
  "rewound this \<equiv> this\<lparr>rx_cs := final_set (items (rx_cs this))\<rparr>"

lemma rewound_same [simp]:
  "rx_ok (rewound this) = rx_ok this" "rx_passing (rewound this) = rx_passing this" "rx_total (rewound this) = rx_total this"
  by (simp_all add: rx_ok_def rx_passing_def rx_total_def final_again)

lemma expected_total:
  assumes "rx_ok this"
  shows "receiver_expected_total this = Some (Inr (int (rx_total this), rewound this))"
  using assms total_loop_list [OF _ _ ncomb_pos, of "items (rx_cs this)" "rx_as this" "rx_repeat this" 0]
  by (simp add: receiver_expected_total_def init_comb rx_ok_def rx_total_def rx_passing_def combs_def)

definition hit :: "u8 list \<Rightarrow> bool \<Rightarrow> nat \<Rightarrow> bool" where
  "hit sb ok i = (bit (sb ! (i div 8)) (i mod 8) = ok)"

definition hits :: "u8 list \<Rightarrow> bool \<Rightarrow> nat \<Rightarrow> nat list" where
  "hits sb ok n = filter (hit sb ok) [0..<n]"

lemma isset_spec: "i < 8 * length sb \<Longrightarrow> isset sb i = Inr (bit (sb ! (i div 8)) (i mod 8))"
  using bit_iff_and_push_bit_not_eq_0 [of "sb ! (i div 8)" "i mod 8"]
  by (simp add: isset_def less_mult_imp_div_less mult.commute)

lemma lookup_count:
  assumes "t < 0" "i + k \<le> 8 * length sb"
  shows "lookup_loop sb ok t k i n = Inr (n + int (length (filter (hit sb ok) [i..<i + k])))"
  using assms(2)
proof (induction k arbitrary: i n)
  case (Suc k)
  then have "[i..<i + Suc k] = i # [i + 1..<(i + 1) + k]" by (simp add: upt_conv_Cons)
  then show ?case using Suc assms(1) by (simp add: isset_spec hit_def Let_def)
qed simp

lemma lookup_index:
  assumes "0 \<le> n" "i + k \<le> 8 * length sb" "m < length (filter (hit sb ok) [i..<i + k])"
  shows "lookup_loop sb ok (n + int m) k i n = Inr (int (filter (hit sb ok) [i..<i + k] ! m))"
  using assms
proof (induction k arbitrary: i n m)
  case IH: (Suc k)
  have u: "[i..<i + Suc k] = i # [i + 1..<(i + 1) + k]" by (simp add: upt_conv_Cons)
  obtain x where b: "isset sb i = Inr x" "(x = ok) = hit sb ok i"
    using IH.prems(2) isset_spec [of i sb] by (auto simp: hit_def)
  have m: "m < length (filter (hit sb ok) (i # [i + 1..<(i + 1) + k]))" using IH.prems(3) unfolding u .
  show ?case
  proof (cases "hit sb ok i")
    case False
    then show ?thesis
      unfolding u using IH.IH [of n "i + 1" m] IH.prems(1,2) m b by (simp add: Let_def del: upt_Suc)
  next
    case True
    show ?thesis
    proof (cases m)
      case 0
      then show ?thesis unfolding u using True b IH.prems(1) by (simp add: Let_def del: upt_Suc)
    next
      case (Suc m')
      then show ?thesis
        unfolding u using IH.IH [of "n + 1" "i + 1" m'] IH.prems(1,2) m b True
        by (simp add: Let_def add.commute add.left_commute del: upt_Suc)
    qed
  qed
qed simp

lemma lookup_spec:
  assumes "rx_ok this" "scoreboard this = Some sb" "rx_total this \<le> 8 * length sb"
  shows "receiver_lookup this ok (-1) = Some (Inr (int (length (hits sb ok (rx_total this))), rewound this))"
    "m < length (hits sb ok (rx_total this)) \<Longrightarrow>
      receiver_lookup this ok (int m) = Some (Inr (int (hits sb ok (rx_total this) ! m), rewound this))"
  using assms expected_total [OF assms(1)] lookup_count [of "-1" 0 "rx_total this" sb ok 0]
    lookup_index [of 0 0 "rx_total this" sb m ok]
  by (simp_all add: receiver_lookup_def hits_def)

lemma query_spec:
  assumes "rx_ok this" "scoreboard this = Some sb" "rx_total this \<le> 8 * length sb"
  shows "receiver_query this ok idx = Some (Inr (
    if 0 \<le> idx \<and> idx < int (length (hits sb ok (rx_total this)))
    then Some (rx_passing this ! (hits sb ok (rx_total this) ! nat idx div nat (rx_repeat this))) else None))"
proof (cases "0 \<le> idx \<and> idx < int (length (hits sb ok (rx_total this)))")
  case False
  then show ?thesis using assms(2) lookup_spec(1) [OF assms] by (auto simp: receiver_query_def)
next
  case True
  define i where "i = hits sb ok (rx_total this) ! nat idx"
  define its where "its = items (rx_cs (rewound (rewound this)))"
  have idx: "nat idx < length (hits sb ok (rx_total this))" using True by linarith
  then have "i \<in> set (hits sb ok (rx_total this))" unfolding i_def by (rule nth_mem)
  then have i: "i < rx_total this" by (simp add: hits_def)
  have ok: "list_all item_ok its" "names_ok (rx_as this) its" "0 < rx_repeat this"
    using assms(1) by (simp_all add: rx_ok_def its_def final_again)
  have ps: "filter (passing (rx_as this)) (map (comb its) [0..<ncomb its]) = rx_passing this"
    by (simp add: rx_passing_def combs_def [symmetric] its_def final_again)
  have "int i < rx_repeat this * int (length (rx_passing this))"
    using i ok(3) unfolding rx_total_def by (simp flip: zless_nat_eq_int_zless of_nat_mult) (simp add: nat_mult_distrib)
  then obtain t where "t < 0" "query_loop (rx_as this) (rx_repeat this) (int i) (comb its 0) =
      Some (Inr (t, rx_passing this ! nat (int i div rx_repeat this)))"
    using query_loop_list [OF ok(1,2) ncomb_pos ok(3), of "int i"] ps by auto
  moreover have "nat (int i div rx_repeat this) = i div nat (rx_repeat this)"
    using ok(3) by (simp add: nat_div_distrib)
  moreover have "receiver_lookup (rewound this) ok idx = Some (Inr (int i, rewound (rewound this)))"
    using lookup_spec(2) [of "rewound this" sb "nat idx" ok] assms idx True by (simp add: i_def)
  ultimately show ?thesis
    using True assms(2) lookup_spec(1) [OF assms, of ok]
    by (simp add: receiver_query_def init_comb its_def i_def [symmetric])
qed

section \<open>Properties\<close>

text \<open>
  C38: A sweep runs through the product of the ranges.  Starting it puts every parameter at its start; the task then acts
  once, apart from repetitions on \<open>-EAGAIN\<close>, on each combination that no exclusion covers, the last parameter changing fastest,
  and stops at the first combination whose action fails, which stays in the set.  It returns whenever the actions do, and the
  transmitter is then not busy.
\<close>

theorem sweep_visits:
  assumes "list_all item_ok (items (tx_cs t))" "names_ok (Some (tx_as t)) (items (tx_cs t))"
  shows "sweep_task m_do (sweeper_sweep t) w =
      map_option (\<lambda>(ret, cs, w'). Inr (ret, t\<lparr>tx_cs := cs, sw_busy := False\<rparr>, w'))
        (sweep_list (passing (Some (tx_as t))) m_do (final_set (items (tx_cs t))) (combs (items (tx_cs t))) w)
    \<and> map (\<lambda>cs. map ci_current (items cs)) (combs (items (tx_cs t))) = product_lists (map item_vals (items (tx_cs t)))"
  using sweep_combs [OF assms, of m_do w] combs_values [of "items (tx_cs t)"]
  by (simp add: sweep_task_def sweeper_sweep_def init_comb option.map_comp comp_def case_prod_unfold)

text \<open>A channel from 1 to 3 and a rate from 10 down to 0 by 5, without channel 2; the action records the values.\<close>

definition ex_items :: "changeitem list" where
  "ex_items = [create_changeitem [0x63] 1 3 1, create_changeitem [0x72] 10 0 (-5)]"

definition ex_excl :: changeset where
  "ex_excl = \<lparr>items = [create_changeitem [0x63] 2 2 1], curidx = 0\<rparr>"

definition ex_tx :: transmitter where
  "ex_tx = \<lparr>tx_cs = \<lparr>items = ex_items, curidx = 0\<rparr>, tx_as = [ex_excl],
     tx_ta = \<lparr>ta_repeat = 1, ta_addr = [], ta_peer = [], ta_ciph = 0, ta_keyi = 0, ta_gtk = 0, ta_noack = 0,
       ta_stats = zero_stats, ta_checksum = False\<rparr>, sw_busy = False\<rparr>"

definition ex_do :: "changeset \<Rightarrow> int list list \<Rightarrow> int \<times> int list list" where
  "ex_do cs w = (0, w @ [map ci_current (items cs)])"

lemma create_sel [simp]:
  "ci_start (create_changeitem nm a b d) = a" "ci_end (create_changeitem nm a b d) = b"
  "ci_step (create_changeitem nm a b d) = d" "ci_current (create_changeitem nm a b d) = a"
  by (simp_all add: create_changeitem_def at_def)

lemma ex_items_ok: "list_all item_ok ex_items" "names_ok (Some [ex_excl]) ex_items"
  by (simp_all add: ex_items_def ex_excl_def names_ok_def create_name_ok item_ok_def in_int_def)

lemma ex_comb:
  assumes "j < 9"
  shows "items (comb ex_items j) =
    [at (create_changeitem [0x63] 1 3 1) (j div 3), at (create_changeitem [0x72] 10 0 (-5)) (j mod 3)]"
proof -
  have b: "bases ex_items = [3, 3]" by (simp add: ex_items_def item_count_def)
  have v: "vectors [3] = [[0], [1], [2]]" by (simp add: vectors_Cons upt_rec)
  have "j mod 3 \<in> {0, 1, 2}" by auto
  then have "vectors [3, 3] ! j = [j div 3, j mod 3]" using nth_vectors [of j 3 "[3]"] assms by (auto simp: v)
  then show ?thesis unfolding comb_def b by (simp add: ex_items_def)
qed

lemma ex_passing: "filter (passing (Some [ex_excl])) (combs ex_items) = map (comb ex_items) [0, 1, 2, 6, 7, 8]"
proof -
  have n: "ncomb ex_items = 9" by (simp add: ncomb_def ex_items_def item_count_def)
  have "passing (Some [ex_excl]) (comb ex_items j) \<longleftrightarrow> j div 3 \<noteq> 1" if "j < 9" for j
    using that by (simp add: ex_comb passing_def covers_def ex_excl_def create_name_ok) linarith
  then have "filter (passing (Some [ex_excl])) (combs ex_items) = map (comb ex_items) (filter (\<lambda>j. j div 3 \<noteq> 1) [0..<9])"
    unfolding combs_def n filter_map by (intro arg_cong [of _ _ "map _"] filter_cong) simp_all
  also have "filter (\<lambda>j. j div 3 \<noteq> (1 :: nat)) [0..<9] = [0, 1, 2, 6, 7, 8]" by (simp add: upt_rec)
  finally show ?thesis .
qed

lemma sweep_list_filter: "sweep_list pass m_do fin css w = sweep_list (\<lambda>_. True) m_do fin (filter pass css) w"
  by (induction css arbitrary: w) (auto split: Option.bind_splits)

theorem sweep_visits_witness:
  "\<exists>t. sweep_task ex_do (sweeper_sweep ex_tx) [] = Some (Inr (0, t, [[1, 10], [1, 5], [1, 0], [3, 10], [3, 5], [3, 0]]))"
proof -
  have act: "act_loop ex_do cs w = Some (0, w @ [map ci_current (items cs)])" for cs w
    by (subst act_loop.simps) (simp add: ex_do_def EAGAIN_def)
  have "sweep_list (passing (Some [ex_excl])) ex_do fin (combs ex_items) [] =
      Some (0, fin, [[1, 10], [1, 5], [1, 0], [3, 10], [3, 5], [3, 0]])" for fin
    by (subst sweep_list_filter) (simp add: ex_passing act ex_comb)
  then show ?thesis
    using sweep_visits [of ex_tx ex_do "[]"] ex_items_ok by (simp add: ex_tx_def)
qed

text \<open>
  C39: The receiver finds the combination behind a bit.  With a scoreboard that is large enough it counts exactly the bits of
  the packets it expects, the repetitions of the combinations that pass; and a query for the packet
  number \<open>idx\<close> among those received, or missed, gives the combination it was sent with, or nothing if there are not so many.
\<close>

theorem receiver_query_exact:
  assumes "rx_ok r" "scoreboard r = Some sb" "rx_total r \<le> 8 * length sb"
  shows "receiver_received r = Some (Inr (int (length (hits sb True (rx_total r))), rewound r))
    \<and> receiver_missed r = Some (Inr (int (length (hits sb False (rx_total r))), rewound r))
    \<and> receiver_query r ok idx = Some (Inr (
        if 0 \<le> idx \<and> idx < int (length (hits sb ok (rx_total r)))
        then Some (rx_passing r ! (hits sb ok (rx_total r) ! nat idx div nat (rx_repeat r))) else None))"
  using lookup_spec(1) [OF assms] query_spec [OF assms] assms(2) by (simp add: receiver_received_def receiver_missed_def)

text \<open>Two repetitions; the packets 0, 1 and 9 of 12 have arrived.\<close>

definition ex_rx :: receiver where
  "ex_rx = \<lparr>rx_cs = \<lparr>items = ex_items, curidx = 0\<rparr>, rx_as = Some [ex_excl], scoreboard = Some [3, 2], rx_repeat = 2,
     chksum_error = 0, rx_checksum = False\<rparr>"

theorem receiver_query_exact_witness:
  "receiver_received ex_rx = Some (Inr (3, rewound ex_rx)) \<and>
   (\<exists>cs. receiver_query ex_rx True 2 = Some (Inr (Some cs)) \<and> map ci_current (items cs) = [3, 5])"
proof -
  have ok: "rx_ok ex_rx" using ex_items_ok by (simp add: rx_ok_def ex_rx_def)
  have p: "rx_passing ex_rx = map (comb ex_items) [0, 1, 2, 6, 7, 8]" by (simp add: rx_passing_def ex_rx_def ex_passing)
  have t: "rx_total ex_rx = 12" by (simp add: rx_total_def p) (simp add: ex_rx_def)
  have h: "hits [3, 2] True 12 = [0, 1, 9]" by (simp add: hits_def hit_def upt_rec)
  have "map ci_current (items (comb ex_items 7)) = [3, 5]" by (simp add: ex_comb)
  then show ?thesis
    using receiver_query_exact [OF ok, of "[3, 2]" True 2] by (simp add: t h p) (simp add: ex_rx_def)
qed

text \<open>
  Starting the receiver gives it a scoreboard that is large enough, with no packet received.
\<close>

lemma receiver_start_ready:
  assumes "rx_ok (r\<lparr>rx_repeat := n\<rparr>)"
  shows "\<exists>r'. receiver_start True 0 r n = Some (Inr (0, r')) \<and> rx_ok r' \<and>
    (\<exists>sb. scoreboard r' = Some sb \<and> rx_total r' \<le> 8 * length sb \<and> hits sb True (rx_total r') = [])"
proof -
  define t where "t = rx_total (r\<lparr>rx_repeat := n\<rparr>)"
  define sb :: "u8 list" where "sb = replicate (nat ((int t + 7) div 8)) 0"
  define r' where "r' = (rewound (r\<lparr>rx_repeat := n\<rparr>))\<lparr>scoreboard := Some sb, chksum_error := 0\<rparr>"
  have len: "t \<le> 8 * length sb" by (simp add: sb_def)
  have "hits sb True t = []"
    using len by (simp add: hits_def hit_def filter_empty_conv sb_def less_mult_imp_div_less mult.commute)
  moreover have "rx_ok r'" "rx_total r' = t"
    using assms by (simp_all add: rx_ok_def rx_total_def rx_passing_def r'_def t_def final_again)
  moreover have "receiver_start True 0 r n = Some (Inr (0, r'))"
    using expected_total [OF assms] by (simp add: receiver_start_def r'_def sb_def t_def)
  moreover have "scoreboard r' = Some sb" by (simp add: r'_def)
  ultimately show ?thesis using len by auto
qed

text \<open>
  Stopping misjudges its time-out: a sweep that is still running after all ten waits counts as stopped and is cleaned up,
  and one that ends during the last wait counts as a failure.
\<close>

lemma transmitter_stop_timeout:
  assumes "\<And>k. k \<le> 10 \<Longrightarrow> busy k"
  shows "transmitter_stop busy = (if busy 11 then (0, True, True) else (-1, False, False))"
  using assms by (simp add: transmitter_stop_def eval_nat_numeral)

lemma empty_sweep_acts: "combs [] = [\<lparr>items = [], curidx = 0\<rparr>]"
  by (simp add: combs_def ncomb_def comb_def)

end
