(* ===== verification/Update_Agent.thy ===== *)
theory Update_Agent
  imports C_String
begin

text \<open>
  The update agent, \<^verbatim>\<open>lib/scm_mcuboot/update_agent/mcuboot_agent.c\<close>: it fetches an image over HTTP and writes it to the secondary
  slot.  The flash is a parameter on a world \<open>'w\<close>, and the network is the sequence of what \<^verbatim>\<open>recv\<close> returns, where the
  end of the list and an empty piece stand for a closed or failed connection.  Offsets and
  lengths are natural numbers: a slot is far below 4 GiB, and both callers of \<^verbatim>\<open>file_write\<close> pass a length that is not
  negative.  Opening the slot succeeds.
\<close>

section \<open>State\<close>

definition MAX_BUF_LEN :: nat where "MAX_BUF_LEN = 2048"
definition MAX_WRITE_BUF_LEN :: nat where "MAX_WRITE_BUF_LEN = 4096"
definition IMAGE_MAGIC :: u32 where "IMAGE_MAGIC = 0x96F3B83D"

record 'w flash_dev =
  flash_area_write :: "nat \<Rightarrow> u8 list \<Rightarrow> 'w \<Rightarrow> int \<times> 'w"
  hdr_magic :: "'w \<Rightarrow> u32"

record 'w agent =
  hbuf :: "u8 list"
  fbuf :: "u8 list"
  img_oft :: nat
  fbuf_idx :: nat
  world :: 'w

section \<open>Writing the slot\<close>

definition check_magic :: "'w flash_dev \<Rightarrow> 'w \<Rightarrow> int" where
  "check_magic dev w = (if hdr_magic dev w = IMAGE_MAGIC then 0 else -1)"

definition file_close :: "'w flash_dev \<Rightarrow> 'w agent \<Rightarrow> int \<times> 'w agent" where
  "file_close dev s =
     (if fbuf_idx s \<noteq> 0
      then if img_oft s = 0 \<and> check_magic dev (world s) \<noteq> 0 then (-1, s)
           else (let (ret, w) = flash_area_write dev (img_oft s) (take (fbuf_idx s) (fbuf s)) (world s)
                 in (ret, s\<lparr>world := w, img_oft := img_oft s + fbuf_idx s\<rparr>))
      else (0, s))"

definition file_write :: "'w flash_dev \<Rightarrow> u8 list \<Rightarrow> 'w agent \<Rightarrow> (int \<times> 'w agent) res" where
  "file_write dev buf s =
     (let len = length buf
      in if fbuf_idx s + len \<ge> MAX_WRITE_BUF_LEN
         then (let remain = fbuf_idx s + len - MAX_WRITE_BUF_LEN; copy_len = len - remain
               in res_bind (mem_copy (fbuf s) (fbuf_idx s) (take copy_len buf)) (\<lambda>fb.
                    (let (ret, w) = flash_area_write dev (img_oft s) (take MAX_WRITE_BUF_LEN fb) (world s);
                         s1 = s\<lparr>fbuf := fb, world := w\<rparr>
                     in if ret < 0 then Inr (-1, s1)
                        else if img_oft s = 0 \<and> check_magic dev w \<noteq> 0 then Inr (-1, s1)
                        else (let s2 = s1\<lparr>img_oft := img_oft s + MAX_WRITE_BUF_LEN, fbuf_idx := 0\<rparr>
                              in if remain \<noteq> 0
                                 then res_bind (mem_copy fb 0 (drop copy_len buf)) (\<lambda>fb'.
                                        Inr (ret, s2\<lparr>fbuf := fb', fbuf_idx := remain\<rparr>))
                                 else Inr (ret, s2)))))
         else res_bind (mem_copy (fbuf s) (fbuf_idx s) buf) (\<lambda>fb.
                Inr (0, s\<lparr>fbuf := fb, fbuf_idx := fbuf_idx s + len\<rparr>)))"

section \<open>The response\<close>

text \<open>\<^verbatim>\<open>HTTP\<close> and \<^verbatim>\<open>Content-Length:\<close>\<close>

definition http_str :: "u8 list" where "http_str = [0x48, 0x54, 0x54, 0x50]"

definition content_length_str :: "u8 list" where
  "content_length_str = [0x43, 0x6F, 0x6E, 0x74, 0x65, 0x6E, 0x74, 0x2D, 0x4C, 0x65, 0x6E, 0x67, 0x74, 0x68, 0x3A]"

definition header_end :: "u8 list \<Rightarrow> nat \<Rightarrow> nat option" where
  "header_end buf len =
     find (\<lambda>i. i \<ge> 4 \<and> buf ! i = 0x0A \<and> buf ! (i - 1) = 0x0D \<and> buf ! (i - 2) = 0x0A \<and> buf ! (i - 3) = 0x0D) [0..<len]"

text \<open>The result has the index of the last character of the header, if any, and the status.\<close>

definition http_process_header :: "u8 list \<Rightarrow> nat \<Rightarrow> (nat \<times> int) option res" where
  "http_process_header buf len =
     res_bind (strn_eq 4 buf (http_str @ [0x20, 0])) (\<lambda>eq.
       if \<not> eq then Inr None
       else res_bind (str_chr buf 0x20) (\<lambda>status_start. case status_start of
         None \<Rightarrow> Inl NullDeref
       | Some st \<Rightarrow> res_bind (str_chr (drop (st + 1) buf) 0x20) (\<lambda>status_end. case status_end of
           None \<Rightarrow> Inl BadAccess
         | Some n \<Rightarrow>
             if n + 1 \<ge> 8 then Inl BadAccess
             else res_bind (c_atoi (take (n + 1) (drop st buf) @ [0])) (\<lambda>status.
                    Inr (map_option (\<lambda>i. (i, status)) (header_end buf len))))))"

definition line_end :: "u8 list \<Rightarrow> nat \<Rightarrow> nat \<Rightarrow> nat" where
  "line_end buf len start =
     (case find (\<lambda>i. buf ! i = 0x0A \<and> buf ! (i - 1) = 0x0D) [start + 1..<len] of None \<Rightarrow> len | Some i \<Rightarrow> i)"

lemma line_end_after: "start < len \<Longrightarrow> start < line_end buf len start"
  by (auto simp: line_end_def find_Some_iff2 split: option.split dest!: find_Some_iff [THEN iffD1])

text \<open>The result has the position and the length of the value.  Every line is also copied to a buffer of 256 bytes.\<close>

function http_get_tag :: "u8 list \<Rightarrow> nat \<Rightarrow> u8 list \<Rightarrow> nat \<Rightarrow> (nat \<times> int) option res" where
  "http_get_tag buf len tag start =
     (if start \<ge> len then Inr None
      else res_bind (strn_eq (length tag) (drop start buf) (tag @ [0])) (\<lambda>match.
        (let i = line_end buf len start
         in if i - start = 2 then Inr None
            else if i - start - 1 \<ge> 256 then Inl BadAccess
            else if match then Inr (Some (start + length tag, int (i - start) - 1 - int (length tag)))
            else http_get_tag buf len tag (i + 1))))"
  by pat_completeness auto
termination
proof (relation "measure (\<lambda>(_, len, _, start). len - start)", simp)
  fix buf tag :: "u8 list" and len start x
  assume "\<not> len \<le> start" "x = line_end buf len start"
  then show "((buf, len, tag, x + 1), buf, len, tag, start) \<in> measure (\<lambda>(_, len, _, start). len - start)"
    using line_end_after [of start len buf] by auto
qed

declare http_get_tag.simps [simp del]

definition http_file_size :: "u8 list \<Rightarrow> nat \<Rightarrow> int res" where
  "http_file_size buf len =
     res_bind (http_get_tag buf len content_length_str 0) (\<lambda>r. case r of
       None \<Rightarrow> Inr (-1)
     | Some (pos, tag_len) \<Rightarrow>
         if tag_len < 0 \<or> tag_len \<ge> 16 then Inl BadAccess
         else c_atoi (take (nat tag_len) (drop pos buf) @ [0]))"

text \<open>The loop over the rest of the body; what \<^verbatim>\<open>file_write\<close> returns only ends it.\<close>

fun recv_loop :: "'w flash_dev \<Rightarrow> int \<Rightarrow> nat \<Rightarrow> u8 list list \<Rightarrow> 'w agent \<Rightarrow> 'w agent res" where
  "recv_loop dev file_size offset [] s = Inr s"
| "recv_loop dev file_size offset (piece # pieces) s =
     (if int offset \<ge> file_size \<or> piece = [] then Inr s
      else res_bind (mem_copy (hbuf s) 0 piece) (\<lambda>hb.
        res_bind (file_write dev piece (s\<lparr>hbuf := hb\<rparr>)) (\<lambda>(ret, s1).
          if ret \<noteq> 0 then Inr s1 else recv_loop dev file_size (offset + length piece) pieces s1)))"

definition http_recv_rsp :: "'w flash_dev \<Rightarrow> u8 list list \<Rightarrow> 'w agent \<Rightarrow> (int \<times> 'w agent) res" where
  "http_recv_rsp dev pieces s =
     (if pieces = [] \<or> hd pieces = [] then Inr (-1, s)
      else res_bind (mem_copy (hbuf s) 0 (hd pieces)) (\<lambda>hb.
        (let s1 = s\<lparr>hbuf := hb\<rparr>; len = length (hd pieces)
         in res_bind (http_process_header hb len) (\<lambda>hdr. case hdr of
              None \<Rightarrow> Inr (-1, s1)
            | Some (hdr_len, status) \<Rightarrow>
                if status \<noteq> 200 then Inr (-1, s1)
                else res_bind (http_file_size hb hdr_len) (\<lambda>file_size.
                  if file_size = 0 then Inr (-1, s1)
                  else if hdr_len > len then Inr (-1, s1)
                  else res_bind (file_write dev (drop (hdr_len + 1) (hd pieces)) s1) (\<lambda>(ret, s2).
                    if ret \<noteq> 0 then Inr (file_close dev s2)
                    else res_bind (recv_loop dev file_size (len - (hdr_len + 1)) (tl pieces) s2) (\<lambda>s3.
                      Inr (file_close dev s3))))))))"

section \<open>Fetching\<close>

text \<open>
  The two buffers are static pointers that are not cleared when they are freed.  A connection has the outcomes of creating
  the socket, the allocations, connecting and sending.  Memory that is allocated holds anything of its size.
\<close>

datatype buf_ptr = Null | Live | Freed

record connection =
  socket_ok :: bool
  hbuf_mem :: "u8 list option"
  fbuf_mem :: "u8 list option"
  connect_ret :: int
  send_ret :: int
  received :: "u8 list list"

definition free_buf :: "buf_ptr \<Rightarrow> buf_ptr res" where
  "free_buf p = (case p of Null \<Rightarrow> Inr Null | Live \<Rightarrow> Inr Freed | Freed \<Rightarrow> Inl Undefined)"

definition get_firmware ::
  "'w flash_dev \<Rightarrow> connection \<Rightarrow> buf_ptr \<times> buf_ptr \<Rightarrow> 'w agent \<Rightarrow> (int \<times> (buf_ptr \<times> buf_ptr) \<times> 'w agent) res" where
  "get_firmware dev con ptrs s =
     (let leave = (\<lambda>ret hp fp s'. res_bind (free_buf hp) (\<lambda>hp'. res_bind (free_buf fp) (\<lambda>fp'. Inr (ret, (hp', fp'), s'))))
      in if \<not> socket_ok con then Inr (-1, ptrs, s)
         else (case hbuf_mem con of
                 None \<Rightarrow> leave (-1) Null (snd ptrs) s
               | Some hb \<Rightarrow> (case fbuf_mem con of
                   None \<Rightarrow> leave (-1) Live Null s
                 | Some fb \<Rightarrow>
                     (let s1 = s\<lparr>hbuf := hb, fbuf := fb\<rparr>
                      in if connect_ret con \<noteq> 0 then leave (connect_ret con) Live Live s1
                         else if send_ret con < 0 then leave (send_ret con) Live Live s1
                         else res_bind (http_recv_rsp dev (received con) s1) (\<lambda>(ret, s2). leave ret Live Live s2)))))"

text \<open>The trailer of the slot is erased unless its magic is blank.\<close>

definition check_slot_trailer :: "u8 \<Rightarrow> u8 list \<Rightarrow> ('w \<Rightarrow> 'w) \<Rightarrow> 'w \<Rightarrow> 'w" where
  "check_slot_trailer erase_val magic erase w = (if list_ex (\<lambda>c. c \<noteq> erase_val) (take 16 magic) then erase w else w)"

text \<open>The address, the port and the path of a URL.\<close>

definition http_url :: "u8 list" where "http_url = [0x68, 0x74, 0x74, 0x70, 0x3A, 0x2F, 0x2F]"

definition parse_url :: "u8 list \<Rightarrow> (u8 list \<times> u16 \<times> u8 list) option res" where
  "parse_url url =
     res_bind (strn_eq 7 url (http_url @ [0])) (\<lambda>eq.
       if \<not> eq then Inr None
       else res_bind (str_chr (drop 7 url) 0x2F) (\<lambda>slash. case slash of
         None \<Rightarrow> Inr None
       | Some k \<Rightarrow>
           (let addr = take k (drop 7 url) @ [0]; path = cstr (drop (8 + k) url)
            in res_bind (str_chr addr 0x3A) (\<lambda>colon. case colon of
                 None \<Rightarrow> Inr (Some (cstr addr, 80, path))
               | Some c \<Rightarrow> res_bind (c_atoi (drop (c + 1) addr)) (\<lambda>port. Inr (Some (take c addr, word_of_int port, path)))))))"

text \<open>
  The command: \<open>trailer\<close> checks the trailer of the slot.  The result has whether the new image is marked for the next boot,
  after which the watchdog resets the system.
\<close>

definition do_mcuboot_agent ::
  "'w flash_dev \<Rightarrow> ('w \<Rightarrow> 'w) \<Rightarrow> (u8 list \<times> u16 \<times> u8 list \<Rightarrow> connection) \<Rightarrow> u8 list list \<Rightarrow> buf_ptr \<times> buf_ptr \<Rightarrow> 'w agent \<Rightarrow>
   (int \<times> bool \<times> (buf_ptr \<times> buf_ptr) \<times> 'w agent) res" where
  "do_mcuboot_agent dev trailer open_con argv ptrs s =
     (if length argv < 2 then Inr (-1, False, ptrs, s)
      else res_bind (parse_url (argv ! 1)) (\<lambda>r. case r of
        None \<Rightarrow> Inr (-1, False, ptrs, s)
      | Some url \<Rightarrow>
          res_bind (get_firmware dev (open_con url) ptrs (s\<lparr>img_oft := 0, fbuf_idx := 0, world := trailer (world s)\<rparr>))
            (\<lambda>(ret, ptrs', s'). if ret < 0 then Inr (1, False, ptrs', s') else Inr (0, True, ptrs', s'))))"

end
