(* ===== verification/Update_Agent_Props.thy ===== *)
theory Update_Agent_Props
  imports Update_Agent
begin

text \<open>
  What the update agent receives is what it writes: the buffering of the flash writes against the stream of bytes, the download of an
  image, and the cases in which an incomplete image is taken for a complete one.
\<close>

section \<open>The flash\<close>

text \<open>
  A flash that works: every write succeeds and stores its bytes, and the header is read from the start of the slot.
\<close>

definition le_word :: "u8 \<Rightarrow> u8 \<Rightarrow> u8 \<Rightarrow> u8 \<Rightarrow> u32" where
  "le_word a b c d = ucast a OR push_bit 8 (ucast b) OR push_bit 16 (ucast c) OR push_bit 24 (ucast d)"

definition flash_ok :: "'w flash_dev \<Rightarrow> ('w \<Rightarrow> nat \<Rightarrow> u8) \<Rightarrow> bool" where
  "flash_ok dev rd =
     ((\<forall>off bs w. fst (flash_area_write dev off bs w) = 0 \<and>
        rd (snd (flash_area_write dev off bs w)) =
          (\<lambda>a. if off \<le> a \<and> a < off + length bs then bs ! (a - off) else rd w a)) \<and>
      (\<forall>w. hdr_magic dev w = le_word (rd w 0) (rd w 1) (rd w 2) (rd w 3)))"

definition has_magic :: "u8 list \<Rightarrow> bool" where
  "has_magic bs = (le_word (bs ! 0) (bs ! 1) (bs ! 2) (bs ! 3) = IMAGE_MAGIC)"

section \<open>Buffered writing\<close>

text \<open>The bytes \<open>bs\<close> have been accepted: full blocks are in the slot, the rest is in the buffer.\<close>

definition streamed :: "('w \<Rightarrow> nat \<Rightarrow> u8) \<Rightarrow> 'w agent \<Rightarrow> u8 list \<Rightarrow> bool" where
  "streamed rd s bs =
     (length (fbuf s) = 4096 \<and> length (hbuf s) = 2048 \<and> fbuf_idx s < 4096 \<and> img_oft s + fbuf_idx s = length bs \<and>
      4096 dvd img_oft s \<and> (\<forall>a < img_oft s. rd (world s) a = bs ! a) \<and> take (fbuf_idx s) (fbuf s) = drop (img_oft s) bs)"

lemma mem_copy_ok: "pos + length bs \<le> length obj \<Longrightarrow> mem_copy obj pos bs = Inr (take pos obj @ bs @ drop (pos + length bs) obj)"
  by (simp add: mem_copy_def)

lemma streamedD:
  assumes "streamed rd s bs"
  shows "length (fbuf s) = 4096" "length (hbuf s) = 2048" "fbuf_idx s < 4096" "img_oft s + fbuf_idx s = length bs"
    "4096 dvd img_oft s" "\<And>a. a < img_oft s \<Longrightarrow> rd (world s) a = bs ! a" "take (fbuf_idx s) (fbuf s) = drop (img_oft s) bs"
  using assms by (simp_all add: streamed_def)

text \<open>The block that is completed by new bytes, and what is left of them.\<close>

lemma next_block:
  assumes "streamed rd s bs" "4096 \<le> fbuf_idx s + length buf"
  defines "n \<equiv> 4096 - fbuf_idx s"
  shows "mem_copy (fbuf s) (fbuf_idx s) (take n buf) = Inr (take 4096 (drop (img_oft s) (bs @ buf)))"
    "length (take 4096 (drop (img_oft s) (bs @ buf))) = 4096" "drop (img_oft s + 4096) (bs @ buf) = drop n buf"
    "length buf - (fbuf_idx s + length buf - 4096) = n" "length (drop n buf) = fbuf_idx s + length buf - 4096"
proof -
  note st = streamedD [OF assms(1)]
  have "length (drop (img_oft s) bs) = fbuf_idx s" "4096 - length (drop (img_oft s) bs) = n"
    using st(4) by (simp_all add: n_def)
  then have "take 4096 (drop (img_oft s) (bs @ buf)) = take (fbuf_idx s) (fbuf s) @ take n buf"
    using st(3,4,7) by (simp del: length_drop)
  then show "mem_copy (fbuf s) (fbuf_idx s) (take n buf) = Inr (take 4096 (drop (img_oft s) (bs @ buf)))"
    "length (take 4096 (drop (img_oft s) (bs @ buf))) = 4096"
    using st(1,3) assms(2) by (simp_all add: mem_copy_def n_def)
  have "img_oft s + 4096 - length bs = n" "length bs \<le> img_oft s + 4096" using st(3,4) by (simp_all add: n_def)
  then show "drop (img_oft s + 4096) (bs @ buf) = drop n buf" by simp
qed (use assms(2) streamedD(3) [OF assms(1)] in \<open>simp_all add: n_def\<close>)

lemma flash_write_cells:
  assumes "flash_ok dev rd" "\<And>a. a < off \<Longrightarrow> rd w0 a = bs ! a" "off \<le> length bs" "m = length (take m (drop off bs))"
  obtains w where "flash_area_write dev off (take m (drop off bs)) w0 = (0, w)" "\<And>a. a < off + m \<Longrightarrow> rd w a = bs ! a"
proof
  define w where "w = snd (flash_area_write dev off (take m (drop off bs)) w0)"
  show "flash_area_write dev off (take m (drop off bs)) w0 = (0, w)"
    using assms(1) by (simp add: flash_ok_def w_def prod_eq_iff)
  have "rd w = (\<lambda>a. if off \<le> a \<and> a < off + m then take m (drop off bs) ! (a - off) else rd w0 a)"
    using assms(1) unfolding flash_ok_def w_def by (subst (2) assms(4)) blast
  then show "rd w a = bs ! a" if "a < off + m" for a using that assms(2,3) by (auto simp: not_le)
qed

lemma magic_checked:
  assumes "flash_ok dev rd" "\<And>a. a < 4 \<Longrightarrow> rd w a = bs ! a" "has_magic bs"
  shows "check_magic dev w = 0"
  using assms by (simp add: check_magic_def flash_ok_def has_magic_def)

lemma file_write_stream:
  assumes "flash_ok dev rd" "streamed rd s bs" "length buf \<le> 4096"
    and "4096 \<le> length (bs @ buf) \<Longrightarrow> has_magic (bs @ buf)"
  shows "\<exists>s'. file_write dev buf s = Inr (0, s') \<and> streamed rd s' (bs @ buf)"
proof (cases "fbuf_idx s + length buf \<ge> 4096")
  case False
  then show ?thesis
    using assms(2)
    by (auto simp: file_write_def MAX_WRITE_BUF_LEN_def streamed_def mem_copy_ok Let_def nth_append)
next
  case True
  note st = streamedD [OF assms(2)] and nb = next_block [OF assms(2) True]
  define rest where "rest = drop (4096 - fbuf_idx s) buf"
  define fb where "fb = take 4096 (drop (img_oft s) (bs @ buf))"
  have fb: "length fb = 4096" using nb(2) by (simp only: fb_def)
  obtain w where w: "flash_area_write dev (img_oft s) fb (world s) = (0, w)" "\<And>a. a < img_oft s + 4096 \<Longrightarrow> rd w a = (bs @ buf) ! a"
  proof (rule flash_write_cells [OF assms(1), of "img_oft s" "world s" "bs @ buf" 4096])
    show "rd (world s) a = (bs @ buf) ! a" if "a < img_oft s" for a using that st(4,6) by (simp add: nth_append)
    show "img_oft s \<le> length (bs @ buf)" using st(4) by simp
  qed (use nb(2) in \<open>simp_all only: fb_def\<close>)
  have magic: "check_magic dev w = 0" if "img_oft s = 0"
    using magic_checked [OF assms(1), of w "bs @ buf"] w(2) assms(4) True st(4) by simp
  define s2 where "s2 = s\<lparr>fbuf := rest @ drop (length rest) fb, world := w, img_oft := img_oft s + 4096, fbuf_idx := length rest\<rparr>"
  have rest: "mem_copy fb 0 rest = Inr (rest @ drop (length rest) fb)" "length rest = fbuf_idx s + length buf - 4096"
      "length rest < 4096"
    using fb nb(5) assms(3) st(3) by (simp_all add: mem_copy_def rest_def)
  have copy: "mem_copy (fbuf s) (fbuf_idx s) (take (length buf - (fbuf_idx s + length buf - 4096)) buf) = Inr fb"
      "drop (length buf - (fbuf_idx s + length buf - 4096)) buf = rest"
    using nb(1) unfolding nb(4) fb_def rest_def by simp_all
  have "file_write dev buf s = Inr (0, s2)"
    using True w(1) fb magic rest(1,2) unfolding file_write_def MAX_WRITE_BUF_LEN_def Let_def copy s2_def
    by (cases "rest = []") auto
  moreover have "streamed rd s2 (bs @ buf)"
    using st(2,4,5) rest fb w(2) nb(3) True by (simp add: streamed_def s2_def rest_def [symmetric])
  ultimately show ?thesis by blast
qed

section \<open>A download\<close>

text \<open>The pieces that are taken until the announced size is reached or the connection ends.\<close>

fun taken :: "int \<Rightarrow> nat \<Rightarrow> u8 list list \<Rightarrow> u8 list" where
  "taken fsz off [] = []"
| "taken fsz off (p # ps) = (if int off \<ge> fsz \<or> p = [] then [] else p @ taken fsz (off + length p) ps)"

lemma has_magic_append: "4 \<le> length bs \<Longrightarrow> has_magic (bs @ cs) = has_magic bs"
  by (cases bs) (auto simp: has_magic_def nth_append)

lemma streamed_hbuf: "length hb = 2048 \<Longrightarrow> streamed rd s bs \<Longrightarrow> streamed rd (s\<lparr>hbuf := hb\<rparr>) bs"
  by (simp add: streamed_def)

lemma recv_loop_stream:
  assumes "flash_ok dev rd" "streamed rd s bs" "list_all (\<lambda>p. length p \<le> 2048) ps"
    and "has_magic (bs @ taken fsz off ps)"
  shows "\<exists>s'. recv_loop dev fsz off ps s = Inr s' \<and> streamed rd s' (bs @ taken fsz off ps)"
  using assms(2-)
proof (induction ps arbitrary: off s bs)
  case (Cons p ps)
  show ?case
  proof (cases "int off \<ge> fsz \<or> p = []")
    case False
    define hb where "hb = p @ drop (length p) (hbuf s)"
    have hb: "mem_copy (hbuf s) 0 p = Inr hb" "length hb = 2048"
      using Cons.prems(1,2) by (simp_all add: mem_copy_def hb_def streamed_def)
    have "has_magic (bs @ p)" if "4096 \<le> length (bs @ p)"
      using Cons.prems(3) False that has_magic_append [of "bs @ p" "taken fsz (off + length p) ps"] by simp
    then obtain s1 where s1: "file_write dev p (s\<lparr>hbuf := hb\<rparr>) = Inr (0, s1)" "streamed rd s1 (bs @ p)"
      using file_write_stream [OF assms(1) streamed_hbuf [OF hb(2) Cons.prems(1)], of p] Cons.prems(2) by auto
    then show ?thesis
      using Cons.IH [OF s1(2), of "off + length p"] Cons.prems(2,3) False hb(1) by simp
  qed (use Cons.prems in auto)
qed auto

lemma file_close_stream:
  assumes "flash_ok dev rd" "streamed rd s bs" "4096 \<le> length bs"
  shows "\<exists>s'. file_close dev s = (0, s') \<and> img_oft s' = length bs \<and> (\<forall>a < length bs. rd (world s') a = bs ! a)"
proof -
  note st = streamedD [OF assms(2)]
  show ?thesis
  proof (cases "fbuf_idx s = 0")
    case True
    then show ?thesis using st(4,6) by (simp add: file_close_def)
  next
    case False
    have all: "take (fbuf_idx s) (drop (img_oft s) bs) = drop (img_oft s) bs" using st(4) by simp
    obtain w where w: "flash_area_write dev (img_oft s) (take (fbuf_idx s) (fbuf s)) (world s) = (0, w)"
        "\<And>a. a < length bs \<Longrightarrow> rd w a = bs ! a"
    proof (rule flash_write_cells [OF assms(1), of "img_oft s" "world s" bs "fbuf_idx s"])
      show "rd (world s) a = bs ! a" if "a < img_oft s" for a using that by (rule st(6))
      show "img_oft s \<le> length bs" "fbuf_idx s = length (take (fbuf_idx s) (drop (img_oft s) bs))" using st(4) by simp_all
    qed (simp add: st(4,7) all)
    have "img_oft s \<noteq> 0" using st(3,4) assms(3) by linarith
    then show ?thesis using False w st(4) by (simp add: file_close_def)
  qed
qed

lemma header_inside: "http_process_header buf len = Inr (Some (h, status)) \<Longrightarrow> h < len"
  by (auto simp: http_process_header_def header_end_def res_bind_Inr_iff find_Some_iff split: if_splits option.splits)

section \<open>Properties\<close>

text \<open>
  C40: The slot holds what was received.  If the first piece has a complete header with status 200 and a size other than zero, then the body
  that arrives before the size is reached or the connection ends is written to the slot byte for byte from its start, for every
  division into pieces, and the download is reported as successful, provided that it has at least 4096 bytes and starts with the magic.
\<close>

theorem firmware_stored:
  assumes "flash_ok dev rd" "img_oft s = 0" "fbuf_idx s = 0" "length (fbuf s) = 4096" "length (hbuf s) = 2048"
    and "p \<noteq> []" "list_all (\<lambda>q. length q \<le> 2048) (p # ps)"
    and "http_process_header (p @ drop (length p) (hbuf s)) (length p) = Inr (Some (h, 200))"
    and "http_file_size (p @ drop (length p) (hbuf s)) h = Inr fsz" "fsz \<noteq> 0"
    and "body = drop (h + 1) p @ taken fsz (length p - (h + 1)) ps" "4096 \<le> length body" "has_magic body"
  shows "\<exists>s'. http_recv_rsp dev (p # ps) s = Inr (0, s') \<and> img_oft s' = length body \<and>
    (\<forall>a < length body. rd (world s') a = body ! a)"
proof -
  define hb where "hb = p @ drop (length p) (hbuf s)"
  have hb: "mem_copy (hbuf s) 0 p = Inr hb" "length hb = 2048" using assms(5,7) by (simp_all add: mem_copy_def hb_def)
  have h: "h < length p" using header_inside [OF assms(8)] .
  have s0: "streamed rd (s\<lparr>hbuf := hb\<rparr>) []" using assms(2-4) hb(2) by (simp add: streamed_def)
  have first: "length (drop (h + 1) p) \<le> 2048" using assms(7) by auto
  then obtain s1 where s1: "file_write dev (drop (h + 1) p) (s\<lparr>hbuf := hb\<rparr>) = Inr (0, s1)" "streamed rd s1 (drop (h + 1) p)"
    using file_write_stream [OF assms(1) s0, of "drop (h + 1) p"] by auto
  obtain s2 where s2: "recv_loop dev fsz (length p - (h + 1)) ps s1 = Inr s2" "streamed rd s2 body"
    using recv_loop_stream [OF assms(1) s1(2), of ps fsz "length p - (h + 1)"] assms(7,11,13) by auto
  obtain s' where "file_close dev s2 = (0, s')" "img_oft s' = length body" "\<forall>a < length body. rd (world s') a = body ! a"
    using file_close_stream [OF assms(1) s2(2) assms(12)] by blast
  then show ?thesis
    using assms(6,8-10) hb h s1(1) s2(1) by (simp add: http_recv_rsp_def hb_def [symmetric])
qed

text \<open>\<^verbatim>\<open>HTTP/1.1 200 OK\<close> with a length of 9000; then two pieces of 2048 bytes with the magic in front, and the connection ends.\<close>

definition ex_header :: "u8 list" where
  "ex_header = [0x48, 0x54, 0x54, 0x50, 0x2F, 0x31, 0x2E, 0x31, 0x20, 0x32, 0x30, 0x30, 0x20, 0x4F, 0x4B, 0x0D, 0x0A] @
     content_length_str @ [0x20, 0x39, 0x30, 0x30, 0x30, 0x0D, 0x0A, 0x0D, 0x0A]"

definition ex_pieces :: "u8 list list" where
  "ex_pieces = [[0x3D, 0xB8, 0xF3, 0x96] @ replicate 2044 0x61, replicate 2048 0x62]"

definition ex_dev :: "(nat \<Rightarrow> u8) flash_dev" where
  "ex_dev = \<lparr>flash_area_write = (\<lambda>off bs w. (0, \<lambda>a. if off \<le> a \<and> a < off + length bs then bs ! (a - off) else w a)),
     hdr_magic = (\<lambda>w. le_word (w 0) (w 1) (w 2) (w 3))\<rparr>"

definition ex_agent :: "(nat \<Rightarrow> u8) agent" where
  "ex_agent = \<lparr>hbuf = replicate 2048 0, fbuf = replicate 4096 0, img_oft = 0, fbuf_idx = 0, world = (\<lambda>_. 0xFF)\<rparr>"

lemma ex_status:
  "strn_eq 4 (ex_header @ x) (http_str @ [0x20, 0]) = Inr True" "str_chr (ex_header @ x) 0x20 = Inr (Some 8)"
  "str_chr (drop (8 + 1) (ex_header @ x)) 0x20 = Inr (Some 3)" "c_atoi (take (3 + 1) (drop 8 (ex_header @ x)) @ [0]) = Inr 200"
  by (simp_all add: ex_header_def http_str_def c_atoi_def is_space_def dec_value_def)

lemma ex_lines:
  "line_end (ex_header @ x) 40 0 = 16" "line_end (ex_header @ x) 40 17 = 38"
  "strn_eq 15 (ex_header @ x) (content_length_str @ [0]) = Inr False"
  "strn_eq 15 (drop 17 (ex_header @ x)) (content_length_str @ [0]) = Inr True"
  "c_atoi (take 5 (drop 32 (ex_header @ x)) @ [0]) = Inr 9000"
  by (simp_all add: line_end_def ex_header_def content_length_str_def upt_rec c_atoi_def is_space_def dec_value_def)

lemma ex_header_parsed:
  "http_process_header (ex_header @ x) 41 = Inr (Some (40, 200))" "http_file_size (ex_header @ x) 40 = Inr 9000"
proof -
  have e: "header_end (ex_header @ x) 41 = Some 40"
    by (simp add: header_end_def ex_header_def content_length_str_def upt_rec)
  show "http_process_header (ex_header @ x) 41 = Inr (Some (40, 200))"
    unfolding http_process_header_def e ex_status(1) by (simp only: res_bind_simps ex_status option.case) (simp add: ex_status)
  have t: "length content_length_str = 15" by (simp add: content_length_str_def)
  have "http_get_tag (ex_header @ x) 40 content_length_str 17 = Inr (Some (32, 5))"
    by (subst http_get_tag.simps) (simp add: t ex_lines Let_def del: drop_append)
  then have "http_get_tag (ex_header @ x) 40 content_length_str 0 = Inr (Some (32, 5))"
    by (subst http_get_tag.simps) (simp add: t ex_lines Let_def del: drop_append)
  then show "http_file_size (ex_header @ x) 40 = Inr 9000"
    by (simp add: http_file_size_def ex_lines del: drop_append take_append)
qed

text \<open>Here the connection ends after 4096 of the 9000 bytes, and the download still counts as successful.\<close>

theorem firmware_stored_witness:
  "\<exists>s'. http_recv_rsp ex_dev (ex_header # ex_pieces) ex_agent = Inr (0, s') \<and> img_oft s' = 4096 \<and>
     world s' 0 = 0x3D \<and> world s' 4095 = 0x62"
proof -
  have f: "flash_ok ex_dev (\<lambda>w. w)" by (simp add: flash_ok_def ex_dev_def)
  have l: "length ex_header = 41" by (simp add: ex_header_def content_length_str_def)
  have b: "taken 9000 0 ex_pieces = concat ex_pieces" by (simp add: ex_pieces_def)
  have m: "has_magic (concat ex_pieces)" by (simp add: has_magic_def ex_pieces_def le_word_def IMAGE_MAGIC_def)
  have n: "length (concat ex_pieces) = 4096" "concat ex_pieces ! 0 = 0x3D" "concat ex_pieces ! 4095 = 0x62"
    by (simp_all add: ex_pieces_def nth_append)
  have "\<exists>s'. http_recv_rsp ex_dev (ex_header # ex_pieces) ex_agent = Inr (0, s') \<and>
      img_oft s' = length (concat ex_pieces) \<and> (\<forall>a < length (concat ex_pieces). world s' a = concat ex_pieces ! a)"
    by (rule firmware_stored [OF f, where h = 40 and fsz = 9000])
      (simp_all add: l b m n(1) ex_header_parsed, simp_all add: ex_agent_def ex_pieces_def ex_header_def)
  then show ?thesis unfolding n(1) using n(2,3) by fastforce
qed

text \<open>
  Without a length the size is -1, which is not refused: only the body of the first piece is taken.
\<close>

lemma no_length_taken: "http_get_tag buf len content_length_str 0 = Inr None \<Longrightarrow>
    http_file_size buf len = Inr (-1) \<and> taken (-1) off ps = []"
  by (cases ps) (simp_all add: http_file_size_def)

text \<open>
  An image of less than 4096 bytes is judged by the header that the slot had before, not by its own.
\<close>

lemma small_image_judged_by_old:
  assumes "img_oft s = 0" "0 < fbuf_idx s" "hdr_magic dev (world s) \<noteq> IMAGE_MAGIC"
  shows "file_close dev s = (-1, s)"
  using assms by (simp add: file_close_def check_magic_def)

text \<open>A second fetch for which the first buffer cannot be allocated frees the second buffer again.\<close>

lemma second_fetch_double_free:
  assumes "socket_ok con" "hbuf_mem con = None"
  shows "get_firmware dev con (Freed, Freed) s = Inl Undefined"
  using assms by (simp add: get_firmware_def free_buf_def)

lemma fetch_leaves_freed:
  assumes "get_firmware dev con ptrs s = Inr (ret, ptrs', s')" "socket_ok con" "hbuf_mem con = Some hb" "fbuf_mem con = Some fb"
  shows "ptrs' = (Freed, Freed)"
  using assms by (auto simp: get_firmware_def free_buf_def res_bind_Inr_iff Let_def split: if_splits)

end
