(* ===== verification/Spec2Isabelle.thy ===== *)
theory Spec2Isabelle
  imports Heap5_Safety Mem_Slab_Safety Vfs_Open Vqueue_Props Task_Wdt_Props Xyz_Transfer
    Cli_Props Cli_Readline_Props Device Channel Sdio_Fifo_Props Hex_Dump Wall_Clock
    Tiny_Printf_Output String_Ext Sweep_Props Update_Agent_Props
begin

text \<open>
  A verification library for the WISE SDK, the firmware kit of the Senscomm SCM1612S.

  \<^bold>\<open>The program.\<close>  The SDK runs on a FreeRTOS kernel with a hardware abstraction layer, a
  virtual file system, a command line, an over-the-air updater and an API layer.  The
  library models parts whose logic is in the sources, as sequential code or as interleaved steps, in the
  configuration of \<^verbatim>\<open>configs/scm1612s_ayla_defconfig\<close> and \<^verbatim>\<open>configs/scm1612s_matter_defconfig\<close>; the
  X/Y-modem receiver, the SDIO FIFO and the Wi-Fi repeater belong to other configurations of the same tree.
  How the parts interact: the heap serves every allocation; slabs and descriptor queues are
  built on RTOS message queues; the descriptor queues are files of the virtual file system; the
  command line, the watchdog, the log task and the event loop run as tasks; the device table is filled at boot; the
  host channel sends events to the event loop and tells the repeater whether the host is there; kernel messages go through
  the formatter into the log.

  \<^bold>\<open>Common vocabulary.\<close>
  \<^item> \<^theory_text>\<open>Wise_Prelude\<close>: machine integers, the result type \<^typ>\<open>'a res\<close> (a failed assertion, an
    endless loop, an access out of bounds, a null call and undefined behaviour are values), error numbers, facts on 32-bit words.
  \<^item> \<^theory_text>\<open>Allocator\<close>: the contract of a memory allocator and what its clients may rely on.
  \<^item> \<^theory_text>\<open>C_String\<close>: the string functions of the C library on lists of readable bytes.

  \<^bold>\<open>Components.\<close>
  \<^item> Heap (C1 to C6): \<^theory_text>\<open>Heap5\<close> is \<^verbatim>\<open>kernel/FreeRTOS-ext/heap_5_ext.c\<close> and \<^verbatim>\<open>heap_init\<close> of
    \<^verbatim>\<open>hal/soc/scm2010/soc.c\<close>.  Block headers live in a store indexed by address; every
    pointer loop is a partial function, so that not returning is a result.
    \<^theory_text>\<open>Heap5_List\<close> abstracts chains of headers to lists and proves the insertion code
    against the list function \<^const>\<open>fl_insert\<close>; \<^theory_text>\<open>Heap5_Pool\<close> has the invariant of one free
    list; \<^theory_text>\<open>Heap5_Inv\<close> that of the two pools with the live blocks; \<^theory_text>\<open>Heap5_Ops\<close> the
    allocation and freeing functions; \<^theory_text>\<open>Heap5_Init\<close> the definition of the regions;
    \<^theory_text>\<open>Heap5_Safety\<close> the interpretation of the allocator contract and the properties.
  \<^item> Console (C7 to C10): \<^theory_text>\<open>Kprintf\<close> is the formatter \<^verbatim>\<open>kvprintf\<close> of \<^verbatim>\<open>kernel/console.c\<close> with \<^verbatim>\<open>snprintk\<close>, one
    definition for each group of cases of its switch.  \<^theory_text>\<open>Kprintf_Types\<close> computes the types a format asks for and shows that
    well-typed calls return; \<^theory_text>\<open>Kprintf_Number\<close> reads printed numbers back, and \<^theory_text>\<open>Kprintf_Directive\<close> does so from the written directive and the
    argument of C on; \<^theory_text>\<open>Kprintf_Output\<close> shows that every receiver
    gets the same characters and that \<^verbatim>\<open>snprintk\<close> stores a prefix of them.  \<^theory_text>\<open>Printk\<close> is the log ring, \<^verbatim>\<open>printk\<close> and
    \<^verbatim>\<open>console_flush\<close>, refined to the list of what was logged; \<^theory_text>\<open>Hex_Dump\<close> the dumps, which stay inside their buffer.
    Lemmas have the format that is read past its end and the wrap of the ring that loses characters.
  \<^item> Small printf and strings (C11 to C14): \<^theory_text>\<open>Tiny_Printf\<close> is the formatter of \<^verbatim>\<open>lib/stdlib-ext/stdio-ext.c\<close> with the functions built on
    it; \<^theory_text>\<open>Tiny_Printf_Props\<close> reads its numbers back; \<^theory_text>\<open>Tiny_Printf_Output\<close> has the interface of the file that takes the
    characters, the memory file as an instance, and the exact contents of memory afterwards.  \<^theory_text>\<open>String_Ext\<close> is
    \<^verbatim>\<open>lib/stdlib-ext/string-ext.c\<close>, with the search as the first occurrence.
  \<^item> Memory slabs (C15 to C19): \<^theory_text>\<open>Mem_Slab\<close> is \<^verbatim>\<open>kernel/mem_slab.c\<close>; \<^theory_text>\<open>Mem_Slab_Inv\<close> has the
    invariant, \<^theory_text>\<open>Mem_Slab_Safety\<close> its preservation under interleaved tasks, the exact results on every branch, the endless
    initialisation and, over all interleavings, the lost wake-up that the code allows.
  \<^item> Virtual file system (C20, C21): \<^theory_text>\<open>Vfs\<close>, \<^theory_text>\<open>Vfs_Fd\<close> and \<^theory_text>\<open>Vfs_Open\<close> have the descriptor table, opening and
    closing with their error paths and the round trip of the two; lemmas have the table bound that breaks and the reference
    count that does not balance.
  \<^item> Descriptor queues (C22, C23): \<^theory_text>\<open>Vqueue\<close> and \<^theory_text>\<open>Vqueue_Props\<close> are \<^verbatim>\<open>kernel/vqueue.c\<close>; any sequence of
    puts and gets is one on a queue sorted by priority, first-in first-out within a priority.
  \<^item> Task watchdog (C24, C25): \<^theory_text>\<open>Task_Wdt\<close> is \<^verbatim>\<open>api/wise/wise_task_wdt.c\<close>; \<^theory_text>\<open>Task_Wdt_Props\<close>
    refines a specification on sets and shows that a stuck task stops the system, and whom the report names; a lemma has the range of
    time-outs.
  \<^item> CRC and X/Y-modem (C26 to C28): \<^theory_text>\<open>Crc16\<close> proves \<^verbatim>\<open>lib/serial/crc16.c\<close> equal to its table variant;
    \<^theory_text>\<open>Xyz_Modem\<close> is \<^verbatim>\<open>lib/serial/xyzModem.c\<close>; \<^theory_text>\<open>Xyz_Modem_Props\<close> has the packet check, \<^theory_text>\<open>Xyz_Transfer\<close> a whole transfer from a
    correct sender, and lemmas on senders that are not.
  \<^item> Command line (C29 to C31): \<^theory_text>\<open>Cli\<close> and \<^theory_text>\<open>Cli_Readline\<close> are \<^verbatim>\<open>lib/cli/cli.c\<close>; \<^theory_text>\<open>Cli_Props\<close> refines a tokenizer
    on lists, \<^theory_text>\<open>Cli_History\<close> the last seven commands, \<^theory_text>\<open>Cli_Readline_Props\<close> an editor on lists; lemmas
    have the backslash that doubles a character and the overruns of the argument array, of completion and of a recalled command.
  \<^item> Device table (C32, C33): \<^theory_text>\<open>Device\<close> is \<^verbatim>\<open>hal/drivers/core/device.c\<close>, with binding as one pass over the table
    and the exact order of suspend and resume calls.
  \<^item> Event loop (C34): \<^theory_text>\<open>Event_Loop\<close> is \<^verbatim>\<open>api/wise/event_loop.c\<close> with \<^verbatim>\<open>event_default_handlers.c\<close>; it
    refines a bounded list of events.
  \<^item> Wi-Fi repeater (C35, C36): \<^theory_text>\<open>Repeater\<close> is \<^verbatim>\<open>lib/repeater/wifi_repeater.c\<close> in the build for IPv4; \<^theory_text>\<open>Repeater_Props\<close> decodes a frame and
    shows that it goes where the first matching rule says, and that the table of rules is a list.  Lemmas have the restart
    that leaves the interface attached and the rule that matches a port it does not select.
  \<^item> Host channel (lemmas): \<^theory_text>\<open>Channel\<close> is \<^verbatim>\<open>api/wise/wise_channel.c\<close>: which messages reach the callback, the lengths
    and unterminated messages that the check lets through, and that the carrier it reports decides where the repeater
    sends frames.
  \<^item> Time of day (lemmas): \<^theory_text>\<open>Wall_Clock\<close> is \<^verbatim>\<open>kernel/time.c\<close>; a clock that was set keeps time.
  \<^item> SDIO FIFO (C37): \<^theory_text>\<open>Sdio_Fifo\<close> is \<^verbatim>\<open>lib/sdio/sdio-fifo.c\<close> and the calls from \<^verbatim>\<open>sdioif.c\<close>;
    \<^theory_text>\<open>Sdio_Fifo_Props\<close> refines a queue of packets; a lemma has the full FIFO that looks empty.
  \<^item> Radio test sweeps (C38, C39): \<^theory_text>\<open>Sweep\<close> has the parameters, sets, exclusions, the sweeper, the transmitter and the receiver of
    \<^verbatim>\<open>lib/cli\<close>; \<^theory_text>\<open>Sweep_Props\<close> shows that a sweep is the product of the ranges without what is excluded, and that the receiver finds
    the combination of a packet.
  \<^item> Update agent (C40): \<^theory_text>\<open>Update_Agent\<close> is \<^verbatim>\<open>lib/scm_mcuboot/update_agent/mcuboot_agent.c\<close>; \<^theory_text>\<open>Update_Agent_Props\<close> shows that the slot holds
    what was received; lemmas have the responses and images that are judged wrongly and the buffers freed twice.

  \<^bold>\<open>Parameters.\<close>  RTOS message queues and threads, driver functions, command handlers, user callbacks,
  the console input, the receiver of formatted characters, arithmetic on floating-point numbers, the input routines of the
  network code, the action of a sweep, sockets, the flash, the hardware timer and the linker's symbols are arguments.  What a theorem needs of them is a hypothesis,
  and its witness gives an instance.

  \<^bold>\<open>Bounds and termination.\<close>  No property rests on fuel: loops are structural or have a measure (remaining
  input, remaining table), and the pointer loops of heap and slabs and the loops of a sweep are partial functions whose results
  are proved to exist or, in C38, to be those of the list of combinations.
  Sizes such as 32 arguments, 16 events or a linear size of 1700 are those of the sources.

  \<^bold>\<open>Limits of the models.\<close>  In the trace of C33 the answer of a driver depends on the device only.  In C34 the callback does not call
  into the event loop.  In C7 to C10 field widths and character counts are mathematical integers, so that these properties speak of
  calls in which no \<^verbatim>\<open>int\<close> overflows; \<^verbatim>\<open>char\<close> is unsigned and \<^verbatim>\<open>long\<close> has 32 bits, as on the target.  C10 is about a log task that is not interrupted in a
  round.  C8 and C11 leave out the smallest 64-bit number, whose negation is undefined, and the arguments for which the code is known to
  print another value: a negative one of \<^verbatim>\<open>%hhd\<close> and a large unsigned one with the size \<^verbatim>\<open>t\<close> in C8, a signed one outside the range of a short size in C11.
  C29 is about lines without backslashes and C31 about inputs without tabs and histories that fit into the buffer.  In C23 the message queue sorts by
  priority, as its interface documents.  C12 and C13 are about texts of less than 2 GiB that the formatter completes; the precision of a directive, whose value nothing uses, is
  skipped.  C37 needs the host to send only when there is room; the lemma \<open>sdio_full_looks_empty\<close> shows what happens otherwise.
  Totals of the receiver and offsets in the slot are mathematical integers, and the flash of C40 has room for the image.
  The consumer of the FIFO takes one packet at a time, so that \<^verbatim>\<open>sdio_fifo_array_linearize\<close> is defined but in no property.

  \<^bold>\<open>Not modelled.\<close>  Register-level drivers and start-up code, because the sources do not specify the hardware; the
  prebuilt kernel, ROM and network code; vendored libraries (lwIP, mbed TLS, hostap, NimBLE, TinyUSB, cJSON, the protocol
  libraries, the Ayla agents); output of commands and logs; \<^verbatim>\<open>select\<close> and \<^verbatim>\<open>poll\<close>, which call the ROM.  Logic in the
  sources that has no model: parsing of floating-point numbers (\<^verbatim>\<open>strtod-ext.c\<close>), which needs the rounding of \<^verbatim>\<open>double\<close>, the
  IPv6 table of the repeater, which repeats the IPv4 table with longer addresses, and the functions of the sweeps that free
  memory or print.
\<close>

end
